(* ===== verification/Prelude.thy ===== *)
theory Prelude
  imports Main "HOL-Library.Word" "HOL-Library.List_Lexorder" "HOL-Library.Char_ord"
begin

text \<open>
  Shared ground of the development.

  \<^item> Go's integers: \<open>int64\<close> values are \<open>int\<close> with the wrap-around \<open>i64\<close> written at
    each operation that can overflow; \<open>uint\<close> and \<open>uint64\<close> values are 64-bit words.
  \<^item> Go's errors: the sentinel values of the packages, the errors of the driver, and
    \<open>fmt.Errorf("...: %w", err)\<close>, with \<open>errors.Is\<close>.
  \<^item> A function that may change state and returns \<open>(value, error)\<close> is a state transformer
    of type \<open>gom\<close>; \<open>bindG\<close> is the idiom \<open>if err != nil { return err }\<close>.
  \<^item> Inversion lemmas for these combinators, in the collection \<open>gom\<close>.
\<close>

named_theorems gom \<open>inversion and reduction of the error-state combinators\<close>

section \<open>Integers\<close>

type_synonym int64 = int
type_synonym uint = "64 word"

definition max_i64 :: int where "max_i64 = 2 ^ 63 - 1"

definition min_i64 :: int where "min_i64 = - (2 ^ 63)"

definition i64 :: "int \<Rightarrow> int64" where
  "i64 x = (x + 2 ^ 63) mod 2 ^ 64 - 2 ^ 63"

definition in_i64 :: "int \<Rightarrow> bool" where
  "in_i64 x \<longleftrightarrow> min_i64 \<le> x \<and> x \<le> max_i64"

lemma i64_id: "in_i64 x \<Longrightarrow> i64 x = x"
  by (simp add: i64_def in_i64_def min_i64_def max_i64_def)

lemma i64_nonneg_id: "0 \<le> x \<Longrightarrow> x \<le> max_i64 \<Longrightarrow> i64 x = x"
  by (rule i64_id) (simp add: in_i64_def min_i64_def max_i64_def)

lemma in_i64_i64: "in_i64 (i64 x)"
proof -
  have "(x + 2 ^ 63) mod 2 ^ 64 < (2 ^ 64 :: int)" "0 \<le> (x + 2 ^ 63) mod (2 ^ 64 :: int)"
    by simp_all
  then show ?thesis unfolding in_i64_def i64_def min_i64_def max_i64_def by simp
qed

lemma div_less_iff_mult_int:
  fixes b d u :: int
  assumes "0 < b"
  shows "d div b < u \<longleftrightarrow> d < u * b"
proof
  assume "d div b < u"
  then have "(d div b + 1) * b \<le> u * b" using assms by (intro mult_right_mono) auto
  moreover have "d < (d div b + 1) * b"
    using pos_mod_bound [OF assms, of d] div_mult_mod_eq [of d b] unfolding distrib_right by linarith
  ultimately show "d < u * b" by linarith
next
  assume "d < u * b"
  then have "d div b * b < u * b" using assms div_mult_mod_eq [of d b] pos_mod_sign [OF assms, of d] by linarith
  with assms show "d div b < u" by simp
qed

section \<open>Errors\<close>

text \<open>
  The sentinel errors of the packages, \<open>gorm.ErrRecordNotFound\<close>, PostgreSQL's errors with
  their SQLSTATE code and constraint, any other failure of a driver, an anonymous
  \<open>errors.New\<close>, and an error wrapped with \<open>%w\<close>.
\<close>

datatype goerr =
    ErrPermissionDenied
  | ErrInvalidOrderState
  | ErrInvalidOrderQuantity
  | ErrInvalidOrderAmount
  | ErrOrderNotFound
  | ErrIdempotencyConflict
  | ErrIdempotencyDuplicate
  | ErrInventoryNotFound
  | ErrInsufficientStock
  | ErrInvalidAmount
  | ErrCartNotFound
  | ErrRefreshTokenRevoked
  | ErrAlreadyProcessed
  | ErrInvalidPayload
  | ErrRecordNotFound
  | ErrRedisNil
  | PgError string string
  | DriverErr string
  | ErrNew string
  | Wrapf string goerr

fun errors_Is :: "goerr \<Rightarrow> goerr \<Rightarrow> bool" where
  "errors_Is (Wrapf m e) t = (Wrapf m e = t \<or> errors_Is e t)"
| "errors_Is e t = (e = t)"

fun errors_As_PgError :: "goerr \<Rightarrow> (string \<times> string) option" where
  "errors_As_PgError (PgError code constraint) = Some (code, constraint)"
| "errors_As_PgError (Wrapf m e) = errors_As_PgError e"
| "errors_As_PgError e = None"

lemma errors_Is_refl [simp]: "errors_Is e e"
  by (cases e) simp_all

section \<open>State and errors\<close>

type_synonym ('s, 'a) gom = "'s \<Rightarrow> (goerr + 'a) \<times> 's"

definition retG :: "'a \<Rightarrow> ('s, 'a) gom" where
  "retG x s = (Inr x, s)"

definition throwG :: "goerr \<Rightarrow> ('s, 'a) gom" where
  "throwG e s = (Inl e, s)"

definition bindG :: "('s, 'a) gom \<Rightarrow> ('a \<Rightarrow> ('s, 'b) gom) \<Rightarrow> ('s, 'b) gom" where
  "bindG m f s = (case m s of (Inl e, t) \<Rightarrow> (Inl e, t) | (Inr x, t) \<Rightarrow> f x t)"

text \<open>A call whose error the caller inspects instead of returning it.\<close>

definition tryG :: "('s, 'a) gom \<Rightarrow> (goerr + 'a \<Rightarrow> ('s, 'b) gom) \<Rightarrow> ('s, 'b) gom" where
  "tryG m f s = (case m s of (r, t) \<Rightarrow> f r t)"

definition liftG :: "goerr + 'a \<Rightarrow> ('s, 'a) gom" where
  "liftG r s = (r, s)"

definition checkG :: "goerr option \<Rightarrow> ('s, unit) gom" where
  "checkG r s = (case r of None \<Rightarrow> Inr () | Some e \<Rightarrow> Inl e, s)"

text \<open>A loop over a slice that returns at the first error.\<close>

fun forG :: "'a list \<Rightarrow> ('a \<Rightarrow> ('s, unit) gom) \<Rightarrow> ('s, unit) gom" where
  "forG [] f = retG ()"
| "forG (x # xs) f = bindG (f x) (\<lambda>_. forG xs f)"

lemma retG_iff [gom]: "retG x s = (r, t) \<longleftrightarrow> r = Inr x \<and> t = s"
  by (auto simp: retG_def)

lemma throwG_iff [gom]: "throwG e s = (r, t) \<longleftrightarrow> r = Inl e \<and> t = s"
  by (auto simp: throwG_def)

lemma liftG_iff [gom]: "liftG x s = (r, t) \<longleftrightarrow> x = r \<and> t = s"
  by (auto simp: liftG_def)

lemma checkG_Inr_iff [gom]: "checkG c s = (Inr u, t) \<longleftrightarrow> c = None \<and> t = s"
  by (auto simp: checkG_def split: option.splits)

lemma checkG_Inl_iff [gom]: "checkG c s = (Inl e, t) \<longleftrightarrow> c = Some e \<and> t = s"
  by (auto simp: checkG_def split: option.splits)

lemma bindG_Inr_iff [gom]:
  "bindG m f s = (Inr y, t) \<longleftrightarrow> (\<exists>x u. m s = (Inr x, u) \<and> f x u = (Inr y, t))"
  by (auto simp: bindG_def split: prod.splits sum.splits)

lemma bindG_Inl_iff [gom]:
  "bindG m f s = (Inl e, t) \<longleftrightarrow>
     m s = (Inl e, t) \<or> (\<exists>x u. m s = (Inr x, u) \<and> f x u = (Inl e, t))"
  by (auto simp: bindG_def split: prod.splits sum.splits)

lemma tryG_iff [gom]: "tryG m f s = (r, t) \<longleftrightarrow> (\<exists>x u. m s = (x, u) \<and> f x u = (r, t))"
  by (auto simp: tryG_def split: prod.splits)

lemma bindG_assoc: "bindG (bindG m f) g = bindG m (\<lambda>x. bindG (f x) g)"
  by (rule ext) (simp add: bindG_def split: prod.splits sum.splits)

lemma retG_bindG [simp]: "bindG (retG x) f = f x"
  by (rule ext) (simp add: bindG_def retG_def)

text \<open>
  A property of the state that every call keeps, whether it returns a value or an error:
  the frame rule of the combinators.
\<close>

definition keepsG :: "('s \<Rightarrow> 's \<Rightarrow> bool) \<Rightarrow> ('s, 'a) gom \<Rightarrow> bool" where
  "keepsG R m \<longleftrightarrow> (\<forall>s. R s (snd (m s)))"

lemma keepsGD: "keepsG R m \<Longrightarrow> m s = (r, t) \<Longrightarrow> R s t"
  by (metis keepsG_def snd_conv)

lemma keepsGI: "(\<And>s r t. m s = (r, t) \<Longrightarrow> R s t) \<Longrightarrow> keepsG R m"
  by (metis keepsG_def prod.collapse)

lemma keepsG_pure [intro, simp]:
  assumes "reflp R"
  shows "keepsG R (retG x)" "keepsG R (throwG e)" "keepsG R (liftG r)" "keepsG R (checkG c)"
  using assms by (simp_all add: keepsG_def retG_def throwG_def liftG_def checkG_def reflpD)

lemma keepsG_bind:
  assumes "transp R" "keepsG R m" "\<And>x. keepsG R (f x)"
  shows "keepsG R (bindG m f)"
proof (rule keepsGI)
  fix s r t assume run: "bindG m f s = (r, t)"
  obtain x u where m: "m s = (x, u)" by fastforce
  then have "R s u" using assms(2) by (rule keepsGD[rotated])
  with run m assms(1,3) show "R s t"
    by (cases x) (auto simp: bindG_def dest: keepsGD transpD)
qed

lemma keepsG_try:
  assumes "transp R" "keepsG R m" "\<And>x. keepsG R (f x)"
  shows "keepsG R (tryG m f)"
proof (rule keepsGI)
  fix s r t assume "tryG m f s = (r, t)"
  then obtain x u where "m s = (x, u)" "f x u = (r, t)" by (auto simp: gom)
  with assms show "R s t" by (meson keepsGD transpD)
qed

lemma keepsG_for:
  assumes "reflp R" "transp R" "\<And>x. x \<in> set xs \<Longrightarrow> keepsG R (f x)"
  shows "keepsG R (forG xs f)"
  using assms(3) by (induction xs) (auto intro!: keepsG_bind assms(1,2))

section \<open>Strings\<close>

text \<open>\<open>%d\<close> of \<open>fmt\<close>, by the decimal digits.\<close>

definition digit :: "nat \<Rightarrow> char" where
  "digit n = char_of (48 + n mod 10)"

fun show_nat :: "nat \<Rightarrow> string" where
  "show_nat n = (if n < 10 then [digit n] else show_nat (n div 10) @ [digit n])"

declare show_nat.simps [simp del]

definition show_int :: "int \<Rightarrow> string" where
  "show_int i = (if i < 0 then ''-'' @ show_nat (nat (- i)) else show_nat (nat i))"

text \<open>\<open>strings.TrimSpace\<close> on ASCII text.\<close>

definition is_space :: "char \<Rightarrow> bool" where
  "is_space c \<longleftrightarrow> c \<in> {CHR 0x09, CHR 0x0A, CHR 0x0B, CHR 0x0C, CHR 0x0D, CHR '' ''}"

definition TrimSpace :: "string \<Rightarrow> string" where
  "TrimSpace s = rev (dropWhile is_space (rev (dropWhile is_space s)))"

definition has_prefix :: "string \<Rightarrow> string \<Rightarrow> bool" where
  "has_prefix p s \<longleftrightarrow> take (length p) s = p"

lemma has_prefix_append [simp]: "has_prefix p (p @ s)"
  by (simp add: has_prefix_def)

section \<open>Lists\<close>

lemma sum_list_filter_partition:
  "(\<Sum>x\<leftarrow>xs. f x :: int) = (\<Sum>x\<leftarrow>filter p xs. f x) + (\<Sum>x\<leftarrow>filter (\<lambda>x. \<not> p x) xs. f x)"
  by (induction xs) auto

lemma notin_imageI: "(\<And>x. x \<in> A \<Longrightarrow> f x \<noteq> y) \<Longrightarrow> y \<notin> f ` A"
  by blast

lemma find_append: "find p (xs @ ys) = (case find p xs of None \<Rightarrow> find p ys | Some x \<Rightarrow> Some x)"
  by (induction xs) auto

lemma find_Some_iff_mem: "find p xs = Some x \<Longrightarrow> x \<in> set xs \<and> p x"
  by (induction xs) (auto split: if_splits)

lemma find_None_iff_all: "find p xs = None \<longleftrightarrow> (\<forall>x \<in> set xs. \<not> p x)"
  by (induction xs) auto

lemma distinct_key_unique:
  "distinct (map k xs) \<Longrightarrow> x \<in> set xs \<Longrightarrow> y \<in> set xs \<Longrightarrow> k x = k y \<Longrightarrow> x = y"
  by (induction xs) (auto simp: image_iff)

lemma find_distinct_key:
  assumes "distinct (map k xs)" "x \<in> set xs"
  shows "find (\<lambda>y. k y = k x) xs = Some x"
proof -
  from assms(2) obtain y where y: "find (\<lambda>y. k y = k x) xs = Some y"
    using find_None_iff_all [of "\<lambda>y. k y = k x" xs] by (cases "find (\<lambda>y. k y = k x) xs") auto
  then have "y \<in> set xs" "k y = k x" by (auto dest: find_Some_iff_mem)
  then have "y = x" using distinct_key_unique [OF assms(1)] assms(2) by blast
  with y show ?thesis by simp
qed

end
