(* ===== verification/Float64.thy ===== *)
theory Float64
  imports Prelude "HOL-Library.Log_Nat"
begin

text \<open>
  Go's \<open>float64\<close>: IEEE 754 binary64 with round to nearest, ties to even, on exact
  rationals. The two zeros are identified: nothing in the repository distinguishes them.
  \<open>round64\<close> is the one rounding step; every operation rounds the exact result once. The
  lemmas bound the rounding error, give the range without overflow, and say which values
  are exact.
\<close>

datatype float64 = NaN | Infty bool | Fin rat

section \<open>Rounding\<close>

definition floorlog2 :: "rat \<Rightarrow> int" where
  "floorlog2 a = (if 1 \<le> a then bitlen \<lfloor>a\<rfloor> - 1 else - bitlen (\<lceil>1 / a\<rceil> - 1))"

definition ulp_exp :: "rat \<Rightarrow> int" where
  "ulp_exp a = max (- 1074) (floorlog2 a - 52)"

definition round_even :: "rat \<Rightarrow> int" where
  "round_even q =
     (let f = \<lfloor>q\<rfloor>; r = q - of_int f
      in if r < 1 / 2 then f else if 1 / 2 < r then f + 1 else if even f then f else f + 1)"

definition round_abs :: "rat \<Rightarrow> rat" where
  "round_abs a = of_int (round_even (a / 2 powi ulp_exp a)) * 2 powi ulp_exp a"

definition round64 :: "rat \<Rightarrow> float64" where
  "round64 q =
     (if q = 0 then Fin 0
      else if 2 ^ 1024 \<le> round_abs \<bar>q\<bar> then Infty (q < 0)
      else Fin (if q < 0 then - round_abs \<bar>q\<bar> else round_abs \<bar>q\<bar>))"

section \<open>Operations\<close>

definition float_of_int64 :: "int64 \<Rightarrow> float64" where
  "float_of_int64 n = round64 (of_int n)"

text \<open>The conversion truncates; out of range the amd64 instruction yields the least integer.\<close>

definition int64_of_float :: "float64 \<Rightarrow> int64" where
  "int64_of_float x =
     (case x of
        Fin q \<Rightarrow> (let t = (if 0 \<le> q then \<lfloor>q\<rfloor> else \<lceil>q\<rceil>) in if in_i64 t then t else min_i64)
      | _ \<Rightarrow> min_i64)"

fun flt :: "float64 \<Rightarrow> float64 \<Rightarrow> bool" where
  "flt NaN y = False"
| "flt x NaN = False"
| "flt (Infty s) (Infty t) = (s \<and> \<not> t)"
| "flt (Infty s) (Fin b) = s"
| "flt (Fin a) (Infty t) = (\<not> t)"
| "flt (Fin a) (Fin b) = (a < b)"

definition fge :: "float64 \<Rightarrow> float64 \<Rightarrow> bool" where
  "fge x y \<longleftrightarrow> flt y x \<or> (x = y \<and> x \<noteq> NaN)"

definition fsgn :: "float64 \<Rightarrow> bool" where
  "fsgn x = (case x of Infty s \<Rightarrow> s | Fin q \<Rightarrow> q < 0 | NaN \<Rightarrow> False)"

fun fmul :: "float64 \<Rightarrow> float64 \<Rightarrow> float64" where
  "fmul (Fin a) (Fin b) = round64 (a * b)"
| "fmul (Infty s) (Infty t) = Infty (s \<noteq> t)"
| "fmul (Infty s) (Fin b) = (if b = 0 then NaN else Infty (s \<noteq> (b < 0)))"
| "fmul (Fin a) (Infty t) = (if a = 0 then NaN else Infty (t \<noteq> (a < 0)))"
| "fmul _ _ = NaN"

fun fdiv :: "float64 \<Rightarrow> float64 \<Rightarrow> float64" where
  "fdiv (Fin a) (Fin b) =
     (if b = 0 then (if a = 0 then NaN else Infty (a < 0)) else round64 (a / b))"
| "fdiv (Infty s) (Fin b) = Infty (s \<noteq> (b < 0))"
| "fdiv (Fin a) (Infty t) = Fin 0"
| "fdiv _ _ = NaN"

fun fsub :: "float64 \<Rightarrow> float64 \<Rightarrow> float64" where
  "fsub (Fin a) (Fin b) = round64 (a - b)"
| "fsub (Infty s) (Infty t) = (if s = t then NaN else Infty s)"
| "fsub (Infty s) (Fin b) = Infty s"
| "fsub (Fin a) (Infty t) = Infty (\<not> t)"
| "fsub _ _ = NaN"

fun fadd :: "float64 \<Rightarrow> float64 \<Rightarrow> float64" where
  "fadd (Fin a) (Fin b) = round64 (a + b)"
| "fadd (Infty s) (Infty t) = (if s = t then Infty s else NaN)"
| "fadd (Infty s) (Fin b) = Infty s"
| "fadd (Fin a) (Infty t) = Infty t"
| "fadd _ _ = NaN"

fun math_Abs :: "float64 \<Rightarrow> float64" where
  "math_Abs (Fin q) = Fin \<bar>q\<bar>"
| "math_Abs (Infty s) = Infty False"
| "math_Abs NaN = NaN"

text \<open>\<open>math.Round\<close> rounds half away from zero, \<open>math.Ceil\<close> up; both are exact.\<close>

definition round_away :: "rat \<Rightarrow> int" where
  "round_away q = (if 0 \<le> q then \<lfloor>q + 1 / 2\<rfloor> else - \<lfloor>- q + 1 / 2\<rfloor>)"

fun math_Round :: "float64 \<Rightarrow> float64" where
  "math_Round (Fin q) = Fin (of_int (round_away q))"
| "math_Round x = x"

fun math_Ceil :: "float64 \<Rightarrow> float64" where
  "math_Ceil (Fin q) = Fin (of_int \<lceil>q\<rceil>)"
| "math_Ceil x = x"

fun math_Trunc :: "float64 \<Rightarrow> float64" where
  "math_Trunc (Fin q) = Fin (of_int (if 0 \<le> q then \<lfloor>q\<rfloor> else \<lceil>q\<rceil>))"
| "math_Trunc x = x"

definition math_IsNaN :: "float64 \<Rightarrow> bool" where
  "math_IsNaN x \<longleftrightarrow> x = NaN"

definition math_IsInf :: "float64 \<Rightarrow> bool" where
  "math_IsInf x \<longleftrightarrow> (\<exists>s \<in> {True, False}. x = Infty s)"

section \<open>Magnitude\<close>

lemma power2_le_of_int: "2 ^ k \<le> n \<Longrightarrow> (2::rat) ^ k \<le> of_int n"
  using of_int_le_iff [of "2 ^ k" n, where 'a = rat] by simp

lemma of_int_less_power2: "n < 2 ^ k \<Longrightarrow> of_int n + 1 \<le> (2::rat) ^ k"
  using of_int_le_iff [of "n + 1" "2 ^ k", where 'a = rat] by simp

lemma floorlog2_bounds:
  assumes "0 < a"
  shows "2 powi floorlog2 a \<le> a \<and> a < 2 powi (floorlog2 a + 1)"
proof (cases "1 \<le> a")
  case True
  define n where "n = \<lfloor>a\<rfloor>"
  have n: "0 < n" "of_int n \<le> a" "a < of_int n + 1" using True floor_correct [of a] by (auto simp: n_def)
  define k where "k = nat (bitlen n - 1)"
  have L: "bitlen n = int k + 1" using n(1) by (simp add: k_def bitlen_def floorlog_def)
  have "2 ^ k \<le> n" "n < 2 ^ (k + 1)" using bitlen_bounds [OF n(1)] by (simp_all add: L nat_add_distrib)
  then have "(2::rat) ^ k \<le> of_int n" "of_int n + 1 \<le> (2::rat) ^ (k + 1)"
    by (simp_all only: power2_le_of_int of_int_less_power2)
  then have "(2::rat) ^ k \<le> a" "a < 2 ^ (k + 1)" using n by linarith+
  moreover have "floorlog2 a = int k" using True L by (simp add: floorlog2_def n_def)
  moreover have "(2::rat) powi (int k + 1) = 2 ^ (k + 1)"
    by (metis of_nat_1 of_nat_add power_int_of_nat)
  ultimately show ?thesis by (simp add: power_int_of_nat)
next
  case False
  define m where "m = \<lceil>1 / a\<rceil> - 1"
  have "1 < 1 / a" using assms False by simp
  then have m: "0 < m" "of_int m < 1 / a" "1 / a \<le> of_int m + 1"
    unfolding m_def by (auto simp: less_ceiling_iff) linarith+
  define k where "k = nat (bitlen m - 1)"
  have L: "bitlen m = int k + 1" using m(1) by (simp add: k_def bitlen_def floorlog_def)
  have "2 ^ k \<le> m" "m < 2 ^ (k + 1)" using bitlen_bounds [OF m(1)] by (simp_all add: L nat_add_distrib)
  then have "(2::rat) ^ k \<le> of_int m" "of_int m + 1 \<le> (2::rat) ^ (k + 1)"
    by (simp_all only: power2_le_of_int of_int_less_power2)
  then have "(2::rat) ^ k < 1 / a" "1 / a \<le> (2::rat) ^ (k + 1)" using m by linarith+
  then have "a < 1 / 2 ^ k" "1 / 2 ^ (k + 1) \<le> a"
    using assms by (simp_all add: field_simps)
  moreover have "floorlog2 a = - int (k + 1)" using False L by (simp add: floorlog2_def m_def)
  moreover have "(2::rat) powi (- int (k + 1)) = 1 / 2 ^ (k + 1)"
    "(2::rat) powi (- int (k + 1) + 1) = 1 / 2 ^ k"
    by (simp_all add: power_int_minus power_int_of_nat inverse_eq_divide del: of_nat_Suc of_nat_add)
       (simp add: power_int_minus power_int_of_nat inverse_eq_divide)
  ultimately show ?thesis by simp
qed

section \<open>Rounding error\<close>

lemma round_even_floor: "round_even q = \<lfloor>q\<rfloor> \<or> round_even q = \<lfloor>q\<rfloor> + 1"
  by (simp add: round_even_def Let_def)

lemma round_even_dist: "\<bar>of_int (round_even q) - q\<bar> \<le> 1 / 2"
proof -
  have fl: "of_int \<lfloor>q\<rfloor> \<le> q" "q < of_int \<lfloor>q\<rfloor> + 1" using floor_correct [of q] by simp_all
  consider "q - of_int \<lfloor>q\<rfloor> \<le> 1 / 2" "round_even q = \<lfloor>q\<rfloor>"
    | "1 / 2 \<le> q - of_int \<lfloor>q\<rfloor>" "round_even q = \<lfloor>q\<rfloor> + 1"
    by (cases "q - of_int \<lfloor>q\<rfloor> < 1 / 2"; cases "1 / 2 < q - of_int \<lfloor>q\<rfloor>"; cases "even \<lfloor>q\<rfloor>")
       (auto simp: round_even_def Let_def)
  then show ?thesis using fl by cases (simp_all add: abs_le_iff)
qed

lemma round_even_of_int [simp]: "round_even (of_int n) = n"
  by (simp add: round_even_def)

lemma round_even_mono_int: "q \<le> of_int n \<Longrightarrow> round_even q \<le> n" "of_int n \<le> q \<Longrightarrow> n \<le> round_even q"
proof -
  show "round_even q \<le> n" if "q \<le> of_int n"
  proof (cases "q = of_int n")
    case False
    with that have "q < of_int n" by simp
    then have "\<lfloor>q\<rfloor> < n" by (simp add: floor_less_iff)
    then show ?thesis using round_even_floor [of q] by linarith
  qed simp
  show "n \<le> round_even q" if "of_int n \<le> q"
    using that round_even_floor [of q] by (simp add: le_floor_iff [symmetric]) linarith
qed

lemma round_even_nonneg: "0 \<le> q \<Longrightarrow> 0 \<le> round_even q"
  using round_even_mono_int(2) [of 0 q] by simp

lemma powi2_pos [simp]: "0 < (2::rat) powi e"
  by simp

lemma powi2_add: "(2::rat) powi (a + b) = 2 powi a * 2 powi b"
  by (simp add: power_int_add)

lemma powi2_mono: "a \<le> b \<Longrightarrow> (2::rat) powi a \<le> 2 powi b"
  by (simp add: power_int_increasing)

lemma round_abs_nonneg: "0 \<le> a \<Longrightarrow> 0 \<le> round_abs a"
  by (simp add: round_abs_def round_even_nonneg)

lemma round_abs_error:
  assumes "0 < a"
  shows "\<bar>round_abs a - a\<bar> \<le> max (a * 2 powi - 53) (2 powi - 1075)"
proof -
  define u where "u = (2::rat) powi ulp_exp a"
  have u: "0 < u" by (simp add: u_def)
  have "round_abs a - a = (of_int (round_even (a / u)) - a / u) * u"
    using u by (simp add: round_abs_def u_def [symmetric] field_simps)
  then have "\<bar>round_abs a - a\<bar> = \<bar>of_int (round_even (a / u)) - a / u\<bar> * u"
    using u by (simp add: abs_mult)
  also have "\<dots> \<le> 1 / 2 * u"
    using round_even_dist [of "a / u"] u by (intro mult_right_mono) auto
  also have "1 / 2 * u = 2 powi (ulp_exp a - 1)"
    by (simp add: u_def power_int_diff)
  also have "\<dots> \<le> max (a * 2 powi - 53) (2 powi - 1075)"
  proof (cases "floorlog2 a - 52 \<le> - 1074")
    case True
    then have "ulp_exp a - 1 = - 1075" by (simp add: ulp_exp_def)
    then show ?thesis by (simp only: max.cobounded2)
  next
    case False
    then have "ulp_exp a - 1 = floorlog2 a + - 53" by (simp add: ulp_exp_def)
    then have "(2::rat) powi (ulp_exp a - 1) = 2 powi floorlog2 a * 2 powi - 53"
      by (simp only: powi2_add)
    also have "\<dots> \<le> a * 2 powi - 53"
      using floorlog2_bounds [OF assms] by (intro mult_right_mono) auto
    finally show ?thesis by simp
  qed
  finally show ?thesis .
qed

lemma round64_error:
  assumes "round64 q = Fin v"
  shows "\<bar>v - q\<bar> \<le> max (\<bar>q\<bar> * 2 powi - 53) (2 powi - 1075)"
proof (cases "q = 0")
  case False
  then have "v = (if q < 0 then - round_abs \<bar>q\<bar> else round_abs \<bar>q\<bar>)"
    using assms by (auto simp: round64_def split: if_splits)
  then have "\<bar>v - q\<bar> = \<bar>round_abs \<bar>q\<bar> - \<bar>q\<bar>\<bar>" by (auto simp: abs_if)
  then show ?thesis using round_abs_error [of "\<bar>q\<bar>"] False by simp
qed (use assms in \<open>auto simp: round64_def\<close>)

lemma round64_nonneg: "round64 q = Fin v \<Longrightarrow> 0 \<le> q \<Longrightarrow> 0 \<le> v"
  by (auto simp: round64_def round_abs_nonneg split: if_splits)

lemma round64_Fin:
  assumes "\<bar>q\<bar> < 2 ^ 1023"
  shows "\<exists>v. round64 q = Fin v"
proof (cases "q = 0")
  case False
  have "max (\<bar>q\<bar> * 2 powi - 53) (2 powi - 1075) \<le> (2::rat) ^ 1023"
  proof (rule max.boundedI)
    have "\<bar>q\<bar> * 2 powi - 53 \<le> \<bar>q\<bar> * 1"
      by (intro mult_left_mono) (simp_all add: power_int_minus)
    then show "\<bar>q\<bar> * 2 powi - 53 \<le> 2 ^ 1023" using assms by linarith
    have "(2::rat) powi - 1075 \<le> 2 powi 1023" by (rule powi2_mono) simp
    then show "(2::rat) powi - 1075 \<le> 2 ^ 1023" by simp
  qed
  with round_abs_error [of "\<bar>q\<bar>"] False have "\<bar>round_abs \<bar>q\<bar> - \<bar>q\<bar>\<bar> \<le> 2 ^ 1023" by simp
  moreover have "(2::rat) ^ 1024 = 2 ^ 1023 + 2 ^ 1023" by simp
  ultimately have "round_abs \<bar>q\<bar> < 2 ^ 1024" using assms by linarith
  then show ?thesis by (simp add: round64_def)
qed (simp add: round64_def)

text \<open>Results of magnitude \<open>2 ^ 52\<close> or more have no fractional part.\<close>

lemma round_abs_Ints:
  assumes "0 < a" "2 ^ 52 \<le> round_abs a"
  shows "round_abs a \<in> \<int>"
proof (cases "0 \<le> ulp_exp a")
  case True
  then have "(2::rat) powi ulp_exp a = of_int (2 ^ nat (ulp_exp a))"
    by (simp add: power_int_def)
  then show ?thesis unfolding round_abs_def by (metis Ints_of_int of_int_mult)
next
  case False
  define k where "k = nat (- ulp_exp a)"
  have k: "(2::rat) powi ulp_exp a = 1 / 2 ^ k"
    using False by (simp add: k_def power_int_def inverse_eq_divide power_one_over)
  from False have "floorlog2 a + 1 \<le> 52" by (simp add: ulp_exp_def)
  then have "(2::rat) powi (floorlog2 a + 1) \<le> 2 powi 52" by (rule powi2_mono)
  with floorlog2_bounds [OF assms(1)] have "a \<le> 2 ^ 52" by simp
  then have "a / 2 powi ulp_exp a \<le> of_int (2 ^ 52 * 2 ^ k)"
    by (simp add: k mult_right_mono)
  then have "round_even (a / 2 powi ulp_exp a) \<le> 2 ^ 52 * 2 ^ k"
    by (rule round_even_mono_int(1))
  then have "of_int (round_even (a / 2 powi ulp_exp a)) \<le> (of_int (2 ^ 52 * 2 ^ k) :: rat)"
    by (simp only: of_int_le_iff)
  then have "round_abs a \<le> 2 ^ 52" by (simp add: round_abs_def k field_simps)
  with assms(2) have "round_abs a = of_int (2 ^ 52)" by simp
  then show ?thesis by (metis Ints_of_int)
qed

lemma round64_Ints:
  assumes "round64 q = Fin v" "2 ^ 52 \<le> v"
  shows "v \<in> \<int>"
proof -
  have "0 < v" using assms(2) less_le_trans [of 0 "2 ^ 52" v] by simp
  then have "v = round_abs \<bar>q\<bar>" "q \<noteq> 0"
    using assms(1) round_abs_nonneg [of "\<bar>q\<bar>"] by (auto simp: round64_def split: if_splits)
  then show ?thesis using round_abs_Ints [of "\<bar>q\<bar>"] assms(2) by simp
qed

text \<open>Integers below \<open>2 ^ 53\<close> are exact.\<close>

lemma round_abs_of_int:
  assumes "0 < n" "n < 2 ^ 53"
  shows "round_abs (of_int n) = of_int n"
proof -
  have "(2::rat) powi floorlog2 (of_int n) \<le> of_int n"
    using floorlog2_bounds [of "of_int n"] assms(1) by simp
  also have "\<dots> < of_int (2 ^ 53)" using assms(2) by (simp only: of_int_less_iff)
  also have "\<dots> = 2 powi 53" by simp
  finally have "floorlog2 (of_int n) < 53"
    by (metis linorder_not_less powi2_mono)
  then have e: "ulp_exp (of_int n) \<le> 0" by (simp add: ulp_exp_def)
  define k where "k = nat (- ulp_exp (of_int n))"
  from e have k: "(2::rat) powi ulp_exp (of_int n) = 1 / 2 ^ k"
    by (cases "ulp_exp (of_int n) = 0")
       (simp_all add: k_def power_int_def inverse_eq_divide power_one_over)
  have "(of_int n :: rat) / (1 / 2 ^ k) = of_int (n * 2 ^ k)" by simp
  then have "round_even (of_int n / 2 powi ulp_exp (of_int n)) = n * 2 ^ k"
    unfolding k by (metis round_even_of_int)
  then show ?thesis unfolding round_abs_def k by simp
qed

lemma round64_of_int:
  assumes "\<bar>n\<bar> < 2 ^ 53"
  shows "round64 (of_int n) = Fin (of_int n)"
proof (cases "n = 0")
  case False
  have r: "round_abs \<bar>of_int n\<bar> = of_int \<bar>n\<bar>"
    using round_abs_of_int [of "\<bar>n\<bar>"] assms False by simp
  have "(of_int \<bar>n\<bar> :: rat) < of_int (2 ^ 53)" using assms by (simp only: of_int_less_iff)
  then have "of_int \<bar>n\<bar> < (2::rat) ^ 53" by simp
  also have "(2::rat) ^ 53 < 2 ^ 1024" by (rule power_strict_increasing) simp_all
  finally have "\<not> 2 ^ 1024 \<le> (of_int \<bar>n\<bar> :: rat)" by simp
  with r False show ?thesis by (auto simp: round64_def)
qed (simp add: round64_def)

lemma float_of_int64_exact: "\<bar>n\<bar> < 2 ^ 53 \<Longrightarrow> float_of_int64 n = Fin (of_int n)"
  by (simp add: float_of_int64_def round64_of_int)

lemma round_away_of_int [simp]: "round_away (of_int n) = n"
  by (simp add: round_away_def) linarith

lemma round_away_dist: "\<bar>q - of_int (round_away q)\<bar> \<le> 1 / 2"
  using floor_correct [of "q + 1 / 2"] floor_correct [of "- q + 1 / 2"]
  by (auto simp: round_away_def abs_if field_simps)

lemma round_away_unique: "\<bar>q - of_int n\<bar> < 1 / 2 \<Longrightarrow> round_away q = n"
proof -
  assume d: "\<bar>q - of_int n\<bar> < 1 / 2"
  then have "\<lfloor>q + 1 / 2\<rfloor> = n" "\<lfloor>- q + 1 / 2\<rfloor> = - n"
    unfolding floor_eq_iff by (auto simp: abs_if split: if_splits)
  then show ?thesis by (simp add: round_away_def)
qed

section \<open>Evaluation\<close>

text \<open>
  A concrete value is rounded by naming its exponent and its integer significand, which
  the simplifier then checks.
\<close>

lemma floorlog2_unique:
  assumes "2 powi k \<le> a" "a < 2 powi (k + 1)"
  shows "floorlog2 a = k"
proof -
  have a: "0 < a" using assms(1) powi2_pos [of k] by linarith
  note b = floorlog2_bounds [OF a]
  have "(2::rat) powi k < 2 powi (floorlog2 a + 1)" "(2::rat) powi floorlog2 a < 2 powi (k + 1)"
    using assms b by linarith+
  then have "k < floorlog2 a + 1" "floorlog2 a < k + 1"
    by (meson linorder_not_less powi2_mono)+
  then show ?thesis by linarith
qed

lemma round_even_unique: "\<bar>q - of_int n\<bar> < 1 / 2 \<Longrightarrow> round_even q = n"
proof -
  assume a: "\<bar>q - of_int n\<bar> < 1 / 2"
  have "\<bar>of_int (round_even q) - of_int n\<bar> < (1::rat)"
    using round_even_dist [of q] a by linarith
  then have "\<bar>round_even q - n\<bar> < 1"
    by (metis of_int_1 of_int_abs of_int_diff of_int_less_iff)
  then show ?thesis by linarith
qed

lemma round64_cert:
  assumes q: "2 powi (e + 52) \<le> q" "q < 2 powi (e + 53)" and e: "- 1074 \<le> e" "e \<le> 900"
    and m: "\<bar>q / 2 powi e - of_int m\<bar> < 1 / 2"
  shows "round64 q = Fin (of_int m * 2 powi e)"
proof -
  have q0: "0 < q" using q(1) powi2_pos [of "e + 52"] by linarith
  have "floorlog2 q = e + 52" using q by (intro floorlog2_unique) (simp_all add: add.assoc)
  then have u: "ulp_exp q = e" using e(1) by (simp add: ulp_exp_def)
  have r: "round_abs q = of_int m * 2 powi e"
    unfolding round_abs_def u round_even_unique [OF m] ..
  have "q < 2 powi 953" using q(2) powi2_mono [of "e + 53" 953] e(2) by linarith
  also have "(2::rat) powi 953 < 2 ^ 1023" by simp
  finally have "\<bar>q\<bar> < 2 ^ 1023" using q0 by simp
  from round64_Fin [OF this] obtain v where v: "round64 q = Fin v" by blast
  then have "v = round_abs \<bar>q\<bar>" using q0 by (auto simp: round64_def split: if_splits)
  with v r q0 show ?thesis by simp
qed

lemma round64_uminus: "round64 q = Fin v \<Longrightarrow> round64 (- q) = Fin (- v)"
  by (auto simp: round64_def split: if_splits)

end
