(* ===== verification/Money.thy ===== *)
theory Money
  imports Float64
begin

text \<open>
  \<open>pkg/money\<close>: prices enter as \<open>float64\<close> and are computed in integer minor units. The
  lemmas say when the conversion accepts a value and how far it is from it, that the
  integer operations are exact or fail, and that a sum of line totals is exact.
\<close>

definition MinorUnitScale :: int64 where
  "MinorUnitScale = 100"

text \<open>The constant \<open>1e-7\<close>, as the nearest \<open>float64\<close>.\<close>

definition tolerance :: float64 where
  "tolerance = round64 (1 / 10 ^ 7)"

definition ToMinorUnits :: "float64 \<Rightarrow> goerr + int64" where
  "ToMinorUnits amount =
     (if math_IsNaN amount \<or> math_IsInf amount \<or> flt amount (Fin 0) then Inl ErrInvalidAmount
      else let scaled = fmul amount (float_of_int64 MinorUnitScale)
           in if fge scaled (float_of_int64 max_i64) then Inl ErrInvalidAmount
              else let rounded = math_Round scaled
                   in if flt tolerance (math_Abs (fsub scaled rounded))
                      then Inl ErrInvalidAmount
                      else Inr (int64_of_float rounded))"

definition FromMinorUnits :: "int64 \<Rightarrow> float64" where
  "FromMinorUnits amount = fdiv (float_of_int64 amount) (float_of_int64 MinorUnitScale)"

text \<open>The divisor is positive where the division is reached, so truncation is \<open>div\<close>.\<close>

definition Multiply :: "int64 \<Rightarrow> uint \<Rightarrow> goerr + int64" where
  "Multiply unitPrice quantity =
     (if unitPrice < 0 \<or> max_i64 < uint quantity then Inl ErrInvalidAmount
      else let quantity64 = i64 (uint quantity)
           in if quantity64 \<noteq> 0 \<and> max_i64 div quantity64 < unitPrice then Inl ErrInvalidAmount
              else Inr (i64 (unitPrice * quantity64)))"

definition Add :: "int64 \<Rightarrow> int64 \<Rightarrow> goerr + int64" where
  "Add left right =
     (if left < 0 \<or> right < 0 \<or> max_i64 - right < left then Inl ErrInvalidAmount
      else Inr (i64 (left + right)))"

section \<open>Integer arithmetic\<close>

lemma Multiply_eq:
  "Multiply u q =
     (if 0 \<le> u \<and> uint q \<le> max_i64 \<and> u * uint q \<le> max_i64
      then Inr (u * uint q) else Inl ErrInvalidAmount)"
proof -
  have q: "0 \<le> uint q" by simp
  show ?thesis
  proof (cases "0 \<le> u \<and> uint q \<le> max_i64")
    case True
    then have conv: "i64 (uint q) = uint q" by (simp add: i64_nonneg_id)
    have "max_i64 div uint q < u \<longleftrightarrow> max_i64 < u * uint q" if "uint q \<noteq> 0"
      using that q by (intro div_less_iff_mult_int) linarith
    with True conv show ?thesis
      by (cases "uint q = 0") (auto simp: Multiply_def i64_nonneg_id linorder_not_less)
  qed (auto simp: Multiply_def)
qed

lemma Add_eq:
  "Add l r = (if 0 \<le> l \<and> 0 \<le> r \<and> l + r \<le> max_i64 then Inr (l + r) else Inl ErrInvalidAmount)"
  by (auto simp: Add_def i64_nonneg_id)

lemma Multiply_Inr: "Multiply u q = Inr r \<Longrightarrow> r = u * uint q \<and> 0 \<le> u \<and> 0 \<le> r \<and> r \<le> max_i64"
  by (auto simp: Multiply_eq split: if_splits)

lemma Add_Inr: "Add l r = Inr t \<Longrightarrow> t = l + r \<and> 0 \<le> l \<and> 0 \<le> r \<and> t \<le> max_i64"
  by (auto simp: Add_eq split: if_splits)

section \<open>Conversion from and to \<open>float64\<close>\<close>

lemma scale_value: "float_of_int64 MinorUnitScale = Fin 100"
  using float_of_int64_exact [of 100] by (simp add: MinorUnitScale_def)

lemma max_value: "float_of_int64 max_i64 = Fin (2 ^ 63)"
proof -
  have "round64 (of_int max_i64) = Fin (of_int (2 ^ 53) * 2 powi 10)"
    by (rule round64_cert) (simp_all add: max_i64_def)
  then show ?thesis by (simp add: float_of_int64_def)
qed

lemma tolerance_value: "\<exists>k. tolerance = Fin k \<and> 1 / 10 ^ 7 - 1 / 10 ^ 20 \<le> k \<and> k \<le> 1 / 10 ^ 7 + 1 / 10 ^ 20"
proof -
  have "\<bar>1 / 10 ^ 7 :: rat\<bar> < 2 ^ 1023" by simp
  then obtain k where k: "round64 (1 / 10 ^ 7) = Fin k" using round64_Fin by blast
  have "max (\<bar>1 / 10 ^ 7 :: rat\<bar> * 2 powi - 53) (2 powi - 1075) \<le> 1 / 10 ^ 20"
    by (simp add: power_int_minus)
  with round64_error [OF k] have "\<bar>k - 1 / 10 ^ 7\<bar> \<le> 1 / 10 ^ 20" by (rule order_trans)
  then have "1 / 10 ^ 7 - 1 / 10 ^ 20 \<le> k \<and> k \<le> 1 / 10 ^ 7 + 1 / 10 ^ 20" by linarith
  with k show ?thesis unfolding tolerance_def by blast
qed

lemma ToMinorUnits_Inr:
  assumes "ToMinorUnits a = Inr m"
  obtains q s d k where "a = Fin q" "0 \<le> q" "round64 (q * 100) = Fin s" "s < 2 ^ 63"
    "round64 (s - of_int (round_away s)) = Fin d" "tolerance = Fin k" "\<bar>d\<bar> \<le> k"
    "m = int64_of_float (Fin (of_int (round_away s)))"
proof -
  obtain k where k: "tolerance = Fin k" using tolerance_value by metis
  from assms obtain q where q: "a = Fin q" "0 \<le> q"
    by (cases a) (auto simp: ToMinorUnits_def math_IsNaN_def math_IsInf_def split: if_splits)
  let ?sc = "round64 (q * 100)"
  from assms have sc: "\<not> fge ?sc (Fin (2 ^ 63))"
    and tol: "\<not> flt (Fin k) (math_Abs (fsub ?sc (math_Round ?sc)))"
    and m: "m = int64_of_float (math_Round ?sc)"
    by (auto simp: ToMinorUnits_def q scale_value max_value k Let_def split: if_splits)
  have "\<exists>s. ?sc = Fin s"
    using sc q(2) by (auto simp: round64_def fge_def split: if_splits)
  then obtain s where s: "?sc = Fin s" by blast
  have "s < 2 ^ 63" using sc by (auto simp: s fge_def)
  moreover have "\<bar>s - of_int (round_away s)\<bar> < 2 ^ 1023"
    using round_away_dist [of s] by (rule le_less_trans) simp
  then obtain d where d: "round64 (s - of_int (round_away s)) = Fin d" using round64_Fin by blast
  moreover have "\<bar>d\<bar> \<le> k" using tol by (simp add: s d)
  ultimately show ?thesis using that q s k m by simp
qed

text \<open>An accepted amount converts to a non-negative \<open>int64\<close> without overflow.\<close>

lemma round_away_below_max:
  assumes "round64 p = Fin s" "0 \<le> s" "s < 2 ^ 63"
  shows "0 \<le> round_away s \<and> round_away s \<le> max_i64"
proof
  show "0 \<le> round_away s" using assms(2) by (simp add: round_away_def)
  show "round_away s \<le> max_i64"
  proof (cases "2 ^ 52 \<le> s")
    case True
    then obtain n where n: "s = of_int n" using round64_Ints [OF assms(1)] by (auto elim: Ints_cases)
    with assms(3) have "(of_int n :: rat) < of_int (2 ^ 63)" by simp
    then have "n < 2 ^ 63" by (simp only: of_int_less_iff)
    with n show ?thesis by (simp add: max_i64_def)
  next
    case False
    with round_away_dist [of s] have "of_int (round_away s) \<le> (2 ^ 52 + 1 :: rat)" by linarith
    then have "of_int (round_away s) \<le> (of_int (2 ^ 52 + 1) :: rat)" by simp
    then have "round_away s \<le> 2 ^ 52 + 1" by (simp only: of_int_le_iff)
    then show ?thesis by (simp add: max_i64_def)
  qed
qed

lemma int64_of_float_of_int: "in_i64 n \<Longrightarrow> int64_of_float (Fin (of_int n)) = n"
  by (simp add: int64_of_float_def)

lemma small_error:
  assumes "round64 x = Fin v" "\<bar>x\<bar> \<le> 1 / 2"
  shows "\<bar>v - x\<bar> \<le> 1 / 10 ^ 15"
proof -
  have "max (\<bar>x\<bar> * 2 powi - 53) (2 powi - 1075) \<le> (1 / 10 ^ 15 :: rat)"
    using mult_right_mono [OF assms(2), of "2 powi - 53"] by (simp add: power_int_minus)
  with round64_error [OF assms(1)] show ?thesis by (rule order_trans)
qed

lemma ToMinorUnits_accurate:
  assumes "ToMinorUnits a = Inr m"
  shows "\<exists>q. a = Fin q \<and> 0 \<le> q \<and> 0 \<le> m \<and> m \<le> max_i64 \<and>
             \<bar>q * 100 - of_int m\<bar> \<le> 2 / 10 ^ 7 + q * 100 / 2 ^ 53"
proof -
  from assms obtain q s d k where q: "a = Fin q" "0 \<le> q" and s: "round64 (q * 100) = Fin s" "s < 2 ^ 63"
    and d: "round64 (s - of_int (round_away s)) = Fin d"
    and k: "tolerance = Fin k" "\<bar>d\<bar> \<le> k"
    and m: "m = int64_of_float (Fin (of_int (round_away s)))"
    by (rule ToMinorUnits_Inr)
  have "0 \<le> s" using round64_nonneg [OF s(1)] q by simp
  from round_away_below_max [OF s(1) this s(2)] have r: "0 \<le> round_away s" "round_away s \<le> max_i64" by simp_all
  then have m: "m = round_away s"
    using m by (simp add: int64_of_float_of_int in_i64_def min_i64_def)
  have "\<bar>d - (s - of_int m)\<bar> \<le> 1 / 10 ^ 15"
    using small_error [OF d round_away_dist] m by simp
  moreover have "k \<le> 1 / 10 ^ 7 + 1 / 10 ^ 20" using tolerance_value k(1) by (metis float64.inject(2))
  ultimately have ds: "\<bar>s - of_int m\<bar> \<le> 1 / 10 ^ 7 + 1 / 10 ^ 14" using k(2) unfolding abs_le_iff by simp
  have "\<bar>s - q * 100\<bar> \<le> max (\<bar>q * 100\<bar> * 2 powi - 53) (2 powi - 1075)" by (rule round64_error [OF s(1)])
  also have "\<dots> \<le> q * 100 / 2 ^ 53 + 1 / 10 ^ 20"
    using q(2) by (auto simp: power_int_minus field_simps)
  finally have "\<bar>q * 100 - of_int m\<bar> \<le> 2 / 10 ^ 7 + q * 100 / 2 ^ 53" using ds unfolding abs_le_iff by simp
  with q r m show ?thesis by blast
qed

text \<open>
  Every total up to four million currency units survives the way to \<open>float64\<close> and back;
  beyond, the spacing of \<open>float64\<close> at \<open>amount * 100\<close> outgrows the tolerance.
\<close>

definition round_trip_limit :: int64 where
  "round_trip_limit = 4 * 10 ^ 8"

lemma FromMinorUnits_value:
  assumes "0 \<le> n" "n \<le> round_trip_limit"
  shows "\<exists>a. FromMinorUnits n = Fin a \<and> 0 \<le> a \<and> \<bar>a - of_int n / 100\<bar> \<le> of_int n / 100 * 2 powi - 53"
proof (cases "n = 0")
  case True
  then show ?thesis
    using float_of_int64_exact [of 0] by (simp add: FromMinorUnits_def scale_value round64_def)
next
  case False
  let ?x = "of_int n / 100 :: rat"
  have n: "of_int n \<le> (of_int round_trip_limit :: rat)" "(1::rat) \<le> of_int n"
    using assms False by (simp_all only: of_int_le_iff of_int_1_le_iff)
  then have "\<bar>?x\<bar> < 10 ^ 8" by (simp add: round_trip_limit_def)
  also have "(10::rat) ^ 8 < 2 ^ 1023" by simp
  finally obtain a where a: "round64 ?x = Fin a" using round64_Fin by blast
  have "(2::rat) powi - 1075 \<le> 2 powi - 7 * 2 powi - 53" by (simp add: power_int_minus)
  also have "\<dots> \<le> ?x * 2 powi - 53" using n by (intro mult_right_mono) (simp_all add: power_int_minus)
  finally have "max (\<bar>?x\<bar> * 2 powi - 53) (2 powi - 1075) = ?x * 2 powi - 53" using n by simp
  with round64_error [OF a] have "\<bar>a - ?x\<bar> \<le> ?x * 2 powi - 53" by simp
  moreover have "0 \<le> a" using round64_nonneg [OF a] assms(1) by simp
  moreover have "FromMinorUnits n = Fin a"
    using assms a by (simp add: FromMinorUnits_def scale_value float_of_int64_exact round_trip_limit_def)
  ultimately show ?thesis by blast
qed

lemma ToMinorUnits_accepts:
  assumes a: "0 \<le> a" "\<bar>a - of_int n / 100\<bar> \<le> of_int n / 100 * 2 powi - 53"
    and n: "0 \<le> n" "n \<le> round_trip_limit"
  shows "ToMinorUnits (Fin a) = Inr n"
proof -
  have nr: "0 \<le> (of_int n :: rat)" "(of_int n :: rat) \<le> 4 * 10 ^ 8"
    using n of_int_le_iff [of n "4 * 10 ^ 8", where 'a = rat] by (simp_all add: round_trip_limit_def)
  have ad: "\<bar>a * 100 - of_int n\<bar> \<le> of_int n * 2 powi - 53"
    using a(2) unfolding abs_le_iff by (simp add: power_int_minus)
  have "of_int n * 2 powi - 53 \<le> (45 / 10 ^ 9 :: rat)"
    using mult_right_mono [OF nr(2), of "2 powi - 53"] by (simp add: power_int_minus)
  with ad have a2: "\<bar>a * 100 - of_int n\<bar> \<le> 45 / 10 ^ 9" by linarith
  with nr have a3: "\<bar>a * 100\<bar> \<le> 10 ^ 9" unfolding abs_le_iff by simp
  also have "(10::rat) ^ 9 < 2 ^ 1023" by simp
  finally obtain s where s: "round64 (a * 100) = Fin s" using round64_Fin by blast
  have a4: "\<bar>a * 100\<bar> \<le> 4 * 10 ^ 8 + 1" using a2 nr a(1) unfolding abs_le_iff by simp
  have "max (\<bar>a * 100\<bar> * 2 powi - 53) (2 powi - 1075) \<le> 45 / 10 ^ 9"
    using mult_right_mono [OF a4, of "2 powi - 53"] by (simp add: power_int_minus)
  with round64_error [OF s] have "\<bar>s - a * 100\<bar> \<le> 45 / 10 ^ 9" by linarith
  with a2 have sn: "\<bar>s - of_int n\<bar> \<le> 9 / 10 ^ 8" unfolding abs_le_iff by simp
  then have r: "round_away s = n" by (intro round_away_unique) simp
  have s63: "s < 2 ^ 63" using sn nr unfolding abs_le_iff by simp
  have "\<bar>s - of_int n\<bar> < 2 ^ 1023" using sn by (rule le_less_trans) simp
  then obtain d where d: "round64 (s - of_int n) = Fin d" using round64_Fin by blast
  have "\<bar>s - of_int n\<bar> \<le> 1 / 2" using sn by simp
  with d have "\<bar>d - (s - of_int n)\<bar> \<le> 1 / 10 ^ 15" by (rule small_error)
  with sn have dn: "\<bar>d\<bar> \<le> 95 / 10 ^ 9" unfolding abs_le_iff by simp
  obtain k where k: "tolerance = Fin k" "1 / 10 ^ 7 - 1 / 10 ^ 20 \<le> k" using tolerance_value by metis
  have "in_i64 n" using n by (simp add: in_i64_def min_i64_def max_i64_def round_trip_limit_def)
  then have "int64_of_float (Fin (of_int n)) = n" by (rule int64_of_float_of_int)
  moreover have "\<not> k < \<bar>d\<bar>" using dn k(2) by simp
  ultimately show ?thesis
    using a(1) s63 by (simp add: ToMinorUnits_def math_IsNaN_def math_IsInf_def scale_value max_value
        Let_def s r d k(1) fge_def)
qed

section \<open>Properties\<close>

text \<open>
  C12: an amount that \<open>ToMinorUnits\<close> accepts is a finite non-negative number, the result is
  a non-negative \<open>int64\<close> obtained without overflow, and it differs from a hundred times the
  amount by no more than the tolerance and one rounding.
\<close>

theorem to_minor_units_sound:
  assumes "ToMinorUnits a = Inr m"
  shows "\<exists>q. a = Fin q \<and> 0 \<le> q \<and> 0 \<le> m \<and> m \<le> max_i64 \<and>
             \<bar>q * 100 - of_int m\<bar> \<le> 2 / 10 ^ 7 + q * 100 / 2 ^ 53"
  using assms by (rule ToMinorUnits_accurate)

lemma ToMinorUnits_quarter: "ToMinorUnits (Fin (1 / 4)) = Inr 25"
  by (rule ToMinorUnits_accepts) (simp_all add: round_trip_limit_def power_int_minus)

theorem to_minor_units_sound_witness:
  "\<exists>q. Fin (1 / 4) = Fin q \<and> 0 \<le> q \<and> 0 \<le> (25::int) \<and> 25 \<le> max_i64 \<and>
       \<bar>q * 100 - of_int 25\<bar> \<le> 2 / 10 ^ 7 + q * 100 / 2 ^ 53"
  using to_minor_units_sound [OF ToMinorUnits_quarter] .

text \<open>
  C13: a total of at most four million currency units, given in minor units, is
  recovered exactly from the \<open>float64\<close> that is stored and returned by the API.
\<close>

theorem money_round_trip:
  assumes "0 \<le> n" "n \<le> round_trip_limit"
  shows "ToMinorUnits (FromMinorUnits n) = Inr n"
  using FromMinorUnits_value [OF assms] ToMinorUnits_accepts [OF _ _ assms] by auto

theorem money_round_trip_witness: "ToMinorUnits (FromMinorUnits 12550) = Inr 12550"
  by (rule money_round_trip) (simp_all add: round_trip_limit_def)

text \<open>
  Above the limit the round trip can fail. The two-decimal price \<open>8388608.03\<close>, as the
  nearest \<open>float64\<close>, is rejected as an invalid amount, because one unit in the last place of
  the scaled value is larger than the tolerance.
\<close>

theorem large_price_rejected: "ToMinorUnits (FromMinorUnits 838860803) = Inl ErrInvalidAmount"
proof -
  have "round64 (838860803 / 100) = Fin (of_int 4503599643476623 * 2 powi - 29)"
    by (rule round64_cert) (simp_all add: power_int_minus)
  then have a: "FromMinorUnits 838860803 = Fin (4503599643476623 / 2 ^ 29)"
    using float_of_int64_exact [of 838860803] by (simp add: FromMinorUnits_def scale_value power_int_minus)
  have "round64 (4503599643476623 / 2 ^ 29 * 100) = Fin (of_int 7036874442932223 * 2 powi - 23)"
    by (rule round64_cert) (simp_all add: power_int_minus)
  then have s: "fmul (Fin (4503599643476623 / 2 ^ 29)) (Fin 100) = Fin (7036874442932223 / 2 ^ 23)"
    by (simp add: power_int_minus)
  have r: "round_away (7036874442932223 / 2 ^ 23) = 838860803"
    by (rule round_away_unique) simp
  have "round64 (1 / 2 ^ 23) = Fin (of_int (2 ^ 52) * 2 powi - 75)"
    by (rule round64_cert) (simp_all add: power_int_minus)
  then have "round64 (- (1 / 2 ^ 23)) = Fin (- (of_int (2 ^ 52) * 2 powi - 75))"
    by (rule round64_uminus)
  then have d: "fsub (Fin (7036874442932223 / 2 ^ 23)) (Fin 838860803) = Fin (- (1 / 2 ^ 23))"
    by (simp add: power_int_minus)
  obtain k where k: "tolerance = Fin k" "k \<le> 1 / 10 ^ 7 + 1 / 10 ^ 20" using tolerance_value by metis
  then have "k < 1 / 2 ^ 23" by simp
  with s r d show ?thesis
    by (simp add: a k(1) ToMinorUnits_def Let_def scale_value max_value fge_def math_IsNaN_def math_IsInf_def)
qed

text \<open>
  C14: multiplying a unit price by a quantity and adding two amounts gives the exact
  integer result whenever the operands are non-negative and the result fits \<open>int64\<close>, and
  \<open>ErrInvalidAmount\<close> in every other case; a wrapped result is never returned.
\<close>

theorem minor_unit_arithmetic_exact:
  "Multiply u q =
     (if 0 \<le> u \<and> uint q \<le> max_i64 \<and> u * uint q \<le> max_i64
      then Inr (u * uint q) else Inl ErrInvalidAmount) \<and>
   Add l r = (if 0 \<le> l \<and> 0 \<le> r \<and> l + r \<le> max_i64 then Inr (l + r) else Inl ErrInvalidAmount)"
  by (simp add: Multiply_eq Add_eq)

end
