(* ===== verification/Metrics.thy ===== *)
theory Metrics
  imports Float64
begin

text \<open>
  \<open>pkg/metrics\<close>: the recording functions. A Prometheus vector is a family of counters
  indexed by its label values; the registry is modelled as the log of its increments, newest
  first, so the value of a counter is a sum over the log. A histogram adds one observation and its
  value in seconds. The lemmas bound the label values.
\<close>

record sample =
  sample_name :: string
  sample_labels :: "string list"
  sample_amount :: int
  sample_seconds :: "float64 option"

type_synonym registry = "sample list"

text \<open>Durations are in nanoseconds.\<close>

definition Duration_Seconds :: "int64 \<Rightarrow> float64" where
  "Duration_Seconds d =
     fadd (float_of_int64 (d div 1000000000)) (fdiv (float_of_int64 (d mod 1000000000)) (Fin 1000000000))"

definition seconds :: "int64 \<Rightarrow> float64" where
  "seconds d = (if d \<le> 0 then Fin 0 else Duration_Seconds d)"

definition inc :: "string \<Rightarrow> string list \<Rightarrow> registry \<Rightarrow> registry" where
  "inc name labels reg =
     \<lparr>sample_name = name, sample_labels = labels, sample_amount = 1, sample_seconds = None\<rparr> # reg"

definition observe :: "string \<Rightarrow> string list \<Rightarrow> float64 \<Rightarrow> registry \<Rightarrow> registry" where
  "observe name labels v reg =
     \<lparr>sample_name = name, sample_labels = labels, sample_amount = 1, sample_seconds = Some v\<rparr> # reg"

definition add_amount :: "string \<Rightarrow> string list \<Rightarrow> int \<Rightarrow> registry \<Rightarrow> registry" where
  "add_amount name labels n reg =
     \<lparr>sample_name = name, sample_labels = labels, sample_amount = n, sample_seconds = None\<rparr> # reg"

definition counter :: "string \<Rightarrow> string list \<Rightarrow> registry \<Rightarrow> int" where
  "counter name labels reg =
     sum_list (map sample_amount (filter (\<lambda>m. sample_name m = name \<and> sample_labels m = labels) reg))"

text \<open>The total of a family over all label values.\<close>

definition family_total :: "string \<Rightarrow> registry \<Rightarrow> int" where
  "family_total name reg = sum_list (map sample_amount (filter (\<lambda>m. sample_name m = name) reg))"

definition unknownLabel :: string where "unknownLabel = ''unknown''"

definition knownEventTypes :: "string list" where "knownEventTypes = [''order.created'']"

definition label :: "string \<Rightarrow> string" where
  "label value = (if value = '''' then unknownLabel else value)"

definition eventTypeLabel :: "string \<Rightarrow> string" where
  "eventTypeLabel value =
     (let v = label value in if v \<in> set knownEventTypes then v else unknownLabel)"

definition RecordHTTP :: "string \<Rightarrow> string \<Rightarrow> string \<Rightarrow> int64 \<Rightarrow> registry \<Rightarrow> registry" where
  "RecordHTTP method path status duration reg =
     (let labels = [label method, label path, label status]
      in observe ''http_request_duration_seconds'' labels (seconds duration) (inc ''http_requests_total'' labels reg))"

definition RecordHTTPStatus :: "string \<Rightarrow> string \<Rightarrow> int64 \<Rightarrow> int64 \<Rightarrow> registry \<Rightarrow> registry" where
  "RecordHTTPStatus method path status duration = RecordHTTP method path (show_int status) duration"

definition RecordOrderPlace :: "string \<Rightarrow> string \<Rightarrow> int64 \<Rightarrow> registry \<Rightarrow> registry" where
  "RecordOrderPlace result reason duration reg =
     (let res = label result; rea = label reason;
          r1 = observe ''order_place_duration_seconds'' [res, rea] (seconds duration) (inc ''order_place_total'' [res, rea] reg)
      in if res = ''failure'' then inc ''order_place_failed_total'' [rea] r1 else r1)"

definition RecordOrderIdempotencyDuplicate :: "string \<Rightarrow> registry \<Rightarrow> registry" where
  "RecordOrderIdempotencyDuplicate reason = inc ''order_idempotency_duplicate_total'' [label reason]"

definition RecordOrderRateLimited :: "string \<Rightarrow> registry \<Rightarrow> registry" where
  "RecordOrderRateLimited reason = inc ''order_rate_limited_total'' [label reason]"

definition RecordInventoryInsufficientStock :: "registry \<Rightarrow> registry" where
  "RecordInventoryInsufficientStock = inc ''inventory_insufficient_stock_total'' []"

definition RecordOutboxEventCreated :: "string \<Rightarrow> registry \<Rightarrow> registry" where
  "RecordOutboxEventCreated eventType = inc ''outbox_events_created_total'' [eventTypeLabel eventType]"

definition RecordOutboxPublishAttempt :: "string \<Rightarrow> registry \<Rightarrow> registry" where
  "RecordOutboxPublishAttempt eventType = inc ''outbox_publish_attempt_total'' [eventTypeLabel eventType]"

definition RecordOutboxPublishSuccess :: "string \<Rightarrow> int64 \<Rightarrow> registry \<Rightarrow> registry" where
  "RecordOutboxPublishSuccess eventType duration reg =
     (let t = eventTypeLabel eventType
      in observe ''outbox_publish_duration_seconds'' [t, ''success''] (seconds duration) (inc ''outbox_publish_success_total'' [t] reg))"

definition RecordOutboxPublishFailure :: "string \<Rightarrow> string \<Rightarrow> int64 \<Rightarrow> registry \<Rightarrow> registry" where
  "RecordOutboxPublishFailure eventType reason duration reg =
     (let t = eventTypeLabel eventType
      in observe ''outbox_publish_duration_seconds'' [t, ''failure''] (seconds duration)
           (inc ''outbox_publish_failure_total'' [t, label reason] reg))"

definition RecordOutboxDeadLetter :: "string \<Rightarrow> string \<Rightarrow> registry \<Rightarrow> registry" where
  "RecordOutboxDeadLetter eventType reason =
     inc ''outbox_dead_letter_total'' [eventTypeLabel eventType, label reason]"

definition RecordOutboxClaim :: "string \<Rightarrow> registry \<Rightarrow> registry" where
  "RecordOutboxClaim eventType = inc ''outbox_claim_total'' [eventTypeLabel eventType]"

definition RecordOutboxClaimFailure :: "string \<Rightarrow> registry \<Rightarrow> registry" where
  "RecordOutboxClaimFailure reason = inc ''outbox_claim_failure_total'' [label reason]"

definition RecordOutboxFinalizeFailure :: "string \<Rightarrow> string \<Rightarrow> registry \<Rightarrow> registry" where
  "RecordOutboxFinalizeFailure eventType reason =
     inc ''outbox_finalize_failure_total'' [eventTypeLabel eventType, label reason]"

definition RecordOutboxConsumerRead :: "string \<Rightarrow> int64 \<Rightarrow> registry \<Rightarrow> registry" where
  "RecordOutboxConsumerRead eventType count reg =
     (if count \<le> 0 then reg
      else add_amount ''outbox_consumer_read_total'' [eventTypeLabel eventType] count reg)"

definition RecordOutboxConsumerHandlerSuccess :: "string \<Rightarrow> registry \<Rightarrow> registry" where
  "RecordOutboxConsumerHandlerSuccess eventType =
     inc ''outbox_consumer_handler_success_total'' [eventTypeLabel eventType]"

definition RecordOutboxConsumerAck :: "string \<Rightarrow> string \<Rightarrow> registry \<Rightarrow> registry" where
  "RecordOutboxConsumerAck eventType result =
     inc ''outbox_consumer_ack_total'' [eventTypeLabel eventType, label result]"

definition RecordOutboxConsumerFailure :: "string \<Rightarrow> string \<Rightarrow> registry \<Rightarrow> registry" where
  "RecordOutboxConsumerFailure eventType reason =
     inc ''outbox_consumer_failure_total'' [eventTypeLabel eventType, label reason]"

definition RecordOutboxConsumerDuplicateSkipped :: "string \<Rightarrow> registry \<Rightarrow> registry" where
  "RecordOutboxConsumerDuplicateSkipped eventType =
     inc ''outbox_consumer_duplicate_skipped_total'' [eventTypeLabel eventType]"

definition RecordOutboxConsumerStaleClaim :: "int64 \<Rightarrow> registry \<Rightarrow> registry" where
  "RecordOutboxConsumerStaleClaim count reg =
     (if count \<le> 0 then reg else add_amount ''outbox_consumer_stale_claim_total'' [] count reg)"

definition RecordOutboxConsumerDeadLetter :: "string \<Rightarrow> string \<Rightarrow> string \<Rightarrow> registry \<Rightarrow> registry" where
  "RecordOutboxConsumerDeadLetter eventType reason result =
     inc ''outbox_consumer_dead_letter_total'' [eventTypeLabel eventType, label reason, label result]"

section \<open>Lemmas\<close>

named_theorems records \<open>definitions of the recording functions\<close>

lemmas record_defs [records] =
  inc_def observe_def add_amount_def RecordOrderPlace_def RecordOrderIdempotencyDuplicate_def RecordOrderRateLimited_def
  RecordInventoryInsufficientStock_def RecordOutboxEventCreated_def RecordOutboxPublishAttempt_def
  RecordOutboxPublishSuccess_def RecordOutboxPublishFailure_def RecordOutboxDeadLetter_def
  RecordOutboxClaim_def RecordOutboxClaimFailure_def RecordOutboxFinalizeFailure_def
  RecordOutboxConsumerRead_def RecordOutboxConsumerHandlerSuccess_def RecordOutboxConsumerAck_def
  RecordOutboxConsumerFailure_def RecordOutboxConsumerDuplicateSkipped_def
  RecordOutboxConsumerStaleClaim_def RecordOutboxConsumerDeadLetter_def RecordHTTP_def RecordHTTPStatus_def

lemma label_nonempty [simp]: "label v \<noteq> ''''"
  by (simp add: label_def unknownLabel_def)

lemma eventTypeLabel_range: "eventTypeLabel v \<in> {''order.created'', ''unknown''}"
  by (auto simp: eventTypeLabel_def label_def unknownLabel_def knownEventTypes_def Let_def)

lemma eventTypeLabel_idem [simp]: "eventTypeLabel (eventTypeLabel v) = eventTypeLabel v"
  using eventTypeLabel_range [of v]
  by (auto simp: eventTypeLabel_def label_def unknownLabel_def knownEventTypes_def Let_def)

lemma family_total_Cons [simp]:
  "family_total n (m # reg) = (if sample_name m = n then sample_amount m else 0) + family_total n reg"
  by (simp add: family_total_def)

lemma family_total_append [simp]: "family_total n (xs @ ys) = family_total n xs + family_total n ys"
  by (simp add: family_total_def)

lemma RecordOrderPlace_families:
  "family_total ''order_place_total'' (RecordOrderPlace result reason duration reg) =
     family_total ''order_place_total'' reg + 1"
  "family_total ''order_place_failed_total'' (RecordOrderPlace result reason duration reg) =
     family_total ''order_place_failed_total'' reg + (if result = ''failure'' then 1 else 0)"
  by (simp_all add: RecordOrderPlace_def inc_def observe_def Let_def label_def unknownLabel_def)

section \<open>The registered families\<close>

text \<open>The vectors of \<open>newRegistryState\<close>, with their label names, in the order they are registered.\<close>

definition newRegistryState :: "(string \<times> string list) list" where
  "newRegistryState =
     [(''http_requests_total'', [''method'', ''path'', ''status'']),
      (''http_request_duration_seconds'', [''method'', ''path'', ''status'']),
      (''order_place_total'', [''result'', ''reason'']),
      (''order_place_failed_total'', [''reason'']),
      (''order_place_duration_seconds'', [''result'', ''reason'']),
      (''order_idempotency_duplicate_total'', [''reason'']),
      (''order_rate_limited_total'', [''reason'']),
      (''inventory_insufficient_stock_total'', []),
      (''outbox_events_created_total'', [''event_type'']),
      (''outbox_publish_attempt_total'', [''event_type'']),
      (''outbox_publish_success_total'', [''event_type'']),
      (''outbox_publish_failure_total'', [''event_type'', ''reason'']),
      (''outbox_publish_duration_seconds'', [''event_type'', ''result'']),
      (''outbox_dead_letter_total'', [''event_type'', ''reason'']),
      (''outbox_claim_total'', [''event_type'']),
      (''outbox_claim_failure_total'', [''reason'']),
      (''outbox_finalize_failure_total'', [''event_type'', ''reason'']),
      (''outbox_consumer_read_total'', [''event_type'']),
      (''outbox_consumer_handler_success_total'', [''event_type'']),
      (''outbox_consumer_ack_total'', [''event_type'', ''result'']),
      (''outbox_consumer_failure_total'', [''event_type'', ''reason'']),
      (''outbox_consumer_duplicate_skipped_total'', [''event_type'']),
      (''outbox_consumer_stale_claim_total'', []),
      (''outbox_consumer_dead_letter_total'', [''event_type'', ''reason'', ''result''])]"

text \<open>
  A sample that the registry accepts: its family is registered (under one name), it has one
  value per label (\<open>WithLabelValues\<close> panics otherwise), no value is empty, an event type is
  one of the two known values, and a counter is never decreased (\<open>Add\<close> panics otherwise).
\<close>

definition accepted :: "sample \<Rightarrow> bool" where
  "accepted m \<longleftrightarrow>
     (case map_of newRegistryState (sample_name m) of
        None \<Rightarrow> False
      | Some names \<Rightarrow>
          length (sample_labels m) = length names \<and> list_all (\<lambda>v. v \<noteq> '''') (sample_labels m) \<and>
          list_all2 (\<lambda>n v. n = ''event_type'' \<longrightarrow> v \<in> {''order.created'', ''unknown''}) names (sample_labels m)) \<and>
     0 < sample_amount m"

text \<open>The logs that calls of the recording functions build.\<close>

inductive recorded :: "registry \<Rightarrow> bool" where
  fresh: "recorded []"
| http: "recorded reg \<Longrightarrow> recorded (RecordHTTP a b c d reg)"
| http_status: "recorded reg \<Longrightarrow> recorded (RecordHTTPStatus a b n d reg)"
| order_place: "recorded reg \<Longrightarrow> recorded (RecordOrderPlace a b d reg)"
| duplicate: "recorded reg \<Longrightarrow> recorded (RecordOrderIdempotencyDuplicate a reg)"
| rate_limited: "recorded reg \<Longrightarrow> recorded (RecordOrderRateLimited a reg)"
| insufficient: "recorded reg \<Longrightarrow> recorded (RecordInventoryInsufficientStock reg)"
| created: "recorded reg \<Longrightarrow> recorded (RecordOutboxEventCreated a reg)"
| attempt: "recorded reg \<Longrightarrow> recorded (RecordOutboxPublishAttempt a reg)"
| success: "recorded reg \<Longrightarrow> recorded (RecordOutboxPublishSuccess a d reg)"
| failure: "recorded reg \<Longrightarrow> recorded (RecordOutboxPublishFailure a b d reg)"
| dead_letter: "recorded reg \<Longrightarrow> recorded (RecordOutboxDeadLetter a b reg)"
| claim: "recorded reg \<Longrightarrow> recorded (RecordOutboxClaim a reg)"
| claim_failure: "recorded reg \<Longrightarrow> recorded (RecordOutboxClaimFailure a reg)"
| finalize_failure: "recorded reg \<Longrightarrow> recorded (RecordOutboxFinalizeFailure a b reg)"
| consumer_read: "recorded reg \<Longrightarrow> recorded (RecordOutboxConsumerRead a n reg)"
| handler_success: "recorded reg \<Longrightarrow> recorded (RecordOutboxConsumerHandlerSuccess a reg)"
| ack: "recorded reg \<Longrightarrow> recorded (RecordOutboxConsumerAck a b reg)"
| consumer_failure: "recorded reg \<Longrightarrow> recorded (RecordOutboxConsumerFailure a b reg)"
| duplicate_skipped: "recorded reg \<Longrightarrow> recorded (RecordOutboxConsumerDuplicateSkipped a reg)"
| stale_claim: "recorded reg \<Longrightarrow> recorded (RecordOutboxConsumerStaleClaim n reg)"
| consumer_dead_letter: "recorded reg \<Longrightarrow> recorded (RecordOutboxConsumerDeadLetter a b c reg)"

lemma eventTypeLabel_ok [simp]:
  "eventTypeLabel v \<noteq> ''''" "eventTypeLabel v = ''order.created'' \<or> eventTypeLabel v = ''unknown''"
  using eventTypeLabel_range [of v] by auto

lemma recorded_accepted: "recorded reg \<Longrightarrow> list_all accepted reg"
  by (induction rule: recorded.induct) (simp_all add: records accepted_def newRegistryState_def Let_def)

text \<open>
  No recording can panic or grow the label space: every sample that any sequence of
  calls of the recording functions puts into the registry belongs to a registered family,
  carries exactly the family's labels, all of them non-empty, with one of two known event
  types, and increases its counter; and no family is registered twice.
\<close>

theorem recordings_never_panic:
  assumes "recorded reg"
  shows "list_all accepted reg \<and> distinct (map fst newRegistryState)"
proof
  show "list_all accepted reg" using assms by (rule recorded_accepted)
  show "distinct (map fst newRegistryState)" unfolding newRegistryState_def by code_simp
qed

theorem recordings_never_panic_witness:
  "list_all accepted (RecordOrderPlace ''failure'' '''' 5 (RecordOutboxConsumerRead ''x'' 2 [])) \<and>
     distinct (map fst newRegistryState)"
  by (rule recordings_never_panic [OF recorded.order_place [OF recorded.consumer_read [OF recorded.fresh]]])

end
