(* ===== verification/Paging.thy ===== *)
theory Paging
  imports Float64
begin

text \<open>
  \<open>pkg/paging\<close>: the page window computed from the requested page, the requested sz and
  the total. The lemmas evaluate the floating-point page count, and show that the windows of
  the pages tile the result list.
\<close>

definition DefaultPageSize :: int64 where "DefaultPageSize = 20"

record Pagination =
  pg_CurrentPage :: int64
  pg_Total :: int64
  pg_TotalPage :: int64
  pg_Limit :: int64
  pg_Skip :: int64

definition New :: "int64 \<Rightarrow> int64 \<Rightarrow> int64 \<Rightarrow> Pagination" where
  "New page pageSize tot =
     (let limit = (if 0 < pageSize \<and> pageSize \<le> DefaultPageSize then pageSize else DefaultPageSize);
          totalPage = int64_of_float (math_Ceil (fdiv (float_of_int64 tot) (float_of_int64 limit)));
          page' = (if page < 1 \<or> totalPage = 0 then 1 else page)
      in \<lparr>pg_CurrentPage = page', pg_Total = tot, pg_TotalPage = totalPage, pg_Limit = limit,
          pg_Skip = i64 (i64 (page' - 1) * limit)\<rparr>)"

lemma New_Limit: "1 \<le> pg_Limit (New page sz tot) \<and> pg_Limit (New page sz tot) \<le> 20"
  by (simp add: New_def DefaultPageSize_def Let_def)

section \<open>The page count\<close>

definition exact_total_limit :: int64 where "exact_total_limit = 2 ^ 40"

lemma zdiv_le_self:
  fixes a l :: int
  assumes "1 \<le> l" "0 \<le> a"
  shows "a div l \<le> a"
proof -
  have "(a + 1) * 1 \<le> (a + 1) * l" using assms by (intro mult_left_mono) auto
  then have "a < (a + 1) * l" by simp
  then have "a div l < a + 1" using assms by (subst div_less_iff_mult_int) auto
  then show ?thesis by simp
qed

lemma zdiv_le_length:
  fixes n l :: int
  assumes "1 \<le> l" "1 \<le> n"
  shows "(n + l - 1) div l \<le> n"
proof -
  have "0 \<le> (n - 1) * (l - 1)" using assms by simp
  then have "n + l - 1 < (n + 1) * l" using assms by (simp add: algebra_simps)
  then have "(n + l - 1) div l < n + 1" using assms by (subst div_less_iff_mult_int) auto
  then show ?thesis by simp
qed

lemma ceiling_close:
  fixes v :: rat
  assumes l: "1 \<le> l" "l \<le> (20::int)" and t: "0 \<le> (t::int)"
    and v: "\<bar>v - of_int t / of_int l\<bar> < 1 / 20" and e: "l dvd t \<Longrightarrow> v = of_int t / of_int l"
  shows "\<lceil>v\<rceil> = (t + l - 1) div l"
proof (cases "l dvd t")
  case True
  then obtain k where k: "t = l * k" by (elim dvdE)
  then have "v = of_int k" using e True l by simp
  moreover have "(t + l - 1) div l = k"
  proof -
    have "(l - 1 + k * l) div l = k + (l - 1) div l" using l by (intro div_mult_self1) simp
    moreover have "t + l - 1 = l - 1 + k * l" using k by (simp add: mult.commute)
    moreover have "(l - 1) div l = 0" using l by simp
    ultimately show ?thesis by (simp only: add_0_right)
  qed
  ultimately show ?thesis by simp
next
  case False
  define q r where "q = t div l" "r = t mod l"
  have "r \<noteq> 0" using False by (simp add: q_r_def dvd_eq_mod_eq_0)
  moreover have "0 \<le> r" "r < l" using l by (simp_all add: q_r_def)
  ultimately have r: "1 \<le> r" "r \<le> l - 1" by linarith+
  have "t = l * q + r" by (simp add: q_r_def)
  note r = r this
  then have tl: "of_int t / of_int l = of_int q + of_int r / (of_int l :: rat)"
    using l by (simp add: field_simps)
  have lr: "1 \<le> (of_int l :: rat)" "of_int l \<le> (20::rat)" "(1::rat) \<le> of_int r" "of_int r \<le> (of_int l - 1 :: rat)"
    using l r of_int_le_iff [of r "l - 1", where 'a = rat] by simp_all
  have lo: "1 / 20 \<le> of_int r / (of_int l :: rat)" using lr by (intro frac_le) simp_all
  have hi: "of_int r / of_int l \<le> 1 - 1 / (20 :: rat)"
  proof -
    have "of_int r / of_int l \<le> (of_int l - 1) / (of_int l :: rat)" using lr by (intro divide_right_mono) simp_all
    also have "\<dots> = 1 - 1 / of_int l" using lr by (simp add: field_simps)
    also have "\<dots> \<le> 1 - 1 / 20" using lr by (intro diff_mono frac_le) simp_all
    finally show ?thesis .
  qed
  have "of_int q < v" "v < of_int q + 1" using v lo hi tl by linarith+
  then have "\<lceil>v\<rceil> = q + 1" by (simp add: ceiling_unique)
  moreover have "(t + l - 1) div l = q + 1"
  proof -
    have "t + l - 1 = (r - 1) + (q + 1) * l" using r by (simp add: algebra_simps)
    moreover have "((r - 1) + (q + 1) * l) div l = (q + 1) + (r - 1) div l" using l by (intro div_mult_self1) simp
    moreover have "(r - 1) div l = 0" using r l by simp
    ultimately show ?thesis by (simp only: add_0_right)
  qed
  ultimately show ?thesis by simp
qed

lemma page_count:
  assumes "0 \<le> tot" "tot \<le> exact_total_limit" "1 \<le> limit" "limit \<le> 20"
  shows "int64_of_float (math_Ceil (fdiv (float_of_int64 tot) (float_of_int64 limit))) =
           (tot + limit - 1) div limit"
proof -
  let ?q = "of_int tot / of_int limit :: rat"
  have f: "float_of_int64 tot = Fin (of_int tot)" "float_of_int64 limit = Fin (of_int limit)"
    using assms by (simp_all add: float_of_int64_exact exact_total_limit_def)
  have tr: "0 \<le> (of_int tot :: rat)" "of_int tot \<le> (2 ^ 40 :: rat)" "1 \<le> (of_int limit :: rat)"
    using assms of_int_le_iff [of tot "2 ^ 40", where 'a = rat] by (simp_all add: exact_total_limit_def)
  have "?q \<le> 2 ^ 40 / 1" using tr by (intro frac_le) simp_all
  then have q0: "0 \<le> ?q" "?q \<le> 2 ^ 40" using tr by simp_all
  then have "\<bar>?q\<bar> \<le> 2 ^ 40" by linarith
  also have "(2::rat) ^ 40 < 2 ^ 1023" by (rule power_strict_increasing) simp_all
  finally obtain v where v: "round64 ?q = Fin v" using round64_Fin by blast
  have "max (\<bar>?q\<bar> * 2 powi - 53) (2 powi - 1075) \<le> 1 / 2 ^ 13"
  proof (rule max.boundedI)
    have "\<bar>?q\<bar> * 2 powi - 53 \<le> 2 ^ 40 * 2 powi - 53" using q0 by (intro mult_right_mono) auto
    then show "\<bar>?q\<bar> * 2 powi - 53 \<le> 1 / 2 ^ 13" by (simp add: power_int_minus)
    have "(2::rat) powi - 1075 \<le> 2 powi - 13" by (rule powi2_mono) simp
    then show "(2::rat) powi - 1075 \<le> 1 / 2 ^ 13" by (simp add: power_int_minus)
  qed
  with round64_error [OF v] have "\<bar>v - ?q\<bar> \<le> 1 / 2 ^ 13" by linarith
  then have close: "\<bar>v - ?q\<bar> < 1 / 20" by (rule le_less_trans) simp
  have exact: "v = ?q" if "limit dvd tot"
  proof -
    from that obtain k where k: "tot = limit * k" by (elim dvdE)
    then have qk: "?q = of_int k" using assms by simp
    then have "of_int k \<le> (of_int (2 ^ 40) :: rat)" "(0::rat) \<le> of_int k" using q0 by simp_all
    then have "k \<le> 2 ^ 40" "0 \<le> k" by (simp_all only: of_int_le_iff of_int_0_le_iff)
    then show ?thesis using v qk round64_of_int [of k] by simp
  qed
  have c: "\<lceil>v\<rceil> = (tot + limit - 1) div limit"
    using assms close exact by (intro ceiling_close) auto
  have "(tot + limit - 1) div limit \<le> tot + limit - 1" "0 \<le> (tot + limit - 1) div limit"
    using assms zdiv_le_self [of limit "tot + limit - 1"] by (simp_all add: pos_imp_zdiv_nonneg_iff)
  then have "in_i64 \<lceil>v\<rceil>" "0 \<le> \<lceil>v\<rceil>"
    using assms c by (simp_all add: in_i64_def min_i64_def max_i64_def exact_total_limit_def)
  then have "int64_of_float (Fin (of_int \<lceil>v\<rceil>)) = \<lceil>v\<rceil>" by (simp add: int64_of_float_def)
  then show ?thesis using assms v c f by simp
qed

section \<open>Windows\<close>

lemma New_values:
  assumes "0 \<le> tot" "tot \<le> exact_total_limit"
  shows "pg_TotalPage (New page sz tot) = (tot + pg_Limit (New page sz tot) - 1) div pg_Limit (New page sz tot)"
proof -
  define limit where "limit = (if 0 < sz \<and> sz \<le> DefaultPageSize then sz else DefaultPageSize)"
  have "1 \<le> limit" "limit \<le> 20" by (simp_all add: limit_def DefaultPageSize_def)
  from page_count [OF assms this] show ?thesis by (simp add: New_def Let_def limit_def [symmetric])
qed

text \<open>The rows of a page: \<open>OFFSET pg_Skip LIMIT pg_Limit\<close> over the matching rows.\<close>

definition page_window :: "Pagination \<Rightarrow> 'a list \<Rightarrow> 'a list" where
  "page_window pg rows = take (nat (pg_Limit pg)) (drop (nat (pg_Skip pg)) rows)"

fun pages_upto :: "nat \<Rightarrow> int64 \<Rightarrow> 'a list \<Rightarrow> 'a list" where
  "pages_upto 0 sz rows = []"
| "pages_upto (Suc n) sz rows =
     pages_upto n sz rows @ page_window (New (int n + 1) sz (int (length rows))) rows"

lemma New_Skip:
  assumes "1 \<le> page" "page \<le> 2 ^ 50"
  shows "pg_TotalPage (New page sz tot) = 0 \<or>
         pg_Skip (New page sz tot) = (page - 1) * pg_Limit (New page sz tot)"
proof -
  define limit where "limit = (if 0 < sz \<and> sz \<le> DefaultPageSize then sz else DefaultPageSize)"
  have l: "1 \<le> limit" "limit \<le> 20" by (simp_all add: limit_def DefaultPageSize_def)
  then have "(page - 1) * limit \<le> 2 ^ 50 * 20" using assms by (intro mult_mono) auto
  then have "i64 ((page - 1) * limit) = (page - 1) * limit" "i64 (page - 1) = page - 1"
    using assms l by (intro i64_nonneg_id; simp add: max_i64_def)+
  then show ?thesis using assms by (simp add: New_def Let_def limit_def [symmetric])
qed

lemma New_Limit_eq: "pg_Limit (New page sz tot) = pg_Limit (New 1 sz tot')"
  by (simp add: New_def Let_def)

lemma pages_upto_take:
  assumes "int (length rows) \<le> exact_total_limit" "n \<le> 2 ^ 40" "rows \<noteq> []"
  shows "pages_upto n sz rows = take (n * nat (pg_Limit (New 1 sz 0))) rows"
  using assms(2)
proof (induction n)
  case (Suc n)
  let ?p = "New (int n + 1) sz (int (length rows))"
  have l: "pg_Limit ?p = pg_Limit (New 1 sz 0)" by (rule New_Limit_eq)
  have l1: "1 \<le> pg_Limit ?p" using New_Limit by blast
  have "0 < (int (length rows) + pg_Limit ?p - 1) div pg_Limit ?p"
    using assms(3) l1 by (simp add: pos_imp_zdiv_pos_iff)
  then have "pg_TotalPage ?p \<noteq> 0" using assms(1) by (simp add: New_values)
  then have "pg_Skip ?p = int n * pg_Limit ?p" using New_Skip [of "int n + 1" sz] Suc.prems by auto
  then have "page_window ?p rows = take (nat (pg_Limit ?p)) (drop (n * nat (pg_Limit ?p)) rows)"
    by (simp add: page_window_def nat_mult_distrib)
  moreover have "Suc n * nat (pg_Limit (New 1 sz 0)) = n * nat (pg_Limit (New 1 sz 0)) + nat (pg_Limit (New 1 sz 0))" by simp
  ultimately show ?case using Suc l by (simp only: pages_upto.simps take_add)
qed simp

section \<open>Properties\<close>

text \<open>
  C15: the page windows tile the result. Reading pages 1 to \<open>TotalPage\<close> one after the other
  returns every matching row exactly once and in order, although the page count is computed
  in floating point, and every page holds at most \<open>Limit\<close> (at most 20) rows.
\<close>

theorem pages_tile_result:
  assumes "int (length rows) \<le> exact_total_limit"
  shows "pages_upto (nat (pg_TotalPage (New 1 sz (int (length rows))))) sz rows = rows \<and>
         length (page_window (New page sz (int (length rows))) rows) \<le> 20"
proof
  let ?p = "New 1 sz (int (length rows))"
  have tp: "pg_TotalPage ?p = (int (length rows) + pg_Limit ?p - 1) div pg_Limit ?p"
    using assms by (simp add: New_values)
  have l: "1 \<le> pg_Limit ?p" "pg_Limit ?p = pg_Limit (New 1 sz 0)" "pg_Limit ?p \<le> 20"
    using New_Limit [of 1 sz] New_Limit_eq by blast+
  show "pages_upto (nat (pg_TotalPage ?p)) sz rows = rows"
  proof (cases "rows = []")
    case True
    then have "pg_TotalPage ?p = 0" using tp l(1) by simp
    with True show ?thesis by simp
  next
    case False
    have tp0: "0 \<le> pg_TotalPage ?p" using tp l(1) by (simp add: pos_imp_zdiv_nonneg_iff)
    have "int (length rows) \<le> pg_TotalPage ?p * pg_Limit ?p"
    proof -
      have "int (length rows) + pg_Limit ?p - 1 < (pg_TotalPage ?p + 1) * pg_Limit ?p"
        unfolding tp using l(1) by (subst div_less_iff_mult_int [symmetric]) auto
      then show ?thesis by (simp add: distrib_right)
    qed
    moreover have "pg_TotalPage ?p \<le> 2 ^ 40"
    proof -
      have "pg_TotalPage ?p \<le> int (length rows)"
        unfolding tp using l(1) False by (intro zdiv_le_length) (simp_all add: Suc_le_eq)
      then show ?thesis using assms by (simp add: exact_total_limit_def)
    qed
    ultimately have "length rows \<le> nat (pg_TotalPage ?p) * nat (pg_Limit (New 1 sz 0))"
      and "nat (pg_TotalPage ?p) \<le> 2 ^ 40"
      using tp0 l by (simp_all flip: nat_mult_distrib add: nat_le_iff)
    then show ?thesis using pages_upto_take [OF assms _ False] by simp
  qed
  have "pg_Limit (New page sz (int (length rows))) \<le> 20" using New_Limit by blast
  then show "length (page_window (New page sz (int (length rows))) rows) \<le> 20"
    by (simp add: page_window_def)
qed

theorem pages_tile_result_witness:
  "pages_upto (nat (pg_TotalPage (New 1 2 (int (length [10, 20, 30::int]))))) 2 [10, 20, 30] = [10, 20, 30::int] \<and>
     length (page_window (New 2 2 (int (length [10, 20, 30::int]))) [10, 20, 30::int]) \<le> 20"
  by (rule pages_tile_result) (simp add: exact_total_limit_def)

text \<open>
  The page number is not bounded by the page count, and \<open>(page - 1) * Limit\<close>
  wraps for a huge page: the offset handed to the query is negative.
\<close>

theorem huge_page_offset_negative:
  "pg_TotalPage (New (2 ^ 59 + 1) 20 100) = 5 \<and> pg_Skip (New (2 ^ 59 + 1) 20 100) = - 6917529027641081856"
proof -
  have t: "int64_of_float (math_Ceil (fdiv (float_of_int64 100) (float_of_int64 20))) = 5"
    using page_count [of 100 20] by (simp add: exact_total_limit_def)
  show ?thesis
    unfolding New_def Let_def DefaultPageSize_def by (simp add: t i64_def del: fdiv.simps math_Ceil.simps)
qed

end
