(* ===== verification/Models.thy ===== *)
theory Models
  imports Money Metrics Paging
begin

text \<open>
  The rows of the database and the state of the process.

  \<^item> \<open>internal/*/model\<close>: one record per struct, with the fields of the struct. The tables
    \<open>orders\<close> and \<open>products\<close> are read through two structs each (\<open>internal/order/model\<close>,
    \<open>internal/product/model\<close>, \<open>internal/cart/model\<close>) with the same columns; one record serves
    both. A \<open>time.Time\<close> is the nanosecond count since the Unix epoch; a pointer field is an
    \<open>option\<close>.
  \<^item> \<open>st\<close>: the tables, the metrics registry, and the world outside the program.
  \<^item> \<open>env\<close>: what the program reads from the outside world: the clock, UUIDs, random numbers,
    whether a database statement fails, which rows other transactions have locked, and the
    bcrypt library. Every read moves the world on,
    so two reads may differ.
\<close>

section \<open>Rows\<close>

type_synonym time = int
type_synonym duration = int

definition zero_time :: time where
  "zero_time = - 62135596800000000000"

definition IsZero :: "time \<Rightarrow> bool" where
  "IsZero t \<longleftrightarrow> t = zero_time"

record Product =
  p_ID :: string
  p_CreatedAt :: time
  p_UpdatedAt :: time
  p_DeletedAt :: "time option"
  p_Code :: string
  p_Name :: string
  p_Description :: string
  p_Price :: float64
  p_Active :: bool

record Inventory =
  inv_ID :: string
  inv_CreatedAt :: time
  inv_UpdatedAt :: time
  inv_DeletedAt :: "time option"
  inv_ProductID :: string
  inv_Quantity :: int64

record OrderLine =
  ol_ID :: string
  ol_CreatedAt :: time
  ol_UpdatedAt :: time
  ol_DeletedAt :: "time option"
  ol_OrderID :: string
  ol_ProductID :: string
  ol_Product :: "Product option"
  ol_Quantity :: uint
  ol_Price :: float64

type_synonym OrderStatus = string

definition OrderStatusNew :: OrderStatus where "OrderStatusNew = ''new''"
definition OrderStatusInProgress :: OrderStatus where "OrderStatusInProgress = ''in-progress''"
definition OrderStatusDone :: OrderStatus where "OrderStatusDone = ''done''"
definition OrderStatusCancelled :: OrderStatus where "OrderStatusCancelled = ''cancelled''"

lemmas OrderStatus_defs =
  OrderStatusNew_def OrderStatusInProgress_def OrderStatusDone_def OrderStatusCancelled_def

record Order =
  o_ID :: string
  o_CreatedAt :: time
  o_UpdatedAt :: time
  o_DeletedAt :: "time option"
  o_Code :: string
  o_UserID :: string
  o_Lines :: "OrderLine list"
  o_TotalPrice :: float64
  o_Status :: OrderStatus
  o_IdempotencyKey :: "string option"
  o_IdempotencyFingerprint :: "string option"
  o_IdempotencyReplay :: bool

type_synonym OutboxEventStatus = string

definition OutboxEventStatusPending :: OutboxEventStatus where "OutboxEventStatusPending = ''pending''"
definition OutboxEventStatusProcessing :: OutboxEventStatus where "OutboxEventStatusProcessing = ''processing''"
definition OutboxEventStatusPublished :: OutboxEventStatus where "OutboxEventStatusPublished = ''published''"
definition OutboxEventStatusDeadLetter :: OutboxEventStatus where "OutboxEventStatusDeadLetter = ''dead_letter''"

lemmas OutboxEventStatus_defs =
  OutboxEventStatusPending_def OutboxEventStatusProcessing_def
  OutboxEventStatusPublished_def OutboxEventStatusDeadLetter_def

record OutboxEvent =
  oe_ID :: string
  oe_AggregateType :: string
  oe_AggregateID :: string
  oe_EventType :: string
  oe_Payload :: string
  oe_Status :: OutboxEventStatus
  oe_Attempts :: int64
  oe_NextAttemptAt :: time
  oe_LockedAt :: "time option"
  oe_LockedBy :: string
  oe_CreatedAt :: time
  oe_PublishedAt :: "time option"

type_synonym UserRole = string

definition UserRoleAdmin :: UserRole where "UserRoleAdmin = ''admin''"
definition UserRoleCustomer :: UserRole where "UserRoleCustomer = ''customer''"

record User =
  u_ID :: string
  u_CreatedAt :: time
  u_UpdatedAt :: time
  u_DeletedAt :: "time option"
  u_Email :: string
  u_Password :: string
  u_Role :: UserRole
  u_TokenVersion :: uint

record CartLine =
  cl_CartID :: string
  cl_ProductID :: string
  cl_Product :: "Product option"
  cl_Quantity :: uint

record Cart =
  cart_ID :: string
  cart_CreatedAt :: time
  cart_UpdatedAt :: time
  cart_DeletedAt :: "time option"
  cart_UserID :: string
  cart_User :: "User option"
  cart_Lines :: "CartLine list"

section \<open>State\<close>

record 'w st =
  st_world :: 'w
  st_metrics :: registry
  st_users :: "User list"
  st_products :: "Product list"
  st_inventories :: "Inventory list"
  st_orders :: "Order list"
  st_order_lines :: "OrderLine list"
  st_outbox_events :: "OutboxEvent list"
  st_carts :: "Cart list"
  st_cart_lines :: "CartLine list"

text \<open>The state \<open>t\<close> with the tables of \<open>s\<close>: what a rolled back transaction leaves.\<close>

definition rollback :: "'w st \<Rightarrow> 'w st \<Rightarrow> 'w st" where
  "rollback s t = s\<lparr>st_world := st_world t, st_metrics := st_metrics t\<rparr>"

definition same_tables :: "'w st \<Rightarrow> 'w st \<Rightarrow> bool" where
  "same_tables s t \<longleftrightarrow> rollback s t = t"

definition same_metrics :: "'w st \<Rightarrow> 'w st \<Rightarrow> bool" where
  "same_metrics s t \<longleftrightarrow> st_metrics t = st_metrics s"

lemma same_tables_iff:
  "same_tables s t \<longleftrightarrow>
     st_users t = st_users s \<and> st_products t = st_products s \<and> st_inventories t = st_inventories s \<and>
     st_orders t = st_orders s \<and> st_order_lines t = st_order_lines s \<and>
     st_outbox_events t = st_outbox_events s \<and> st_carts t = st_carts s \<and> st_cart_lines t = st_cart_lines s"
  by (cases s; cases t) (auto simp: same_tables_def rollback_def)

lemma same_tables_refl [simp, intro]: "same_tables s s"
  by (simp add: same_tables_iff)

lemma same_tables_trans [trans]: "same_tables s t \<Longrightarrow> same_tables t u \<Longrightarrow> same_tables s u"
  by (simp add: same_tables_iff)

lemma reflp_same_tables [simp]: "reflp same_tables"
  by (simp add: reflp_def)

lemma transp_same_tables [simp]: "transp same_tables"
  by (auto simp: transp_def intro: same_tables_trans)

lemma reflp_same_metrics [simp]: "reflp same_metrics"
  by (simp add: reflp_def same_metrics_def)

lemma transp_same_metrics [simp]: "transp same_metrics"
  by (simp add: transp_def same_metrics_def)

lemma rollback_same [simp]: "same_tables s (rollback s t)" "same_tables s t \<Longrightarrow> rollback s t = t"
  by (auto simp: same_tables_def rollback_def)

lemma rollback_sel [simp]:
  "st_world (rollback s t) = st_world t" "st_metrics (rollback s t) = st_metrics t"
  by (simp_all add: rollback_def)

section \<open>The outside world\<close>

text \<open>Why a statement fails, when the schema below does not say it: the connection, the
  deadline, a foreign key.\<close>

datatype fault = Conn_fault string | Pg_fault string string

fun fault_err :: "fault \<Rightarrow> goerr" where
  "fault_err (Conn_fault m) = DriverErr m"
| "fault_err (Pg_fault code constraint) = PgError code constraint"

record 'w env =
  env_fault :: "'w \<Rightarrow> fault option \<times> 'w"
  env_locked :: "'w \<Rightarrow> (string \<Rightarrow> bool) \<times> 'w"
  env_now :: "'w \<Rightarrow> time \<times> 'w"
  env_date :: "'w \<Rightarrow> (int \<times> int \<times> int) \<times> 'w"
  env_uuid :: "'w \<Rightarrow> string \<times> 'w"
  env_rand :: "'w \<Rightarrow> nat \<times> 'w"
  env_bcrypt :: "string \<Rightarrow> 'w \<Rightarrow> (goerr + string) \<times> 'w"

definition askG :: "('w \<Rightarrow> 'a \<times> 'w) \<Rightarrow> ('w st, 'a) gom" where
  "askG f s = (let (x, w) = f (st_world s) in (Inr x, s\<lparr>st_world := w\<rparr>))"

definition metricG :: "(registry \<Rightarrow> registry) \<Rightarrow> ('w st, unit) gom" where
  "metricG f s = (Inr (), s\<lparr>st_metrics := f (st_metrics s)\<rparr>)"

lemma askG_iff [gom]:
  "askG f s = (r, t) \<longleftrightarrow> r = Inr (fst (f (st_world s))) \<and> t = s\<lparr>st_world := snd (f (st_world s))\<rparr>"
  by (auto simp: askG_def split: prod.splits)

lemma metricG_iff [gom]:
  "metricG f s = (r, t) \<longleftrightarrow> r = Inr () \<and> t = s\<lparr>st_metrics := f (st_metrics s)\<rparr>"
  by (auto simp: metricG_def)

named_theorems frames \<open>calls that change nothing but the outside world, or keep the tables\<close>

definition world_only :: "'w st \<Rightarrow> 'w st \<Rightarrow> bool" where
  "world_only s t \<longleftrightarrow> t = s\<lparr>st_world := st_world t\<rparr>"

lemma reflp_world_only [simp]: "reflp world_only"
  by (simp add: reflp_def world_only_def)

lemma transp_world_only [simp]: "transp world_only"
  by (auto simp: transp_def world_only_def) (metis st.update_convs(1) st.surjective)

lemma world_only_refl [simp]: "world_only s s"
  by (simp add: world_only_def)

lemma world_only_world [simp]: "world_only s (s\<lparr>st_world := w\<rparr>)"
  by (simp add: world_only_def)

lemma world_only_iff: "world_only s t \<longleftrightarrow> same_tables s t \<and> same_metrics s t"
  by (cases s; cases t) (auto simp: world_only_def same_tables_iff same_metrics_def)

lemma same_tables_world [simp]: "same_tables s (s\<lparr>st_world := w\<rparr>)" "same_tables s (s\<lparr>st_metrics := m\<rparr>)"
  by (simp_all add: same_tables_iff)

lemma world_only_moved [simp]:
  "world_only (s\<lparr>st_world := w\<rparr>) t \<longleftrightarrow> world_only s t" "world_only s (t\<lparr>st_world := w\<rparr>) \<longleftrightarrow> world_only s t"
  by (simp_all add: world_only_iff same_tables_iff same_metrics_def)

lemma keepsG_world_only [dest]:
  "keepsG world_only m \<Longrightarrow> keepsG same_tables m" "keepsG world_only m \<Longrightarrow> keepsG same_metrics m"
  by (auto simp: keepsG_def world_only_iff)

lemma world_onlyD:
  assumes "keepsG world_only m" "m s = (r, t)"
  shows "same_tables s t" "st_metrics t = st_metrics s"
  using keepsGD [OF assms] by (simp_all add: world_only_iff same_metrics_def)

lemma keepsG_if:
  "(c \<Longrightarrow> keepsG R m) \<Longrightarrow> (\<not> c \<Longrightarrow> keepsG R n) \<Longrightarrow> keepsG R (if c then m else n)"
  by simp

lemma keepsG_case_option:
  "(x = None \<Longrightarrow> keepsG R m) \<Longrightarrow> (\<And>y. x = Some y \<Longrightarrow> keepsG R (f y)) \<Longrightarrow>
     keepsG R (case x of None \<Rightarrow> m | Some y \<Rightarrow> f y)"
  by (cases x) simp_all

lemma keepsG_case_sum:
  "(\<And>y. x = Inl y \<Longrightarrow> keepsG R (g y)) \<Longrightarrow> (\<And>y. x = Inr y \<Longrightarrow> keepsG R (f y)) \<Longrightarrow>
     keepsG R (case x of Inl y \<Rightarrow> g y | Inr y \<Rightarrow> f y)"
  by (cases x) simp_all

lemma keepsG_case_prod:
  "(\<And>a b. x = (a, b) \<Longrightarrow> keepsG R (f a b)) \<Longrightarrow> keepsG R (case x of (a, b) \<Rightarrow> f a b)"
  by (cases x) simp

lemmas framing =
  keepsG_if keepsG_case_option keepsG_case_sum keepsG_case_prod
  keepsG_bind [OF transp_world_only] keepsG_bind [OF transp_same_tables]
  keepsG_try [OF transp_world_only] keepsG_try [OF transp_same_tables]
  keepsG_for [OF reflp_world_only transp_world_only] keepsG_for [OF reflp_same_tables transp_same_tables]
  keepsG_bind [OF transp_same_metrics] keepsG_try [OF transp_same_metrics]
  keepsG_for [OF reflp_same_metrics transp_same_metrics]

lemma askG_frame [frames, simp]:
  "keepsG world_only (askG f)" "keepsG same_tables (askG f)" "keepsG same_metrics (askG f)"
  by (auto intro!: keepsGI simp: gom same_metrics_def)

lemma metricG_frame [frames, simp]: "keepsG same_tables (metricG f)"
  by (auto intro!: keepsGI simp: gom)

end
