(* ===== verification/Utils.thy ===== *)
theory Utils
  imports Models
begin

text \<open>
  \<open>pkg/utils\<close> and the \<open>BeforeCreate\<close> hooks of \<open>internal/*/model\<close>, which give a row its
  identity before it is inserted. The lemmas show what a generated code looks like and that a
  hook touches nothing but the identity columns of its row.
\<close>

definition Charset :: string where "Charset = ''ABCDEFGHIJKLMNOPQRSTUVWXYZ0123456789''"

definition RandLength :: nat where "RandLength = 5"

definition upper :: "char \<Rightarrow> char" where
  "upper c = (if CHR ''a'' \<le> c \<and> c \<le> CHR ''z'' then char_of ((of_char c :: nat) - 32) else c)"

definition ToUpper :: "string \<Rightarrow> string" where
  "ToUpper = map upper"

text \<open>\<open>rand.Intn(n)\<close> is some number of \<open>{0..<n}\<close>.\<close>

definition Intn :: "'w env \<Rightarrow> nat \<Rightarrow> 'w \<Rightarrow> nat \<times> 'w" where
  "Intn E n w = (let (r, w') = env_rand E w in (r mod n, w'))"

fun stringWithCharset :: "'w env \<Rightarrow> nat \<Rightarrow> 'w \<Rightarrow> string \<times> 'w" where
  "stringWithCharset E 0 w = ('''', w)"
| "stringWithCharset E (Suc n) w =
     (let (i, w1) = Intn E (length Charset) w;
          (b, w2) = stringWithCharset E n w1
      in (Charset ! i # b, w2))"

definition two_digits :: "int \<Rightarrow> string" where
  "two_digits n = (if n < 10 then ''0'' @ show_int n else show_int n)"

definition GenerateCode :: "'w env \<Rightarrow> string \<Rightarrow> 'w \<Rightarrow> string \<times> 'w" where
  "GenerateCode E prefix w =
     (let ((year, month, day), w1) = env_date E w;
          y = two_digits (year mod 100);
          m = two_digits month;
          d = two_digits day;
          (suffix, w2) = stringWithCharset E RandLength w1
      in (ToUpper (prefix @ y @ m @ d @ suffix), w2))"

definition HashAndSalt :: "'w env \<Rightarrow> string \<Rightarrow> ('w st, string) gom" where
  "HashAndSalt E pass = bindG (askG (env_bcrypt E pass)) liftG"

section \<open>Hooks\<close>

definition Order_BeforeCreate :: "'w env \<Rightarrow> Order \<Rightarrow> ('w st, Order) gom" where
  "Order_BeforeCreate E ord =
     bindG (askG (env_uuid E)) (\<lambda>uuid.
     bindG (askG (GenerateCode E ''SO'')) (\<lambda>code.
     retG (ord\<lparr>o_ID := uuid, o_Code := code,
               o_Status := (if o_Status ord = '''' then OrderStatusNew else o_Status ord)\<rparr>)))"

definition OrderLine_BeforeCreate :: "'w env \<Rightarrow> OrderLine \<Rightarrow> ('w st, OrderLine) gom" where
  "OrderLine_BeforeCreate E line = bindG (askG (env_uuid E)) (\<lambda>uuid. retG (line\<lparr>ol_ID := uuid\<rparr>))"

definition Inventory_BeforeCreate :: "'w env \<Rightarrow> Inventory \<Rightarrow> ('w st, Inventory) gom" where
  "Inventory_BeforeCreate E m =
     (if inv_ID m = '''' then bindG (askG (env_uuid E)) (\<lambda>uuid. retG (m\<lparr>inv_ID := uuid\<rparr>)) else retG m)"

definition Product_BeforeCreate :: "'w env \<Rightarrow> Product \<Rightarrow> ('w st, Product) gom" where
  "Product_BeforeCreate E m =
     bindG (askG (env_uuid E)) (\<lambda>uuid.
     bindG (askG (GenerateCode E ''P'')) (\<lambda>code.
     retG (m\<lparr>p_ID := uuid, p_Code := code, p_Active := True\<rparr>)))"

definition User_BeforeCreate :: "'w env \<Rightarrow> User \<Rightarrow> ('w st, User) gom" where
  "User_BeforeCreate E user =
     bindG (askG (env_uuid E)) (\<lambda>uuid.
     bindG (HashAndSalt E (u_Password user)) (\<lambda>hashed.
     retG (user\<lparr>u_ID := uuid, u_Password := hashed,
                u_Role := (if u_Role user = '''' then UserRoleCustomer else u_Role user)\<rparr>)))"

definition Cart_BeforeCreate :: "'w env \<Rightarrow> Cart \<Rightarrow> ('w st, Cart) gom" where
  "Cart_BeforeCreate E cart = bindG (askG (env_uuid E)) (\<lambda>uuid. retG (cart\<lparr>cart_ID := uuid\<rparr>))"

definition OutboxEvent_BeforeCreate :: "'w env \<Rightarrow> OutboxEvent \<Rightarrow> ('w st, OutboxEvent) gom" where
  "OutboxEvent_BeforeCreate E event =
     bindG (if oe_ID event = '''' then askG (env_uuid E) else retG (oe_ID event)) (\<lambda>uuid.
     bindG (if IsZero (oe_NextAttemptAt event) then askG (env_now E) else retG (oe_NextAttemptAt event)) (\<lambda>next.
     retG (event\<lparr>oe_ID := uuid,
                 oe_Status := (if oe_Status event = '''' then OutboxEventStatusPending else oe_Status event),
                 oe_Payload := (if oe_Payload event = '''' then ''null'' else oe_Payload event),
                 oe_NextAttemptAt := next\<rparr>)))"

lemmas BeforeCreate_defs =
  Order_BeforeCreate_def OrderLine_BeforeCreate_def Inventory_BeforeCreate_def Product_BeforeCreate_def
  User_BeforeCreate_def Cart_BeforeCreate_def OutboxEvent_BeforeCreate_def

section \<open>Lemmas\<close>

lemma HashAndSalt_frame [frames, simp]: "keepsG world_only (HashAndSalt E p)"
  unfolding HashAndSalt_def by (auto intro!: framing)

lemma BeforeCreate_frame [frames, simp]:
  "keepsG world_only (Order_BeforeCreate E a)" "keepsG world_only (OrderLine_BeforeCreate E b)"
  "keepsG world_only (Inventory_BeforeCreate E c)" "keepsG world_only (Product_BeforeCreate E d)"
  "keepsG world_only (User_BeforeCreate E e)" "keepsG world_only (Cart_BeforeCreate E f)"
  "keepsG world_only (OutboxEvent_BeforeCreate E g)"
  unfolding BeforeCreate_defs by (auto intro!: framing)

lemma Order_BeforeCreate_Inr:
  "Order_BeforeCreate E a s = (Inr b, t) \<Longrightarrow>
     \<exists>uuid code. b = a\<lparr>o_ID := uuid, o_Code := code,
                      o_Status := (if o_Status a = '''' then OrderStatusNew else o_Status a)\<rparr>"
  by (auto simp: Order_BeforeCreate_def gom)

lemma OrderLine_BeforeCreate_Inr:
  "OrderLine_BeforeCreate E a s = (Inr b, t) \<Longrightarrow> \<exists>uuid. b = a\<lparr>ol_ID := uuid\<rparr>"
  by (auto simp: OrderLine_BeforeCreate_def gom)

lemma OutboxEvent_BeforeCreate_Inr:
  "OutboxEvent_BeforeCreate E a s = (Inr b, t) \<Longrightarrow>
     oe_AggregateType b = oe_AggregateType a \<and> oe_AggregateID b = oe_AggregateID a \<and>
     oe_EventType b = oe_EventType a \<and> oe_Attempts b = oe_Attempts a \<and>
     oe_LockedAt b = oe_LockedAt a \<and> oe_LockedBy b = oe_LockedBy a \<and> oe_PublishedAt b = oe_PublishedAt a \<and>
     oe_Status b = (if oe_Status a = '''' then OutboxEventStatusPending else oe_Status a) \<and>
     oe_Payload b = (if oe_Payload a = '''' then ''null'' else oe_Payload a)"
  by (auto simp: OutboxEvent_BeforeCreate_def gom)

lemma Inventory_BeforeCreate_Inr:
  "Inventory_BeforeCreate E a s = (Inr b, t) \<Longrightarrow>
     inv_ProductID b = inv_ProductID a \<and> inv_Quantity b = inv_Quantity a"
  by (auto simp: Inventory_BeforeCreate_def gom split: if_splits)

lemma two_digits_length: "0 \<le> n \<Longrightarrow> n < 100 \<Longrightarrow> length (two_digits n) = 2"
  by (auto simp: two_digits_def show_int_def show_nat.simps)

lemma stringWithCharset_range:
  "stringWithCharset E n w = (b, w') \<Longrightarrow> length b = n \<and> set b \<subseteq> set Charset"
proof (induction n arbitrary: b w w')
  case (Suc n)
  have "Charset ! (r mod length Charset) \<in> set Charset" for r
    by (intro nth_mem) (simp add: Charset_def)
  with Suc show ?case by (fastforce simp: Intn_def split: prod.splits)
qed simp

end
