(* ===== verification/Dbs.thy ===== *)
theory Dbs
  imports Utils "HOL-Library.Product_Lexorder"
begin

text \<open>
  \<open>pkg/dbs\<close>: the database wrapper over gorm, and the statements the repositories send.

  \<^item> A \<open>table\<close> describes one table: how its rows sit in the state, its columns, its \<open>CHECK\<close>
    constraints and unique indexes, and what gorm fills in.
  \<^item> A statement either fails as the world says (\<open>env_fault\<close>), or does what SQL says and
    fails on a violated constraint without changing a row.
  \<^item> A transaction that returns an error, or whose commit fails, leaves the tables as they
    were. An acknowledgement lost after a commit is not modelled.
  \<^item> The locale \<open>table\<close> is the contract of a table; the lemmas in it invert every operation.
\<close>

section \<open>Values and order\<close>

datatype sql_val = SBool bool | SInt int | SNum rat | SStr string

fun sql_key :: "sql_val \<Rightarrow> nat \<times> rat \<times> string" where
  "sql_key (SBool b) = (0, of_bool b, '''')"
| "sql_key (SInt i) = (1, of_int i, '''')"
| "sql_key (SNum q) = (2, q, '''')"
| "sql_key (SStr s) = (3, 0, s)"

lemma sql_key_inject [simp]: "sql_key a = sql_key b \<longleftrightarrow> a = b"
  by (cases a; cases b) auto

instantiation sql_val :: linorder
begin

definition less_eq_sql_val :: "sql_val \<Rightarrow> sql_val \<Rightarrow> bool" where
  "less_eq_sql_val a b \<longleftrightarrow> sql_key a \<le> sql_key b"

definition less_sql_val :: "sql_val \<Rightarrow> sql_val \<Rightarrow> bool" where
  "less_sql_val a b \<longleftrightarrow> sql_key a < sql_key b"

instance
  by standard
    (auto simp: less_eq_sql_val_def less_sql_val_def less_le_not_le simp flip: sql_key_inject)

end

record OrderByColumn =
  obc_Column :: string
  obc_Desc :: bool

definition SafeOrderByColumn ::
    "string \<Rightarrow> bool \<Rightarrow> string \<Rightarrow> (string \<rightharpoonup> string) \<Rightarrow> OrderByColumn" where
  "SafeOrderByColumn orderBy desc defaultColumn allowedColumns =
     (case allowedColumns orderBy of
        Some allowedColumn \<Rightarrow>
          if orderBy \<noteq> '''' then \<lparr>obc_Column = allowedColumn, obc_Desc = desc\<rparr>
          else \<lparr>obc_Column = defaultColumn, obc_Desc = False\<rparr>
      | None \<Rightarrow> \<lparr>obc_Column = defaultColumn, obc_Desc = False\<rparr>)"

section \<open>Options\<close>

record 'r find_option =
  fo_query :: "('r \<Rightarrow> bool) list"
  fo_order :: OrderByColumn
  fo_offset :: int64
  fo_limit :: int64
  fo_preloads :: "string list"

type_synonym 'r FindOption = "'r find_option \<Rightarrow> 'r find_option"

definition WithQuery :: "('r \<Rightarrow> bool) list \<Rightarrow> 'r FindOption" where
  "WithQuery query opt = opt\<lparr>fo_query := query\<rparr>"

definition WithOffset :: "int64 \<Rightarrow> 'r FindOption" where
  "WithOffset offset opt = opt\<lparr>fo_offset := offset\<rparr>"

definition WithLimit :: "int64 \<Rightarrow> 'r FindOption" where
  "WithLimit limit opt = opt\<lparr>fo_limit := limit\<rparr>"

definition WithOrder :: "OrderByColumn \<Rightarrow> 'r FindOption" where
  "WithOrder order opt = opt\<lparr>fo_order := order\<rparr>"

definition WithPreload :: "string list \<Rightarrow> 'r FindOption" where
  "WithPreload preloads opt = opt\<lparr>fo_preloads := preloads\<rparr>"

definition getOption :: "'r FindOption list \<Rightarrow> 'r find_option" where
  "getOption opts = fold (\<lambda>apply opt. apply opt) opts
     \<lparr>fo_query = [], fo_order = \<lparr>obc_Column = ''id'', obc_Desc = False\<rparr>,
      fo_offset = 0, fo_limit = 1000, fo_preloads = []\<rparr>"

lemmas option_defs = WithQuery_def WithOffset_def WithLimit_def WithOrder_def WithPreload_def getOption_def

section \<open>Tables\<close>

record ('w, 'r) table =
  tb_rows :: "'w st \<Rightarrow> 'r list"
  tb_put :: "'r list \<Rightarrow> 'w st \<Rightarrow> 'w st"
  tb_key :: "'r \<Rightarrow> string list"
  tb_column :: "string \<Rightarrow> ('r \<Rightarrow> sql_val) option"
  tb_check :: "'r \<Rightarrow> string option"
  tb_unique :: "(string \<times> ('r \<Rightarrow> 'r \<Rightarrow> bool)) list"
  tb_preload :: "string \<Rightarrow> 'w st \<Rightarrow> 'r \<Rightarrow> 'r"
  tb_created :: "time \<Rightarrow> 'r \<Rightarrow> 'r"
  tb_updated :: "time \<Rightarrow> 'r \<Rightarrow> 'r"
  tb_stored :: "'r \<Rightarrow> 'r"
  tb_before_create :: "'r \<Rightarrow> ('w st, 'r) gom"

text \<open>The constraint that a row violates beside the rows \<open>others\<close>.\<close>

definition violation :: "('w, 'r) table \<Rightarrow> 'r list \<Rightarrow> 'r \<Rightarrow> goerr option" where
  "violation tb others r =
     (case tb_check tb r of
        Some constraint \<Rightarrow> Some (PgError ''23514'' constraint)
      | None \<Rightarrow>
          map_option (\<lambda>(constraint, _). PgError ''23505'' constraint)
            (find (\<lambda>(_, clash). \<exists>x \<in> set others. clash x r) (tb_unique tb)))"

definition matches :: "'r find_option \<Rightarrow> 'r \<Rightarrow> bool" where
  "matches opt r \<longleftrightarrow> (\<forall>q \<in> set (fo_query opt). q r)"

definition order_rows :: "('r \<Rightarrow> sql_val) \<Rightarrow> bool \<Rightarrow> 'r list \<Rightarrow> 'r list" where
  "order_rows col desc rows = (if desc then rev (sort_key col (rev rows)) else sort_key col rows)"

definition window :: "int64 \<Rightarrow> int64 \<Rightarrow> 'r list \<Rightarrow> 'r list" where
  "window offset limit rows =
     (let rest = (if 0 < offset then drop (nat offset) rows else rows)
      in if 0 < limit then take (nat limit) rest else rest)"

section \<open>Statements\<close>

definition stmtG :: "'w env \<Rightarrow> ('w st, 'a) gom \<Rightarrow> ('w st, 'a) gom" where
  "stmtG E act =
     bindG (askG (env_fault E)) (\<lambda>f. case f of None \<Rightarrow> act | Some x \<Rightarrow> throwG (fault_err x))"

definition queryG :: "('w st \<Rightarrow> goerr + 'a) \<Rightarrow> ('w st, 'a) gom" where
  "queryG f s = (f s, s)"

definition insertG :: "('w, 'r) table \<Rightarrow> 'r \<Rightarrow> ('w st, unit) gom" where
  "insertG tb r s =
     (case violation tb (tb_rows tb s) r of
        Some e \<Rightarrow> (Inl e, s)
      | None \<Rightarrow> (Inr (), tb_put tb (tb_rows tb s @ [tb_stored tb r]) s))"

text \<open>
  \<open>UPDATE ... SET f WHERE p\<close>: every row that matches is replaced, or the statement fails
  on the first row that cannot be; the number of rows and the new rows are returned.
\<close>

fun update_rows :: "('r \<Rightarrow> bool) \<Rightarrow> ('r \<Rightarrow> goerr + 'r) \<Rightarrow> 'r list \<Rightarrow> goerr + 'r list" where
  "update_rows p f [] = Inr []"
| "update_rows p f (r # rs) =
     (case (if p r then f r else Inr r) of
        Inl e \<Rightarrow> Inl e
      | Inr r' \<Rightarrow> (case update_rows p f rs of Inl e \<Rightarrow> Inl e | Inr rs' \<Rightarrow> Inr (r' # rs')))"

definition updateG :: "('w, 'r) table \<Rightarrow> ('r \<Rightarrow> bool) \<Rightarrow> ('r \<Rightarrow> goerr + 'r) \<Rightarrow> ('w st, 'r list) gom" where
  "updateG tb p f s =
     (let checked = (\<lambda>r. case f r of Inl e \<Rightarrow> Inl e
                                   | Inr r' \<Rightarrow> (case violation tb (filter (\<lambda>x. tb_key tb x \<noteq> tb_key tb r) (tb_rows tb s)) r' of
                                                 Some e \<Rightarrow> Inl e | None \<Rightarrow> Inr (tb_stored tb r')))
      in case update_rows p checked (tb_rows tb s) of
           Inl e \<Rightarrow> (Inl e, s)
         | Inr rows \<Rightarrow> (Inr (map snd (filter (\<lambda>(r, r'). p r) (zip (tb_rows tb s) rows))), tb_put tb rows s))"

text \<open>\<open>INSERT ... ON CONFLICT (cols) DO UPDATE SET f RETURNING *\<close>.\<close>

definition upsertG :: "('w, 'r) table \<Rightarrow> ('r \<Rightarrow> 'r \<Rightarrow> bool) \<Rightarrow> ('r \<Rightarrow> goerr + 'r) \<Rightarrow> 'r \<Rightarrow> ('w st, 'r list) gom" where
  "upsertG tb conflict f r s =
     (case tb_check tb r of
        Some constraint \<Rightarrow> (Inl (PgError ''23514'' constraint), s)
      | None \<Rightarrow>
          if \<exists>x \<in> set (tb_rows tb s). conflict x r then updateG tb (\<lambda>x. conflict x r) f s
          else bindG (insertG tb r) (\<lambda>_. retG [tb_stored tb r]) s)"

definition deleteG :: "('w, 'r) table \<Rightarrow> ('r \<Rightarrow> bool) \<Rightarrow> ('w st, unit) gom" where
  "deleteG tb p s = (Inr (), tb_put tb (filter (\<lambda>r. \<not> p r) (tb_rows tb s)) s)"

section \<open>The operations of the wrapper\<close>

definition WithTransactionContext :: "'w env \<Rightarrow> ('w st, 'a) gom \<Rightarrow> ('w st, 'a) gom" where
  "WithTransactionContext E body =
     bindG (stmtG E (retG ())) (\<lambda>_ s.
       case body s of
         (Inl e, t) \<Rightarrow> (Inl e, rollback s t)
       | (Inr x, t) \<Rightarrow>
           (case stmtG E (retG ()) t of
              (Inl e, u) \<Rightarrow> (Inl e, rollback s u)
            | (Inr _, u) \<Rightarrow> (Inr x, u)))"

definition WithTransaction :: "'w env \<Rightarrow> ('w st, 'a) gom \<Rightarrow> ('w st, 'a) gom" where
  "WithTransaction E body = WithTransactionContext E body"

definition Create :: "'w env \<Rightarrow> ('w, 'r) table \<Rightarrow> 'r \<Rightarrow> ('w st, 'r) gom" where
  "Create E tb doc =
     bindG (tb_before_create tb doc) (\<lambda>d.
     bindG (askG (env_now E)) (\<lambda>now.
     let row = tb_created tb now d in
     bindG (stmtG E (insertG tb row)) (\<lambda>_. retG row)))"

fun chunks :: "nat \<Rightarrow> 'a list \<Rightarrow> 'a list list" where
  "chunks n [] = []"
| "chunks n (x # xs) = take (max 1 n) (x # xs) # chunks n (drop (max 1 n) (x # xs))"

fun before_create_all :: "('w, 'r) table \<Rightarrow> 'r list \<Rightarrow> ('w st, 'r list) gom" where
  "before_create_all tb [] = retG []"
| "before_create_all tb (d # ds) =
     bindG (tb_before_create tb d) (\<lambda>x. bindG (before_create_all tb ds) (\<lambda>xs. retG (x # xs)))"

text \<open>One \<open>INSERT\<close> of several rows: all of them, or none.\<close>

definition insertManyG :: "('w, 'r) table \<Rightarrow> 'r list \<Rightarrow> ('w st, unit) gom" where
  "insertManyG tb rows s =
     (case forG rows (insertG tb) s of (Inl e, t) \<Rightarrow> (Inl e, s) | (Inr u, t) \<Rightarrow> (Inr u, t))"

fun createBatches :: "'w env \<Rightarrow> ('w, 'r) table \<Rightarrow> 'r list list \<Rightarrow> ('w st, 'r list) gom" where
  "createBatches E tb [] = retG []"
| "createBatches E tb (b # bs) =
     bindG (before_create_all tb b) (\<lambda>ds.
     bindG (askG (env_now E)) (\<lambda>now.
     let rows = map (tb_created tb now) ds in
     bindG (stmtG E (insertManyG tb rows)) (\<lambda>_.
     bindG (createBatches E tb bs) (\<lambda>rest. retG (rows @ rest)))))"

definition CreateInBatches :: "'w env \<Rightarrow> ('w, 'r) table \<Rightarrow> 'r list \<Rightarrow> nat \<Rightarrow> ('w st, 'r list) gom" where
  "CreateInBatches E tb docs batchSize s =
     (case createBatches E tb (chunks batchSize docs) s of
        (Inl e, t) \<Rightarrow> (Inl e, rollback s t)
      | (Inr rows, t) \<Rightarrow> (Inr rows, t))"

text \<open>
  \<open>Save\<close> updates every column of the row with the key of the document. When there is no such row it
  inserts the document as it is, without its hook and with \<open>ON CONFLICT DO UPDATE\<close> of every column. The documents
  that are saved were read from the table, so their key is set.
\<close>

definition Update :: "'w env \<Rightarrow> ('w, 'r) table \<Rightarrow> 'r \<Rightarrow> ('w st, 'r) gom" where
  "Update E tb doc =
     bindG (askG (env_now E)) (\<lambda>now.
     let row = tb_updated tb now doc in
     bindG (stmtG E (updateG tb (\<lambda>r. tb_key tb r = tb_key tb row) (\<lambda>_. Inr row))) (\<lambda>updated.
     if updated = [] then
      bindG (askG (env_now E)) (\<lambda>now.
      let new = tb_created tb now row in
      bindG (stmtG E (upsertG tb (\<lambda>x r. tb_key tb x = tb_key tb r) (\<lambda>_. Inr new) new)) (\<lambda>_. retG new))
    else retG row))"

fun preloadG :: "'w env \<Rightarrow> ('w, 'r) table \<Rightarrow> string list \<Rightarrow> 'r list \<Rightarrow> ('w st, 'r list) gom" where
  "preloadG E tb [] rs = retG rs"
| "preloadG E tb (name # names) rs =
     bindG (stmtG E (queryG (\<lambda>s. Inr (map (tb_preload tb name s) rs)))) (preloadG E tb names)"

definition select :: "('w, 'r) table \<Rightarrow> 'r find_option \<Rightarrow> 'w st \<Rightarrow> goerr + 'r list" where
  "select tb opt s =
     (case tb_column tb (obc_Column (fo_order opt)) of
        None \<Rightarrow> Inl (PgError ''42703'' '''')
      | Some col \<Rightarrow>
          Inr (window (fo_offset opt) (fo_limit opt)
                 (order_rows col (obc_Desc (fo_order opt)) (filter (matches opt) (tb_rows tb s)))))"

definition first :: "'r list \<Rightarrow> goerr + 'r" where
  "first rows = (case rows of [] \<Rightarrow> Inl ErrRecordNotFound | r # _ \<Rightarrow> Inr r)"

definition Find :: "'w env \<Rightarrow> ('w, 'r) table \<Rightarrow> 'r FindOption list \<Rightarrow> ('w st, 'r list) gom" where
  "Find E tb opts =
     (let opt = getOption opts in
      bindG (stmtG E (queryG (select tb opt))) (preloadG E tb (fo_preloads opt)))"

definition FindOne :: "'w env \<Rightarrow> ('w, 'r) table \<Rightarrow> 'r FindOption list \<Rightarrow> ('w st, 'r) gom" where
  "FindOne E tb opts =
     (let opt = (getOption opts)\<lparr>fo_limit := 1\<rparr> in
      bindG (stmtG E (queryG (select tb opt))) (\<lambda>rows.
      bindG (liftG (first rows)) (\<lambda>r.
      bindG (preloadG E tb (fo_preloads opt) [r]) (\<lambda>rs. retG (hd rs)))))"

definition FindById :: "'w env \<Rightarrow> ('w, 'r) table \<Rightarrow> string \<Rightarrow> ('w st, 'r) gom" where
  "FindById E tb id' =
     stmtG E (queryG (\<lambda>s. first (filter (\<lambda>r. tb_key tb r = [id']) (tb_rows tb s))))"

definition Count :: "'w env \<Rightarrow> ('w, 'r) table \<Rightarrow> 'r FindOption list \<Rightarrow> ('w st, int64) gom" where
  "Count E tb opts =
     stmtG E (queryG (\<lambda>s. Inr (int (length (filter (matches (getOption opts)) (tb_rows tb s))))))"

definition Delete :: "'w env \<Rightarrow> ('w, 'r) table \<Rightarrow> 'r FindOption list \<Rightarrow> ('w st, unit) gom" where
  "Delete E tb opts = stmtG E (deleteG tb (matches (getOption opts)))"

section \<open>Statements: lemmas\<close>

lemma world_only_trans [trans]: "world_only s t \<Longrightarrow> world_only t u \<Longrightarrow> world_only s u"
  using transp_world_only by (rule transpD)

lemma queryG_iff [gom]: "queryG f s = (r, t) \<longleftrightarrow> r = f s \<and> t = s"
  by (auto simp: queryG_def)

lemma queryG_frame [frames, simp]: "keepsG world_only (queryG f)"
  by (auto intro!: keepsGI simp: gom)

lemma stmtG_frame [frames, simp]: "keepsG world_only m \<Longrightarrow> keepsG world_only (stmtG E m)"
  unfolding stmtG_def by (auto intro!: framing)

lemma stmtG_Inr:
  assumes "stmtG E m s = (Inr x, t)"
  obtains u where "world_only s u" "m u = (Inr x, t)"
proof -
  from assms have "m (s\<lparr>st_world := snd (env_fault E (st_world s))\<rparr>) = (Inr x, t)"
    by (auto simp: stmtG_def gom split: option.splits)
  from that [OF world_only_world this] show ?thesis .
qed

lemma stmtG_Inl:
  assumes "stmtG E m s = (Inl e, t)"
  obtains "world_only s t" | u where "world_only s u" "m u = (Inl e, t)"
proof -
  from assms have "world_only s t \<or> m (s\<lparr>st_world := snd (env_fault E (st_world s))\<rparr>) = (Inl e, t)"
    by (auto simp: stmtG_def gom split: option.splits)
  then show ?thesis
  proof
    assume "m (s\<lparr>st_world := snd (env_fault E (st_world s))\<rparr>) = (Inl e, t)"
    from that(2) [OF world_only_world this] show ?thesis .
  qed (rule that(1))
qed

lemma preloadG_frame [frames, simp]: "keepsG world_only (preloadG E tb names rs)"
  by (induction names arbitrary: rs) (auto intro!: framing)

lemma reads_frame [frames, simp]:
  "keepsG world_only (Find E tb opts)" "keepsG world_only (FindOne E tb opts)"
  "keepsG world_only (FindById E tb i)" "keepsG world_only (Count E tb opts)"
  by (auto simp: Find_def FindOne_def FindById_def Count_def Let_def intro!: framing)

text \<open>The rows of a page are rows of the table that match.\<close>

lemma order_rows_set [simp]: "set (order_rows col desc rows) = set rows"
  by (simp add: order_rows_def)

lemma window_subset: "set (window off l rows) \<subseteq> set rows"
  unfolding window_def Let_def by (auto dest: in_set_takeD in_set_dropD)

lemma select_subset: "select tb opt s = Inr rows \<Longrightarrow> set rows \<subseteq> {r \<in> set (tb_rows tb s). matches opt r}"
  by (auto simp: select_def split: option.splits dest!: window_subset [THEN subsetD])

lemma first_Inr: "first rows = Inr r \<Longrightarrow> r \<in> set rows"
  by (auto simp: first_def split: list.splits)

lemma first_Inl: "first rows = Inl e \<longleftrightarrow> rows = [] \<and> e = ErrRecordNotFound"
  by (auto simp: first_def split: list.splits)

lemma window_one_empty: "window 0 1 rows = [] \<longleftrightarrow> rows = []"
  by (simp add: window_def)

lemma order_rows_Nil [simp]: "order_rows col desc rows = [] \<longleftrightarrow> rows = []"
  by (metis order_rows_set set_empty)

text \<open>Updates.\<close>

lemma update_rows_Inr:
  "update_rows p f rs = Inr rs' \<Longrightarrow>
     list_all2 (\<lambda>r r'. if p r then f r = Inr r' else r' = r) rs rs'"
proof (induction rs arbitrary: rs')
  case (Cons r rs)
  from Cons.prems obtain x xs where "(if p r then f r else Inr r) = Inr x" "update_rows p f rs = Inr xs" "rs' = x # xs"
    by (auto split: sum.splits)
  with Cons.IH [of xs] show ?case by (auto split: if_splits)
qed simp

lemma update_rows_Inl: "update_rows p f rs = Inl e \<Longrightarrow> \<exists>r \<in> set rs. p r \<and> f r = Inl e"
  by (induction rs) (auto split: if_splits sum.splits)

lemma zip_filter_fst:
  "length xs = length ys \<Longrightarrow> map fst (filter (\<lambda>(x, y). p x) (zip xs ys)) = filter p xs"
  by (induction xs ys rule: list_induct2) auto

text \<open>
  A row \<open>r\<close> that matches is stored as what \<open>f\<close> makes of it, and satisfies the constraints.
\<close>

definition updated_row :: "('w, 'r) table \<Rightarrow> ('r \<Rightarrow> bool) \<Rightarrow> ('r \<Rightarrow> goerr + 'r) \<Rightarrow> 'r \<Rightarrow> 'r \<Rightarrow> bool" where
  "updated_row tb p f r r' \<longleftrightarrow>
     (if p r then \<exists>x. f r = Inr x \<and> r' = tb_stored tb x \<and> tb_check tb x = None else r' = r)"

lemma violation_None_check: "violation tb others r = None \<Longrightarrow> tb_check tb r = None"
  by (auto simp: violation_def split: option.splits)

lemma violation_None_unique:
  "violation tb others r = None \<Longrightarrow> (c, clash) \<in> set (tb_unique tb) \<Longrightarrow> x \<in> set others \<Longrightarrow> \<not> clash x r"
  by (auto simp: violation_def find_None_iff_all split: option.splits)

lemma updateG_Inr:
  assumes "updateG tb p f s = (Inr upd, t)"
  obtains rows where "t = tb_put tb rows s" "list_all2 (updated_row tb p f) (tb_rows tb s) rows"
    "upd = map snd (filter (\<lambda>(r, r'). p r) (zip (tb_rows tb s) rows))"
    "length upd = length (filter p (tb_rows tb s))"
proof -
  from assms obtain rows where 1: "t = tb_put tb rows s"
    "upd = map snd (filter (\<lambda>(r, r'). p r) (zip (tb_rows tb s) rows))" and
    2: "update_rows p (\<lambda>r. case f r of Inl e \<Rightarrow> Inl e
           | Inr r' \<Rightarrow> (case violation tb (filter (\<lambda>x. tb_key tb x \<noteq> tb_key tb r) (tb_rows tb s)) r' of
                         Some e \<Rightarrow> Inl e | None \<Rightarrow> Inr (tb_stored tb r'))) (tb_rows tb s) = Inr rows"
    by (auto simp: updateG_def Let_def split: sum.splits)
  have 3: "list_all2 (updated_row tb p f) (tb_rows tb s) rows"
    using update_rows_Inr [OF 2]
    by (rule list_all2_mono)
      (auto simp: updated_row_def split: if_splits sum.splits option.splits dest: violation_None_check)
  then have "length (tb_rows tb s) = length rows" by (rule list_all2_lengthD)
  then have "length upd = length (filter p (tb_rows tb s))"
    using 1(2) by (metis length_map zip_filter_fst)
  with 1 3 that show ?thesis by blast
qed

lemma updateG_Inl: "updateG tb p f s = (Inl e, t) \<Longrightarrow> t = s"
  by (auto simp: updateG_def Let_def split: sum.splits)

definition preload_row :: "('w, 'r) table \<Rightarrow> string list \<Rightarrow> 'w st \<Rightarrow> 'r \<Rightarrow> 'r" where
  "preload_row tb names s r = fold (\<lambda>name x. tb_preload tb name s x) names r"

lemma preload_row_Nil [simp]: "preload_row tb [] s = (\<lambda>r. r)"
  by (simp add: preload_row_def fun_eq_iff)

lemma fault_err_neq [simp]: "fault_err f \<noteq> ErrRecordNotFound" "ErrRecordNotFound \<noteq> fault_err f"
  by (cases f; simp)+

lemma update_rows_none:
  "update_rows p f rs = Inr rs' \<Longrightarrow> filter p rs = [] \<Longrightarrow> rs' = rs"
  by (induction rs arbitrary: rs') (auto split: sum.splits if_splits)

text \<open>The errors of a statement come from the driver or from PostgreSQL.\<close>

fun sql_error :: "goerr \<Rightarrow> bool" where
  "sql_error (DriverErr m) = True"
| "sql_error (PgError c k) = True"
| "sql_error e = False"

lemma fault_sql_error [simp]: "sql_error (fault_err f)"
  by (cases f) simp_all

lemma sql_error_Is [simp]: "sql_error e \<Longrightarrow> errors_Is e d \<longleftrightarrow> e = d"
  by (cases e) simp_all

lemma violation_sql_error: "violation tb xs r = Some e \<Longrightarrow> sql_error e"
  by (auto simp: violation_def split: option.splits prod.splits)

lemma updateG_sql_error:
  assumes "updateG tb p f s = (Inl e, t)" "\<And>r d. f r = Inl d \<Longrightarrow> sql_error d"
  shows "sql_error e"
  using assms
  by (auto simp: updateG_def Let_def split: sum.splits option.splits
      dest!: update_rows_Inl intro: violation_sql_error)

lemma stmtG_sql_error:
  assumes "stmtG E m s = (Inl e, t)" "\<And>u. m u = (Inl e, t) \<Longrightarrow> sql_error e"
  shows "sql_error e"
  using assms by (auto simp: stmtG_def gom split: option.splits)

section \<open>The contract of a table\<close>

locale table =
  fixes tb :: "('w, 'r) table"
  assumes rows_put [simp]: "tb_rows tb (tb_put tb rs s) = rs"
    and put_rows: "tb_put tb (tb_rows tb s) s = s"
    and put_put: "tb_put tb rs (tb_put tb rs' s) = tb_put tb rs s"
    and rows_world [simp]: "tb_rows tb (s\<lparr>st_world := w\<rparr>) = tb_rows tb s"
    and put_world: "tb_put tb rs (s\<lparr>st_world := w\<rparr>) = (tb_put tb rs s)\<lparr>st_world := w\<rparr>"
    and put_metrics [simp]: "st_metrics (tb_put tb rs s) = st_metrics s"
    and hook_frame [simp]: "keepsG world_only (tb_before_create tb r)"
    and updated_key [simp]: "tb_key tb (tb_updated tb now r) = tb_key tb r"
    and preload_world: "tb_preload tb name (s\<lparr>st_world := w\<rparr>) = tb_preload tb name s"
begin

lemma rows_cong: "world_only s t \<Longrightarrow> tb_rows tb t = tb_rows tb s"
  by (metis rows_world world_only_def)

lemma put_cong: "world_only s t \<Longrightarrow> world_only (tb_put tb rs s) (tb_put tb rs t)"
  by (metis put_world world_only_def world_only_world)

lemma insertG_Inr: "insertG tb r s = (Inr u, t) \<longleftrightarrow>
    violation tb (tb_rows tb s) r = None \<and> t = tb_put tb (tb_rows tb s @ [tb_stored tb r]) s"
  by (auto simp: insertG_def split: option.splits)

lemma insertG_Inl: "insertG tb r s = (Inl e, t) \<longleftrightarrow> violation tb (tb_rows tb s) r = Some e \<and> t = s"
  by (auto simp: insertG_def split: option.splits)

lemma insertG_stmt_Inl: "stmtG E (insertG tb r) s = (Inl e, t) \<Longrightarrow> world_only s t"
  by (elim stmtG_Inl) (auto simp: insertG_Inl)

lemma insertG_stmt_Inr:
  assumes "stmtG E (insertG tb r) s = (Inr u, t)"
  shows "violation tb (tb_rows tb s) r = None \<and> world_only (tb_put tb (tb_rows tb s @ [tb_stored tb r]) s) t"
proof -
  from assms obtain v where v: "world_only s v" "insertG tb r v = (Inr u, t)" by (rule stmtG_Inr)
  with rows_cong [OF v(1)] put_cong [OF v(1)] show ?thesis by (simp add: insertG_Inr)
qed

lemma Create_run:
  assumes "Create E tb doc s = (r, t)"
  obtains (hook) e where "r = Inl e" "world_only s t"
  | (insert) d now u v res where "tb_before_create tb doc s = (Inr d, u)" "world_only s v"
      "stmtG E (insertG tb (tb_created tb now d)) v = (res, t)"
      "r = (case res of Inl e \<Rightarrow> Inl e | Inr _ \<Rightarrow> Inr (tb_created tb now d))"
proof (cases "tb_before_create tb doc s")
  case (Pair h u)
  have su: "world_only s u" using keepsGD [OF hook_frame Pair] .
  show ?thesis
  proof (cases h)
    case (Inl e)
    with assms Pair have "r = Inl e" "u = t" by (auto simp: Create_def bindG_def)
    with su hook show ?thesis by blast
  next
    case (Inr d)
    let ?now = "fst (env_now E (st_world u))" and ?v = "u\<lparr>st_world := snd (env_now E (st_world u))\<rparr>"
    obtain res w where q: "stmtG E (insertG tb (tb_created tb ?now d)) ?v = (res, w)" by fastforce
    with assms Pair Inr have "w = t" "r = (case res of Inl e \<Rightarrow> Inl e | Inr _ \<Rightarrow> Inr (tb_created tb ?now d))"
      by (auto simp: Create_def bindG_def askG_def retG_def Let_def split: prod.splits sum.splits)
    moreover have v: "world_only s ?v" using su world_only_world by (rule world_only_trans)
    ultimately show ?thesis using q Pair Inr by (intro insert [of d u ?v ?now res]) simp_all
  qed
qed

lemma Create_Inl:
  assumes "Create E tb doc s = (Inl e, t)"
  shows "world_only s t"
  using assms
proof (cases rule: Create_run)
  case (insert d now u v res)
  then obtain e' where "res = Inl e'" by (cases res) auto
  with insert show ?thesis using insertG_stmt_Inl world_only_trans by blast
qed

lemma Create_Inr:
  assumes "Create E tb doc s = (Inr row, t)"
  obtains d now u where "tb_before_create tb doc s = (Inr d, u)" "row = tb_created tb now d"
    "violation tb (tb_rows tb s) row = None"
    "world_only (tb_put tb (tb_rows tb s @ [tb_stored tb row]) s) t"
  using assms
proof (cases rule: Create_run)
  case (insert d now u v res)
  then obtain x where x: "res = Inr x" and row: "row = tb_created tb now d" by (cases res) auto
  from insert(3) have "stmtG E (insertG tb row) v = (Inr x, t)" by (simp add: x row)
  from insertG_stmt_Inr [OF this] rows_cong [OF insert(2)]
  have i: "violation tb (tb_rows tb s) row = None"
    "world_only (tb_put tb (tb_rows tb s @ [tb_stored tb row]) v) t" by simp_all
  from that [OF insert(1) row i(1) world_only_trans [OF put_cong [OF insert(2)] i(2)]] show ?thesis .
qed simp

lemma updateG_stmt_Inr:
  assumes "stmtG E (updateG tb p f) s = (Inr upd, t)"
  obtains rows where "world_only (tb_put tb rows s) t" "list_all2 (updated_row tb p f) (tb_rows tb s) rows"
    "upd = map snd (filter (\<lambda>(r, r'). p r) (zip (tb_rows tb s) rows))"
    "length upd = length (filter p (tb_rows tb s))"
proof -
  from assms obtain u where u: "world_only s u" "updateG tb p f u = (Inr upd, t)" by (rule stmtG_Inr)
  from u(2) obtain rows where "t = tb_put tb rows u" "list_all2 (updated_row tb p f) (tb_rows tb u) rows"
    "upd = map snd (filter (\<lambda>(r, r'). p r) (zip (tb_rows tb u) rows))"
    "length upd = length (filter p (tb_rows tb u))" by (rule updateG_Inr)
  with rows_cong [OF u(1)] put_cong [OF u(1)] that show ?thesis by metis
qed

lemma updateG_none:
  assumes "updateG tb p f s = (Inr [], t)"
  shows "t = s"
proof -
  from assms have "filter p (tb_rows tb s) = []" by (auto elim: updateG_Inr)
  with assms show ?thesis
    by (auto simp: updateG_def Let_def put_rows split: sum.splits dest: update_rows_none)
qed

lemma updateG_stmt_Inl:
  assumes "stmtG E (updateG tb p f) s = (Inl e, t)"
  shows "world_only s t"
  using assms by (elim stmtG_Inl) (auto dest: updateG_Inl)

lemma before_create_all_frame [simp]: "keepsG world_only (before_create_all tb ds)"
  by (induction ds) (auto intro!: framing)

lemma insert_all_Inr:
  "forG rs (insertG tb) s = (Inr u, t) \<Longrightarrow>
     t = tb_put tb (tb_rows tb s @ map (tb_stored tb) rs) s \<and> (\<forall>r \<in> set rs. tb_check tb r = None)"
proof (induction rs arbitrary: s)
  case (Cons r rs)
  from Cons.prems have v: "violation tb (tb_rows tb s) r = None"
    and rest: "forG rs (insertG tb) (tb_put tb (tb_rows tb s @ [tb_stored tb r]) s) = (Inr u, t)"
    by (auto simp: bindG_Inr_iff insertG_Inr)
  from Cons.IH [OF rest] violation_None_check [OF v] show ?case by (simp add: put_put)
qed (simp add: gom put_rows)

text \<open>A batch that holds all the documents is one statement.\<close>

lemma CreateInBatches_Inr:
  assumes "CreateInBatches E tb docs (length docs) s = (Inr rows, t)"
  obtains ds u now where "before_create_all tb docs s = (Inr ds, u)" "rows = map (tb_created tb now) ds"
    "world_only (tb_put tb (tb_rows tb s @ map (tb_stored tb) rows) s) t"
    "\<forall>r \<in> set rows. tb_check tb r = None"
proof (cases docs)
  case Nil
  with assms that [of "[]" s 0] show ?thesis by (auto simp: CreateInBatches_def retG_def put_rows)
next
  case (Cons d ds0)
  have "chunks (length docs) docs = [docs]" by (simp add: Cons)
  with assms have run: "createBatches E tb [docs] s = (Inr rows, t)"
    by (auto simp: CreateInBatches_def split: prod.splits sum.splits)
  then obtain ds u where ds: "before_create_all tb docs s = (Inr ds, u)"
    and st: "stmtG E (insertManyG tb (map (tb_created tb (fst (env_now E (st_world u)))) ds))
        (u\<lparr>st_world := snd (env_now E (st_world u))\<rparr>) = (Inr (), t)"
    and rows: "rows = map (tb_created tb (fst (env_now E (st_world u)))) ds"
    by (auto simp: gom Let_def)
  have su: "world_only s u" using keepsGD [OF before_create_all_frame ds] .
  from st obtain v where v: "world_only (u\<lparr>st_world := snd (env_now E (st_world u))\<rparr>) v"
    "insertManyG tb rows v = (Inr (), t)" unfolding rows by (rule stmtG_Inr)
  have sv: "world_only s v" using su v(1) by (simp add: world_only_trans)
  from v(2) have "forG rows (insertG tb) v = (Inr (), t)"
    by (auto simp: insertManyG_def split: prod.splits sum.splits)
  from insert_all_Inr [OF this] rows_cong [OF sv] put_cong [OF sv]
  have "world_only (tb_put tb (tb_rows tb s @ map (tb_stored tb) rows) s) t" "\<forall>r \<in> set rows. tb_check tb r = None" by simp_all
  with ds rows that show ?thesis by blast
qed

text \<open>No operation on a table records a metric.\<close>

lemma metrics_frame:
  "keepsG same_metrics (insertG tb r)" "keepsG same_metrics (insertManyG tb rs)"
  "keepsG same_metrics (updateG tb p f)" "keepsG same_metrics (upsertG tb c f r)"
proof -
  show ins: "keepsG same_metrics (insertG tb r)" for r
    by (rule keepsGI) (auto simp: insertG_def same_metrics_def split: option.splits)
  then have many: "keepsG same_metrics (forG rs (insertG tb))" by (intro keepsG_for) simp_all
  show "keepsG same_metrics (insertManyG tb rs)"
  proof (rule keepsGI)
    fix a r b assume "insertManyG tb rs a = (r, b)"
    then show "same_metrics a b"
      by (cases "forG rs (insertG tb) a")
        (auto simp: insertManyG_def same_metrics_def split: sum.splits dest: keepsGD [OF many, unfolded same_metrics_def])
  qed
  show upd: "keepsG same_metrics (updateG tb p f)" for p f
    by (rule keepsGI) (auto simp: updateG_def same_metrics_def Let_def split: sum.splits)
  have "keepsG same_metrics (bindG (insertG tb r) (\<lambda>_. retG [tb_stored tb r]))"
    by (intro keepsG_bind ins) simp_all
  then show "keepsG same_metrics (upsertG tb c f r)"
    using upd unfolding keepsG_def by (auto simp: upsertG_def same_metrics_def split: option.splits)
qed

lemma hook_metrics: "keepsG same_metrics (tb_before_create tb r)"
  using hook_frame by (rule keepsG_world_only(2))

lemma Create_metrics: "keepsG same_metrics (Create E tb doc)"
  unfolding Create_def stmtG_def Let_def by (intro framing hook_metrics metrics_frame; simp)+

lemma Update_metrics: "keepsG same_metrics (Update E tb doc)"
  unfolding Update_def stmtG_def Let_def by (intro framing metrics_frame; simp)+

lemma createBatches_metrics: "keepsG same_metrics (createBatches E tb bs)"
proof (induction bs)
  case (Cons b bs)
  then show ?case unfolding createBatches.simps stmtG_def Let_def
    by (auto intro!: framing metrics_frame keepsG_world_only(2) [OF before_create_all_frame])
qed simp

lemma CreateInBatches_metrics: "keepsG same_metrics (CreateInBatches E tb docs n)"
proof (rule keepsGI)
  fix s r t assume "CreateInBatches E tb docs n s = (r, t)"
  then show "same_metrics s t"
    by (cases "createBatches E tb (chunks n docs) s")
      (auto simp: CreateInBatches_def same_metrics_def split: sum.splits
        dest: keepsGD [OF createBatches_metrics, unfolded same_metrics_def])
qed

lemma insertManyG_Inl: "insertManyG tb rs s = (Inl e, t) \<Longrightarrow> t = s"
  by (auto simp: insertManyG_def split: prod.splits sum.splits)

lemma updated_rows_const:
  "list_all2 (updated_row tb (\<lambda>r. tb_key tb r = k) (\<lambda>_. Inr row)) rows rows' \<Longrightarrow>
     rows' = map (\<lambda>r. if tb_key tb r = k then tb_stored tb row else r) rows"
  by (induction rule: list_all2_induct) (auto simp: updated_row_def)

lemma updated_rows_check:
  "list_all2 (updated_row tb p (\<lambda>_. Inr row)) rows rows' \<Longrightarrow> r0 \<in> set rows \<Longrightarrow> p r0 \<Longrightarrow> tb_check tb row = None"
  by (induction rule: list_all2_induct) (auto simp: updated_row_def)

lemma Update_existing:
  assumes run: "Update E tb doc s = (res, t)" and r0: "r0 \<in> set (tb_rows tb s)" "tb_key tb r0 = tb_key tb doc"
  shows "case res of
      Inl e \<Rightarrow> world_only s t \<and> sql_error e
    | Inr row \<Rightarrow> \<exists>now. row = tb_updated tb now doc \<and> tb_check tb row = None \<and>
        world_only (tb_put tb (map (\<lambda>r. if tb_key tb r = tb_key tb doc then tb_stored tb row else r) (tb_rows tb s)) s) t"
proof -
  let ?now = "fst (env_now E (st_world s))" and ?s = "s\<lparr>st_world := snd (env_now E (st_world s))\<rparr>"
  let ?row = "tb_updated tb ?now doc"
  obtain q u where q: "stmtG E (updateG tb (\<lambda>r. tb_key tb r = tb_key tb ?row) (\<lambda>_. Inr ?row)) ?s = (q, u)" by fastforce
  show ?thesis
  proof (cases q)
    case (Inl e)
    with run q have "res = Inl e" "t = u" by (auto simp: Update_def Let_def bindG_def askG_def split: prod.splits)
    moreover from Inl q have "world_only s u" using updateG_stmt_Inl by fastforce
    moreover have "sql_error e" using q unfolding Inl by (rule stmtG_sql_error) (auto dest: updateG_sql_error)
    ultimately show ?thesis by simp
  next
    case (Inr upd)
    from q Inr have "stmtG E (updateG tb (\<lambda>r. tb_key tb r = tb_key tb ?row) (\<lambda>_. Inr ?row)) ?s = (Inr upd, u)" by simp
    then obtain rows where w: "world_only (tb_put tb rows ?s) u"
      and l: "list_all2 (updated_row tb (\<lambda>r. tb_key tb r = tb_key tb ?row) (\<lambda>_. Inr ?row)) (tb_rows tb ?s) rows"
      and len: "length upd = length (filter (\<lambda>r. tb_key tb r = tb_key tb ?row) (tb_rows tb ?s))"
      by (rule updateG_stmt_Inr)
    from r0 have "r0 \<in> set (filter (\<lambda>r. tb_key tb r = tb_key tb ?row) (tb_rows tb ?s))" by simp
    with len have "upd \<noteq> []" by (metis length_greater_0_conv length_pos_if_in_set)
    with run q Inr have "res = Inr ?row" "t = u"
      by (auto simp: Update_def Let_def bindG_def askG_def retG_def split: prod.splits)
    moreover have "rows = map (\<lambda>r. if tb_key tb r = tb_key tb doc then tb_stored tb ?row else r) (tb_rows tb s)"
      using updated_rows_const [OF l] by simp
    moreover have "world_only (tb_put tb rows s) u" using w by (simp add: put_world)
    moreover have "tb_check tb ?row = None" using updated_rows_check [OF l] r0 by simp
    ultimately show ?thesis by auto
  qed
qed

lemma FindById_result:
  assumes "FindById E tb i s = (r, t)"
  shows "case r of
      Inl e \<Rightarrow> sql_error e \<or> e = ErrRecordNotFound \<and> (\<forall>x \<in> set (tb_rows tb s). tb_key tb x \<noteq> [i])
    | Inr x \<Rightarrow> x \<in> set (tb_rows tb s) \<and> tb_key tb x = [i]"
proof -
  let ?q = "first (filter (\<lambda>r. tb_key tb r = [i]) (tb_rows tb s))"
  from assms consider f where "r = Inl (fault_err f)" | "r = ?q"
    by (cases "fst (env_fault E (st_world s))") (auto simp: FindById_def stmtG_def bindG_def askG_def queryG_def throwG_def
        split: prod.splits)
  then show ?thesis
  proof cases
    case 2
    then show ?thesis by (auto simp: first_Inl filter_empty_conv dest!: first_Inr split: sum.splits dest: sym)
  qed simp
qed

lemma FindById_Inr:
  assumes "FindById E tb i s = (Inr r, t)"
  shows "world_only s t \<and> r \<in> set (tb_rows tb s) \<and> tb_key tb r = [i]"
proof -
  have "world_only s t" using keepsGD [OF reads_frame(3) assms] .
  moreover from assms obtain u where u: "world_only s u"
    "queryG (\<lambda>s. first (filter (\<lambda>r. tb_key tb r = [i]) (tb_rows tb s))) u = (Inr r, t)"
    unfolding FindById_def by (rule stmtG_Inr)
  ultimately show ?thesis using rows_cong [OF u(1)] by (auto simp: gom dest: first_Inr [OF sym])
qed

lemma preloadG_Inr:
  "preloadG E tb names rs s = (Inr rs', t) \<Longrightarrow> rs' = map (preload_row tb names s) rs"
proof (induction names arbitrary: rs s)
  case (Cons name names)
  from Cons.prems obtain u xs where q: "stmtG E (queryG (\<lambda>s. Inr (map (tb_preload tb name s) rs))) s = (Inr xs, u)"
    and rest: "preloadG E tb names xs u = (Inr rs', t)" by (auto simp: bindG_Inr_iff)
  have su: "world_only s u" using keepsGD [OF stmtG_frame [OF queryG_frame] q] .
  from q obtain v where v: "world_only s v" "xs = map (tb_preload tb name v) rs"
    by (elim stmtG_Inr) (auto simp: gom)
  have "tb_preload tb n v = tb_preload tb n s" "tb_preload tb n u = tb_preload tb n s" for n
    using preload_world v(1) su by (metis world_only_def)+
  moreover from this have "preload_row tb names u = preload_row tb names s"
    by (simp add: preload_row_def fun_eq_iff)
  ultimately show ?case using Cons.IH [OF rest] v(2) by (simp add: preload_row_def)
qed (simp add: gom)

lemma preloadG_Inl: "preloadG E tb names rs s = (Inl e, t) \<Longrightarrow> \<exists>f. e = fault_err f"
  by (induction names arbitrary: rs s) (auto simp: gom stmtG_def split: option.splits)

lemma select_cong: "world_only s t \<Longrightarrow> select tb opt t = select tb opt s"
  by (simp add: select_def rows_cong split: option.splits)

lemma FindOne_result:
  assumes run: "FindOne E tb opts s = (r, t)"
    and col: "tb_column tb (obc_Column (fo_order (getOption opts))) = Some c"
    and off: "fo_offset (getOption opts) = 0"
  shows "case r of
      Inl e \<Rightarrow> (\<exists>f. e = fault_err f) \<or>
        e = ErrRecordNotFound \<and> (\<forall>x \<in> set (tb_rows tb s). \<not> matches (getOption opts) x)
    | Inr x \<Rightarrow> \<exists>x0 \<in> set (tb_rows tb s). matches (getOption opts) x0 \<and>
        x = preload_row tb (fo_preloads (getOption opts)) s x0"
proof -
  let ?o = "getOption opts" and ?o1 = "(getOption opts)\<lparr>fo_limit := 1\<rparr>"
  obtain q u where q: "stmtG E (queryG (select tb ?o1)) s = (q, u)" by fastforce
  have m: "matches ?o1 = matches ?o" by (simp add: matches_def fun_eq_iff)
  have su: "world_only s u" using keepsGD [OF stmtG_frame [OF queryG_frame] q] .
  have qr: "q = select tb ?o1 s \<or> (\<exists>f. q = Inl (fault_err f))"
    using q select_cong world_only_world
    by (auto simp: stmtG_def bindG_def askG_def queryG_def throwG_def split: option.splits prod.splits)
  show ?thesis
  proof (cases q)
    case (Inl e)
    with run q have "r = Inl e" by (auto simp: FindOne_def Let_def bindG_def)
    with qr Inl col show ?thesis by (auto simp: select_def)
  next
    case (Inr rows)
    with qr col off have rows: "rows = window 0 1 (order_rows c (obc_Desc (fo_order ?o)) (filter (matches ?o) (tb_rows tb s)))"
      by (auto simp: select_def m)
    show ?thesis
    proof (cases rows)
      case Nil
      with run q Inr have "r = Inl ErrRecordNotFound"
        by (auto simp: FindOne_def Let_def bindG_def liftG_def first_def)
      moreover have "filter (matches ?o) (tb_rows tb s) = []"
        using Nil rows by (simp only: window_one_empty order_rows_Nil)
      ultimately show ?thesis by (auto simp: filter_empty_conv)
    next
      case (Cons x0 xs)
      have "x0 \<in> set rows" using Cons by simp
      then have "x0 \<in> set (filter (matches ?o) (tb_rows tb s))"
        unfolding rows using window_subset order_rows_set by (metis subsetD)
      then have x0: "x0 \<in> set (tb_rows tb s)" "matches ?o x0" by simp_all
      obtain ps v where p: "preloadG E tb (fo_preloads ?o) [x0] u = (ps, v)" by fastforce
      with run q Inr Cons have r: "r = (case ps of Inl e \<Rightarrow> Inl e | Inr rs \<Rightarrow> Inr (hd rs))"
        by (auto simp: FindOne_def Let_def bindG_def liftG_def first_def retG_def split: sum.splits)
      have pc: "preload_row tb names u = preload_row tb names s" for names
        using preload_world su by (auto simp: preload_row_def fun_eq_iff) (metis world_only_def)
      show ?thesis
      proof (cases ps)
        case (Inl e)
        with p r preloadG_Inl show ?thesis by auto
      next
        case (Inr rs)
        with p have "rs = [preload_row tb (fo_preloads ?o) s x0]"
          using preloadG_Inr [of E "fo_preloads ?o" "[x0]" u rs v] by (simp add: pc)
        with r Inr x0 show ?thesis by auto
      qed
    qed
  qed
qed

end

lemma begin_commit_frame:
  assumes "stmtG E (retG ()) s = (r, t)"
  shows "world_only s t"
proof -
  have "keepsG world_only (stmtG E (retG ()))" by (simp add: frames)
  then show ?thesis using assms by (rule keepsGD)
qed

lemma Transaction_Inr:
  assumes "WithTransactionContext E body s = (Inr x, t)"
  obtains u v where "world_only s u" "body u = (Inr x, v)" "world_only v t"
proof -
  from assms obtain u where b: "stmtG E (retG ()) s = (Inr (), u)"
    and rest: "(case body u of (Inl e, t) \<Rightarrow> (Inl e, rollback u t)
       | (Inr x, t) \<Rightarrow> (case stmtG E (retG ()) t of
              (Inl e, u') \<Rightarrow> (Inl e, rollback u u') | (Inr _, u') \<Rightarrow> (Inr x, u'))) = (Inr x, t)"
    by (auto simp: WithTransactionContext_def bindG_Inr_iff)
  from rest obtain v where "body u = (Inr x, v)" "stmtG E (retG ()) v = (Inr (), t)"
    by (auto split: prod.splits sum.splits)
  with that begin_commit_frame b show ?thesis by blast
qed

text \<open>A failed transaction leaves every table as it was.\<close>

lemma Transaction_Inl:
  assumes "WithTransactionContext E body s = (Inl e, t)"
  shows "same_tables s t"
proof -
  obtain r u where b: "stmtG E (retG ()) s = (r, u)" by fastforce
  have "\<exists>w. t = rollback u w \<or> t = u"
    using assms b by (auto simp: WithTransactionContext_def bindG_def split: prod.splits sum.splits)
  then show ?thesis using begin_commit_frame [OF b] by (auto simp: world_only_iff same_tables_iff rollback_def)
qed

lemma Transaction_metrics:
  assumes run: "WithTransactionContext E body s = (r, t)"
    and body: "\<And>u x v. world_only s u \<Longrightarrow> body u = (x, v) \<Longrightarrow> st_metrics v = st_metrics u"
  shows "st_metrics t = st_metrics s"
proof -
  have m: "st_metrics b = st_metrics a" if "stmtG E (retG ()) a = (x, b)" for a b x
    using begin_commit_frame [OF that] by (simp add: world_only_iff same_metrics_def)
  obtain q u where b: "stmtG E (retG ()) s = (q, u)" by fastforce
  obtain x v where v: "body u = (x, v)" by fastforce
  have "st_metrics v = st_metrics s" using body [OF begin_commit_frame [OF b] v] m [OF b] by simp
  then show ?thesis
    using run b v m [OF b]
    by (auto simp: WithTransactionContext_def bindG_def rollback_def dest!: m split: prod.splits sum.splits)
qed

end
