(* ===== verification/Schema.thy ===== *)
theory Schema
  imports Dbs
begin

text \<open>
  The eight tables: the columns of \<open>internal/*/model\<close> with what gorm fills in, and the
  \<open>CHECK\<close> constraints and unique indexes of \<open>migrations/*.up.sql\<close>. Foreign keys and the
  decimal scale of prices can only make a statement fail, which \<open>env_fault\<close> covers. Every
  table satisfies the contract \<open>table\<close>.
\<close>

definition float_val :: "float64 \<Rightarrow> sql_val" where
  "float_val x = SNum (case x of Fin q \<Rightarrow> q | _ \<Rightarrow> 0)"

definition or_now :: "time \<Rightarrow> time \<Rightarrow> time" where
  "or_now now t = (if IsZero t then now else t)"

definition users_table :: "'w env \<Rightarrow> ('w, User) table" where
  "users_table E = \<lparr>
     tb_rows = st_users,
     tb_put = (\<lambda>rows s. s\<lparr>st_users := rows\<rparr>),
     tb_key = (\<lambda>r. [u_ID r]),
     tb_column = [''id'' \<mapsto> (\<lambda>r. SStr (u_ID r)), ''email'' \<mapsto> (\<lambda>r. SStr (u_Email r))],
     tb_check = (\<lambda>r. if u_Role r \<in> {UserRoleAdmin, UserRoleCustomer} then None else Some ''users_role_check''),
     tb_unique = [(''users_pkey'', \<lambda>x r. u_ID x = u_ID r), (''users_email_key'', \<lambda>x r. u_Email x = u_Email r)],
     tb_preload = (\<lambda>name s r. r),
     tb_created = (\<lambda>now r. r\<lparr>u_CreatedAt := or_now now (u_CreatedAt r), u_UpdatedAt := or_now now (u_UpdatedAt r)\<rparr>),
     tb_updated = (\<lambda>now r. r\<lparr>u_UpdatedAt := now\<rparr>),
     tb_stored = (\<lambda>r. r),
     tb_before_create = User_BeforeCreate E\<rparr>"

definition products_table :: "'w env \<Rightarrow> ('w, Product) table" where
  "products_table E = \<lparr>
     tb_rows = st_products,
     tb_put = (\<lambda>rows s. s\<lparr>st_products := rows\<rparr>),
     tb_key = (\<lambda>r. [p_ID r]),
     tb_column = [''id'' \<mapsto> (\<lambda>r. SStr (p_ID r)), ''active'' \<mapsto> (\<lambda>r. SBool (p_Active r)),
       ''code'' \<mapsto> (\<lambda>r. SStr (p_Code r)), ''created_at'' \<mapsto> (\<lambda>r. SInt (p_CreatedAt r)),
       ''name'' \<mapsto> (\<lambda>r. SStr (p_Name r)), ''price'' \<mapsto> (\<lambda>r. float_val (p_Price r)),
       ''updated_at'' \<mapsto> (\<lambda>r. SInt (p_UpdatedAt r))],
     tb_check = (\<lambda>r. if flt (Fin 0) (p_Price r) then None else Some ''products_price_check''),
     tb_unique = [(''products_pkey'', \<lambda>x r. p_ID x = p_ID r), (''idx_product_code'', \<lambda>x r. p_Code x = p_Code r),
       (''idx_product_name'', \<lambda>x r. p_Name x = p_Name r)],
     tb_preload = (\<lambda>name s r. r),
     tb_created = (\<lambda>now r. r\<lparr>p_CreatedAt := or_now now (p_CreatedAt r), p_UpdatedAt := or_now now (p_UpdatedAt r)\<rparr>),
     tb_updated = (\<lambda>now r. r\<lparr>p_UpdatedAt := now\<rparr>),
     tb_stored = (\<lambda>r. r),
     tb_before_create = Product_BeforeCreate E\<rparr>"

definition inventories_table :: "'w env \<Rightarrow> ('w, Inventory) table" where
  "inventories_table E = \<lparr>
     tb_rows = st_inventories,
     tb_put = (\<lambda>rows s. s\<lparr>st_inventories := rows\<rparr>),
     tb_key = (\<lambda>r. [inv_ID r]),
     tb_column = [''id'' \<mapsto> (\<lambda>r. SStr (inv_ID r)), ''created_at'' \<mapsto> (\<lambda>r. SInt (inv_CreatedAt r)),
       ''product_id'' \<mapsto> (\<lambda>r. SStr (inv_ProductID r)), ''quantity'' \<mapsto> (\<lambda>r. SInt (inv_Quantity r)),
       ''updated_at'' \<mapsto> (\<lambda>r. SInt (inv_UpdatedAt r))],
     tb_check = (\<lambda>r. if 0 \<le> inv_Quantity r then None else Some ''inventories_quantity_check''),
     tb_unique = [(''inventories_pkey'', \<lambda>x r. inv_ID x = inv_ID r),
       (''idx_inventory_product'', \<lambda>x r. inv_ProductID x = inv_ProductID r)],
     tb_preload = (\<lambda>name s r. r),
     tb_created = (\<lambda>now r. r\<lparr>inv_CreatedAt := or_now now (inv_CreatedAt r), inv_UpdatedAt := or_now now (inv_UpdatedAt r)\<rparr>),
     tb_updated = (\<lambda>now r. r\<lparr>inv_UpdatedAt := now\<rparr>),
     tb_stored = (\<lambda>r. r),
     tb_before_create = Inventory_BeforeCreate E\<rparr>"

definition order_check :: "Order \<Rightarrow> string option" where
  "order_check r =
     (if flt (o_TotalPrice r) (Fin 0) then Some ''orders_total_price_check''
      else if o_Status r \<notin> {OrderStatusNew, OrderStatusInProgress, OrderStatusDone, OrderStatusCancelled}
      then Some ''orders_status_check''
      else if (o_IdempotencyKey r = None) \<noteq> (o_IdempotencyFingerprint r = None) then Some ''orders_idempotency_pair_check''
      else if case_option False (\<lambda>k. length k \<noteq> 64) (o_IdempotencyKey r) then Some ''orders_idempotency_key_length_check''
      else if case_option False (\<lambda>k. length k \<noteq> 64) (o_IdempotencyFingerprint r)
      then Some ''orders_idempotency_fingerprint_length_check''
      else None)"

definition order_key_clash :: "Order \<Rightarrow> Order \<Rightarrow> bool" where
  "order_key_clash x r \<longleftrightarrow>
     o_UserID x = o_UserID r \<and> o_IdempotencyKey x \<noteq> None \<and> o_IdempotencyKey x = o_IdempotencyKey r"

definition order_preload :: "string \<Rightarrow> 'w st \<Rightarrow> Order \<Rightarrow> Order" where
  "order_preload name s r =
     (if name = ''Lines'' then r\<lparr>o_Lines := filter (\<lambda>l. ol_OrderID l = o_ID r) (st_order_lines s)\<rparr>
      else if name = ''Lines.Product'' then
        r\<lparr>o_Lines := map (\<lambda>l. l\<lparr>ol_Product := find (\<lambda>p. p_ID p = ol_ProductID l) (st_products s)\<rparr>) (o_Lines r)\<rparr>
      else r)"

definition orders_table :: "'w env \<Rightarrow> ('w, Order) table" where
  "orders_table E = \<lparr>
     tb_rows = st_orders,
     tb_put = (\<lambda>rows s. s\<lparr>st_orders := rows\<rparr>),
     tb_key = (\<lambda>r. [o_ID r]),
     tb_column = [''id'' \<mapsto> (\<lambda>r. SStr (o_ID r)), ''code'' \<mapsto> (\<lambda>r. SStr (o_Code r)),
       ''created_at'' \<mapsto> (\<lambda>r. SInt (o_CreatedAt r)), ''status'' \<mapsto> (\<lambda>r. SStr (o_Status r)),
       ''total_price'' \<mapsto> (\<lambda>r. float_val (o_TotalPrice r)), ''updated_at'' \<mapsto> (\<lambda>r. SInt (o_UpdatedAt r))],
     tb_check = order_check,
     tb_unique = [(''orders_pkey'', \<lambda>x r. o_ID x = o_ID r), (''idx_orders_code'', \<lambda>x r. o_Code x = o_Code r),
       (''idx_orders_user_idempotency_key'', order_key_clash)],
     tb_preload = order_preload,
     tb_created = (\<lambda>now r. r\<lparr>o_CreatedAt := or_now now (o_CreatedAt r), o_UpdatedAt := or_now now (o_UpdatedAt r)\<rparr>),
     tb_updated = (\<lambda>now r. r\<lparr>o_UpdatedAt := now\<rparr>),
     tb_stored = (\<lambda>r. r\<lparr>o_Lines := [], o_IdempotencyReplay := False\<rparr>),
     tb_before_create = Order_BeforeCreate E\<rparr>"

definition order_lines_table :: "'w env \<Rightarrow> ('w, OrderLine) table" where
  "order_lines_table E = \<lparr>
     tb_rows = st_order_lines,
     tb_put = (\<lambda>rows s. s\<lparr>st_order_lines := rows\<rparr>),
     tb_key = (\<lambda>r. [ol_ID r]),
     tb_column = [''id'' \<mapsto> (\<lambda>r. SStr (ol_ID r))],
     tb_check = (\<lambda>r. if ol_Quantity r = 0 then Some ''order_lines_quantity_check''
       else if flt (ol_Price r) (Fin 0) then Some ''order_lines_price_check'' else None),
     tb_unique = [(''order_lines_pkey'', \<lambda>x r. ol_ID x = ol_ID r)],
     tb_preload = (\<lambda>name s r. r),
     tb_created = (\<lambda>now r. r\<lparr>ol_CreatedAt := or_now now (ol_CreatedAt r), ol_UpdatedAt := or_now now (ol_UpdatedAt r)\<rparr>),
     tb_updated = (\<lambda>now r. r\<lparr>ol_UpdatedAt := now\<rparr>),
     tb_stored = (\<lambda>r. r\<lparr>ol_Product := None\<rparr>),
     tb_before_create = OrderLine_BeforeCreate E\<rparr>"

definition outbox_events_table :: "'w env \<Rightarrow> ('w, OutboxEvent) table" where
  "outbox_events_table E = \<lparr>
     tb_rows = st_outbox_events,
     tb_put = (\<lambda>rows s. s\<lparr>st_outbox_events := rows\<rparr>),
     tb_key = (\<lambda>r. [oe_ID r]),
     tb_column = [''id'' \<mapsto> (\<lambda>r. SStr (oe_ID r)), ''created_at'' \<mapsto> (\<lambda>r. SInt (oe_CreatedAt r))],
     tb_check = (\<lambda>r. if oe_Attempts r < 0 then Some ''outbox_events_attempts_check''
       else if oe_Status r \<notin> {OutboxEventStatusPending, OutboxEventStatusProcessing,
         OutboxEventStatusPublished, OutboxEventStatusDeadLetter} then Some ''outbox_events_status_check''
       else None),
     tb_unique = [(''outbox_events_pkey'', \<lambda>x r. oe_ID x = oe_ID r)],
     tb_preload = (\<lambda>name s r. r),
     tb_created = (\<lambda>now r. r\<lparr>oe_CreatedAt := or_now now (oe_CreatedAt r)\<rparr>),
     tb_updated = (\<lambda>now r. r),
     tb_stored = (\<lambda>r. r),
     tb_before_create = OutboxEvent_BeforeCreate E\<rparr>"

definition cart_preload :: "string \<Rightarrow> 'w st \<Rightarrow> Cart \<Rightarrow> Cart" where
  "cart_preload name s r =
     (if name = ''User'' then r\<lparr>cart_User := find (\<lambda>u. u_ID u = cart_UserID r) (st_users s)\<rparr>
      else if name = ''Lines.Product'' then
        r\<lparr>cart_Lines := map (\<lambda>l. l\<lparr>cl_Product := find (\<lambda>p. p_ID p = cl_ProductID l) (st_products s)\<rparr>)
                          (filter (\<lambda>l. cl_CartID l = cart_ID r) (st_cart_lines s))\<rparr>
      else r)"

definition carts_table :: "'w env \<Rightarrow> ('w, Cart) table" where
  "carts_table E = \<lparr>
     tb_rows = st_carts,
     tb_put = (\<lambda>rows s. s\<lparr>st_carts := rows\<rparr>),
     tb_key = (\<lambda>r. [cart_ID r]),
     tb_column = [''id'' \<mapsto> (\<lambda>r. SStr (cart_ID r))],
     tb_check = (\<lambda>r. None),
     tb_unique = [(''carts_pkey'', \<lambda>x r. cart_ID x = cart_ID r), (''idx_cart_user'', \<lambda>x r. cart_UserID x = cart_UserID r)],
     tb_preload = cart_preload,
     tb_created = (\<lambda>now r. r\<lparr>cart_CreatedAt := or_now now (cart_CreatedAt r), cart_UpdatedAt := or_now now (cart_UpdatedAt r)\<rparr>),
     tb_updated = (\<lambda>now r. r\<lparr>cart_UpdatedAt := now\<rparr>),
     tb_stored = (\<lambda>r. r\<lparr>cart_User := None, cart_Lines := []\<rparr>),
     tb_before_create = Cart_BeforeCreate E\<rparr>"

definition cart_lines_table :: "'w env \<Rightarrow> ('w, CartLine) table" where
  "cart_lines_table E = \<lparr>
     tb_rows = st_cart_lines,
     tb_put = (\<lambda>rows s. s\<lparr>st_cart_lines := rows\<rparr>),
     tb_key = (\<lambda>r. [cl_CartID r, cl_ProductID r]),
     tb_column = [''cart_id'' \<mapsto> (\<lambda>r. SStr (cl_CartID r)), ''product_id'' \<mapsto> (\<lambda>r. SStr (cl_ProductID r))],
     tb_check = (\<lambda>r. if cl_Quantity r = 0 then Some ''cart_lines_quantity_check'' else None),
     tb_unique = [(''cart_lines_pkey'', \<lambda>x r. cl_CartID x = cl_CartID r \<and> cl_ProductID x = cl_ProductID r)],
     tb_preload = (\<lambda>name s r. r),
     tb_created = (\<lambda>now r. r),
     tb_updated = (\<lambda>now r. r),
     tb_stored = (\<lambda>r. r\<lparr>cl_Product := None\<rparr>),
     tb_before_create = retG\<rparr>"

section \<open>The contract\<close>

interpretation users: table "users_table E" for E :: "'w env"
  by unfold_locales (simp_all add: users_table_def)

interpretation products: table "products_table E" for E :: "'w env"
  by unfold_locales (simp_all add: products_table_def)

interpretation inventories: table "inventories_table E" for E :: "'w env"
  by unfold_locales (simp_all add: inventories_table_def)

interpretation orders: table "orders_table E" for E :: "'w env"
  by unfold_locales (simp_all add: orders_table_def order_preload_def fun_eq_iff)

interpretation order_lines: table "order_lines_table E" for E :: "'w env"
  by unfold_locales (simp_all add: order_lines_table_def)

interpretation outbox_events: table "outbox_events_table E" for E :: "'w env"
  by unfold_locales (simp_all add: outbox_events_table_def)

interpretation carts: table "carts_table E" for E :: "'w env"
  by unfold_locales (simp_all add: carts_table_def cart_preload_def fun_eq_iff)

interpretation cart_lines: table "cart_lines_table E" for E :: "'w env"
  by unfold_locales (simp_all add: cart_lines_table_def)

text \<open>The parts of a table, for simplification of a table used by a repository.\<close>

lemmas table_sel = table.simps

section \<open>A calm world\<close>

text \<open>A world where no statement fails, for concrete runs.\<close>

definition calm :: "nat env" where
  "calm = \<lparr>env_fault = \<lambda>w. (None, w), env_locked = \<lambda>w. (\<lambda>_. False, w), env_now = \<lambda>w. (int w, Suc w), env_date = \<lambda>w. ((2025, 1, 2), w),
     env_uuid = \<lambda>w. (''id-'' @ show_nat w, Suc w), env_rand = \<lambda>w. (w, Suc w),
     env_bcrypt = \<lambda>p w. (Inr (''hash:'' @ p), w)\<rparr>"

definition empty_st :: "nat st" where
  "empty_st = \<lparr>st_world = 1, st_metrics = [], st_users = [], st_products = [], st_inventories = [],
     st_orders = [], st_order_lines = [], st_outbox_events = [], st_carts = [], st_cart_lines = []\<rparr>"

end
