(* ===== verification/Inventory.thy ===== *)
theory Inventory
  imports Schema
begin

text \<open>
  \<open>internal/inventory\<close>: the repository, whose stock changes are single conditional
  statements, and the service over it.

  \<^item> \<open>stock\<close> is the abstract view: the quantity of a product, if it has a row.
  \<^item> The locale \<open>inventory_admin\<close> extends the contract by what replacing a stock needs.
  \<^item> The locale \<open>inventory_store\<close> is the contract of \<open>IInventoryRepository\<close> in terms of
    \<open>stock\<close>; the service is proved against it, and \<open>InventoryRepo\<close> satisfies it.
\<close>

section \<open>Repository\<close>

record ListInventoryReq =
  li_ProductID :: string
  li_Page :: int64
  li_Limit :: int64
  li_OrderBy :: string
  li_OrderDesc :: bool

definition inventoryListOrderColumns :: "string \<rightharpoonup> string" where
  "inventoryListOrderColumns =
     [''created_at'' \<mapsto> ''created_at'', ''product_id'' \<mapsto> ''product_id'',
      ''quantity'' \<mapsto> ''quantity'', ''updated_at'' \<mapsto> ''updated_at'']"

definition inventoryListOrder :: "string \<Rightarrow> bool \<Rightarrow> OrderByColumn" where
  "inventoryListOrder orderBy desc = SafeOrderByColumn orderBy desc ''created_at'' inventoryListOrderColumns"

definition inventory_query :: "ListInventoryReq \<Rightarrow> (Inventory \<Rightarrow> bool) list" where
  "inventory_query req =
     (if li_ProductID req \<noteq> '''' then [\<lambda>i. inv_ProductID i = li_ProductID req] else [])"

definition InventoryRepo_List :: "'w env \<Rightarrow> ListInventoryReq \<Rightarrow> ('w st, Inventory list \<times> Pagination) gom" where
  "InventoryRepo_List E req =
     (let query = inventory_query req;
          order = inventoryListOrder (li_OrderBy req) (li_OrderDesc req)
      in bindG (Count E (inventories_table E) [WithQuery query]) (\<lambda>n.
         let pagination = New (li_Page req) (li_Limit req) n in
         bindG (Find E (inventories_table E)
                  [WithQuery query, WithLimit (pg_Limit pagination), WithOffset (pg_Skip pagination), WithOrder order])
           (\<lambda>items. retG (items, pagination))))"

definition InventoryRepo_GetByProductID :: "'w env \<Rightarrow> string \<Rightarrow> ('w st, Inventory) gom" where
  "InventoryRepo_GetByProductID E productID =
     FindOne E (inventories_table E) [WithQuery [\<lambda>i. inv_ProductID i = productID]]"

definition InventoryRepo_Create :: "'w env \<Rightarrow> Inventory \<Rightarrow> ('w st, Inventory) gom" where
  "InventoryRepo_Create E inventory = Create E (inventories_table E) inventory"

definition InventoryRepo_Update :: "'w env \<Rightarrow> Inventory \<Rightarrow> ('w st, Inventory) gom" where
  "InventoryRepo_Update E inventory = Update E (inventories_table E) inventory"

text \<open>Addition on a \<open>BIGINT\<close> column.\<close>

definition add_bigint :: "int64 \<Rightarrow> int64 \<Rightarrow> goerr + int64" where
  "add_bigint a b = (if in_i64 (a + b) then Inr (a + b) else Inl (PgError ''22003'' ''''))"

definition new_inventory :: "string \<Rightarrow> int64 \<Rightarrow> Inventory" where
  "new_inventory productID quantity =
     \<lparr>inv_ID = '''', inv_CreatedAt = zero_time, inv_UpdatedAt = zero_time, inv_DeletedAt = None,
      inv_ProductID = productID, inv_Quantity = quantity\<rparr>"

text \<open>The row that gorm builds for an \<open>INSERT\<close>: the hook, then the timestamps.\<close>

definition created_inventory :: "'w env \<Rightarrow> Inventory \<Rightarrow> ('w st, Inventory) gom" where
  "created_inventory E inventory =
     bindG (Inventory_BeforeCreate E inventory) (\<lambda>d.
     bindG (askG (env_now E)) (\<lambda>now. retG (tb_created (inventories_table E) now d)))"

definition set_quantity :: "int64 \<Rightarrow> Inventory \<Rightarrow> goerr + Inventory" where
  "set_quantity delta i = map_sum id (\<lambda>q. i\<lparr>inv_Quantity := q\<rparr>) (add_bigint (inv_Quantity i) delta)"

definition InventoryRepo_AdjustStock :: "'w env \<Rightarrow> string \<Rightarrow> int64 \<Rightarrow> ('w st, Inventory \<times> bool) gom" where
  "InventoryRepo_AdjustStock E productID quantityDelta =
     (if 0 < quantityDelta then
        bindG (created_inventory E (new_inventory productID quantityDelta)) (\<lambda>inventory.
        bindG (askG (env_now E)) (\<lambda>current_timestamp.
        bindG (stmtG E (upsertG (inventories_table E) (\<lambda>x r. inv_ProductID x = inv_ProductID r)
                 (\<lambda>x. set_quantity (inv_Quantity inventory) (x\<lparr>inv_UpdatedAt := current_timestamp\<rparr>)) inventory))
          (\<lambda>rows. retG (case rows of r # _ \<Rightarrow> r | [] \<Rightarrow> inventory, length rows = 1))))
      else
        bindG (askG (env_now E)) (\<lambda>current_timestamp.
        bindG (stmtG E (updateG (inventories_table E)
                 (\<lambda>x. inv_ProductID x = productID \<and> 0 \<le> inv_Quantity x + quantityDelta)
                 (\<lambda>x. set_quantity quantityDelta (x\<lparr>inv_UpdatedAt := current_timestamp\<rparr>))))
          (\<lambda>rows. retG (case rows of r # _ \<Rightarrow> r | [] \<Rightarrow> new_inventory '''' 0, length rows = 1))))"

definition InventoryRepo_ConsumeStock :: "'w env \<Rightarrow> string \<Rightarrow> int64 \<Rightarrow> ('w st, bool) gom" where
  "InventoryRepo_ConsumeStock E productID quantity =
     bindG (stmtG E (updateG (inventories_table E)
              (\<lambda>x. inv_ProductID x = productID \<and> quantity \<le> inv_Quantity x)
              (set_quantity (- quantity))))
       (\<lambda>rows. retG (0 < length rows))"

definition InventoryRepo_Restock :: "'w env \<Rightarrow> string \<Rightarrow> int64 \<Rightarrow> ('w st, unit) gom" where
  "InventoryRepo_Restock E productID quantity =
     bindG (created_inventory E (new_inventory productID quantity)) (\<lambda>inventory.
     bindG (stmtG E (upsertG (inventories_table E) (\<lambda>x r. inv_ProductID x = inv_ProductID r)
              (set_quantity quantity) inventory))
       (\<lambda>_. retG ()))"

section \<open>Service\<close>

record 'w IInventoryRepository =
  ir_List :: "ListInventoryReq \<Rightarrow> ('w st, Inventory list \<times> Pagination) gom"
  ir_GetByProductID :: "string \<Rightarrow> ('w st, Inventory) gom"
  ir_Create :: "Inventory \<Rightarrow> ('w st, Inventory) gom"
  ir_Update :: "Inventory \<Rightarrow> ('w st, Inventory) gom"
  ir_AdjustStock :: "string \<Rightarrow> int64 \<Rightarrow> ('w st, Inventory \<times> bool) gom"
  ir_ConsumeStock :: "string \<Rightarrow> int64 \<Rightarrow> ('w st, bool) gom"
  ir_Restock :: "string \<Rightarrow> int64 \<Rightarrow> ('w st, unit) gom"

definition NewInventoryRepository :: "'w env \<Rightarrow> 'w IInventoryRepository" where
  "NewInventoryRepository E =
     \<lparr>ir_List = InventoryRepo_List E, ir_GetByProductID = InventoryRepo_GetByProductID E,
      ir_Create = InventoryRepo_Create E, ir_Update = InventoryRepo_Update E,
      ir_AdjustStock = InventoryRepo_AdjustStock E, ir_ConsumeStock = InventoryRepo_ConsumeStock E,
      ir_Restock = InventoryRepo_Restock E\<rparr>"

record SetInventoryReq =
  si_ProductID :: string
  si_Quantity :: int64

record AdjustInventoryReq =
  ai_QuantityDelta :: int64

definition InventoryService_List ::
    "'w IInventoryRepository \<Rightarrow> ListInventoryReq \<Rightarrow> ('w st, Inventory list \<times> Pagination) gom" where
  "InventoryService_List repo req = ir_List repo req"

definition getInventory :: "'w IInventoryRepository \<Rightarrow> string \<Rightarrow> ('w st, Inventory) gom" where
  "getInventory repo productID =
     tryG (ir_GetByProductID repo productID) (\<lambda>r. case r of
       Inl err \<Rightarrow> if errors_Is err ErrRecordNotFound then throwG ErrInventoryNotFound else throwG err
     | Inr inventory \<Rightarrow> retG inventory)"

definition InventoryService_GetByProductID :: "'w IInventoryRepository \<Rightarrow> string \<Rightarrow> ('w st, Inventory) gom" where
  "InventoryService_GetByProductID repo productID = getInventory repo productID"

definition getOrCreate :: "'w IInventoryRepository \<Rightarrow> string \<Rightarrow> ('w st, Inventory \<times> bool) gom" where
  "getOrCreate repo productID =
     tryG (ir_GetByProductID repo productID) (\<lambda>r. case r of
       Inl err \<Rightarrow>
         if \<not> errors_Is err ErrRecordNotFound then throwG err
         else bindG (ir_Create repo (new_inventory productID 0)) (\<lambda>inv. retG (inv, True))
     | Inr inventory \<Rightarrow> retG (inventory, False))"

definition InventoryService_SetStock ::
    "(SetInventoryReq \<Rightarrow> goerr option) \<Rightarrow> 'w IInventoryRepository \<Rightarrow> SetInventoryReq \<Rightarrow> ('w st, Inventory) gom" where
  "InventoryService_SetStock validate repo req =
     bindG (checkG (validate req)) (\<lambda>_.
     bindG (getOrCreate repo (si_ProductID req)) (\<lambda>(inventory, created).
     ir_Update repo (inventory\<lparr>inv_Quantity := si_Quantity req\<rparr>)))"

definition InventoryService_AdjustStock ::
    "(AdjustInventoryReq \<Rightarrow> goerr option) \<Rightarrow> 'w IInventoryRepository \<Rightarrow> string \<Rightarrow> AdjustInventoryReq \<Rightarrow>
     ('w st, Inventory) gom" where
  "InventoryService_AdjustStock validate repo productID req =
     bindG (checkG (validate req)) (\<lambda>_.
     bindG (ir_AdjustStock repo productID (ai_QuantityDelta req)) (\<lambda>(inventory, adjusted).
     if adjusted then retG inventory
     else bindG (getInventory repo productID) (\<lambda>_. throwG ErrInsufficientStock)))"

definition InventoryService_ConsumeStock :: "'w IInventoryRepository \<Rightarrow> string \<Rightarrow> int64 \<Rightarrow> ('w st, unit) gom" where
  "InventoryService_ConsumeStock repo productID quantity =
     (if quantity \<le> 0 then throwG (ErrNew ''quantity must be positive'')
      else bindG (ir_ConsumeStock repo productID quantity) (\<lambda>consumed.
           if consumed then retG ()
           else bindG (getInventory repo productID) (\<lambda>_. throwG ErrInsufficientStock)))"

definition InventoryService_Restock :: "'w IInventoryRepository \<Rightarrow> string \<Rightarrow> int64 \<Rightarrow> ('w st, unit) gom" where
  "InventoryService_Restock repo productID quantity =
     (if quantity \<le> 0 then throwG (ErrNew ''quantity must be positive'')
      else ir_Restock repo productID quantity)"

section \<open>The abstract view\<close>

definition stock :: "'w st \<Rightarrow> string \<rightharpoonup> int64" where
  "stock s p = map_option inv_Quantity (find (\<lambda>i. inv_ProductID i = p) (st_inventories s))"

definition stock0 :: "'w st \<Rightarrow> string \<Rightarrow> int64" where
  "stock0 s p = (case stock s p of None \<Rightarrow> 0 | Some n \<Rightarrow> n)"

definition inventory_ok :: "'w st \<Rightarrow> bool" where
  "inventory_ok s \<longleftrightarrow>
     distinct (map inv_ID (st_inventories s)) \<and> distinct (map inv_ProductID (st_inventories s)) \<and>
     (\<forall>i \<in> set (st_inventories s). 0 \<le> inv_Quantity i \<and> inv_Quantity i \<le> max_i64)"

text \<open>Nothing but the inventory table and the world has changed.\<close>

definition inventory_only :: "'w st \<Rightarrow> 'w st \<Rightarrow> bool" where
  "inventory_only s t \<longleftrightarrow> t = s\<lparr>st_world := st_world t, st_inventories := st_inventories t\<rparr>"

lemma inventory_only_iff: "inventory_only s t \<longleftrightarrow>
    st_metrics t = st_metrics s \<and> st_users t = st_users s \<and> st_products t = st_products s \<and>
    st_orders t = st_orders s \<and> st_order_lines t = st_order_lines s \<and>
    st_outbox_events t = st_outbox_events s \<and> st_carts t = st_carts s \<and> st_cart_lines t = st_cart_lines s"
  by (cases s; cases t) (auto simp: inventory_only_def)

lemma inventory_only_refl [simp]: "inventory_only s s"
  by (simp add: inventory_only_iff)

lemma inventory_only_trans [trans]: "inventory_only s t \<Longrightarrow> inventory_only t u \<Longrightarrow> inventory_only s u"
  by (simp add: inventory_only_iff)

lemma world_only_inventory: "world_only s t \<Longrightarrow> inventory_only s t"
  by (simp add: inventory_only_iff world_only_iff same_tables_iff same_metrics_def)

lemma world_only_stock: "world_only s t \<Longrightarrow> stock t = stock s \<and> inventory_ok t = inventory_ok s"
  by (simp add: fun_eq_iff stock_def inventory_ok_def world_only_iff same_tables_iff)

lemma stock0_nonneg: "inventory_ok s \<Longrightarrow> 0 \<le> stock0 s p \<and> stock0 s p \<le> max_i64"
  by (auto simp: inventory_ok_def stock0_def stock_def max_i64_def split: option.splits dest!: find_Some_iff_mem)

lemma stock_Some_iff:
  "inventory_ok s \<Longrightarrow> stock s p = Some n \<longleftrightarrow>
     (\<exists>i \<in> set (st_inventories s). inv_ProductID i = p \<and> inv_Quantity i = n)"
proof -
  assume "inventory_ok s"
  then have "i \<in> set (st_inventories s) \<Longrightarrow> find (\<lambda>y. inv_ProductID y = inv_ProductID i) (st_inventories s) = Some i" for i
    by (simp add: inventory_ok_def find_distinct_key)
  then show ?thesis by (force simp: stock_def dest: find_Some_iff_mem)
qed

lemma stock_None_iff: "stock s p = None \<longleftrightarrow> (\<forall>i \<in> set (st_inventories s). inv_ProductID i \<noteq> p)"
  by (simp add: stock_def find_None_iff_all)

section \<open>Rows and statements\<close>

lemma find_all2:
  "list_all2 (\<lambda>r r'. k r' = k r \<and> v r' = g (k r) (v r)) xs ys \<Longrightarrow>
     map_option v (find (\<lambda>r. k r = p) ys) = map_option (g p) (map_option v (find (\<lambda>r. k r = p) xs))"
  by (induction rule: list_all2_induct) auto

lemma map_all2: "list_all2 (\<lambda>r r'. k r' = k r \<and> P r r') xs ys \<Longrightarrow> map k ys = map k xs"
  by (induction rule: list_all2_induct) auto

text \<open>
  A statement that adds \<open>delta\<close> to the rows of \<open>p\<close> that satisfy \<open>guard\<close>.
\<close>

lemma quantity_update:
  assumes ok: "inventory_ok s"
    and rows: "list_all2 (updated_row (inventories_table E)
                 (\<lambda>x. inv_ProductID x = p \<and> guard (inv_Quantity x))
                 (\<lambda>x. set_quantity delta (f x))) (st_inventories s) rows"
    and f: "\<And>x. inv_ID (f x) = inv_ID x \<and> inv_ProductID (f x) = inv_ProductID x \<and> inv_Quantity (f x) = inv_Quantity x"
    and t: "st_inventories t = rows"
  shows "inventory_ok t" and
    "stock t = (\<lambda>q. map_option (\<lambda>n. if q = p \<and> guard n then n + delta else n) (stock s q))"
proof -
  have step: "inv_ID r' = inv_ID r \<and> inv_ProductID r' = inv_ProductID r \<and>
      inv_Quantity r' = (if inv_ProductID r = p \<and> guard (inv_Quantity r) then inv_Quantity r + delta else inv_Quantity r) \<and>
      0 \<le> inv_Quantity r' \<and> inv_Quantity r' \<le> max_i64"
    if "r \<in> set (st_inventories s)" and
      u: "updated_row (inventories_table E) (\<lambda>x. inv_ProductID x = p \<and> guard (inv_Quantity x))
            (\<lambda>x. set_quantity delta (f x)) r r'" for r r'
    using that(1) u ok f [of r]
    by (auto simp: updated_row_def inventories_table_def set_quantity_def add_bigint_def in_i64_def
        inventory_ok_def map_sum_def split: if_splits)
  have all: "list_all2 (\<lambda>r r'. inv_ID r' = inv_ID r \<and> inv_ProductID r' = inv_ProductID r \<and>
      inv_Quantity r' = (if inv_ProductID r = p \<and> guard (inv_Quantity r) then inv_Quantity r + delta else inv_Quantity r) \<and>
      0 \<le> inv_Quantity r' \<and> inv_Quantity r' \<le> max_i64) (st_inventories s) rows"
    using rows by (rule list.rel_mono_strong) (rule step)
  have "map inv_ID rows = map inv_ID (st_inventories s)"
    by (rule map_all2 [of inv_ID "\<lambda>_ _. True"]) (rule list_all2_mono [OF all], auto)
  moreover have "map inv_ProductID rows = map inv_ProductID (st_inventories s)"
    by (rule map_all2 [of inv_ProductID "\<lambda>_ _. True"]) (rule list_all2_mono [OF all], auto)
  moreover have "\<forall>i \<in> set rows. 0 \<le> inv_Quantity i \<and> inv_Quantity i \<le> max_i64"
    using all by (auto simp: list_all2_conv_all_nth in_set_conv_nth)
  ultimately show "inventory_ok t" using ok t by (simp add: inventory_ok_def)
  show "stock t = (\<lambda>q. map_option (\<lambda>n. if q = p \<and> guard n then n + delta else n) (stock s q))"
  proof
    fix q
    have "list_all2 (\<lambda>r r'. inv_ProductID r' = inv_ProductID r \<and>
        inv_Quantity r' = (\<lambda>k n. if k = p \<and> guard n then n + delta else n) (inv_ProductID r) (inv_Quantity r))
        (st_inventories s) rows"
      using all by (rule list_all2_mono) auto
    from find_all2 [OF this, of q]
    show "stock t q = map_option (\<lambda>n. if q = p \<and> guard n then n + delta else n) (stock s q)"
      by (simp add: stock_def t)
  qed
qed

section \<open>The contract of the repository\<close>

definition stock_added :: "'w st \<Rightarrow> 'w st \<Rightarrow> string \<Rightarrow> int64 \<Rightarrow> bool" where
  "stock_added s t p delta \<longleftrightarrow>
     inventory_ok t \<and> inventory_only s t \<and> stock t = (stock s)(p \<mapsto> stock0 s p + delta)"

lemma inventories_sel [simp]:
  "tb_rows (inventories_table E) = st_inventories"
  "tb_put (inventories_table E) rows s = s\<lparr>st_inventories := rows\<rparr>"
  "tb_stored (inventories_table E) r = r"
  "tb_check (inventories_table E) r = (if 0 \<le> inv_Quantity r then None else Some ''inventories_quantity_check'')"
  "tb_before_create (inventories_table E) = Inventory_BeforeCreate E"
  by (simp_all add: inventories_table_def)

lemma created_inventory_frame [frames, simp]: "keepsG world_only (created_inventory E i)"
  unfolding created_inventory_def by (auto intro!: framing)

lemma created_inventory_Inr:
  "created_inventory E i s = (Inr d, t) \<Longrightarrow>
     inv_ProductID d = inv_ProductID i \<and> inv_Quantity d = inv_Quantity i"
  by (auto simp: created_inventory_def gom inventories_table_def dest!: Inventory_BeforeCreate_Inr)

lemma put_inventories_only: "world_only (s\<lparr>st_inventories := rows\<rparr>) t \<Longrightarrow>
    inventory_only s t \<and> st_inventories t = rows"
  by (simp add: inventory_only_iff world_only_iff same_tables_iff same_metrics_def)

text \<open>A guarded addition: the statement of \<open>ConsumeStock\<close> and of a negative adjustment.\<close>

lemma guarded_add:
  assumes run: "updateG (inventories_table E) (\<lambda>x. inv_ProductID x = p \<and> guard (inv_Quantity x))
                  (\<lambda>x. set_quantity delta (f x)) s = (Inr rows, t)"
    and ok: "inventory_ok s"
    and f: "\<And>x. inv_ID (f x) = inv_ID x \<and> inv_ProductID (f x) = inv_ProductID x \<and> inv_Quantity (f x) = inv_Quantity x"
  shows "inventory_ok t" "inventory_only s t"
    "length rows = (if \<exists>n. stock s p = Some n \<and> guard n then 1 else 0)"
    "stock t = (if length rows = 1 then (stock s)(p \<mapsto> stock0 s p + delta) else stock s)"
    "\<And>r. rows = [r] \<Longrightarrow> inv_ProductID r = p \<and> stock t p = Some (inv_Quantity r)"
proof -
  let ?tb = "inventories_table E" and ?P = "\<lambda>x. inv_ProductID x = p \<and> guard (inv_Quantity x)"
  from run obtain new where w: "t = s\<lparr>st_inventories := new\<rparr>"
    and u: "list_all2 (updated_row ?tb ?P (\<lambda>x. set_quantity delta (f x))) (st_inventories s) new"
    and rows: "rows = map snd (filter (\<lambda>(r, r'). ?P r) (zip (st_inventories s) new))"
    and len: "length rows = length (filter ?P (st_inventories s))"
    by (rule updateG_Inr) simp
  have t: "inventory_only s t \<and> st_inventories t = new" by (simp add: w inventory_only_iff)
  then show "inventory_only s t" by simp
  note q = quantity_update [OF ok u f, of t] t
  show "inventory_ok t" using q by simp
  have dist: "distinct (map inv_ProductID (st_inventories s))" using ok by (simp add: inventory_ok_def)
  have len1: "length (filter ?P (st_inventories s)) \<le> 1"
  proof -
    have "distinct (map inv_ProductID (filter ?P (st_inventories s)))" using dist by (rule distinct_map_filter)
    moreover have "set (map inv_ProductID (filter ?P (st_inventories s))) \<subseteq> {p}" by auto
    ultimately have "length (map inv_ProductID (filter ?P (st_inventories s))) \<le> card {p}"
      by (metis card_mono distinct_card finite.emptyI finite_insert)
    then show ?thesis by simp
  qed
  have ex: "(\<exists>n. stock s p = Some n \<and> guard n) \<longleftrightarrow> filter ?P (st_inventories s) \<noteq> []"
    using ok by (auto simp: stock_Some_iff filter_empty_conv)
  show l: "length rows = (if \<exists>n. stock s p = Some n \<and> guard n then 1 else 0)"
    unfolding ex len using len1 by (cases "filter ?P (st_inventories s)") auto
  show "stock t = (if length rows = 1 then (stock s)(p \<mapsto> stock0 s p + delta) else stock s)"
  proof
    fix k
    show "stock t k = (if length rows = 1 then (stock s)(p \<mapsto> stock0 s p + delta) else stock s) k"
      using q l by (cases "stock s k") (auto simp: stock0_def)
  qed
  fix r assume "rows = [r]"
  then have "r \<in> set rows" by simp
  then obtain x where x: "(x, r) \<in> set (zip (st_inventories s) new)" "?P x" using rows by auto
  with u have "updated_row ?tb ?P (\<lambda>x. set_quantity delta (f x)) x r" by (auto simp: list_all2_iff)
  with x(2) f [of x] have "inv_ProductID r = p"
    by (auto simp: updated_row_def set_quantity_def map_sum_def split: sum.splits)
  moreover have "r \<in> set (st_inventories t)" using x t by (auto dest: set_zip_rightD)
  ultimately show "inv_ProductID r = p \<and> stock t p = Some (inv_Quantity r)"
    using \<open>inventory_ok t\<close> by (auto simp: stock_Some_iff)
qed

text \<open>An upsert that adds to the quantity: the statement of \<open>Restock\<close> and of a positive
  adjustment.\<close>

lemma upsert_add:
  assumes run: "stmtG E (upsertG (inventories_table E) (\<lambda>x r. inv_ProductID x = inv_ProductID r)
                  (\<lambda>x. set_quantity delta (f x)) d) s = (Inr rows, t)"
    and ok: "inventory_ok s" and delta: "inv_Quantity d = delta" "delta \<le> max_i64"
    and f: "\<And>x. inv_ID (f x) = inv_ID x \<and> inv_ProductID (f x) = inv_ProductID x \<and> inv_Quantity (f x) = inv_Quantity x"
  shows "stock_added s t (inv_ProductID d) delta"
    "\<exists>r. rows = [r] \<and> inv_ProductID r = inv_ProductID d \<and> inv_Quantity r = stock0 s (inv_ProductID d) + delta"
proof -
  let ?tb = "inventories_table E" and ?p = "inv_ProductID d"
  from run obtain u where su: "world_only s u" and up: "upsertG ?tb (\<lambda>x r. inv_ProductID x = inv_ProductID r)
      (\<lambda>x. set_quantity delta (f x)) d u = (Inr rows, t)" by (rule stmtG_Inr)
  note us = world_only_stock [OF su] world_only_inventory [OF su]
  have pos: "0 \<le> delta" using up delta by (auto simp: upsertG_def split: if_splits)
  have "stock_added s t ?p delta \<and> (\<exists>r. rows = [r] \<and> inv_ProductID r = ?p \<and> stock t ?p = Some (inv_Quantity r))"
  proof (cases "\<exists>x \<in> set (st_inventories u). inv_ProductID x = ?p")
    case True
    with up have q: "updateG ?tb (\<lambda>x. inv_ProductID x = ?p \<and> True) (\<lambda>x. set_quantity delta (f x)) u = (Inr rows, t)"
      by (auto simp: upsertG_def split: if_splits)
    have uok: "inventory_ok u" using ok us by simp
    from guarded_add [OF q uok f]
    have g: "inventory_ok t" "inventory_only u t" "length rows = (if \<exists>n. stock u ?p = Some n \<and> True then 1 else 0)"
      "stock t = (if length rows = 1 then (stock u)(?p \<mapsto> stock0 u ?p + delta) else stock u)"
      "\<And>r. rows = [r] \<Longrightarrow> inv_ProductID r = ?p \<and> stock t ?p = Some (inv_Quantity r)" by blast+
    from True uok have "\<exists>n. stock u ?p = Some n" by (auto simp: stock_Some_iff)
    with g(3) have one: "length rows = 1" by simp
    then obtain r where "rows = [r]" by (auto simp: length_Suc_conv)
    with g one us show ?thesis
      by (auto simp: stock_added_def stock0_def intro: inventory_only_trans)
  next
    case False
    with up have i: "insertG ?tb d u = (Inr (), t)" "rows = [d]"
      by (auto simp: upsertG_def bindG_def retG_def split: if_splits sum.splits prod.splits)
    then have v: "violation ?tb (st_inventories u) d = None" and t: "t = u\<lparr>st_inventories := st_inventories u @ [d]\<rparr>"
      by (simp_all add: inventories.insertG_Inr)
    have "inv_ID x \<noteq> inv_ID d" if "x \<in> set (st_inventories u)" for x
      using violation_None_unique [OF v, of "''inventories_pkey''" "\<lambda>x r. inv_ID x = inv_ID r" x] that
      by (simp add: inventories_table_def)
    then have fresh: "inv_ID d \<notin> inv_ID ` set (st_inventories u)" by force
    have uok: "inventory_ok u" using ok us by simp
    have "inventory_ok t" using uok fresh False pos delta by (auto simp: inventory_ok_def t)
    moreover have "stock u ?p = None" using False by (simp add: stock_None_iff)
    moreover have "stock t = (stock u)(?p \<mapsto> delta)"
    proof
      fix k
      from False show "stock t k = ((stock u)(?p \<mapsto> delta)) k"
        using \<open>stock u ?p = None\<close> delta by (auto simp: stock_def t find_append split: option.splits)
    qed
    ultimately show ?thesis using us i t delta
      by (auto simp: stock_added_def stock0_def inventory_only_iff)
  qed
  then show "stock_added s t ?p delta"
    "\<exists>r. rows = [r] \<and> inv_ProductID r = ?p \<and> inv_Quantity r = stock0 s ?p + delta"
    by (auto simp: stock_added_def)
qed

lemma upsert_Inl: "upsertG tb c f d s = (Inl e, t) \<Longrightarrow> t = s"
  by (auto simp: upsertG_def bindG_def insertG_def retG_def split: option.splits if_splits prod.splits sum.splits
      dest: updateG_Inl)

text \<open>
  What a client of \<open>IInventoryRepository\<close> relies on, in terms of \<open>stock\<close>.
\<close>

locale inventory_store =
  fixes repo :: "'w IInventoryRepository"
  assumes consume_Inr: "inventory_ok s \<Longrightarrow> ir_ConsumeStock repo p q s = (Inr b, t) \<Longrightarrow>
      b = (\<exists>n. stock s p = Some n \<and> q \<le> n) \<and>
      (if b then stock_added s t p (- q) else world_only s t)"
    and consume_Inl: "ir_ConsumeStock repo p q s = (Inl e, t) \<Longrightarrow>
      world_only s t \<and> \<not> errors_Is e ErrInsufficientStock \<and> \<not> errors_Is e ErrInventoryNotFound"
    and restock_Inr: "inventory_ok s \<Longrightarrow> q \<le> max_i64 \<Longrightarrow> ir_Restock repo p q s = (Inr u, t) \<Longrightarrow> stock_added s t p q"
    and restock_Inl: "ir_Restock repo p q s = (Inl e, t) \<Longrightarrow> world_only s t"
    and adjust_Inr: "inventory_ok s \<Longrightarrow> d \<le> max_i64 \<Longrightarrow> ir_AdjustStock repo p d s = (Inr (i, b), t) \<Longrightarrow>
      b = (0 < d \<or> (\<exists>n. stock s p = Some n \<and> 0 \<le> n + d)) \<and>
      (if b then stock_added s t p d \<and> inv_ProductID i = p \<and> inv_Quantity i = stock0 s p + d
       else world_only s t)"
    and adjust_Inl: "ir_AdjustStock repo p d s = (Inl e, t) \<Longrightarrow> world_only s t"
    and get_frame: "keepsG world_only (ir_GetByProductID repo p)"
    and get_Inr: "inventory_ok s \<Longrightarrow> ir_GetByProductID repo p s = (Inr i, t) \<Longrightarrow>
      inv_ProductID i = p \<and> stock s p = Some (inv_Quantity i)"
    and get_missing: "ir_GetByProductID repo p s = (Inl e, t) \<Longrightarrow> errors_Is e ErrRecordNotFound \<Longrightarrow> stock s p = None"
    and get_errors: "ir_GetByProductID repo p s = (Inl e, t) \<Longrightarrow> \<not> errors_Is e ErrInsufficientStock \<and> \<not> errors_Is e ErrInventoryNotFound"
begin

lemma getInventory_cases:
  assumes "getInventory repo p s = (r, t)"
  obtains (found) i where "ir_GetByProductID repo p s = (Inr i, t)" "r = Inr i"
  | (failed) e where "ir_GetByProductID repo p s = (Inl e, t)"
      "r = Inl (if errors_Is e ErrRecordNotFound then ErrInventoryNotFound else e)"
proof (cases "ir_GetByProductID repo p s")
  case (Pair x u)
  with assms that show ?thesis
    by (cases x) (auto simp: getInventory_def tryG_def throwG_def retG_def split: if_splits)
qed

lemma getInventory_Inl:
  assumes "getInventory repo p s = (Inl e, t)"
  shows "world_only s t \<and> \<not> errors_Is e ErrInsufficientStock \<and> (e = ErrInventoryNotFound \<longrightarrow> stock s p = None)"
  using assms
proof (cases rule: getInventory_cases)
  case (failed d)
  with keepsGD [OF get_frame failed(1)] get_missing [OF failed(1)] get_errors [OF failed(1)]
  show ?thesis by (auto split: if_splits)
qed simp

lemma getInventory_frame [frames, simp]: "keepsG world_only (getInventory repo p)"
  using get_frame unfolding getInventory_def by (auto intro!: framing)

lemma getInventory_Inr:
  "inventory_ok s \<Longrightarrow> getInventory repo p s = (Inr i, t) \<Longrightarrow> stock s p = Some (inv_Quantity i) \<and> inv_ProductID i = p"
  by (erule getInventory_cases) (auto dest: get_Inr)

lemma service_consume_Inr:
  assumes "inventory_ok s" "InventoryService_ConsumeStock repo p q s = (Inr u, t)"
  shows "0 < q \<and> q \<le> stock0 s p \<and> stock s p \<noteq> None \<and> stock_added s t p (- q)"
proof -
  from assms(2) have "0 < q" "ir_ConsumeStock repo p q s = (Inr True, t)"
    by (auto simp: InventoryService_ConsumeStock_def gom split: if_splits)
  with consume_Inr [OF assms(1) this(2)] show ?thesis by (auto simp: stock0_def)
qed

lemma service_consume_Inl:
  assumes ok: "inventory_ok s" and run: "InventoryService_ConsumeStock repo p q s = (Inl e, t)"
  shows "world_only s t \<and> (e = ErrInsufficientStock \<longrightarrow> stock0 s p < q) \<and> (e = ErrInventoryNotFound \<longrightarrow> stock s p = None)"
proof (cases "q \<le> 0")
  case True
  with run show ?thesis by (simp add: InventoryService_ConsumeStock_def gom)
next
  case False
  from run have "bindG (ir_ConsumeStock repo p q) (\<lambda>consumed. if consumed then retG ()
      else bindG (getInventory repo p) (\<lambda>_. throwG ErrInsufficientStock)) s = (Inl e, t)"
    using False by (simp add: InventoryService_ConsumeStock_def)
  then consider "ir_ConsumeStock repo p q s = (Inl e, t)"
    | u where "ir_ConsumeStock repo p q s = (Inr False, u)"
      "bindG (getInventory repo p) (\<lambda>_. throwG ErrInsufficientStock) u = (Inl e :: goerr + unit, t)"
    by (auto simp: bindG_Inl_iff gom split: if_splits)
  then show ?thesis
  proof cases
    case 1
    from consume_Inl [OF this] show ?thesis by auto
  next
    case (2 u)
    with consume_Inr [OF ok 2(1)] have su: "world_only s u" and few: "\<not> (\<exists>n. stock s p = Some n \<and> q \<le> n)" by auto
    note eq = world_only_stock [OF su]
    obtain r v where g: "getInventory repo p u = (r, v)" by fastforce
    from keepsGD [OF getInventory_frame g] su have sv: "world_only s v" using world_only_trans by blast
    show ?thesis
    proof (cases r)
      case (Inl d)
      with 2(2) g have "d = e" "v = t" by (auto simp: bindG_def)
      with getInventory_Inl [of p u e t] Inl g sv eq show ?thesis by auto
    next
      case (Inr i)
      with 2(2) g have "e = ErrInsufficientStock" "v = t" by (auto simp: bindG_def throwG_def)
      with getInventory_Inr [of u p i t] Inr g sv few ok eq show ?thesis by (auto simp: stock0_def)
    qed
  qed
qed

lemma service_restock_Inr:
  assumes "inventory_ok s" "InventoryService_Restock repo p q s = (Inr u, t)" "q \<le> max_i64"
  shows "0 < q \<and> stock_added s t p q"
  using assms by (auto simp: InventoryService_Restock_def gom split: if_splits dest: restock_Inr)

lemma service_restock_Inl:
  "InventoryService_Restock repo p q s = (Inl e, t) \<Longrightarrow> world_only s t"
  by (auto simp: InventoryService_Restock_def gom split: if_splits dest: restock_Inl)

lemma service_adjust_Inr:
  assumes "inventory_ok s" "ai_QuantityDelta req \<le> max_i64"
    and "InventoryService_AdjustStock validate repo p req s = (Inr i, t)"
  shows "validate req = None \<and> stock_added s t p (ai_QuantityDelta req) \<and> 0 \<le> inv_Quantity i \<and>
    inv_ProductID i = p \<and> inv_Quantity i = stock0 s p + ai_QuantityDelta req"
proof -
  from assms(3) have v: "validate req = None"
    and a: "ir_AdjustStock repo p (ai_QuantityDelta req) s = (Inr (i, True), t)"
    by (auto simp: InventoryService_AdjustStock_def gom split: if_splits)
  from adjust_Inr [OF assms(1,2) a] have r: "stock_added s t p (ai_QuantityDelta req)"
    "inv_ProductID i = p" "inv_Quantity i = stock0 s p + ai_QuantityDelta req" by auto
  then have "stock0 t p = inv_Quantity i" by (simp add: stock_added_def stock0_def)
  with r(1) stock0_nonneg [of t p] have "0 \<le> inv_Quantity i" by (simp add: stock_added_def)
  with v r show ?thesis by simp
qed

lemma service_adjust_Inl:
  assumes ok: "inventory_ok s" and small: "ai_QuantityDelta req \<le> max_i64"
    and run: "InventoryService_AdjustStock validate repo p req s = (Inl e, t)"
  shows "world_only s t"
proof -
  from run consider "s = t" | "ir_AdjustStock repo p (ai_QuantityDelta req) s = (Inl e, t)"
    | i u where "ir_AdjustStock repo p (ai_QuantityDelta req) s = (Inr (i, False), u)"
      "bindG (getInventory repo p) (\<lambda>_. throwG ErrInsufficientStock) u = (Inl e :: goerr + Inventory, t)"
    by (auto simp: InventoryService_AdjustStock_def bindG_Inl_iff gom split: if_splits)
  then show ?thesis
  proof cases
    case (3 i u)
    then have "world_only s u" using adjust_Inr [OF ok small 3(1)] by simp
    moreover have "keepsG world_only (bindG (getInventory repo p) (\<lambda>_. throwG ErrInsufficientStock) :: ('w st, Inventory) gom)"
      by (intro keepsG_bind) simp_all
    from keepsGD [OF this 3(2)] have "world_only u t" .
    ultimately show ?thesis by (rule world_only_trans)
  qed (auto dest: adjust_Inl)
qed

end

text \<open>The repository of the code satisfies the contract.\<close>

lemma InventoryRepo_Consume_Inr:
  assumes ok: "inventory_ok s" and run: "InventoryRepo_ConsumeStock E p q s = (Inr b, t)"
  shows "b = (\<exists>n. stock s p = Some n \<and> q \<le> n) \<and> (if b then stock_added s t p (- q) else world_only s t)"
proof -
  from run obtain rows where b: "b = (0 < length rows)"
    and st: "stmtG E (updateG (inventories_table E) (\<lambda>x. inv_ProductID x = p \<and> q \<le> inv_Quantity x)
               (\<lambda>x. set_quantity (- q) x)) s = (Inr rows, t)"
    by (auto simp: InventoryRepo_ConsumeStock_def gom)
  from st obtain u where su: "world_only s u" and
    up: "updateG (inventories_table E) (\<lambda>x. inv_ProductID x = p \<and> q \<le> inv_Quantity x)
      (\<lambda>x. set_quantity (- q) x) u = (Inr rows, t)" by (rule stmtG_Inr)
  note us = world_only_stock [OF su]
  have uok: "inventory_ok u" using us ok by simp
  note ga = guarded_add [where guard = "\<lambda>n. q \<le> n" and f = "\<lambda>x. x", OF up uok]
  have g: "inventory_ok t" "inventory_only u t" "length rows = (if \<exists>n. stock u p = Some n \<and> q \<le> n then 1 else 0)"
    "stock t = (if length rows = 1 then (stock u)(p \<mapsto> stock0 u p + - q) else stock u)" by (rule ga; simp)+
  show ?thesis
  proof (cases "rows = []")
    case True
    have "t = u" using up True by (simp add: inventories.updateG_none)
    with True g(3) b us su show ?thesis by (auto split: if_splits)
  next
    case False
    with g(3) have one: "length rows = 1" by (auto split: if_splits)
    have ex: "\<exists>n. stock u p = Some n \<and> q \<le> n" using g(3) one by (metis zero_neq_one)
    have only: "inventory_only s t" using world_only_inventory [OF su] g(2) by (rule inventory_only_trans)
    have "stock t = (stock u)(p \<mapsto> stock0 u p + - q)" using g(4) one by simp
    then have "stock_added s t p (- q)"
      unfolding stock_added_def stock0_def using us g(1) only by simp
    with ex us b False show ?thesis by simp
  qed
qed

lemma set_quantity_sql_error: "set_quantity d x = Inl e \<Longrightarrow> sql_error e"
  by (auto simp: set_quantity_def add_bigint_def split: if_splits)

lemma InventoryRepo_Consume_Inl:
  assumes "InventoryRepo_ConsumeStock E p q s = (Inl e, t)"
  shows "world_only s t \<and> sql_error e"
proof -
  from assms have "stmtG E (updateG (inventories_table E)
      (\<lambda>x. inv_ProductID x = p \<and> q \<le> inv_Quantity x) (set_quantity (- q))) s = (Inl e, t)"
    by (simp add: InventoryRepo_ConsumeStock_def gom)
  then show ?thesis
    by (blast dest: inventories.updateG_stmt_Inl intro: stmtG_sql_error updateG_sql_error set_quantity_sql_error)
qed

lemma upsert_add_run:
  assumes c: "created_inventory E (new_inventory p q) s = (Inr d, v)"
    and v: "world_only v w"
    and st: "stmtG E (upsertG (inventories_table E) (\<lambda>x r. inv_ProductID x = inv_ProductID r)
               (\<lambda>x. set_quantity q (f x)) d) w = (Inr rows, t)"
    and ok: "inventory_ok s" and small: "q \<le> max_i64"
    and f: "\<And>x. inv_ID (f x) = inv_ID x \<and> inv_ProductID (f x) = inv_ProductID x \<and> inv_Quantity (f x) = inv_Quantity x"
  shows "stock_added s t p q"
    "\<exists>r. rows = [r] \<and> inv_ProductID r = p \<and> inv_Quantity r = stock0 s p + q"
proof -
  have d: "inv_ProductID d = p" "inv_Quantity d = q"
    using created_inventory_Inr [OF c] by (simp_all add: new_inventory_def)
  have sw: "world_only s w" using keepsGD [OF created_inventory_frame c] v by (rule world_only_trans)
  note ws = world_only_stock [OF sw]
  have a: "stock_added w t (inv_ProductID d) q"
    "\<exists>r. rows = [r] \<and> inv_ProductID r = inv_ProductID d \<and> inv_Quantity r = stock0 w (inv_ProductID d) + q"
    by (rule upsert_add [where f = f, OF st]; use ok ws d small f in simp)+
  show "stock_added s t p q"
    using a(1) ws d world_only_inventory [OF sw]
    unfolding stock_added_def stock0_def by (auto intro: inventory_only_trans)
  show "\<exists>r. rows = [r] \<and> inv_ProductID r = p \<and> inv_Quantity r = stock0 s p + q"
    using a(2) ws d unfolding stock0_def by simp
qed

lemma upsert_stmt_Inl: "stmtG E (upsertG tb c f d) s = (Inl e, t) \<Longrightarrow> world_only s t"
  by (elim stmtG_Inl) (auto dest: upsert_Inl)

lemma InventoryRepo_Restock_Inl: "InventoryRepo_Restock E p q s = (Inl e, t) \<Longrightarrow> world_only s t"
  unfolding InventoryRepo_Restock_def
  by (auto simp: gom dest!: upsert_stmt_Inl keepsGD [OF created_inventory_frame] intro: world_only_trans)

lemma InventoryRepo_Restock_Inr:
  assumes ok: "inventory_ok s" and small: "q \<le> max_i64" and run: "InventoryRepo_Restock E p q s = (Inr u, t)"
  shows "stock_added s t p q"
proof -
  from run obtain d v rows where c: "created_inventory E (new_inventory p q) s = (Inr d, v)"
    and st: "stmtG E (upsertG (inventories_table E) (\<lambda>x r. inv_ProductID x = inv_ProductID r)
               (\<lambda>x. set_quantity q x) d) v = (Inr rows, t)"
    by (auto simp: InventoryRepo_Restock_def gom)
  show ?thesis by (rule upsert_add_run(1) [where f = "\<lambda>x. x", OF c _ st ok small]) simp_all
qed

lemma InventoryRepo_Adjust_Inr:
  assumes ok: "inventory_ok s" and small: "d \<le> max_i64"
    and run: "InventoryRepo_AdjustStock E p d s = (Inr (i, b), t)"
  shows "b = (0 < d \<or> (\<exists>n. stock s p = Some n \<and> 0 \<le> n + d)) \<and>
      (if b then stock_added s t p d \<and> inv_ProductID i = p \<and> inv_Quantity i = stock0 s p + d
       else world_only s t)"
proof (cases "0 < d")
  case True
  with run obtain x v rows where c: "created_inventory E (new_inventory p d) s = (Inr x, v)"
    and st: "stmtG E (upsertG (inventories_table E) (\<lambda>x r. inv_ProductID x = inv_ProductID r)
        (\<lambda>y. set_quantity (inv_Quantity x) (y\<lparr>inv_UpdatedAt := fst (env_now E (st_world v))\<rparr>)) x)
        (v\<lparr>st_world := snd (env_now E (st_world v))\<rparr>) = (Inr rows, t)"
    and ib: "i = (case rows of r # _ \<Rightarrow> r | [] \<Rightarrow> x)" "b = (length rows = 1)"
    by (auto simp: InventoryRepo_AdjustStock_def gom)
  have q: "inv_Quantity x = d" using created_inventory_Inr [OF c] by (simp add: new_inventory_def)
  have r: "stock_added s t p d" "\<exists>r. rows = [r] \<and> inv_ProductID r = p \<and> inv_Quantity r = stock0 s p + d"
    by (rule upsert_add_run [where f = "\<lambda>y. y\<lparr>inv_UpdatedAt := fst (env_now E (st_world v))\<rparr>",
          OF c world_only_world st [unfolded q] ok small]; simp)+
  with ib True show ?thesis by auto
next
  case False
  with run obtain now w rows where sw: "world_only s w"
    and st: "stmtG E (updateG (inventories_table E) (\<lambda>x. inv_ProductID x = p \<and> 0 \<le> inv_Quantity x + d)
               (\<lambda>x. set_quantity d (x\<lparr>inv_UpdatedAt := now\<rparr>))) w = (Inr rows, t)"
    and ib: "i = (case rows of r # _ \<Rightarrow> r | [] \<Rightarrow> new_inventory '''' 0)" "b = (length rows = 1)"
    by (auto simp: InventoryRepo_AdjustStock_def gom intro: world_only_world)
  from st obtain u where "world_only w u" and
    up: "updateG (inventories_table E) (\<lambda>x. inv_ProductID x = p \<and> 0 \<le> inv_Quantity x + d)
      (\<lambda>x. set_quantity d (x\<lparr>inv_UpdatedAt := now\<rparr>)) u = (Inr rows, t)" by (rule stmtG_Inr)
  with sw have su: "world_only s u" by (blast intro: world_only_trans)
  note us = world_only_stock [OF su]
  have uok: "inventory_ok u" using us ok by simp
  note ga = guarded_add [where guard = "\<lambda>n. 0 \<le> n + d" and f = "\<lambda>x. x\<lparr>inv_UpdatedAt := now\<rparr>", OF up uok]
  have g: "inventory_ok t" "inventory_only u t" "length rows = (if \<exists>n. stock u p = Some n \<and> 0 \<le> n + d then 1 else 0)"
    "stock t = (if length rows = 1 then (stock u)(p \<mapsto> stock0 u p + d) else stock u)" by (rule ga; simp)+
  have gr: "inv_ProductID r = p \<and> stock t p = Some (inv_Quantity r)" if "rows = [r]" for r
    by (rule ga) (simp_all add: that)
  show ?thesis
  proof (cases "rows = []")
    case True
    have "t = u" using up True by (simp add: inventories.updateG_none)
    with True g(3) ib us su False show ?thesis by (auto split: if_splits)
  next
    case nonempty: False
    with g(3) have one: "length rows = 1" by (auto split: if_splits)
    then obtain r where r: "rows = [r]" by (auto simp: length_Suc_conv)
    have ex: "\<exists>n. stock u p = Some n \<and> 0 \<le> n + d" using g(3) one by (metis zero_neq_one)
    have only: "inventory_only s t" using world_only_inventory [OF su] g(2) by (rule inventory_only_trans)
    have st: "stock t = (stock u)(p \<mapsto> stock0 u p + d)" using g(4) one by simp
    then have "stock_added s t p d"
      unfolding stock_added_def stock0_def using us g(1) only by simp
    moreover have "inv_Quantity i = stock0 s p + d" "inv_ProductID i = p"
      using gr [OF r] st us ib r by (simp_all add: stock0_def)
    ultimately show ?thesis using ex us ib one by simp
  qed
qed

lemma InventoryRepo_Adjust_Inl: "InventoryRepo_AdjustStock E p d s = (Inl e, t) \<Longrightarrow> world_only s t"
  unfolding InventoryRepo_AdjustStock_def
  by (auto simp: gom split: if_splits dest!: upsert_stmt_Inl inventories.updateG_stmt_Inl
      keepsGD [OF created_inventory_frame] intro: world_only_trans world_only_world)

lemma InventoryRepo_Get_result:
  assumes "InventoryRepo_GetByProductID E p s = (r, t)"
  shows "case r of
      Inl e \<Rightarrow> sql_error e \<or> e = ErrRecordNotFound \<and> stock s p = None
    | Inr i \<Rightarrow> i \<in> set (st_inventories s) \<and> inv_ProductID i = p"
  using inventories.FindOne_result [OF assms [unfolded InventoryRepo_GetByProductID_def]]
  by (auto simp: option_defs inventories_table_def matches_def stock_None_iff split: sum.splits)

lemma InventoryRepo_Get_frame [frames, simp]: "keepsG world_only (InventoryRepo_GetByProductID E p)"
  by (simp add: InventoryRepo_GetByProductID_def)

interpretation inventory_repo: inventory_store "NewInventoryRepository E" for E :: "'w env"
proof
  fix s t :: "'w st" and p q b
  assume "inventory_ok s" "ir_ConsumeStock (NewInventoryRepository E) p q s = (Inr b, t)"
  then show "b = (\<exists>n. stock s p = Some n \<and> q \<le> n) \<and> (if b then stock_added s t p (- q) else world_only s t)"
    using InventoryRepo_Consume_Inr [of s E p q b t] by (simp add: NewInventoryRepository_def)
next
  fix s t :: "'w st" and p q e
  assume "ir_ConsumeStock (NewInventoryRepository E) p q s = (Inl e, t)"
  then show "world_only s t \<and> \<not> errors_Is e ErrInsufficientStock \<and> \<not> errors_Is e ErrInventoryNotFound"
    using InventoryRepo_Consume_Inl [of E p q s e t] by (auto simp: NewInventoryRepository_def)
next
  fix s t :: "'w st" and p e
  assume "ir_GetByProductID (NewInventoryRepository E) p s = (Inl e, t)"
  then have "sql_error e \<or> e = ErrRecordNotFound"
    using InventoryRepo_Get_result [of E p s "Inl e" t] by (auto simp: NewInventoryRepository_def)
  then show "\<not> errors_Is e ErrInsufficientStock \<and> \<not> errors_Is e ErrInventoryNotFound" by auto
next
  fix s t :: "'w st" and p e
  assume "ir_GetByProductID (NewInventoryRepository E) p s = (Inl e, t)" "errors_Is e ErrRecordNotFound"
  then show "stock s p = None"
    using InventoryRepo_Get_result [of E p s "Inl e" t] by (auto simp: NewInventoryRepository_def)
next
  fix s t :: "'w st" and p i
  assume "inventory_ok s" "ir_GetByProductID (NewInventoryRepository E) p s = (Inr i, t)"
  then show "inv_ProductID i = p \<and> stock s p = Some (inv_Quantity i)"
    using InventoryRepo_Get_result [of E p s "Inr i" t] by (auto simp: NewInventoryRepository_def stock_Some_iff)
next
  fix p
  show "keepsG world_only (ir_GetByProductID (NewInventoryRepository E) p)"
    by (simp add: NewInventoryRepository_def)
next
  fix s t :: "'w st" and p d i b
  assume "inventory_ok s" "d \<le> max_i64" "ir_AdjustStock (NewInventoryRepository E) p d s = (Inr (i, b), t)"
  then show "b = (0 < d \<or> (\<exists>n. stock s p = Some n \<and> 0 \<le> n + d)) \<and>
      (if b then stock_added s t p d \<and> inv_ProductID i = p \<and> inv_Quantity i = stock0 s p + d
       else world_only s t)"
    using InventoryRepo_Adjust_Inr [of s d E p i b t] by (simp add: NewInventoryRepository_def)
qed (simp_all only: NewInventoryRepository_def IInventoryRepository.simps
      InventoryRepo_Restock_Inr InventoryRepo_Restock_Inl InventoryRepo_Adjust_Inl)

section \<open>The contract of the service\<close>

text \<open>
  The part of \<open>InventoryService\<close> that orders use (\<open>internal/order/service/ports.go\<close>).
\<close>

record 'w OrderInventory =
  in_ConsumeStock :: "string \<Rightarrow> int64 \<Rightarrow> ('w st, unit) gom"
  in_Restock :: "string \<Rightarrow> int64 \<Rightarrow> ('w st, unit) gom"

definition NewInventoryService :: "'w IInventoryRepository \<Rightarrow> 'w OrderInventory" where
  "NewInventoryService repo =
     \<lparr>in_ConsumeStock = InventoryService_ConsumeStock repo, in_Restock = InventoryService_Restock repo\<rparr>"

locale order_inventory =
  fixes inventory :: "'w OrderInventory"
  assumes consume_ok: "inventory_ok s \<Longrightarrow> in_ConsumeStock inventory p q s = (Inr u, t) \<Longrightarrow>
      0 < q \<and> q \<le> stock0 s p \<and> stock s p \<noteq> None \<and> stock_added s t p (- q)"
    and consume_err: "inventory_ok s \<Longrightarrow> in_ConsumeStock inventory p q s = (Inl e, t) \<Longrightarrow>
      world_only s t \<and> (e = ErrInsufficientStock \<longrightarrow> stock0 s p < q)"
    and restock_ok: "inventory_ok s \<Longrightarrow> q \<le> max_i64 \<Longrightarrow> in_Restock inventory p q s = (Inr u, t) \<Longrightarrow>
      0 < q \<and> stock_added s t p q"
    and restock_err: "in_Restock inventory p q s = (Inl e, t) \<Longrightarrow> world_only s t"

sublocale inventory_store \<subseteq> service: order_inventory "NewInventoryService repo"
  by unfold_locales
    (auto simp: NewInventoryService_def dest: service_consume_Inr service_consume_Inl
      service_restock_Inr service_restock_Inl)

section \<open>Properties\<close>

definition demo_stock :: "nat st" where
  "demo_stock = empty_st\<lparr>st_inventories := [(new_inventory ''p1'' 10)\<lparr>inv_ID := ''i1''\<rparr>]\<rparr>"

lemma demo_stock_ok: "inventory_ok demo_stock"
  by (simp add: demo_stock_def empty_st_def inventory_ok_def new_inventory_def max_i64_def)

text \<open>
  C8: one \<open>ConsumeStock\<close> call either takes exactly the requested positive quantity from
  the product, which had at least that much, or changes nothing; \<open>ErrInsufficientStock\<close> is
  answered only when the stock is below the request.
\<close>

theorem consume_stock_all_or_nothing:
  assumes "inventory_ok s"
    and "InventoryService_ConsumeStock (NewInventoryRepository E) p q s = (r, t)"
  shows "case r of
      Inr _ \<Rightarrow> 0 < q \<and> q \<le> stock0 s p \<and> stock t = (stock s)(p \<mapsto> stock0 s p - q) \<and> inventory_only s t
    | Inl e \<Rightarrow> same_tables s t \<and> (e = ErrInsufficientStock \<longrightarrow> stock0 s p < q)"
proof (cases r)
  case (Inl e)
  with inventory_repo.service_consume_Inl [OF assms(1)] assms(2) show ?thesis by (auto simp: world_only_iff)
next
  case (Inr u)
  with inventory_repo.service_consume_Inr [OF assms(1)] assms(2) show ?thesis by (auto simp: stock_added_def)
qed

theorem consume_stock_all_or_nothing_witness:
  "case fst (InventoryService_ConsumeStock (NewInventoryRepository calm) ''p1'' 11 demo_stock) of
      Inr _ \<Rightarrow> 0 < (11::int) \<and> 11 \<le> stock0 demo_stock ''p1'' \<and>
        stock (snd (InventoryService_ConsumeStock (NewInventoryRepository calm) ''p1'' 11 demo_stock)) =
          (stock demo_stock)(''p1'' \<mapsto> stock0 demo_stock ''p1'' - 11) \<and>
        inventory_only demo_stock (snd (InventoryService_ConsumeStock (NewInventoryRepository calm) ''p1'' 11 demo_stock))
    | Inl e \<Rightarrow>
        same_tables demo_stock (snd (InventoryService_ConsumeStock (NewInventoryRepository calm) ''p1'' 11 demo_stock)) \<and>
        (e = ErrInsufficientStock \<longrightarrow> stock0 demo_stock ''p1'' < 11)"
  by (rule consume_stock_all_or_nothing [OF demo_stock_ok]) simp

section \<open>Replacing the stock\<close>

text \<open>The rows by their id and product, which no operation takes away.\<close>

definition inv_key :: "Inventory \<Rightarrow> string \<times> string" where
  "inv_key i = (inv_ID i, inv_ProductID i)"

definition inv_keys :: "'w st \<Rightarrow> (string \<times> string) set" where
  "inv_keys s = inv_key ` set (st_inventories s)"

lemma inv_key_update [simp]: "inv_key (i\<lparr>inv_Quantity := q\<rparr>) = inv_key i" "inv_key (i\<lparr>inv_UpdatedAt := u\<rparr>) = inv_key i"
  by (simp_all add: inv_key_def)

lemma inv_keysI: "i \<in> set (st_inventories s) \<Longrightarrow> inv_key i \<in> inv_keys s"
  by (simp add: inv_keys_def)

text \<open>
  What replacing the stock of a product relies on beyond the contract of the orders: rows are created
  empty, and a row that was read, and may have changed since, can be saved with another quantity.
\<close>

locale inventory_admin = inventory_store repo for repo :: "'w IInventoryRepository" +
  assumes get_row: "ir_GetByProductID repo p s = (Inr i, t) \<Longrightarrow> i \<in> set (st_inventories s) \<and> inv_ProductID i = p"
    and create_Inr: "inventory_ok s \<Longrightarrow> stock s p = None \<Longrightarrow> ir_Create repo (new_inventory p 0) s = (Inr i, t) \<Longrightarrow>
      stock_added s t p 0 \<and> i \<in> set (st_inventories t) \<and> inv_ProductID i = p"
    and create_Inl: "ir_Create repo (new_inventory p 0) s = (Inl e, t) \<Longrightarrow> world_only s t"
    and update_Inr: "inventory_ok s \<Longrightarrow> inv_key i \<in> inv_keys s \<Longrightarrow> q \<le> max_i64 \<Longrightarrow>
      ir_Update repo (i\<lparr>inv_Quantity := q\<rparr>) s = (Inr j, t) \<Longrightarrow>
      0 \<le> q \<and> inventory_ok t \<and> inventory_only s t \<and> stock t = (stock s)(inv_ProductID i \<mapsto> q) \<and>
      inv_ProductID j = inv_ProductID i \<and> inv_Quantity j = q \<and> inv_keys t = inv_keys s"
    and update_Inl: "inventory_ok s \<Longrightarrow> inv_key i \<in> inv_keys s \<Longrightarrow>
      ir_Update repo (i\<lparr>inv_Quantity := q\<rparr>) s = (Inl e, t) \<Longrightarrow> world_only s t"
begin

lemma getOrCreate_cases:
  assumes ok: "inventory_ok s" and run: "getOrCreate repo p s = (r, t)"
  obtains (failed) e where "r = Inl e" "world_only s t"
  | (row) i b where "r = Inr (i, b)" "inventory_ok t" "inventory_only s t" "i \<in> set (st_inventories t)" "inv_ProductID i = p"
      "\<And>k. stock0 t k = stock0 s k" "stock t = (stock s)(p \<mapsto> stock0 s p)"
proof (cases "ir_GetByProductID repo p s")
  case (Pair x u)
  have u: "world_only s u" using keepsGD [OF get_frame Pair] .
  note us = world_only_stock [OF u] world_only_inventory [OF u]
  have uok: "inventory_ok u" using ok us by simp
  have s0: "stock0 u k = stock0 s k" for k using us by (simp add: stock0_def)
  show ?thesis
  proof (cases x)
    case (Inr i)
    with run Pair have rt: "r = Inr (i, False)" "t = u" by (auto simp: getOrCreate_def tryG_def retG_def)
    have i: "i \<in> set (st_inventories s)" "inv_ProductID i = p" using get_row Pair Inr by auto
    then have "i \<in> set (st_inventories u)" using u by (simp add: world_only_iff same_tables_iff)
    moreover have "stock s p = Some (inv_Quantity i)" using get_Inr [OF ok] Pair Inr by auto
    ultimately show ?thesis using rt i uok us s0 by (intro row [of i False]) (auto simp: stock0_def)
  next
    case (Inl e)
    show ?thesis
    proof (cases "errors_Is e ErrRecordNotFound")
      case False
      with run Pair Inl u show ?thesis by (intro failed) (auto simp: getOrCreate_def tryG_def throwG_def)
    next
      case True
      obtain y v where y: "ir_Create repo (new_inventory p 0) u = (y, v)" by fastforce
      have none: "stock u p = None" using get_missing Pair Inl True us by auto
      have rt: "r = (case y of Inl e \<Rightarrow> Inl e | Inr i \<Rightarrow> Inr (i, True))" "t = v"
        using run Pair Inl True y by (auto simp: getOrCreate_def tryG_def bindG_def retG_def split: sum.splits)
      show ?thesis
      proof (cases y)
        case (Inl d)
        with create_Inl y rt u show ?thesis by (intro failed) (auto intro: world_only_trans)
      next
        case (Inr i)
        with create_Inr [OF uok none] y have c: "stock_added u v p 0" "i \<in> set (st_inventories v)" "inv_ProductID i = p" by auto
        show ?thesis
          by (rule row [of i True]) (use c rt Inr us s0 none in \<open>auto simp: stock_added_def stock0_def intro: inventory_only_trans\<close>)
      qed
    qed
  qed
qed

lemma service_set:
  assumes ok: "inventory_ok s" and q: "si_Quantity req \<le> max_i64"
    and run: "InventoryService_SetStock validate repo req s = (r, t)"
  shows "case r of
      Inl e \<Rightarrow> inventory_ok t \<and> inventory_only s t \<and> (\<forall>k. stock0 t k = stock0 s k)
    | Inr i \<Rightarrow> validate req = None \<and> 0 \<le> si_Quantity req \<and> inventory_ok t \<and> inventory_only s t \<and>
        stock t = (stock s)(si_ProductID req \<mapsto> si_Quantity req) \<and>
        inv_ProductID i = si_ProductID req \<and> inv_Quantity i = si_Quantity req"
proof (cases "validate req")
  case (Some e)
  with run ok show ?thesis by (auto simp: InventoryService_SetStock_def bindG_def checkG_def)
next
  case None
  let ?p = "si_ProductID req"
  obtain x u where x: "getOrCreate repo ?p s = (x, u)" by fastforce
  from ok x show ?thesis
  proof (cases rule: getOrCreate_cases)
    case (failed e)
    with run None x have "r = Inl e" "t = u" by (auto simp: InventoryService_SetStock_def bindG_def checkG_def)
    with failed ok world_only_stock [OF failed(2)] world_only_inventory [OF failed(2)] show ?thesis by (simp add: stock0_def)
  next
    case (row i b)
    then have y: "ir_Update repo (i\<lparr>inv_Quantity := si_Quantity req\<rparr>) u = (r, t)"
      using run None x by (auto simp: InventoryService_SetStock_def bindG_def checkG_def split: sum.splits)
    show ?thesis
    proof (cases r)
      case (Inl e)
      note w = update_Inl [OF row(2) inv_keysI [OF row(4)] y [unfolded Inl]]
      from row world_only_stock [OF w] inventory_only_trans [OF row(3) world_only_inventory [OF w]] Inl
      show ?thesis by (simp add: stock0_def)
    next
      case (Inr j)
      from update_Inr [OF row(2) inv_keysI [OF row(4)] q y [unfolded Inr]] row inventory_only_trans [OF row(3)] None Inr show ?thesis by auto
    qed
  qed
qed

end

lemma InventoryRepo_Create_Inr:
  assumes ok: "inventory_ok s" and none: "stock s p = None"
    and run: "InventoryRepo_Create E (new_inventory p 0) s = (Inr i, t)"
  shows "stock_added s t p 0 \<and> i \<in> set (st_inventories t) \<and> inv_ProductID i = p"
proof -
  from run [unfolded InventoryRepo_Create_def] obtain d now u where d: "Inventory_BeforeCreate E (new_inventory p 0) s = (Inr d, u)"
    and i: "i = tb_created (inventories_table E) now d" and v: "violation (inventories_table E) (st_inventories s) i = None"
    and w: "world_only (s\<lparr>st_inventories := st_inventories s @ [i]\<rparr>) t"
    by (rule inventories.Create_Inr) simp
  have sel: "inv_ProductID i = p" "inv_Quantity i = 0"
    using Inventory_BeforeCreate_Inr [OF d] by (auto simp: i inventories_table_def new_inventory_def)
  have "inv_ID x \<noteq> inv_ID i" if "x \<in> set (st_inventories s)" for x
    using violation_None_unique [OF v, of "''inventories_pkey''" "\<lambda>x r. inv_ID x = inv_ID r" x] that
    by (simp add: inventories_table_def)
  then have "inv_ID i \<notin> inv_ID ` set (st_inventories s)" by force
  moreover have "p \<notin> inv_ProductID ` set (st_inventories s)" using none by (auto simp: stock_None_iff)
  moreover note rows = put_inventories_only [OF w]
  ultimately have okt: "inventory_ok t" using ok sel by (auto simp: inventory_ok_def max_i64_def)
  have "find (\<lambda>y. inv_ProductID y = p) (st_inventories s) = None" using none by (simp add: stock_def)
  then have "stock t = (stock s)(p \<mapsto> stock0 s p + 0)"
    using rows none sel by (auto simp: stock_def stock0_def fun_eq_iff find_append split: option.splits)
  with okt rows sel show ?thesis by (auto simp: stock_added_def)
qed

lemma find_map_id:
  assumes "distinct (map inv_ProductID xs)" "distinct (map inv_ID xs)" "i \<in> set xs"
    and "inv_ProductID row = inv_ProductID i"
  shows "map_option inv_Quantity (find (\<lambda>x. inv_ProductID x = k) (map (\<lambda>r. if inv_ID r = inv_ID i then row else r) xs)) =
    (if k = inv_ProductID i then Some (inv_Quantity row) else map_option inv_Quantity (find (\<lambda>x. inv_ProductID x = k) xs))"
  using assms
proof (induction xs)
  case (Cons x xs)
  have "x \<noteq> i \<Longrightarrow> inv_ID x \<noteq> inv_ID i" using Cons.prems by force
  moreover have "x = i \<Longrightarrow> y \<in> set xs \<Longrightarrow> inv_ID y \<noteq> inv_ID i" for y using Cons.prems(2) by (auto simp: image_iff)
  then have "x = i \<Longrightarrow> map (\<lambda>r. if inv_ID r = inv_ID i then row else r) xs = xs" by (simp cong: map_cong)
  ultimately show ?case using Cons by (cases "x = i") auto
qed simp

lemma InventoryRepo_Update_run:
  assumes ok: "inventory_ok s" and i: "inv_key i \<in> inv_keys s"
    and run: "InventoryRepo_Update E (i\<lparr>inv_Quantity := q\<rparr>) s = (r, t)"
  shows "case r of
      Inl e \<Rightarrow> world_only s t
    | Inr j \<Rightarrow> q \<le> max_i64 \<longrightarrow> 0 \<le> q \<and> inventory_ok t \<and> inventory_only s t \<and> stock t = (stock s)(inv_ProductID i \<mapsto> q) \<and>
        inv_ProductID j = inv_ProductID i \<and> inv_Quantity j = q \<and> inv_keys t = inv_keys s"
proof -
  from i obtain r0 where r0: "r0 \<in> set (st_inventories s)" "inv_ID r0 = inv_ID i" "inv_ProductID r0 = inv_ProductID i"
    by (auto simp: inv_keys_def inv_key_def)
  then have "r0 \<in> set (tb_rows (inventories_table E) s)" "tb_key (inventories_table E) r0 = tb_key (inventories_table E) (i\<lparr>inv_Quantity := q\<rparr>)"
    by (simp_all add: inventories_table_def)
  note u = inventories.Update_existing [OF run [unfolded InventoryRepo_Update_def] this]
  show ?thesis
  proof (cases r)
    case (Inl e)
    with u show ?thesis by simp
  next
    case (Inr j)
    let ?rows = "map (\<lambda>r. if inv_ID r = inv_ID r0 then j else r) (st_inventories s)"
    from u [unfolded inventories_sel] Inr r0(2) obtain now where j: "j = i\<lparr>inv_Quantity := q, inv_UpdatedAt := now\<rparr>" "0 \<le> q"
      and w: "world_only (s\<lparr>st_inventories := ?rows\<rparr>) t"
      by (auto simp: inventories_table_def split: if_splits)
    note rows = put_inventories_only [OF w]
    have d: "distinct (map inv_ProductID (st_inventories s))" "distinct (map inv_ID (st_inventories s))"
      using ok by (auto simp: inventory_ok_def)
    have same: "inv_ProductID (if inv_ID x = inv_ID r0 then j else x) = inv_ProductID x \<and>
        inv_ID (if inv_ID x = inv_ID r0 then j else x) = inv_ID x" if "x \<in> set (st_inventories s)" for x
      using that r0 d(2) j by (auto simp: distinct_map inj_on_def)
    have "map inv_ProductID ?rows = map inv_ProductID (st_inventories s)" "map inv_ID ?rows = map inv_ID (st_inventories s)"
      using same by (simp_all add: comp_def)
    then have "distinct (map inv_ProductID (st_inventories t)) \<and> distinct (map inv_ID (st_inventories t))"
      using d rows by (simp del: map_map)
    moreover have "stock t = (stock s)(inv_ProductID i \<mapsto> q)"
      using rows find_map_id [OF d r0(1), of j] j r0 by (auto simp: stock_def fun_eq_iff)
    moreover have "inv_keys t = inv_keys s"
    proof -
      have "inv_keys t = inv_key ` (\<lambda>r. if inv_ID r = inv_ID r0 then j else r) ` set (st_inventories s)" using rows by (simp add: inv_keys_def)
      also have "\<dots> = inv_keys s" unfolding inv_keys_def image_image using same by (intro image_cong) (auto simp: inv_key_def)
      finally show ?thesis .
    qed
    ultimately show ?thesis using Inr rows j ok by (simp add: inventory_ok_def del: map_map) (auto simp: max_i64_def)
  qed
qed

interpretation inventory_admin_repo: inventory_admin "NewInventoryRepository E" for E :: "'w env"
proof
  fix s t :: "'w st" and p i
  assume "ir_GetByProductID (NewInventoryRepository E) p s = (Inr i, t)"
  then show "i \<in> set (st_inventories s) \<and> inv_ProductID i = p"
    using InventoryRepo_Get_result [of E p s "Inr i" t] by (simp add: NewInventoryRepository_def)
next
  fix s t :: "'w st" and p i
  assume "inventory_ok s" "stock s p = None" "ir_Create (NewInventoryRepository E) (new_inventory p 0) s = (Inr i, t)"
  then show "stock_added s t p 0 \<and> i \<in> set (st_inventories t) \<and> inv_ProductID i = p"
    using InventoryRepo_Create_Inr [of s p E i t] by (simp add: NewInventoryRepository_def)
next
  fix s t :: "'w st" and p e
  assume "ir_Create (NewInventoryRepository E) (new_inventory p 0) s = (Inl e, t)"
  then show "world_only s t"
    by (auto simp: NewInventoryRepository_def InventoryRepo_Create_def dest: inventories.Create_Inl)
next
  fix s t :: "'w st" and i j q
  assume "inventory_ok s" "inv_key i \<in> inv_keys s" "q \<le> max_i64"
    "ir_Update (NewInventoryRepository E) (i\<lparr>inv_Quantity := q\<rparr>) s = (Inr j, t)"
  then show "0 \<le> q \<and> inventory_ok t \<and> inventory_only s t \<and> stock t = (stock s)(inv_ProductID i \<mapsto> q) \<and>
      inv_ProductID j = inv_ProductID i \<and> inv_Quantity j = q \<and> inv_keys t = inv_keys s"
    using InventoryRepo_Update_run [of s i E q "Inr j" t] by (simp add: NewInventoryRepository_def)
next
  fix s t :: "'w st" and i q e
  assume "inventory_ok s" "inv_key i \<in> inv_keys s"
    "ir_Update (NewInventoryRepository E) (i\<lparr>inv_Quantity := q\<rparr>) s = (Inl e, t)"
  then show "world_only s t"
    using InventoryRepo_Update_run [of s i E q "Inl e" t] by (simp add: NewInventoryRepository_def)
qed

end
