(* ===== verification/Outbox.thy ===== *)
theory Outbox
  imports Schema
begin

text \<open>
  \<open>internal/outbox/repository\<close> and \<open>internal/outbox/service/outbox.go\<close>: the outbox table as a
  queue with leases, and the service over it.

  \<^item> The interface \<open>OutboxRepository\<close> is a record of operations; \<open>NewOutboxRepository\<close> is the
    repository of the code.
  \<^item> The locale \<open>outbox_store\<close> states what each operation does to the rows; the service is
    proved against it.
\<close>

section \<open>Repository\<close>

definition OutboxRepo_CreatePending :: "'w env \<Rightarrow> OutboxEvent \<Rightarrow> ('w st, OutboxEvent) gom" where
  "OutboxRepo_CreatePending E event =
     Create E (outbox_events_table E) (event\<lparr>oe_Status := OutboxEventStatusPending\<rparr>)"

definition default_limit :: "int64 \<Rightarrow> int64" where
  "default_limit limit = (if limit \<le> 0 then 100 else limit)"

definition pending_ready :: "time \<Rightarrow> OutboxEvent \<Rightarrow> bool" where
  "pending_ready now e \<longleftrightarrow> oe_Status e = OutboxEventStatusPending \<and> oe_NextAttemptAt e \<le> now"

definition claimable :: "time \<Rightarrow> time \<Rightarrow> OutboxEvent \<Rightarrow> bool" where
  "claimable now staleBefore e \<longleftrightarrow>
     pending_ready now e \<or>
     oe_Status e = OutboxEventStatusProcessing \<and>
       (case oe_LockedAt e of None \<Rightarrow> True | Some l \<Rightarrow> l \<le> staleBefore)"

definition OutboxRepo_ListPendingReady :: "'w env \<Rightarrow> time \<Rightarrow> int64 \<Rightarrow> ('w st, OutboxEvent list) gom" where
  "OutboxRepo_ListPendingReady E now limit =
     Find E (outbox_events_table E)
       [WithQuery [pending_ready now], WithOrder \<lparr>obc_Column = ''created_at'', obc_Desc = False\<rparr>,
        WithLimit (default_limit limit)]"

text \<open>
  \<open>SELECT ... WHERE p ORDER BY created_at LIMIT n FOR UPDATE SKIP LOCKED\<close>: rows that another
  transaction has locked are passed over.
\<close>

definition locked_query :: "'w env \<Rightarrow> (OutboxEvent \<Rightarrow> bool) \<Rightarrow> int64 \<Rightarrow> bool \<Rightarrow> ('w st, OutboxEvent list) gom" where
  "locked_query E p limit locked =
     bindG (askG (env_locked E)) (\<lambda>held.
     stmtG E (queryG (\<lambda>s. Inr (take (nat (default_limit limit))
       (sort_key oe_CreatedAt (filter (\<lambda>e. p e \<and> \<not> (locked \<and> held (oe_ID e))) (st_outbox_events s)))))))"

definition pendingReadyQuery :: "'w env \<Rightarrow> time \<Rightarrow> int64 \<Rightarrow> bool \<Rightarrow> ('w st, OutboxEvent list) gom" where
  "pendingReadyQuery E now limit locked = locked_query E (pending_ready now) limit locked"

definition claimableReadyQuery :: "'w env \<Rightarrow> time \<Rightarrow> time \<Rightarrow> int64 \<Rightarrow> bool \<Rightarrow> ('w st, OutboxEvent list) gom" where
  "claimableReadyQuery E now staleBefore limit locked = locked_query E (claimable now staleBefore) limit locked"

definition OutboxRepo_ListPendingReadyLocked :: "'w env \<Rightarrow> time \<Rightarrow> int64 \<Rightarrow> ('w st, OutboxEvent list) gom" where
  "OutboxRepo_ListPendingReadyLocked E now limit = pendingReadyQuery E now limit True"

definition claimed :: "time \<Rightarrow> string \<Rightarrow> OutboxEvent \<Rightarrow> OutboxEvent" where
  "claimed now lockedBy e =
     e\<lparr>oe_Status := OutboxEventStatusProcessing, oe_LockedAt := Some now, oe_LockedBy := lockedBy\<rparr>"

definition OutboxRepo_ClaimReady ::
    "'w env \<Rightarrow> time \<Rightarrow> int64 \<Rightarrow> string \<Rightarrow> time \<Rightarrow> ('w st, OutboxEvent list) gom" where
  "OutboxRepo_ClaimReady E now limit lockedBy staleBefore =
     (let by = (if lockedBy = '''' then ''unknown'' else lockedBy)
      in bindG (claimableReadyQuery E now staleBefore limit True) (\<lambda>events.
         if length events = 0 then retG events
         else
           let ids = map oe_ID events
           in bindG (stmtG E (updateG (outbox_events_table E) (\<lambda>e. oe_ID e \<in> set ids)
                       (\<lambda>e. Inr (claimed now by e)))) (\<lambda>_.
              retG (map (claimed now by) events))))"

definition OutboxRepo_getByID :: "'w env \<Rightarrow> string \<Rightarrow> ('w st, OutboxEvent) gom" where
  "OutboxRepo_getByID E eventID = FindById E (outbox_events_table E) eventID"

definition published :: "time \<Rightarrow> OutboxEvent \<Rightarrow> OutboxEvent" where
  "published publishedAt event =
     event\<lparr>oe_Status := OutboxEventStatusPublished, oe_PublishedAt := Some publishedAt,
           oe_LockedAt := None, oe_LockedBy := ''''\<rparr>"

definition publish_failed :: "time \<Rightarrow> OutboxEvent \<Rightarrow> OutboxEvent" where
  "publish_failed nextAttemptAt event =
     event\<lparr>oe_Attempts := i64 (oe_Attempts event + 1), oe_Status := OutboxEventStatusPending,
           oe_NextAttemptAt := nextAttemptAt, oe_LockedAt := None, oe_LockedBy := ''''\<rparr>"

definition dead_lettered :: "OutboxEvent \<Rightarrow> OutboxEvent" where
  "dead_lettered event =
     event\<lparr>oe_Status := OutboxEventStatusDeadLetter, oe_LockedAt := None, oe_LockedBy := ''''\<rparr>"

definition OutboxRepo_MarkPublished :: "'w env \<Rightarrow> string \<Rightarrow> time \<Rightarrow> ('w st, unit) gom" where
  "OutboxRepo_MarkPublished E eventID publishedAt =
     bindG (OutboxRepo_getByID E eventID) (\<lambda>event.
     bindG (Update E (outbox_events_table E) (published publishedAt event)) (\<lambda>_. retG ()))"

definition OutboxRepo_MarkPublishFailed :: "'w env \<Rightarrow> string \<Rightarrow> time \<Rightarrow> ('w st, unit) gom" where
  "OutboxRepo_MarkPublishFailed E eventID nextAttemptAt =
     bindG (OutboxRepo_getByID E eventID) (\<lambda>event.
     bindG (Update E (outbox_events_table E) (publish_failed nextAttemptAt event)) (\<lambda>_. retG ()))"

definition OutboxRepo_MarkDeadLetter :: "'w env \<Rightarrow> string \<Rightarrow> ('w st, unit) gom" where
  "OutboxRepo_MarkDeadLetter E eventID =
     bindG (OutboxRepo_getByID E eventID) (\<lambda>event.
     bindG (Update E (outbox_events_table E) (dead_lettered event)) (\<lambda>_. retG ()))"

record 'w OutboxRepository =
  or_CreatePending :: "OutboxEvent \<Rightarrow> ('w st, OutboxEvent) gom"
  or_ListPendingReady :: "time \<Rightarrow> int64 \<Rightarrow> ('w st, OutboxEvent list) gom"
  or_ListPendingReadyLocked :: "time \<Rightarrow> int64 \<Rightarrow> ('w st, OutboxEvent list) gom"
  or_ClaimReady :: "time \<Rightarrow> int64 \<Rightarrow> string \<Rightarrow> time \<Rightarrow> ('w st, OutboxEvent list) gom"
  or_MarkPublished :: "string \<Rightarrow> time \<Rightarrow> ('w st, unit) gom"
  or_MarkPublishFailed :: "string \<Rightarrow> time \<Rightarrow> ('w st, unit) gom"
  or_MarkDeadLetter :: "string \<Rightarrow> ('w st, unit) gom"

definition NewOutboxRepository :: "'w env \<Rightarrow> 'w OutboxRepository" where
  "NewOutboxRepository E =
     \<lparr>or_CreatePending = OutboxRepo_CreatePending E, or_ListPendingReady = OutboxRepo_ListPendingReady E,
      or_ListPendingReadyLocked = OutboxRepo_ListPendingReadyLocked E, or_ClaimReady = OutboxRepo_ClaimReady E,
      or_MarkPublished = OutboxRepo_MarkPublished E, or_MarkPublishFailed = OutboxRepo_MarkPublishFailed E,
      or_MarkDeadLetter = OutboxRepo_MarkDeadLetter E\<rparr>"

text \<open>\<open>internal/outbox/repository/transactor.go\<close>\<close>

definition Transactor_WithinTransaction ::
    "'w env \<Rightarrow> ('w OutboxRepository \<Rightarrow> ('w st, 'a) gom) \<Rightarrow> ('w st, 'a) gom" where
  "Transactor_WithinTransaction E fn = WithTransactionContext E (fn (NewOutboxRepository E))"

section \<open>Service\<close>

definition defaultRetryDelay :: duration where "defaultRetryDelay = 60000000000"

definition defaultMaxAttempts :: int64 where "defaultMaxAttempts = 3"

record 'w OutboxService =
  os_repo :: "'w OutboxRepository"
  os_now :: "'w \<Rightarrow> time \<times> 'w"
  os_retryDelay :: duration
  os_maxAttempts :: int64

type_synonym 'w OutboxOption = "'w OutboxService \<Rightarrow> 'w OutboxService"

definition WithNow :: "('w \<Rightarrow> time \<times> 'w) option \<Rightarrow> 'w OutboxOption" where
  "WithNow now s = (case now of Some f \<Rightarrow> s\<lparr>os_now := f\<rparr> | None \<Rightarrow> s)"

definition WithRetryDelay :: "duration \<Rightarrow> 'w OutboxOption" where
  "WithRetryDelay delay s = (if 0 < delay then s\<lparr>os_retryDelay := delay\<rparr> else s)"

definition WithMaxAttempts :: "int64 \<Rightarrow> 'w OutboxOption" where
  "WithMaxAttempts maxAttempts s = (if 0 < maxAttempts then s\<lparr>os_maxAttempts := maxAttempts\<rparr> else s)"

definition NewOutboxService ::
    "'w env \<Rightarrow> 'w OutboxRepository \<Rightarrow> 'w OutboxOption list \<Rightarrow> 'w OutboxService" where
  "NewOutboxService E repo opts =
     fold (\<lambda>opt svc. opt svc) opts
       \<lparr>os_repo = repo, os_now = env_now E, os_retryDelay = defaultRetryDelay, os_maxAttempts = defaultMaxAttempts\<rparr>"

text \<open>\<open>marshal\<close> is \<open>json.Marshal\<close> on the type of the payload.\<close>

definition OutboxService_CreatePending ::
    "'w OutboxService \<Rightarrow> ('p \<Rightarrow> goerr + string) \<Rightarrow> string \<Rightarrow> string \<Rightarrow> string \<Rightarrow> 'p \<Rightarrow> ('w st, OutboxEvent) gom" where
  "OutboxService_CreatePending svc marshal aggregateType aggregateID eventType payload =
     (if aggregateType = '''' \<or> aggregateID = '''' \<or> eventType = ''''
      then throwG (ErrNew ''outbox event identity is required'')
      else
        bindG (liftG (marshal payload)) (\<lambda>payloadBytes.
        bindG (askG (os_now svc)) (\<lambda>now.
        or_CreatePending (os_repo svc)
          \<lparr>oe_ID = '''', oe_AggregateType = aggregateType, oe_AggregateID = aggregateID, oe_EventType = eventType,
           oe_Payload = payloadBytes, oe_Status = OutboxEventStatusPending, oe_Attempts = 0,
           oe_NextAttemptAt = now, oe_LockedAt = None, oe_LockedBy = '''', oe_CreatedAt = zero_time,
           oe_PublishedAt = None\<rparr>)))"

definition OutboxService_ListPendingReady :: "'w OutboxService \<Rightarrow> int64 \<Rightarrow> ('w st, OutboxEvent list) gom" where
  "OutboxService_ListPendingReady svc limit =
     bindG (askG (os_now svc)) (\<lambda>now. or_ListPendingReady (os_repo svc) now limit)"

definition OutboxService_ListPendingReadyLocked :: "'w OutboxService \<Rightarrow> int64 \<Rightarrow> ('w st, OutboxEvent list) gom" where
  "OutboxService_ListPendingReadyLocked svc limit =
     bindG (askG (os_now svc)) (\<lambda>now. or_ListPendingReadyLocked (os_repo svc) now limit)"

definition OutboxService_ClaimReady ::
    "'w OutboxService \<Rightarrow> int64 \<Rightarrow> string \<Rightarrow> duration \<Rightarrow> ('w st, OutboxEvent list) gom" where
  "OutboxService_ClaimReady svc limit lockedBy processingTimeout =
     bindG (askG (os_now svc)) (\<lambda>now.
     or_ClaimReady (os_repo svc) now limit lockedBy (now - processingTimeout))"

definition OutboxService_MarkPublished :: "'w OutboxService \<Rightarrow> string \<Rightarrow> ('w st, unit) gom" where
  "OutboxService_MarkPublished svc eventID =
     bindG (askG (os_now svc)) (\<lambda>now. or_MarkPublished (os_repo svc) eventID now)"

definition OutboxService_RecordPublishFailure :: "'w OutboxService \<Rightarrow> OutboxEvent option \<Rightarrow> ('w st, unit) gom" where
  "OutboxService_RecordPublishFailure svc event =
     (case event of
        None \<Rightarrow> throwG (ErrNew ''outbox event is required'')
      | Some ev \<Rightarrow>
          let attemptsAfterFailure = i64 (oe_Attempts ev + 1)
          in bindG (askG (os_now svc)) (\<lambda>now.
             let nextAttemptAt = now + i64 (attemptsAfterFailure * os_retryDelay svc)
             in bindG (or_MarkPublishFailed (os_repo svc) (oe_ID ev) nextAttemptAt) (\<lambda>_.
                if os_maxAttempts svc \<le> attemptsAfterFailure then or_MarkDeadLetter (os_repo svc) (oe_ID ev)
                else retG ())))"

type_synonym 'w EventPublisher = "OutboxEvent \<Rightarrow> ('w st, unit) gom"

definition OutboxService_Publish ::
    "'w OutboxService \<Rightarrow> 'w EventPublisher option \<Rightarrow> OutboxEvent option \<Rightarrow> ('w st, unit) gom" where
  "OutboxService_Publish svc publisher event =
     (case publisher of
        None \<Rightarrow> throwG (ErrNew ''outbox publisher is required'')
      | Some publish \<Rightarrow>
          (case event of
             None \<Rightarrow> throwG (ErrNew ''outbox event is required'')
           | Some ev \<Rightarrow>
               tryG (publish ev) (\<lambda>r. case r of
                 Inl err \<Rightarrow>
                   tryG (OutboxService_RecordPublishFailure svc (Some ev)) (\<lambda>rec. case rec of
                     Inl recordErr \<Rightarrow> throwG recordErr
                   | Inr _ \<Rightarrow> throwG err)
               | Inr _ \<Rightarrow> OutboxService_MarkPublished svc (oe_ID ev))))"

section \<open>The contract of the repository\<close>

definition events_ok :: "'w st \<Rightarrow> bool" where
  "events_ok s \<longleftrightarrow> distinct (map oe_ID (st_outbox_events s))"

definition outbox_only :: "'w st \<Rightarrow> 'w st \<Rightarrow> bool" where
  "outbox_only s t \<longleftrightarrow> t = s\<lparr>st_world := st_world t, st_outbox_events := st_outbox_events t\<rparr>"

lemma outbox_only_iff: "outbox_only s t \<longleftrightarrow>
    st_metrics t = st_metrics s \<and> st_users t = st_users s \<and> st_products t = st_products s \<and>
    st_inventories t = st_inventories s \<and> st_orders t = st_orders s \<and> st_order_lines t = st_order_lines s \<and>
    st_carts t = st_carts s \<and> st_cart_lines t = st_cart_lines s"
  by (cases s; cases t) (auto simp: outbox_only_def)

lemma outbox_only_refl [simp]: "outbox_only s s"
  by (simp add: outbox_only_iff)

lemma outbox_only_trans [trans]: "outbox_only s t \<Longrightarrow> outbox_only t u \<Longrightarrow> outbox_only s u"
  by (simp add: outbox_only_iff)

lemma world_only_outbox: "world_only s t \<Longrightarrow> outbox_only s t \<and> st_outbox_events t = st_outbox_events s"
  by (simp add: outbox_only_iff world_only_iff same_tables_iff same_metrics_def)

text \<open>The rows with an id of \<open>ids\<close> have become what \<open>f\<close> makes of them.\<close>

definition events_changed :: "(OutboxEvent \<Rightarrow> OutboxEvent) \<Rightarrow> string set \<Rightarrow> 'w st \<Rightarrow> 'w st \<Rightarrow> bool" where
  "events_changed f ids s t \<longleftrightarrow>
     outbox_only s t \<and> st_outbox_events t = map (\<lambda>e. if oe_ID e \<in> ids then f e else e) (st_outbox_events s)"

lemma events_changed_ok:
  assumes "events_changed f ids s t" "\<And>e. oe_ID (f e) = oe_ID e"
  shows "map oe_ID (st_outbox_events t) = map oe_ID (st_outbox_events s)" "events_ok t = events_ok s"
proof -
  show "map oe_ID (st_outbox_events t) = map oe_ID (st_outbox_events s)"
    using assms by (simp add: events_changed_def)
  then show "events_ok t = events_ok s" by (simp add: events_ok_def)
qed

lemma transition_ids [simp]:
  "oe_ID (claimed now by e) = oe_ID e" "oe_ID (published tm e) = oe_ID e"
  "oe_ID (publish_failed tm e) = oe_ID e" "oe_ID (dead_lettered e) = oe_ID e"
  by (simp_all add: claimed_def published_def publish_failed_def dead_lettered_def)

lemma events_sel [simp]:
  "tb_rows (outbox_events_table E) = st_outbox_events"
  "tb_put (outbox_events_table E) rows s = s\<lparr>st_outbox_events := rows\<rparr>"
  "tb_stored (outbox_events_table E) r = r"
  "tb_key (outbox_events_table E) r = [oe_ID r]"
  "tb_updated (outbox_events_table E) now r = r"
  "tb_before_create (outbox_events_table E) = OutboxEvent_BeforeCreate E"
  by (simp_all add: outbox_events_table_def)

locale outbox_store =
  fixes repo :: "'w OutboxRepository"
  assumes create_Inr: "or_CreatePending repo ev s = (Inr e, t) \<Longrightarrow>
      outbox_only s t \<and> st_outbox_events t = st_outbox_events s @ [e] \<and>
      oe_ID e \<notin> oe_ID ` set (st_outbox_events s) \<and> oe_Status e = OutboxEventStatusPending \<and>
      oe_Attempts e = oe_Attempts ev \<and> oe_AggregateType e = oe_AggregateType ev \<and>
      oe_AggregateID e = oe_AggregateID ev \<and> oe_EventType e = oe_EventType ev \<and>
      (oe_Payload ev \<noteq> '''' \<longrightarrow> oe_Payload e = oe_Payload ev)"
    and create_Inl: "or_CreatePending repo ev s = (Inl err, t) \<Longrightarrow> world_only s t \<and> sql_error err"
    and claim_Inr: "events_ok s \<Longrightarrow> or_ClaimReady repo now limit by stale s = (Inr evs, t) \<Longrightarrow>
      \<exists>sel by'. by' \<noteq> '''' \<and> evs = map (claimed now by') sel \<and> distinct (map oe_ID sel) \<and>
        set sel \<subseteq> {e \<in> set (st_outbox_events s). claimable now stale e} \<and>
        length sel \<le> nat (default_limit limit) \<and>
        events_changed (claimed now by') (oe_ID ` set sel) s t"
    and claim_Inl: "or_ClaimReady repo now limit by stale s = (Inl err, t) \<Longrightarrow> world_only s t"
    and published_Inr: "events_ok s \<Longrightarrow> or_MarkPublished repo i tm s = (Inr u, t) \<Longrightarrow>
      i \<in> oe_ID ` set (st_outbox_events s) \<and> events_changed (published tm) {i} s t"
    and published_Inl: "events_ok s \<Longrightarrow> or_MarkPublished repo i tm s = (Inl err, t) \<Longrightarrow> world_only s t"
    and failed_Inr: "events_ok s \<Longrightarrow> or_MarkPublishFailed repo i tm s = (Inr u, t) \<Longrightarrow>
      i \<in> oe_ID ` set (st_outbox_events s) \<and> events_changed (publish_failed tm) {i} s t"
    and failed_Inl: "events_ok s \<Longrightarrow> or_MarkPublishFailed repo i tm s = (Inl err, t) \<Longrightarrow> world_only s t"
    and dead_Inr: "events_ok s \<Longrightarrow> or_MarkDeadLetter repo i s = (Inr u, t) \<Longrightarrow>
      i \<in> oe_ID ` set (st_outbox_events s) \<and> events_changed dead_lettered {i} s t"
    and dead_Inl: "events_ok s \<Longrightarrow> or_MarkDeadLetter repo i s = (Inl err, t) \<Longrightarrow> world_only s t"

text \<open>The repository of the code.\<close>

lemma getByID_frame [frames, simp]: "keepsG world_only (OutboxRepo_getByID E i)"
  by (simp add: OutboxRepo_getByID_def)

lemma Save_event:
  assumes ok: "events_ok s" and f: "\<And>e. oe_ID (f e) = oe_ID e"
    and run: "bindG (OutboxRepo_getByID E i) (\<lambda>event.
        bindG (Update E (outbox_events_table E) (f event)) (\<lambda>_. retG ())) s = (r, t)"
  shows "case r of Inl e \<Rightarrow> world_only s t
     | Inr _ \<Rightarrow> i \<in> oe_ID ` set (st_outbox_events s) \<and> events_changed f {i} s t"
proof -
  obtain q u where g: "OutboxRepo_getByID E i s = (q, u)" by fastforce
  have su: "world_only s u" using keepsGD [OF getByID_frame g] .
  show ?thesis
  proof (cases q)
    case (Inl e)
    with run g have "r = Inl e" "t = u" by (auto simp: bindG_def)
    with su show ?thesis by simp
  next
    case (Inr ev)
    from outbox_events.FindById_result [OF g [unfolded OutboxRepo_getByID_def]] Inr
    have ev: "ev \<in> set (st_outbox_events s)" "oe_ID ev = i" by simp_all
    obtain q2 v where up: "Update E (outbox_events_table E) (f ev) u = (q2, v)" by fastforce
    have "ev \<in> set (tb_rows (outbox_events_table E) u)"
      "tb_key (outbox_events_table E) ev = tb_key (outbox_events_table E) (f ev)"
      using ev world_only_outbox [OF su] by (auto simp: f)
    note res = outbox_events.Update_existing [OF up this]
    from run g Inr up have r: "t = v" "r = (case q2 of Inl e \<Rightarrow> Inl e | Inr _ \<Rightarrow> Inr ())"
      by (auto simp: bindG_def retG_def split: sum.splits)
    show ?thesis
    proof (cases q2)
      case (Inl e)
      with res r su show ?thesis by (auto intro: world_only_trans)
    next
      case (Inr row)
      with res have w: "world_only (u\<lparr>st_outbox_events :=
          map (\<lambda>e. if oe_ID e = i then f ev else e) (st_outbox_events u)\<rparr>) t" using ev r by (auto simp: f cong: if_cong)
      have same: "x = ev" if "x \<in> set (st_outbox_events s)" "oe_ID x = i" for x
        using ok ev that distinct_key_unique [of oe_ID] by (auto simp: events_ok_def)
      have "map (\<lambda>e. if oe_ID e = i then f ev else e) (st_outbox_events s) =
          map (\<lambda>e. if oe_ID e = i then f e else e) (st_outbox_events s)"
        using same by (intro map_cong) auto
      moreover have "outbox_only s t \<and> st_outbox_events t = map (\<lambda>e. if oe_ID e = i then f ev else e) (st_outbox_events s)"
        using w su by (simp add: outbox_only_iff world_only_iff same_tables_iff same_metrics_def)
      ultimately show ?thesis using Inr r ev by (auto simp: events_changed_def)
    qed
  qed
qed

lemma locked_query_frame [frames, simp]: "keepsG world_only (locked_query E p limit locked)"
  unfolding locked_query_def by (auto intro!: framing)

lemma locked_query_Inr:
  assumes ok: "events_ok s" and run: "locked_query E p limit locked s = (Inr evs, t)"
  shows "set evs \<subseteq> {e \<in> set (st_outbox_events s). p e} \<and> distinct (map oe_ID evs) \<and>
    length evs \<le> nat (default_limit limit) \<and> world_only s t"
proof -
  from run obtain held where evs: "evs = take (nat (default_limit limit))
      (sort_key oe_CreatedAt (filter (\<lambda>e. p e \<and> \<not> (locked \<and> held (oe_ID e))) (st_outbox_events s)))"
    unfolding locked_query_def by (auto simp: gom stmtG_def split: option.splits)
  let ?sorted = "sort_key oe_CreatedAt (filter (\<lambda>e. p e \<and> \<not> (locked \<and> held (oe_ID e))) (st_outbox_events s))"
  have "distinct (map oe_ID (filter (\<lambda>e. p e \<and> \<not> (locked \<and> held (oe_ID e))) (st_outbox_events s)))"
    using ok by (simp add: events_ok_def distinct_map_filter)
  then have "distinct (map oe_ID ?sorted)" by (simp add: distinct_map)
  then have "distinct (map oe_ID evs)" by (simp add: evs take_map [symmetric])
  moreover have "set evs \<subseteq> {e \<in> set (st_outbox_events s). p e}"
    unfolding evs by (auto dest: in_set_takeD)
  moreover have "length evs \<le> nat (default_limit limit)" by (simp add: evs)
  moreover have "world_only s t" using keepsGD [OF locked_query_frame run] .
  ultimately show ?thesis by simp
qed

lemma ClaimReady_Inr:
  assumes ok: "events_ok s" and run: "OutboxRepo_ClaimReady E now limit by stale s = (Inr evs, t)"
  shows "\<exists>sel by'. by' \<noteq> '''' \<and> evs = map (claimed now by') sel \<and> distinct (map oe_ID sel) \<and>
        set sel \<subseteq> {e \<in> set (st_outbox_events s). claimable now stale e} \<and>
        length sel \<le> nat (default_limit limit) \<and>
        events_changed (claimed now by') (oe_ID ` set sel) s t"
proof -
  define by' where "by' = (if by = '''' then ''unknown'' else by)"
  from run obtain sel u where q: "claimableReadyQuery E now stale limit True s = (Inr sel, u)"
    and rest: "(if length sel = 0 then retG sel
       else let ids = map oe_ID sel in
         bindG (stmtG E (updateG (outbox_events_table E) (\<lambda>e. oe_ID e \<in> set ids) (\<lambda>e. Inr (claimed now by' e))))
           (\<lambda>_. retG (map (claimed now by') sel))) u = (Inr evs, t)"
    unfolding OutboxRepo_ClaimReady_def by'_def Let_def by (auto simp only: bindG_Inr_iff)
  from locked_query_Inr [OF ok q [unfolded claimableReadyQuery_def]]
  have sel: "set sel \<subseteq> {e \<in> set (st_outbox_events s). claimable now stale e}" "distinct (map oe_ID sel)"
    "length sel \<le> nat (default_limit limit)" "world_only s u" by simp_all
  note us = world_only_outbox [OF sel(4)]
  have "evs = map (claimed now by') sel \<and> events_changed (claimed now by') (oe_ID ` set sel) s t"
  proof (cases "sel = []")
    case True
    with rest us show ?thesis by (simp add: gom events_changed_def)
  next
    case False
    with rest obtain upd where st: "stmtG E (updateG (outbox_events_table E) (\<lambda>e. oe_ID e \<in> oe_ID ` set sel)
        (\<lambda>e. Inr (claimed now by' e))) u = (Inr upd, t)" and evs: "evs = map (claimed now by') sel"
      by (auto simp: gom)
    from st obtain rows where w: "world_only (tb_put (outbox_events_table E) rows u) t"
      and l: "list_all2 (updated_row (outbox_events_table E) (\<lambda>e. oe_ID e \<in> oe_ID ` set sel)
        (\<lambda>e. Inr (claimed now by' e))) (tb_rows (outbox_events_table E) u) rows"
      by (rule outbox_events.updateG_stmt_Inr)
    have "rows = map (\<lambda>e. if oe_ID e \<in> oe_ID ` set sel then claimed now by' e else e) (st_outbox_events u)"
      using l unfolding events_sel
      by (induction rule: list_all2_induct) (auto simp: updated_row_def)
    then show ?thesis using evs w us
      by (auto simp: events_changed_def outbox_only_iff world_only_iff same_tables_iff same_metrics_def)
  qed
  moreover have "by' \<noteq> ''''" by (simp add: by'_def)
  ultimately show ?thesis using sel by blast
qed

lemma ClaimReady_Inl:
  assumes "OutboxRepo_ClaimReady E now limit by stale s = (Inl err, t)"
  shows "world_only s t"
proof -
  obtain r u where q: "claimableReadyQuery E now stale limit True s = (r, u)" by fastforce
  have su: "world_only s u" using keepsGD [OF locked_query_frame q [unfolded claimableReadyQuery_def]] .
  show ?thesis
  proof (cases r)
    case (Inl e)
    with assms q su show ?thesis by (auto simp: OutboxRepo_ClaimReady_def Let_def bindG_def)
  next
    case (Inr sel)
    with assms q have "stmtG E (updateG (outbox_events_table E) (\<lambda>e. oe_ID e \<in> oe_ID ` set sel)
        (\<lambda>e. Inr (claimed now (if by = '''' then ''unknown'' else by) e))) u = (Inl err, t)"
      by (auto simp: OutboxRepo_ClaimReady_def Let_def bindG_def retG_def split: if_splits sum.splits prod.splits)
    then show ?thesis using outbox_events.updateG_stmt_Inl su world_only_trans by blast
  qed
qed

lemma insert_stmt_sql_error: "stmtG E (insertG tb r) s = (Inl e, t) \<Longrightarrow> sql_error e"
  by (erule stmtG_sql_error) (auto simp: insertG_def split: option.splits dest: violation_sql_error)

lemma OutboxRepo_Create_Inr:
  assumes "OutboxRepo_CreatePending E ev s = (Inr e, t)"
  shows "outbox_only s t \<and> st_outbox_events t = st_outbox_events s @ [e] \<and>
      oe_ID e \<notin> oe_ID ` set (st_outbox_events s) \<and> oe_Status e = OutboxEventStatusPending \<and>
      oe_Attempts e = oe_Attempts ev \<and> oe_AggregateType e = oe_AggregateType ev \<and>
      oe_AggregateID e = oe_AggregateID ev \<and> oe_EventType e = oe_EventType ev \<and>
      (oe_Payload ev \<noteq> '''' \<longrightarrow> oe_Payload e = oe_Payload ev)"
proof -
  from assms obtain d now u where h: "OutboxEvent_BeforeCreate E (ev\<lparr>oe_Status := OutboxEventStatusPending\<rparr>) s = (Inr d, u)"
    and e: "e = tb_created (outbox_events_table E) now d"
    and v: "violation (outbox_events_table E) (st_outbox_events s) e = None"
    and w: "world_only (s\<lparr>st_outbox_events := st_outbox_events s @ [e]\<rparr>) t"
    unfolding OutboxRepo_CreatePending_def by (rule outbox_events.Create_Inr) simp
  have "oe_ID x \<noteq> oe_ID e" if "x \<in> set (st_outbox_events s)" for x
    using violation_None_unique [OF v, of "''outbox_events_pkey''" "\<lambda>x r. oe_ID x = oe_ID r" x] that
    by (simp add: outbox_events_table_def)
  then have "oe_ID e \<notin> oe_ID ` set (st_outbox_events s)" by force
  moreover have "outbox_only s t \<and> st_outbox_events t = st_outbox_events s @ [e]"
    using w by (simp add: outbox_only_iff world_only_iff same_tables_iff same_metrics_def)
  moreover note OutboxEvent_BeforeCreate_Inr [OF h]
  ultimately show ?thesis
    by (simp add: e outbox_events_table_def OutboxEventStatus_defs)
qed

lemma BeforeCreate_event_Inl: "OutboxEvent_BeforeCreate E ev s \<noteq> (Inl e, t)"
  by (auto simp: OutboxEvent_BeforeCreate_def gom split: if_splits)

lemma OutboxRepo_Create_Inl:
  assumes "OutboxRepo_CreatePending E ev s = (Inl err, t)"
  shows "world_only s t \<and> sql_error err"
proof -
  have "Create E (outbox_events_table E) (ev\<lparr>oe_Status := OutboxEventStatusPending\<rparr>) s = (Inl err, t)"
    using assms by (simp add: OutboxRepo_CreatePending_def)
  note c = this
  have "world_only s t" using c by (rule outbox_events.Create_Inl)
  moreover have "sql_error err"
    using c by (auto simp: Create_def Let_def gom BeforeCreate_event_Inl dest: insert_stmt_sql_error)
  ultimately show ?thesis by simp
qed

lemma Mark_Inr:
  assumes "events_ok s"
  shows "OutboxRepo_MarkPublished E i tm s = (Inr u, t) \<Longrightarrow>
      i \<in> oe_ID ` set (st_outbox_events s) \<and> events_changed (published tm) {i} s t"
    and "OutboxRepo_MarkPublishFailed E i tm s = (Inr u, t) \<Longrightarrow>
      i \<in> oe_ID ` set (st_outbox_events s) \<and> events_changed (publish_failed tm) {i} s t"
    and "OutboxRepo_MarkDeadLetter E i s = (Inr u, t) \<Longrightarrow>
      i \<in> oe_ID ` set (st_outbox_events s) \<and> events_changed dead_lettered {i} s t"
  using Save_event [OF assms, of "published tm" E i "Inr u" t] Save_event [OF assms, of "publish_failed tm" E i "Inr u" t]
    Save_event [OF assms, of dead_lettered E i "Inr u" t]
  by (simp_all add: OutboxRepo_MarkPublished_def OutboxRepo_MarkPublishFailed_def OutboxRepo_MarkDeadLetter_def)

lemma Mark_Inl:
  assumes "events_ok s"
  shows "OutboxRepo_MarkPublished E i tm s = (Inl err, t) \<Longrightarrow> world_only s t"
    and "OutboxRepo_MarkPublishFailed E i tm s = (Inl err, t) \<Longrightarrow> world_only s t"
    and "OutboxRepo_MarkDeadLetter E i s = (Inl err, t) \<Longrightarrow> world_only s t"
  using Save_event [OF assms, of "published tm" E i "Inl err" t] Save_event [OF assms, of "publish_failed tm" E i "Inl err" t]
    Save_event [OF assms, of dead_lettered E i "Inl err" t]
  by (simp_all add: OutboxRepo_MarkPublished_def OutboxRepo_MarkPublishFailed_def OutboxRepo_MarkDeadLetter_def)

interpretation outbox_repo: outbox_store "NewOutboxRepository E" for E :: "'w env"
  by unfold_locales
    (simp_all only: NewOutboxRepository_def OutboxRepository.simps,
     (rule OutboxRepo_Create_Inr OutboxRepo_Create_Inl ClaimReady_Inr ClaimReady_Inl Mark_Inr Mark_Inl; assumption)+)

end
