(* ===== verification/Order.thy ===== *)
theory Order
  imports Inventory Outbox "HOL-Library.AList"
begin

text \<open>
  \<open>internal/order/service\<close> and \<open>internal/order/repository\<close>: placing, reading and cancelling
  orders.

  \<^item> The service is written against the interfaces of \<open>ports.go\<close>, records of operations here.
    \<open>WithinTransaction\<close> runs its function on a unit of work bound to one transaction; the
    variables \<open>order\<close> and \<open>outboxCreated\<close> that the function assigns are its result.
  \<^item> The locales state what the service relies on; the last sections prove the service
    against them and instantiate the result on the repositories of the code.
\<close>

section \<open>Requests and payloads\<close>

definition MaxOrderLineQuantity :: uint where "MaxOrderLineQuantity = 1000000"

record PlaceOrderLineReq =
  pl_ProductID :: string
  pl_Quantity :: uint

record PlaceOrderReq =
  po_UserID :: string
  po_IdempotencyKeyHash :: string
  po_IdempotencyFingerprint :: string
  po_Lines :: "PlaceOrderLineReq list"

record ListOrderReq =
  lo_UserID :: string
  lo_Code :: string
  lo_Status :: string
  lo_Page :: int64
  lo_Limit :: int64
  lo_OrderBy :: string
  lo_OrderDesc :: bool

definition orderAggregateType :: string where "orderAggregateType = ''order''"

definition OrderCreatedEventType :: string where "OrderCreatedEventType = ''order.created''"

record OrderCreatedLinePayload =
  ocl_ProductID :: string
  ocl_Quantity :: uint
  ocl_Price :: float64

record OrderCreatedPayload =
  oc_OrderID :: string
  oc_UserID :: string
  oc_TotalPrice :: float64
  oc_Status :: OrderStatus
  oc_Lines :: "OrderCreatedLinePayload list"

section \<open>Interfaces\<close>

record 'w OrderRepository =
  rp_CreateOrder :: "Order \<Rightarrow> OrderLine list \<Rightarrow> ('w st, Order) gom"
  rp_GetOrderByID :: "string \<Rightarrow> bool \<Rightarrow> ('w st, Order) gom"
  rp_GetOrderByIdempotencyKey :: "string \<Rightarrow> string \<Rightarrow> ('w st, Order) gom"
  rp_GetMyOrders :: "ListOrderReq \<Rightarrow> ('w st, Order list \<times> Pagination) gom"
  rp_UpdateOrder :: "Order \<Rightarrow> ('w st, Order) gom"
  rp_CancelOrderIfCancellable :: "string \<Rightarrow> string \<Rightarrow> ('w st, unit) gom"

type_synonym 'w OrderOutbox = "string \<Rightarrow> string \<Rightarrow> string \<Rightarrow> OrderCreatedPayload \<Rightarrow> ('w st, OutboxEvent) gom"

type_synonym 'w OrderProducts = "string \<Rightarrow> ('w st, Product) gom"

record 'w UnitOfWork =
  uow_Orders :: "'w OrderRepository"
  uow_Products :: "'w OrderProducts"
  uow_Inventory :: "'w OrderInventory"
  uow_Outbox :: "'w OrderOutbox option"

type_synonym 'w Transactor = "('w UnitOfWork \<Rightarrow> ('w st, Order \<times> bool) gom) \<Rightarrow> ('w st, Order \<times> bool) gom"

record 'w OrderService =
  sv_validate :: "PlaceOrderReq \<Rightarrow> goerr option"
  sv_repo :: "'w OrderRepository"
  sv_transactor :: "'w Transactor"

section \<open>Repository\<close>

definition orderListOrderColumns :: "string \<rightharpoonup> string" where
  "orderListOrderColumns =
     [''code'' \<mapsto> ''code'', ''created_at'' \<mapsto> ''created_at'', ''status'' \<mapsto> ''status'',
      ''total_price'' \<mapsto> ''total_price'', ''updated_at'' \<mapsto> ''updated_at'']"

definition orderListOrder :: "string \<Rightarrow> bool \<Rightarrow> OrderByColumn" where
  "orderListOrder orderBy desc = SafeOrderByColumn orderBy desc ''created_at'' orderListOrderColumns"

definition isIdempotencyUniqueViolation :: "goerr \<Rightarrow> bool" where
  "isIdempotencyUniqueViolation err \<longleftrightarrow>
     errors_As_PgError err = Some (''23505'', ''idx_orders_user_idempotency_key'')"

definition OrderRepo_createOrder :: "'w env \<Rightarrow> Order \<Rightarrow> OrderLine list \<Rightarrow> ('w st, Order) gom" where
  "OrderRepo_createOrder E order lines =
     bindG (Create E (orders_table E) order) (\<lambda>created.
     let lines' = map (\<lambda>line. line\<lparr>ol_OrderID := o_ID created\<rparr>) lines in
     bindG (CreateInBatches E (order_lines_table E) lines' (length lines')) (\<lambda>rows.
     retG (created\<lparr>o_Lines := rows\<rparr>)))"

definition OrderRepo_CreateOrder :: "'w env \<Rightarrow> Order \<Rightarrow> OrderLine list \<Rightarrow> ('w st, Order) gom" where
  "OrderRepo_CreateOrder E order lines =
     tryG (OrderRepo_createOrder E order lines) (\<lambda>r. case r of
       Inl err \<Rightarrow> if isIdempotencyUniqueViolation err then throwG ErrIdempotencyDuplicate else throwG err
     | Inr created \<Rightarrow> retG created)"

definition OrderRepo_GetOrderByIdempotencyKey :: "'w env \<Rightarrow> string \<Rightarrow> string \<Rightarrow> ('w st, Order) gom" where
  "OrderRepo_GetOrderByIdempotencyKey E userID keyHash =
     tryG (FindOne E (orders_table E)
             [WithPreload [''Lines'', ''Lines.Product''],
              WithQuery [\<lambda>r. o_UserID r = userID, \<lambda>r. o_IdempotencyKey r = Some keyHash]]) (\<lambda>r. case r of
       Inl err \<Rightarrow> if errors_Is err ErrRecordNotFound then throwG ErrOrderNotFound else throwG err
     | Inr order \<Rightarrow> retG order)"

definition OrderRepo_GetOrderByID :: "'w env \<Rightarrow> string \<Rightarrow> bool \<Rightarrow> ('w st, Order) gom" where
  "OrderRepo_GetOrderByID E id' preload =
     FindOne E (orders_table E)
       ([WithQuery [\<lambda>r. o_ID r = id']] @ (if preload then [WithPreload [''Lines'', ''Lines.Product'']] else []))"

definition order_query :: "ListOrderReq \<Rightarrow> (Order \<Rightarrow> bool) list" where
  "order_query req =
     [\<lambda>r. o_UserID r = lo_UserID req]
     @ (if lo_Code req \<noteq> '''' then [\<lambda>r. o_Code r = lo_Code req] else [])
     @ (if lo_Status req \<noteq> '''' then [\<lambda>r. o_Status r = lo_Status req] else [])"

definition OrderRepo_GetMyOrders :: "'w env \<Rightarrow> ListOrderReq \<Rightarrow> ('w st, Order list \<times> Pagination) gom" where
  "OrderRepo_GetMyOrders E req =
     (let query = order_query req;
          order = orderListOrder (lo_OrderBy req) (lo_OrderDesc req)
      in bindG (Count E (orders_table E) [WithQuery query]) (\<lambda>n.
         let pagination = New (lo_Page req) (lo_Limit req) n in
         bindG (Find E (orders_table E)
                  [WithPreload [''Lines'', ''Lines.Product''], WithQuery query, WithLimit (pg_Limit pagination),
                   WithOffset (pg_Skip pagination), WithOrder order])
           (\<lambda>orders. retG (orders, pagination))))"

definition OrderRepo_UpdateOrder :: "'w env \<Rightarrow> Order \<Rightarrow> ('w st, Order) gom" where
  "OrderRepo_UpdateOrder E order = Update E (orders_table E) order"

definition cancellable :: "string \<Rightarrow> string \<Rightarrow> Order \<Rightarrow> bool" where
  "cancellable orderID userID r \<longleftrightarrow>
     o_ID r = orderID \<and> o_UserID r = userID \<and> o_Status r \<in> {OrderStatusNew, OrderStatusInProgress}"

definition OrderRepo_CancelOrderIfCancellable :: "'w env \<Rightarrow> string \<Rightarrow> string \<Rightarrow> ('w st, unit) gom" where
  "OrderRepo_CancelOrderIfCancellable E orderID userID =
     bindG (askG (env_now E)) (\<lambda>now.
     bindG (stmtG E (updateG (orders_table E) (cancellable orderID userID)
              (\<lambda>r. Inr (r\<lparr>o_Status := OrderStatusCancelled, o_UpdatedAt := now\<rparr>)))) (\<lambda>rows.
     if length rows \<noteq> 1 then throwG ErrInvalidOrderState else retG ()))"

definition NewOrderRepository :: "'w env \<Rightarrow> 'w OrderRepository" where
  "NewOrderRepository E =
     \<lparr>rp_CreateOrder = OrderRepo_CreateOrder E, rp_GetOrderByID = OrderRepo_GetOrderByID E,
      rp_GetOrderByIdempotencyKey = OrderRepo_GetOrderByIdempotencyKey E,
      rp_GetMyOrders = OrderRepo_GetMyOrders E, rp_UpdateOrder = OrderRepo_UpdateOrder E,
      rp_CancelOrderIfCancellable = OrderRepo_CancelOrderIfCancellable E\<rparr>"

text \<open>\<open>internal/order/repository/product.go\<close>\<close>

definition OrderProductRepo_GetProductByID :: "'w env \<Rightarrow> string \<Rightarrow> ('w st, Product) gom" where
  "OrderProductRepo_GetProductByID E id' = FindById E (products_table E) id'"

text \<open>\<open>internal/order/repository/unit_of_work.go\<close>; \<open>marshal\<close> is \<open>json.Marshal\<close>.\<close>

definition transactionalUnitOfWork :: "'w env \<Rightarrow> (OrderCreatedPayload \<Rightarrow> goerr + string) \<Rightarrow> 'w UnitOfWork" where
  "transactionalUnitOfWork E marshal =
     \<lparr>uow_Orders = NewOrderRepository E,
      uow_Products = OrderProductRepo_GetProductByID E,
      uow_Inventory = NewInventoryService (NewInventoryRepository E),
      uow_Outbox = Some (OutboxService_CreatePending (NewOutboxService E (NewOutboxRepository E) []) marshal)\<rparr>"

definition UnitOfWork_WithinTransaction :: "'w env \<Rightarrow> (OrderCreatedPayload \<Rightarrow> goerr + string) \<Rightarrow> 'w Transactor" where
  "UnitOfWork_WithinTransaction E marshal fn =
     WithTransactionContext E (fn (transactionalUnitOfWork E marshal))"

section \<open>Service\<close>

definition validateOrderQuantities :: "PlaceOrderLineReq list \<Rightarrow> goerr option" where
  "validateOrderQuantities lines =
     (if \<exists>line \<in> set lines. pl_Quantity line = 0 \<or> MaxOrderLineQuantity < pl_Quantity line
      then Some ErrInvalidOrderQuantity else None)"

fun addQuantities :: "(string \<times> int64) list \<Rightarrow> OrderLine list \<Rightarrow> goerr + (string \<times> int64) list" where
  "addQuantities quantities [] = Inr quantities"
| "addQuantities quantities (line # lines) =
     (if max_i64 < uint (ol_Quantity line) then Inl ErrInvalidOrderQuantity
      else
        let quantity = i64 (uint (ol_Quantity line));
            old = (case map_of quantities (ol_ProductID line) of None \<Rightarrow> 0 | Some q \<Rightarrow> q)
        in if i64 (max_i64 - quantity) < old then Inl ErrInvalidOrderQuantity
           else addQuantities (AList.update (ol_ProductID line) (i64 (old + quantity)) quantities) lines)"

definition stockConsumptionPlan :: "OrderLine list \<Rightarrow> goerr + (string \<times> int64) list" where
  "stockConsumptionPlan lines =
     map_sum id (\<lambda>quantities. map (\<lambda>productID. (productID, the (map_of quantities productID)))
                                (sort (map fst quantities)))
       (addQuantities [] lines)"

definition new_order_line :: "PlaceOrderLineReq \<Rightarrow> OrderLine" where
  "new_order_line l =
     \<lparr>ol_ID = '''', ol_CreatedAt = zero_time, ol_UpdatedAt = zero_time, ol_DeletedAt = None, ol_OrderID = '''',
      ol_ProductID = pl_ProductID l, ol_Product = None, ol_Quantity = pl_Quantity l, ol_Price = Fin 0\<rparr>"

text \<open>The loop over the lines: their prices, the running total, and the products read.\<close>

fun priceLines ::
    "'w OrderProducts \<Rightarrow> OrderLine list \<Rightarrow> int64 \<Rightarrow> (string \<rightharpoonup> Product) \<Rightarrow>
     ('w st, OrderLine list \<times> int64 \<times> (string \<rightharpoonup> Product)) gom" where
  "priceLines products [] totalMinorUnits productMap = retG ([], totalMinorUnits, productMap)"
| "priceLines products (line # lines) totalMinorUnits productMap =
     bindG (products (ol_ProductID line)) (\<lambda>product.
     case ToMinorUnits (p_Price product) of
       Inl _ \<Rightarrow> throwG ErrInvalidOrderAmount
     | Inr unitPrice \<Rightarrow>
         (case Multiply unitPrice (ol_Quantity line) of
            Inl _ \<Rightarrow> throwG ErrInvalidOrderAmount
          | Inr lineTotal \<Rightarrow>
              (case Add totalMinorUnits lineTotal of
                 Inl _ \<Rightarrow> throwG ErrInvalidOrderAmount
               | Inr newTotal \<Rightarrow>
                   bindG (priceLines products lines newTotal (productMap(ol_ProductID line \<mapsto> product)))
                     (\<lambda>(rest, tot, m). retG (line\<lparr>ol_Price := FromMinorUnits lineTotal\<rparr> # rest, tot, m)))))"

definition buildOrderCreatedPayload :: "Order \<Rightarrow> OrderCreatedPayload" where
  "buildOrderCreatedPayload order =
     \<lparr>oc_OrderID = o_ID order, oc_UserID = o_UserID order, oc_TotalPrice = o_TotalPrice order,
      oc_Status = o_Status order,
      oc_Lines = map (\<lambda>line. \<lparr>ocl_ProductID = ol_ProductID line, ocl_Quantity = ol_Quantity line,
                              ocl_Price = ol_Price line\<rparr>) (o_Lines order)\<rparr>"

definition replayIdempotentOrder :: "'w OrderService \<Rightarrow> PlaceOrderReq \<Rightarrow> ('w st, Order) gom" where
  "replayIdempotentOrder svc req =
     bindG (rp_GetOrderByIdempotencyKey (sv_repo svc) (po_UserID req) (po_IdempotencyKeyHash req)) (\<lambda>existing.
     if o_IdempotencyFingerprint existing \<noteq> Some (po_IdempotencyFingerprint req) then throwG ErrIdempotencyConflict
     else retG (existing\<lparr>o_IdempotencyReplay := True\<rparr>))"

definition new_order :: "PlaceOrderReq \<Rightarrow> int64 \<Rightarrow> Order" where
  "new_order req totalMinorUnits =
     \<lparr>o_ID = '''', o_CreatedAt = zero_time, o_UpdatedAt = zero_time, o_DeletedAt = None, o_Code = '''',
      o_UserID = po_UserID req, o_Lines = [], o_TotalPrice = FromMinorUnits totalMinorUnits, o_Status = '''',
      o_IdempotencyKey = (if po_IdempotencyKeyHash req \<noteq> '''' then Some (po_IdempotencyKeyHash req) else None),
      o_IdempotencyFingerprint =
        (if po_IdempotencyKeyHash req \<noteq> '''' then Some (po_IdempotencyFingerprint req) else None),
      o_IdempotencyReplay = False\<rparr>"

definition placeOrderTx :: "PlaceOrderReq \<Rightarrow> 'w UnitOfWork \<Rightarrow> ('w st, Order \<times> bool) gom" where
  "placeOrderTx req uow =
     bindG (priceLines (uow_Products uow) (map new_order_line (po_Lines req)) 0 Map.empty)
       (\<lambda>(lines, totalMinorUnits, productMap).
     bindG (liftG (stockConsumptionPlan lines)) (\<lambda>plan.
     bindG (forG plan (\<lambda>(productID, quantity). in_ConsumeStock (uow_Inventory uow) productID quantity)) (\<lambda>_.
     bindG (rp_CreateOrder (uow_Orders uow) (new_order req totalMinorUnits) lines) (\<lambda>created0.
     let created = created0\<lparr>o_Lines := map (\<lambda>line. line\<lparr>ol_Product := productMap (ol_ProductID line)\<rparr>) (o_Lines created0)\<rparr> in
     case uow_Outbox uow of
       None \<Rightarrow> retG (created, False)
     | Some createPending \<Rightarrow>
         bindG (createPending orderAggregateType (o_ID created) OrderCreatedEventType (buildOrderCreatedPayload created))
           (\<lambda>_. retG (created, True))))))"

definition OrderService_PlaceOrder :: "'w OrderService \<Rightarrow> PlaceOrderReq \<Rightarrow> ('w st, Order) gom" where
  "OrderService_PlaceOrder svc req =
     (let transact =
        tryG (sv_transactor svc (placeOrderTx req)) (\<lambda>r. case r of
          Inl err \<Rightarrow> if errors_Is err ErrIdempotencyDuplicate then replayIdempotentOrder svc req else throwG err
        | Inr (order, outboxCreated) \<Rightarrow>
            bindG (if outboxCreated then metricG (RecordOutboxEventCreated OrderCreatedEventType) else retG ())
              (\<lambda>_. retG order))
      in bindG (checkG (validateOrderQuantities (po_Lines req))) (\<lambda>_.
         bindG (checkG (sv_validate svc req)) (\<lambda>_.
         if po_IdempotencyKeyHash req \<noteq> '''' \<or> po_IdempotencyFingerprint req \<noteq> '''' then
           if po_IdempotencyKeyHash req = '''' \<or> po_IdempotencyFingerprint req = '''' then throwG ErrIdempotencyConflict
           else tryG (replayIdempotentOrder svc req) (\<lambda>r. case r of
                  Inl err \<Rightarrow> if errors_Is err ErrOrderNotFound then transact else throwG err
                | Inr existing \<Rightarrow> retG existing)
         else transact)))"

definition OrderService_GetOrderByID :: "'w OrderService \<Rightarrow> string \<Rightarrow> string \<Rightarrow> ('w st, Order) gom" where
  "OrderService_GetOrderByID svc id' userID =
     bindG (rp_GetOrderByID (sv_repo svc) id' True) (\<lambda>order.
     if userID = '''' \<or> o_UserID order \<noteq> userID then throwG ErrPermissionDenied else retG order)"

definition OrderService_GetMyOrders :: "'w OrderService \<Rightarrow> ListOrderReq \<Rightarrow> ('w st, Order list \<times> Pagination) gom" where
  "OrderService_GetMyOrders svc req = rp_GetMyOrders (sv_repo svc) req"

definition cancelOrderTx :: "string \<Rightarrow> string \<Rightarrow> 'w UnitOfWork \<Rightarrow> ('w st, Order \<times> bool) gom" where
  "cancelOrderTx orderID userID uow =
     bindG (rp_GetOrderByID (uow_Orders uow) orderID True) (\<lambda>existingOrder.
     if userID \<noteq> o_UserID existingOrder then throwG ErrPermissionDenied
     else if o_Status existingOrder = OrderStatusDone \<or> o_Status existingOrder = OrderStatusCancelled
     then throwG ErrInvalidOrderState
     else
       bindG (rp_CancelOrderIfCancellable (uow_Orders uow) orderID userID) (\<lambda>_.
       bindG (liftG (stockConsumptionPlan (o_Lines existingOrder))) (\<lambda>restockPlan.
       bindG (forG restockPlan (\<lambda>(productID, quantity). in_Restock (uow_Inventory uow) productID quantity)) (\<lambda>_.
       retG (existingOrder\<lparr>o_Status := OrderStatusCancelled\<rparr>, False)))))"

definition OrderService_CancelOrder :: "'w OrderService \<Rightarrow> string \<Rightarrow> string \<Rightarrow> ('w st, Order) gom" where
  "OrderService_CancelOrder svc orderID userID =
     bindG (sv_transactor svc (cancelOrderTx orderID userID)) (\<lambda>(order, _). retG order)"

text \<open>The service as \<open>main\<close> assembles it.\<close>

definition NewOrderService ::
    "'w env \<Rightarrow> (OrderCreatedPayload \<Rightarrow> goerr + string) \<Rightarrow> (PlaceOrderReq \<Rightarrow> goerr option) \<Rightarrow> 'w OrderService" where
  "NewOrderService E marshal validate =
     \<lparr>sv_validate = validate, sv_repo = NewOrderRepository E,
      sv_transactor = UnitOfWork_WithinTransaction E marshal\<rparr>"

section \<open>The stock plan\<close>

definition lookup :: "(string \<times> int64) list \<Rightarrow> string \<Rightarrow> int64" where
  "lookup quantities p = (case map_of quantities p of None \<Rightarrow> 0 | Some q \<Rightarrow> q)"

text \<open>The quantity of a product over the lines of an order.\<close>

definition ordered :: "OrderLine list \<Rightarrow> string \<Rightarrow> int64" where
  "ordered lines p = (\<Sum>l\<leftarrow>filter (\<lambda>l. ol_ProductID l = p) lines. uint (ol_Quantity l))"

lemma ordered_Cons: "ordered (l # ls) p = (if ol_ProductID l = p then uint (ol_Quantity l) else 0) + ordered ls p"
  by (simp add: ordered_def)

lemma ordered_Nil [simp]: "ordered [] p = 0"
  by (simp add: ordered_def)

lemma ordered_nonneg: "0 \<le> ordered lines p"
  by (induction lines) (auto simp: ordered_Cons)

lemma lookup_update: "lookup (AList.update k v qs) p = (if p = k then v else lookup qs p)"
  by (simp add: lookup_def update_conv' fun_upd_def)

definition quantities_ok :: "(string \<times> int64) list \<Rightarrow> bool" where
  "quantities_ok qs \<longleftrightarrow> distinct (map fst qs) \<and> (\<forall>p. 0 \<le> lookup qs p \<and> lookup qs p \<le> max_i64)"

lemma addQuantities_result:
  assumes "quantities_ok qs"
  shows "case addQuantities qs lines of
      Inr qs' \<Rightarrow> quantities_ok qs' \<and> fst ` set qs' = fst ` set qs \<union> ol_ProductID ` set lines \<and>
        (\<forall>p. lookup qs' p = lookup qs p + ordered lines p)
    | Inl e \<Rightarrow> e = ErrInvalidOrderQuantity \<and> (\<exists>p. max_i64 < lookup qs p + ordered lines p)"
  using assms
proof (induction lines arbitrary: qs)
  case (Cons l lines)
  let ?q = "uint (ol_Quantity l)" and ?p = "ol_ProductID l"
  have q0: "0 \<le> ?q" by simp
  have bound: "0 \<le> lookup qs p" "lookup qs p \<le> max_i64" for p using Cons.prems by (auto simp: quantities_ok_def)
  show ?case
  proof (cases "max_i64 < ?q")
    case True
    then have "max_i64 < lookup qs ?p + ordered (l # lines) ?p"
      using bound(1) [of ?p] ordered_nonneg [of lines ?p] by (simp add: ordered_Cons)
    with True show ?thesis by auto
  next
    case small: False
    then have conv: "i64 ?q = ?q" "i64 (max_i64 - ?q) = max_i64 - ?q"
      using q0 by (simp_all add: i64_nonneg_id)
    show ?thesis
    proof (cases "max_i64 - ?q < lookup qs ?p")
      case True
      then have "max_i64 < lookup qs ?p + ordered (l # lines) ?p"
        using ordered_nonneg [of lines ?p] by (simp add: ordered_Cons)
      with True small conv show ?thesis by (auto simp: lookup_def)
    next
      case fits: False
      define qs1 where "qs1 = AList.update ?p (lookup qs ?p + ?q) qs"
      have sum: "i64 (lookup qs ?p + ?q) = lookup qs ?p + ?q"
        using fits bound(1) [of ?p] q0 by (intro i64_nonneg_id) simp_all
      have l1: "lookup qs1 p = lookup qs p + (if ?p = p then ?q else 0)" for p
        by (simp add: qs1_def lookup_update)
      have "distinct (map fst qs1)"
        using Cons.prems by (simp add: qs1_def quantities_ok_def distinct_update)
      moreover have "0 \<le> lookup qs1 p \<and> lookup qs1 p \<le> max_i64" for p
        using fits bound [of p] bound [of ?p] q0 by (auto simp: l1)
      ultimately have "quantities_ok qs1" by (simp add: quantities_ok_def)
      note ih = Cons.IH [OF this]
      have "fst ` set qs1 = insert ?p (fst ` set qs)" by (simp add: qs1_def dom_update)
      moreover have "addQuantities qs (l # lines) = addQuantities qs1 lines"
        using small fits conv sum by (simp add: lookup_def qs1_def Let_def)
      moreover have "lookup qs1 p + ordered lines p = lookup qs p + ordered (l # lines) p" for p
        by (simp add: l1 ordered_Cons)
      ultimately show ?thesis using ih by (simp split: sum.splits del: addQuantities.simps)
    qed
  qed
qed simp

lemma stockConsumptionPlan_Inr:
  assumes "stockConsumptionPlan lines = Inr plan"
  shows "sorted_wrt (<) (map fst plan)" "fst ` set plan = ol_ProductID ` set lines"
    "\<And>p q. (p, q) \<in> set plan \<Longrightarrow> q = ordered lines p \<and> q \<le> max_i64"
proof -
  have "quantities_ok []" by (simp add: quantities_ok_def lookup_def max_i64_def)
  note r = addQuantities_result [OF this, of lines]
  from assms obtain qs where qs: "addQuantities [] lines = Inr qs"
    and plan: "plan = map (\<lambda>p. (p, the (map_of qs p))) (sort (map fst qs))"
    by (cases "addQuantities [] lines") (auto simp: stockConsumptionPlan_def)
  from r qs have ok: "quantities_ok qs" "fst ` set qs = ol_ProductID ` set lines"
    "\<And>p. lookup qs p = ordered lines p" by (simp_all add: lookup_def)
  have "distinct (sort (map fst qs))" "sorted (sort (map fst qs))" using ok(1) by (simp_all add: quantities_ok_def)
  then show "sorted_wrt (<) (map fst plan)" by (simp add: plan comp_def strict_sorted_iff)
  show "fst ` set plan = ol_ProductID ` set lines" using ok(2) by (simp add: plan image_image)
  fix p q assume "(p, q) \<in> set plan"
  then have "q = lookup qs p" by (auto simp: plan lookup_def dest!: weak_map_of_SomeI)
  then show "q = ordered lines p \<and> q \<le> max_i64" using ok(1,3) by (simp add: quantities_ok_def)
qed

lemma stockConsumptionPlan_Inl:
  "stockConsumptionPlan lines = Inl e \<Longrightarrow> e = ErrInvalidOrderQuantity \<and> (\<exists>p. max_i64 < ordered lines p)"
proof -
  assume "stockConsumptionPlan lines = Inl e"
  then have "addQuantities [] lines = Inl e"
    by (cases "addQuantities [] lines") (auto simp: stockConsumptionPlan_def)
  moreover have "quantities_ok []" by (simp add: quantities_ok_def lookup_def max_i64_def)
  ultimately show ?thesis using addQuantities_result [of "[]" lines] by (simp add: lookup_def)
qed

text \<open>Running a plan.\<close>


context order_inventory
begin

lemma consume_plan:
  assumes "inventory_ok s" "distinct (map fst plan)"
    and "forG plan (\<lambda>(p, q). in_ConsumeStock inventory p q) s = (r, t)"
  shows "inventory_ok t \<and> inventory_only s t \<and> (case r of Inl e \<Rightarrow> True
    | Inr _ \<Rightarrow> (\<forall>p. stock t p = (if p \<in> fst ` set plan then Some (stock0 s p - lookup plan p) else stock s p)) \<and>
        (\<forall>(p, q) \<in> set plan. 0 < q \<and> q \<le> stock0 s p \<and> stock s p \<noteq> None))"
  using assms
proof (induction plan arbitrary: s)
  case (Cons x plan)
  obtain p q where x: "x = (p, q)" by fastforce
  obtain r1 u where c: "in_ConsumeStock inventory p q s = (r1, u)" by fastforce
  show ?case
  proof (cases r1)
    case (Inl e)
    with c Cons.prems x have "r = Inl e" "t = u" by (auto simp: bindG_def)
    moreover from consume_err [OF Cons.prems(1)] c Inl have "world_only s u" by blast
    ultimately show ?thesis
      using Cons.prems(1) world_only_inventory [of s u] world_only_stock [of s u] by simp
  next
    case (Inr y)
    with c consume_ok [OF Cons.prems(1), of p q y u]
    have c1: "0 < q" "q \<le> stock0 s p" "stock s p \<noteq> None" "stock_added s u p (- q)" by auto
    then have u: "inventory_ok u" "inventory_only s u" "stock u = (stock s)(p \<mapsto> stock0 s p - q)"
      by (simp_all add: stock_added_def)
    from Cons.prems(3) c Inr x have run: "forG plan (\<lambda>(p, q). in_ConsumeStock inventory p q) u = (r, t)"
      by (simp add: bindG_def)
    from Cons.prems(2) x have d: "distinct (map fst plan)" "p \<notin> fst ` set plan" by simp_all
    note ih = Cons.IH [OF u(1) d(1) run]
    have s0: "stock0 u k = stock0 s k" "stock u k = stock s k" if "k \<noteq> p" for k
      using u(3) that by (simp_all add: stock0_def)
    have lk: "lookup (x # plan) k = (if k = p then q else lookup plan k)" for k
      by (simp add: lookup_def x)
    show ?thesis
    proof (cases r)
      case (Inl e)
      with ih u show ?thesis by (auto intro: inventory_only_trans)
    next
      case (Inr z)
      with ih u have t: "inventory_ok t" "inventory_only s t"
        "\<And>k. stock t k = (if k \<in> fst ` set plan then Some (stock0 u k - lookup plan k) else stock u k)"
        "\<forall>(p, q) \<in> set plan. 0 < q \<and> q \<le> stock0 u p \<and> stock u p \<noteq> None"
        by (auto intro: inventory_only_trans)
      have "stock t k = (if k \<in> fst ` set (x # plan) then Some (stock0 s k - lookup (x # plan) k) else stock s k)" for k
        using t(3) [of k] d(2) s0 [of k] u(3) x lk [of k] by auto
      moreover have "\<forall>(k, m) \<in> set (x # plan). 0 < m \<and> m \<le> stock0 s k \<and> stock s k \<noteq> None"
      proof (clarify)
        fix k m assume km: "(k, m) \<in> set (x # plan)"
        show "0 < m \<and> m \<le> stock0 s k \<and> stock s k \<noteq> None"
        proof (cases "(k, m) = x")
          case True
          with x c1 show ?thesis by simp
        next
          case False
          with km have km': "(k, m) \<in> set plan" by simp
          then have "k \<noteq> p" using d(2) by force
          with bspec [OF t(4) km'] s0 [of k] show ?thesis by simp
        qed
      qed
      ultimately show ?thesis using t(1,2) Inr by simp
    qed
  qed
qed (simp add: gom lookup_def)

end

context order_inventory
begin

lemma restock_plan:
  assumes "inventory_ok s" "distinct (map fst plan)" "\<forall>(p, q) \<in> set plan. q \<le> max_i64"
    and "forG plan (\<lambda>(p, q). in_Restock inventory p q) s = (r, t)"
  shows "inventory_ok t \<and> inventory_only s t \<and> (case r of Inl e \<Rightarrow> True
    | Inr _ \<Rightarrow> \<forall>p. stock t p = (if p \<in> fst ` set plan then Some (stock0 s p + lookup plan p) else stock s p))"
  using assms
proof (induction plan arbitrary: s)
  case (Cons x plan)
  obtain p q where x: "x = (p, q)" by fastforce
  obtain r1 u where c: "in_Restock inventory p q s = (r1, u)" by fastforce
  show ?case
  proof (cases r1)
    case (Inl e)
    with c Cons.prems x have "r = Inl e" "t = u" by (auto simp: bindG_def)
    moreover from restock_err c Inl have "world_only s u" by blast
    ultimately show ?thesis
      using Cons.prems(1) world_only_inventory [of s u] world_only_stock [of s u] by simp
  next
    case (Inr y)
    have "q \<le> max_i64" using Cons.prems(3) x by auto
    from restock_ok [OF Cons.prems(1) this, of p y u] c Inr have "stock_added s u p q" by simp
    then have u: "inventory_ok u" "inventory_only s u" "stock u = (stock s)(p \<mapsto> stock0 s p + q)"
      by (simp_all add: stock_added_def)
    from Cons.prems(4) c Inr x have run: "forG plan (\<lambda>(p, q). in_Restock inventory p q) u = (r, t)"
      by (simp add: bindG_def)
    from Cons.prems(2,3) x have d: "distinct (map fst plan)" "p \<notin> fst ` set plan"
      "\<forall>(p, q) \<in> set plan. q \<le> max_i64" by simp_all
    note ih = Cons.IH [OF u(1) d(1) d(3) run]
    have s0: "stock0 u k = stock0 s k" "stock u k = stock s k" if "k \<noteq> p" for k
      using u(3) that by (simp_all add: stock0_def)
    have lk: "lookup (x # plan) k = (if k = p then q else lookup plan k)" for k
      by (simp add: lookup_def x)
    show ?thesis
    proof (cases r)
      case (Inl e)
      with ih u show ?thesis by (auto intro: inventory_only_trans)
    next
      case (Inr z)
      with ih u have t: "inventory_ok t" "inventory_only s t"
        "\<And>k. stock t k = (if k \<in> fst ` set plan then Some (stock0 u k + lookup plan k) else stock u k)"
        by (auto intro: inventory_only_trans)
      have "stock t k = (if k \<in> fst ` set (x # plan) then Some (stock0 s k + lookup (x # plan) k) else stock s k)" for k
        using t(3) [of k] d(2) s0 [of k] u(3) x lk [of k] by auto
      then show ?thesis using t(1,2) Inr by simp
    qed
  qed
qed (simp add: gom lookup_def)

end

section \<open>Prices\<close>

locale order_products =
  fixes products :: "'w OrderProducts"
  assumes product_frame: "keepsG world_only (products i)"
    and product_Inr: "products i s = (Inr p, t) \<Longrightarrow> p \<in> set (st_products s) \<and> p_ID p = i"

text \<open>\<open>n\<close> minor units is the current price of the line's product times the quantity.\<close>

definition line_total :: "'w st \<Rightarrow> OrderLine \<Rightarrow> int64 \<Rightarrow> bool" where
  "line_total s l n \<longleftrightarrow>
     (\<exists>p \<in> set (st_products s). p_ID p = ol_ProductID l \<and>
        (\<exists>u. ToMinorUnits (p_Price p) = Inr u \<and> n = u * uint (ol_Quantity l)))"

definition priced :: "OrderLine list \<Rightarrow> int64 list \<Rightarrow> OrderLine list" where
  "priced lines ns = map2 (\<lambda>l n. l\<lparr>ol_Price := FromMinorUnits n\<rparr>) lines ns"

context order_products
begin

lemma priceLines_frame [simp]: "keepsG world_only (priceLines products lines tot m)"
proof (induction lines arbitrary: tot m)
  case (Cons l lines)
  then show ?case by (auto intro!: framing product_frame)
qed simp

lemma priceLines_Inr:
  assumes "priceLines products lines tot m s = (Inr (lines', tot', m'), t)" "0 \<le> tot" "tot \<le> max_i64"
  shows "\<exists>ns. list_all2 (line_total s) lines ns \<and> lines' = priced lines ns \<and>
      tot' = tot + sum_list ns \<and> (\<forall>n \<in> set ns. 0 \<le> n) \<and> tot' \<le> max_i64"
  using assms
proof (induction lines arbitrary: tot m s lines')
  case (Cons l lines)
  from Cons.prems(1) obtain p u where p: "products (ol_ProductID l) s = (Inr p, u)"
    and rest: "(case ToMinorUnits (p_Price p) of
       Inl _ \<Rightarrow> throwG ErrInvalidOrderAmount
     | Inr unitPrice \<Rightarrow>
         (case Multiply unitPrice (ol_Quantity l) of
            Inl _ \<Rightarrow> throwG ErrInvalidOrderAmount
          | Inr lineTotal \<Rightarrow>
              (case Add tot lineTotal of
                 Inl _ \<Rightarrow> throwG ErrInvalidOrderAmount
               | Inr newTotal \<Rightarrow>
                   bindG (priceLines products lines newTotal (m(ol_ProductID l \<mapsto> p)))
                     (\<lambda>(rest, tot, m). retG (l\<lparr>ol_Price := FromMinorUnits lineTotal\<rparr> # rest, tot, m))))) u
       = (Inr (lines', tot', m'), t)" by (auto simp: bindG_Inr_iff)
  from rest obtain up n nt where up: "ToMinorUnits (p_Price p) = Inr up" "Multiply up (ol_Quantity l) = Inr n"
    "Add tot n = Inr nt" by (auto simp: gom split: sum.splits)
  with rest obtain ls where r: "priceLines products lines nt (m(ol_ProductID l \<mapsto> p)) u = (Inr (ls, tot', m'), t)"
    and l': "lines' = l\<lparr>ol_Price := FromMinorUnits n\<rparr> # ls" by (auto simp: gom)
  from Multiply_Inr [OF up(2)] have n: "n = up * uint (ol_Quantity l)" "0 \<le> n" by simp_all
  from Add_Inr [OF up(3)] have nt: "nt = tot + n" "nt \<le> max_i64" by simp_all
  with n Cons.prems(2) have "0 \<le> nt" by simp
  from Cons.IH [OF r this nt(2)] obtain ns where ns: "list_all2 (line_total u) lines ns" "ls = priced lines ns"
    "tot' = nt + sum_list ns" "\<forall>n \<in> set ns. 0 \<le> n" "tot' \<le> max_i64" by blast
  have "world_only s u" using keepsGD [OF product_frame p] .
  then have "line_total u = line_total s"
    by (simp add: fun_eq_iff line_total_def world_only_iff same_tables_iff)
  moreover have "line_total s l n" using product_Inr [OF p] up n by (auto simp: line_total_def)
  ultimately show ?case using ns l' nt n by (intro exI [of _ "n # ns"]) (simp add: priced_def)
qed (simp add: gom priced_def)

end

lemma products_sel [simp]:
  "tb_rows (products_table E) = st_products" "tb_key (products_table E) r = [p_ID r]"
  by (simp_all add: products_table_def)

interpretation order_product_repo: order_products "OrderProductRepo_GetProductByID E" for E :: "'w env"
  by unfold_locales
    (auto simp: OrderProductRepo_GetProductByID_def dest: products.FindById_Inr)

section \<open>Properties\<close>

text \<open>
  C11: the stock plan of an order names every ordered product once, in increasing order
  of the product ids (the order in which the inventory rows are locked), with the quantity
  summed over all its lines; the only error is a sum that an \<open>int64\<close> cannot hold, and a
  sum is never wrapped.
\<close>

theorem stock_plan_aggregates:
  "case stockConsumptionPlan lines of
     Inr plan \<Rightarrow> sorted_wrt (<) (map fst plan) \<and> fst ` set plan = ol_ProductID ` set lines \<and>
       list_all (\<lambda>(p, q). q = ordered lines p \<and> q \<le> max_i64) plan
   | Inl e \<Rightarrow> e = ErrInvalidOrderQuantity \<and> (\<exists>p. max_i64 < ordered lines p)"
proof (cases "stockConsumptionPlan lines")
  case (Inl e)
  with stockConsumptionPlan_Inl [OF Inl] show ?thesis by simp
next
  case (Inr plan)
  with stockConsumptionPlan_Inr [OF Inr] show ?thesis by (auto simp: list_all_iff)
qed

end
