(* ===== verification/OrderStore.thy ===== *)
theory OrderStore
  imports Order
begin

text \<open>
  The contract of \<open>OrderRepository\<close> (\<open>internal/order/service/ports.go\<close>), and the proof that
  the repository of \<open>internal/order/repository\<close> satisfies it.
\<close>

section \<open>The contract of the order repository\<close>

definition orders_only :: "'w st \<Rightarrow> 'w st \<Rightarrow> bool" where
  "orders_only s t \<longleftrightarrow>
     st_metrics t = st_metrics s \<and> st_users t = st_users s \<and> st_products t = st_products s \<and>
     st_inventories t = st_inventories s \<and> st_outbox_events t = st_outbox_events s \<and>
     st_carts t = st_carts s \<and> st_cart_lines t = st_cart_lines s"

lemma orders_only_refl [simp]: "orders_only s s"
  by (simp add: orders_only_def)

lemma orders_only_trans [trans]: "orders_only s t \<Longrightarrow> orders_only t u \<Longrightarrow> orders_only s u"
  by (simp add: orders_only_def)

lemma world_only_orders: "world_only s t \<Longrightarrow>
    orders_only s t \<and> st_orders t = st_orders s \<and> st_order_lines t = st_order_lines s"
  by (simp add: orders_only_def world_only_iff same_tables_iff same_metrics_def)

lemma orders_only_stock: "orders_only s t \<Longrightarrow> stock t = stock s \<and> inventory_ok t = inventory_ok s"
  by (simp add: orders_only_def fun_eq_iff stock_def inventory_ok_def)

text \<open>The row of an order, without what is only in memory.\<close>

definition order_row :: "Order \<Rightarrow> Order" where
  "order_row r = r\<lparr>o_Lines := [], o_IdempotencyReplay := False\<rparr>"

definition line_row :: "OrderLine \<Rightarrow> OrderLine" where
  "line_row l = l\<lparr>ol_Product := None\<rparr>"

definition line_key :: "OrderLine \<Rightarrow> string \<times> uint \<times> float64" where
  "line_key l = (ol_ProductID l, ol_Quantity l, ol_Price l)"

locale order_store =
  fixes orders :: "'w OrderRepository"
  assumes create_Inr: "rp_CreateOrder orders ord0 lines s = (Inr c, t) \<Longrightarrow>
      orders_only s t \<and> st_orders t = st_orders s @ [order_row c] \<and>
      st_order_lines t = st_order_lines s @ map line_row (o_Lines c) \<and>
      o_ID c \<notin> o_ID ` set (st_orders s) \<and>
      (\<forall>x \<in> set (st_orders s). \<not> order_key_clash x c) \<and>
      o_UserID c = o_UserID ord0 \<and> o_TotalPrice c = o_TotalPrice ord0 \<and>
      o_Status c = (if o_Status ord0 = '''' then OrderStatusNew else o_Status ord0) \<and>
      o_IdempotencyKey c = o_IdempotencyKey ord0 \<and>
      o_IdempotencyFingerprint c = o_IdempotencyFingerprint ord0 \<and>
      o_IdempotencyReplay c = o_IdempotencyReplay ord0 \<and>
      map line_key (o_Lines c) = map line_key lines \<and> (\<forall>l \<in> set (o_Lines c). ol_OrderID l = o_ID c)"
    and create_Inl: "rp_CreateOrder orders ord0 lines s = (Inl err, t) \<Longrightarrow> st_metrics t = st_metrics s"
    and byID_frame: "keepsG world_only (rp_GetOrderByID orders i pre)"
    and byID_Inr: "rp_GetOrderByID orders i True s = (Inr c, t) \<Longrightarrow>
      order_row c \<in> order_row ` set (st_orders s) \<and> o_ID c = i \<and>
      map line_row (o_Lines c) = map line_row (filter (\<lambda>l. ol_OrderID l = i) (st_order_lines s))"
    and byKey_frame: "keepsG world_only (rp_GetOrderByIdempotencyKey orders user k)"
    and byKey_Inr: "rp_GetOrderByIdempotencyKey orders user k s = (Inr c, t) \<Longrightarrow>
      order_row c \<in> order_row ` set (st_orders s) \<and> o_UserID c = user \<and> o_IdempotencyKey c = Some k"
    and byKey_Inl: "rp_GetOrderByIdempotencyKey orders user k s = (Inl err, t) \<Longrightarrow>
      sql_error err \<or> err = ErrOrderNotFound \<and>
        (\<forall>x \<in> set (st_orders s). \<not> (o_UserID x = user \<and> o_IdempotencyKey x = Some k))"
    and cancel_Inr: "distinct (map o_ID (st_orders s)) \<Longrightarrow>
      rp_CancelOrderIfCancellable orders i user s = (Inr u, t) \<Longrightarrow>
      orders_only s t \<and> st_order_lines t = st_order_lines s \<and>
      (\<exists>c \<in> set (st_orders s). cancellable i user c) \<and>
      (\<exists>now. st_orders t = map (\<lambda>r. if o_ID r = i
         then order_row (r\<lparr>o_Status := OrderStatusCancelled, o_UpdatedAt := now\<rparr>) else r) (st_orders s))"
    and cancel_Inl: "rp_CancelOrderIfCancellable orders i user s = (Inl err, t) \<Longrightarrow> st_metrics t = st_metrics s"

text \<open>The repository of the code.\<close>

lemma orders_sel [simp]:
  "tb_rows (orders_table E) = st_orders" "tb_put (orders_table E) rows s = s\<lparr>st_orders := rows\<rparr>"
  "tb_stored (orders_table E) = order_row" "tb_key (orders_table E) r = [o_ID r]"
  "tb_before_create (orders_table E) = Order_BeforeCreate E" "tb_preload (orders_table E) = order_preload"
  "tb_rows (order_lines_table E) = st_order_lines"
  "tb_put (order_lines_table E) lrows s = s\<lparr>st_order_lines := lrows\<rparr>"
  "tb_stored (order_lines_table E) = line_row"
  "tb_before_create (order_lines_table E) = OrderLine_BeforeCreate E"
  by (simp_all add: orders_table_def order_lines_table_def order_row_def line_row_def fun_eq_iff)

lemma before_create_lines:
  "before_create_all (order_lines_table E) ls s = (Inr ds, t) \<Longrightarrow>
     map line_key ds = map line_key ls \<and> map ol_OrderID ds = map ol_OrderID ls"
proof (induction ls arbitrary: s ds)
  case (Cons l ls)
  from Cons.prems obtain d u ds' where d: "OrderLine_BeforeCreate E l s = (Inr d, u)"
    and rest: "before_create_all (order_lines_table E) ls u = (Inr ds', t)" and ds: "ds = d # ds'"
    by (auto simp: gom)
  from OrderLine_BeforeCreate_Inr [OF d] Cons.IH [OF rest] ds show ?case by (auto simp: line_key_def)
qed (simp add: gom)

lemma created_line_sel:
  "line_key (tb_created (order_lines_table E) now l) = line_key l"
  "ol_OrderID (tb_created (order_lines_table E) now l) = ol_OrderID l"
  by (simp_all add: order_lines_table_def line_key_def)

lemma OrderRepo_createOrder_Inr:
  assumes "OrderRepo_createOrder E ord0 lines s = (Inr c, t)"
  shows "orders_only s t \<and> st_orders t = st_orders s @ [order_row c] \<and>
      st_order_lines t = st_order_lines s @ map line_row (o_Lines c) \<and>
      o_ID c \<notin> o_ID ` set (st_orders s) \<and>
      (\<forall>x \<in> set (st_orders s). \<not> order_key_clash x c) \<and>
      o_UserID c = o_UserID ord0 \<and> o_TotalPrice c = o_TotalPrice ord0 \<and>
      o_Status c = (if o_Status ord0 = '''' then OrderStatusNew else o_Status ord0) \<and>
      o_IdempotencyKey c = o_IdempotencyKey ord0 \<and>
      o_IdempotencyFingerprint c = o_IdempotencyFingerprint ord0 \<and>
      o_IdempotencyReplay c = o_IdempotencyReplay ord0 \<and>
      map line_key (o_Lines c) = map line_key lines \<and> (\<forall>l \<in> set (o_Lines c). ol_OrderID l = o_ID c)"
proof -
  define ls where "ls i = map (\<lambda>line. line\<lparr>ol_OrderID := i\<rparr>) lines" for i :: string
  from assms obtain c0 u rows where c0: "Create E (orders_table E) ord0 s = (Inr c0, u)"
    and b: "CreateInBatches E (order_lines_table E) (ls (o_ID c0)) (length (ls (o_ID c0))) u = (Inr rows, t)"
    and c: "c = c0\<lparr>o_Lines := rows\<rparr>"
    unfolding OrderRepo_createOrder_def ls_def by (auto simp: gom Let_def)
  from c0 obtain d now h where h: "Order_BeforeCreate E ord0 s = (Inr d, h)"
    and row: "c0 = tb_created (orders_table E) now d"
    and v: "violation (orders_table E) (st_orders s) c0 = None"
    and u: "world_only (s\<lparr>st_orders := st_orders s @ [order_row c0]\<rparr>) u"
    by (rule orders.Create_Inr) simp
  from b obtain ds k now2 where ds: "before_create_all (order_lines_table E) (ls (o_ID c0)) u = (Inr ds, k)"
    and rows: "rows = map (tb_created (order_lines_table E) now2) ds"
    and t0: "world_only (tb_put (order_lines_table E) (tb_rows (order_lines_table E) u @ map (tb_stored (order_lines_table E)) rows) u) t"
    by (rule order_lines.CreateInBatches_Inr)
  have t: "world_only (u\<lparr>st_order_lines := st_order_lines u @ map line_row rows\<rparr>) t" using t0 by simp
  have "o_ID x \<noteq> o_ID c0" "\<not> order_key_clash x c0" if "x \<in> set (st_orders s)" for x
    using violation_None_unique [OF v, of "''orders_pkey''" "\<lambda>x r. o_ID x = o_ID r" x]
      violation_None_unique [OF v, of "''idx_orders_user_idempotency_key''" order_key_clash x] that
    by (simp_all add: orders_table_def)
  moreover have "order_key_clash x c = order_key_clash x c0" for x by (simp add: c order_key_clash_def)
  ultimately have clash: "o_ID c \<notin> o_ID ` set (st_orders s)" "\<forall>x \<in> set (st_orders s). \<not> order_key_clash x c"
    by (simp_all add: c notin_imageI)
  have key: "map line_key rows = map line_key lines" "\<forall>l \<in> set rows. ol_OrderID l = o_ID c"
  proof -
    note bl = before_create_lines [OF ds]
    show "map line_key rows = map line_key lines"
      using bl by (simp add: rows created_line_sel comp_def ls_def) (simp add: line_key_def)
    have eq: "map ol_OrderID rows = map (\<lambda>_. o_ID c0) lines"
      using bl by (simp add: rows created_line_sel comp_def ls_def)
    have "ol_OrderID l \<in> set (map ol_OrderID rows)" if "l \<in> set rows" for l using that by simp
    then show "\<forall>l \<in> set rows. ol_OrderID l = o_ID c" unfolding eq by (auto simp: c)
  qed
  have frame: "orders_only s t" "st_orders t = st_orders s @ [order_row c]"
    "st_order_lines t = st_order_lines s @ map line_row rows"
    using u t by (simp_all add: orders_only_def world_only_iff same_tables_iff same_metrics_def c order_row_def)
  from Order_BeforeCreate_Inr [OF h] have "o_UserID c0 = o_UserID ord0 \<and> o_TotalPrice c0 = o_TotalPrice ord0 \<and>
      o_Status c0 = (if o_Status ord0 = '''' then OrderStatusNew else o_Status ord0) \<and>
      o_IdempotencyKey c0 = o_IdempotencyKey ord0 \<and> o_IdempotencyFingerprint c0 = o_IdempotencyFingerprint ord0 \<and>
      o_IdempotencyReplay c0 = o_IdempotencyReplay ord0"
    by (auto simp: row orders_table_def)
  then show ?thesis using frame clash key by (simp add: c)
qed

lemma OrderRepo_CreateOrder_Inr:
  "OrderRepo_CreateOrder E ord0 lines s = (Inr c, t) \<Longrightarrow> OrderRepo_createOrder E ord0 lines s = (Inr c, t)"
  by (auto simp: OrderRepo_CreateOrder_def tryG_def retG_def throwG_def split: prod.splits sum.splits if_splits)

lemma OrderRepo_CreateOrder_metrics: "keepsG same_metrics (OrderRepo_CreateOrder E ord0 lines)"
proof -
  have "keepsG same_metrics (OrderRepo_createOrder E ord0 lines)"
    unfolding OrderRepo_createOrder_def Let_def
    by (auto intro!: framing orders.Create_metrics order_lines.CreateInBatches_metrics)
  then show ?thesis unfolding OrderRepo_CreateOrder_def by (auto intro!: framing)
qed

lemma order_options:
  "getOption ([WithQuery q] @ (if b then [WithPreload ps] else [])) =
     \<lparr>fo_query = q, fo_order = \<lparr>obc_Column = ''id'', obc_Desc = False\<rparr>, fo_offset = 0, fo_limit = 1000,
      fo_preloads = (if b then ps else [])\<rparr>"
  by (simp add: option_defs)

lemma preload_order:
  "preload_row (orders_table E) [''Lines'', ''Lines.Product''] s x =
     x\<lparr>o_Lines := map (\<lambda>l. l\<lparr>ol_Product := find (\<lambda>p. p_ID p = ol_ProductID l) (st_products s)\<rparr>)
                    (filter (\<lambda>l. ol_OrderID l = o_ID x) (st_order_lines s))\<rparr>"
  by (simp add: preload_row_def order_preload_def)

lemma OrderRepo_GetOrderByID_frame [simp]: "keepsG world_only (OrderRepo_GetOrderByID E i pre)"
  by (simp add: OrderRepo_GetOrderByID_def)

lemma orders_column_id: "tb_column (orders_table E) ''id'' = Some (\<lambda>r. SStr (o_ID r))"
  by (simp add: orders_table_def)

lemma OrderRepo_GetOrderByID_Inr:
  assumes "OrderRepo_GetOrderByID E i True s = (Inr c, t)"
  shows "order_row c \<in> order_row ` set (st_orders s) \<and> o_ID c = i \<and>
      map line_row (o_Lines c) = map line_row (filter (\<lambda>l. ol_OrderID l = i) (st_order_lines s))"
proof -
  note r = orders.FindOne_result [OF assms [unfolded OrderRepo_GetOrderByID_def], unfolded order_options]
  from r obtain x where "x \<in> set (st_orders s)" "o_ID x = i"
    "c = preload_row (orders_table E) [''Lines'', ''Lines.Product''] s x"
    by (auto simp: orders_column_id matches_def)
  then show ?thesis by (auto simp: preload_order order_row_def line_row_def comp_def)
qed

lemma OrderRepo_byKey_result:
  assumes "OrderRepo_GetOrderByIdempotencyKey E user k s = (r, t)"
  shows "case r of
      Inl e \<Rightarrow> sql_error e \<or> e = ErrOrderNotFound \<and>
        (\<forall>x \<in> set (st_orders s). \<not> (o_UserID x = user \<and> o_IdempotencyKey x = Some k))
    | Inr c \<Rightarrow> order_row c \<in> order_row ` set (st_orders s) \<and> o_UserID c = user \<and> o_IdempotencyKey c = Some k"
proof -
  let ?opts = "[WithPreload [''Lines'', ''Lines.Product''], WithQuery [\<lambda>r. o_UserID r = user, \<lambda>r. o_IdempotencyKey r = Some k]]"
  have opt: "getOption ?opts = \<lparr>fo_query = [\<lambda>r. o_UserID r = user, \<lambda>r. o_IdempotencyKey r = Some k],
      fo_order = \<lparr>obc_Column = ''id'', obc_Desc = False\<rparr>, fo_offset = 0, fo_limit = 1000,
      fo_preloads = [''Lines'', ''Lines.Product'']\<rparr>" by (simp add: option_defs)
  obtain q u where q: "FindOne E (orders_table E) ?opts s = (q, u)" by fastforce
  have r: "r = (case q of Inl e \<Rightarrow> Inl (if errors_Is e ErrRecordNotFound then ErrOrderNotFound else e) | Inr c \<Rightarrow> Inr c)"
    using assms q by (auto simp: OrderRepo_GetOrderByIdempotencyKey_def tryG_def throwG_def retG_def split: sum.splits if_splits)
  note f = orders.FindOne_result [OF q, unfolded opt]
  show ?thesis
  proof (cases q)
    case (Inl e)
    with f have "sql_error e \<or> e = ErrRecordNotFound \<and>
        (\<forall>x \<in> set (st_orders s). \<not> (o_UserID x = user \<and> o_IdempotencyKey x = Some k))"
      by (auto simp: orders_column_id matches_def)
    with r Inl show ?thesis by auto
  next
    case (Inr c)
    with f obtain x where "x \<in> set (st_orders s)" "o_UserID x = user" "o_IdempotencyKey x = Some k"
      "c = preload_row (orders_table E) [''Lines'', ''Lines.Product''] s x"
      by (auto simp: orders_column_id matches_def)
    with r Inr show ?thesis by (auto simp: preload_order order_row_def)
  qed
qed

lemma OrderRepo_byKey_frame [simp]: "keepsG world_only (OrderRepo_GetOrderByIdempotencyKey E user k)"
  unfolding OrderRepo_GetOrderByIdempotencyKey_def by (auto intro!: framing simp: frames)

lemma OrderRepo_Cancel_metrics: "keepsG same_metrics (OrderRepo_CancelOrderIfCancellable E i user)"
  unfolding OrderRepo_CancelOrderIfCancellable_def stmtG_def
  by (intro framing orders.metrics_frame; simp)+

lemma OrderRepo_Cancel_Inr:
  assumes ids: "distinct (map o_ID (st_orders s))"
    and run: "OrderRepo_CancelOrderIfCancellable E i user s = (Inr u, t)"
  shows "orders_only s t \<and> st_order_lines t = st_order_lines s \<and>
      (\<exists>c \<in> set (st_orders s). cancellable i user c) \<and>
      (\<exists>now. st_orders t = map (\<lambda>r. if o_ID r = i
         then order_row (r\<lparr>o_Status := OrderStatusCancelled, o_UpdatedAt := now\<rparr>) else r) (st_orders s))"
proof -
  let ?now = "fst (env_now E (st_world s))"
  from run obtain rows where st: "stmtG E (updateG (orders_table E) (cancellable i user)
      (\<lambda>r. Inr (r\<lparr>o_Status := OrderStatusCancelled, o_UpdatedAt := ?now\<rparr>))) (s\<lparr>st_world := snd (env_now E (st_world s))\<rparr>) = (Inr rows, t)"
    and one: "length rows = 1"
    by (auto simp: OrderRepo_CancelOrderIfCancellable_def gom split: if_splits)
  from st obtain new where w: "world_only (tb_put (orders_table E) new (s\<lparr>st_world := snd (env_now E (st_world s))\<rparr>)) t"
    and l: "list_all2 (updated_row (orders_table E) (cancellable i user)
      (\<lambda>r. Inr (r\<lparr>o_Status := OrderStatusCancelled, o_UpdatedAt := ?now\<rparr>)))
      (tb_rows (orders_table E) (s\<lparr>st_world := snd (env_now E (st_world s))\<rparr>)) new"
    and len: "length rows = length (filter (cancellable i user) (tb_rows (orders_table E) (s\<lparr>st_world := snd (env_now E (st_world s))\<rparr>)))"
    by (rule orders.updateG_stmt_Inr)
  from one len have "filter (cancellable i user) (st_orders s) \<noteq> []" by auto
  then obtain c where c: "c \<in> set (st_orders s)" "cancellable i user c" by (auto simp: filter_empty_conv)
  have same: "r = c" if "r \<in> set (st_orders s)" "o_ID r = i" for r
    using distinct_key_unique [OF ids that(1) c(1)] that(2) c(2) by (simp add: cancellable_def)
  have upd: "new = map (\<lambda>r. if cancellable i user r
      then order_row (r\<lparr>o_Status := OrderStatusCancelled, o_UpdatedAt := ?now\<rparr>) else r) (st_orders s)"
    using l unfolding orders_sel by simp (induction rule: list_all2_induct, auto simp: updated_row_def)
  also have "\<dots> = map (\<lambda>r. if o_ID r = i
      then order_row (r\<lparr>o_Status := OrderStatusCancelled, o_UpdatedAt := ?now\<rparr>) else r) (st_orders s)"
    using same c(2) by (intro map_cong) (auto simp: cancellable_def)
  finally have new: "new = \<dots>" .
  from w have "orders_only s t" "st_order_lines t = st_order_lines s" "st_orders t = new"
    by (simp_all add: orders_only_def world_only_iff same_tables_iff same_metrics_def)
  with new c show ?thesis by blast
qed

interpretation order_repo: order_store "NewOrderRepository E" for E :: "'w env"
proof (unfold_locales, unfold NewOrderRepository_def OrderRepository.simps)
  fix s t :: "'w st" and ord0 lines c
  assume "OrderRepo_CreateOrder E ord0 lines s = (Inr c, t)"
  from OrderRepo_createOrder_Inr [OF OrderRepo_CreateOrder_Inr [OF this]]
  show "orders_only s t \<and> st_orders t = st_orders s @ [order_row c] \<and>
      st_order_lines t = st_order_lines s @ map line_row (o_Lines c) \<and>
      o_ID c \<notin> o_ID ` set (st_orders s) \<and>
      (\<forall>x \<in> set (st_orders s). \<not> order_key_clash x c) \<and>
      o_UserID c = o_UserID ord0 \<and> o_TotalPrice c = o_TotalPrice ord0 \<and>
      o_Status c = (if o_Status ord0 = '''' then OrderStatusNew else o_Status ord0) \<and>
      o_IdempotencyKey c = o_IdempotencyKey ord0 \<and>
      o_IdempotencyFingerprint c = o_IdempotencyFingerprint ord0 \<and>
      o_IdempotencyReplay c = o_IdempotencyReplay ord0 \<and>
      map line_key (o_Lines c) = map line_key lines \<and> (\<forall>l \<in> set (o_Lines c). ol_OrderID l = o_ID c)" .
next
  fix s t :: "'w st" and user k err
  assume "OrderRepo_GetOrderByIdempotencyKey E user k s = (Inl err, t)"
  from OrderRepo_byKey_result [OF this] show "sql_error err \<or> err = ErrOrderNotFound \<and>
        (\<forall>x \<in> set (st_orders s). \<not> (o_UserID x = user \<and> o_IdempotencyKey x = Some k))" by simp
next
  fix s t :: "'w st" and user k c
  assume "OrderRepo_GetOrderByIdempotencyKey E user k s = (Inr c, t)"
  from OrderRepo_byKey_result [OF this]
  show "order_row c \<in> order_row ` set (st_orders s) \<and> o_UserID c = user \<and> o_IdempotencyKey c = Some k" by simp
qed (auto simp: OrderRepo_GetOrderByID_Inr dest: OrderRepo_Cancel_Inr
    keepsGD [OF OrderRepo_CreateOrder_metrics, unfolded same_metrics_def]
    keepsGD [OF OrderRepo_Cancel_metrics, unfolded same_metrics_def])

end
