(* ===== verification/PlaceOrder.thy ===== *)
theory PlaceOrder
  imports OrderStore
begin

text \<open>
  What \<open>PlaceOrder\<close> and \<open>CancelOrder\<close> do, proved against the contracts of the interfaces they
  use (locale \<open>order_uow\<close>) and stated on the service as \<open>main\<close> assembles it.

  \<^item> \<open>order_placed\<close>: stock, orders, order lines and the outbox after a successful order.
  \<^item> \<open>order_cancelled\<close>: the same for a cancellation.
  \<^item> A call that fails leaves every table as it was.
\<close>

section \<open>The outbox port\<close>

locale order_outbox =
  fixes create_pending :: "'w OrderOutbox"
    and marshal :: "OrderCreatedPayload \<Rightarrow> goerr + string"
  assumes pending_Inr: "create_pending aggregateType aggregateID eventType payload s = (Inr e, t) \<Longrightarrow>
      outbox_only s t \<and> st_outbox_events t = st_outbox_events s @ [e] \<and>
      oe_ID e \<notin> oe_ID ` set (st_outbox_events s) \<and> oe_Status e = OutboxEventStatusPending \<and> oe_Attempts e = 0 \<and>
      oe_AggregateType e = aggregateType \<and> oe_AggregateID e = aggregateID \<and> oe_EventType e = eventType \<and>
      (\<exists>bytes. marshal payload = Inr bytes \<and> (bytes \<noteq> '''' \<longrightarrow> oe_Payload e = bytes))"
    and pending_Inl: "create_pending aggregateType aggregateID eventType payload s = (Inl err, t) \<Longrightarrow> world_only s t"

context outbox_store
begin

lemma service_pending_Inr:
  assumes "os_repo svc = repo"
    and "OutboxService_CreatePending svc marshal aggregateType aggregateID eventType payload s = (Inr e, t)"
  shows "outbox_only s t \<and> st_outbox_events t = st_outbox_events s @ [e] \<and>
      oe_ID e \<notin> oe_ID ` set (st_outbox_events s) \<and> oe_Status e = OutboxEventStatusPending \<and> oe_Attempts e = 0 \<and>
      oe_AggregateType e = aggregateType \<and> oe_AggregateID e = aggregateID \<and> oe_EventType e = eventType \<and>
      (\<exists>bytes. marshal payload = Inr bytes \<and> (bytes \<noteq> '''' \<longrightarrow> oe_Payload e = bytes))"
proof -
  from assms(2) obtain bytes where m: "marshal payload = Inr bytes"
    and c: "or_CreatePending repo
          \<lparr>oe_ID = '''', oe_AggregateType = aggregateType, oe_AggregateID = aggregateID, oe_EventType = eventType,
           oe_Payload = bytes, oe_Status = OutboxEventStatusPending, oe_Attempts = 0,
           oe_NextAttemptAt = fst (os_now svc (st_world s)), oe_LockedAt = None, oe_LockedBy = '''',
           oe_CreatedAt = zero_time, oe_PublishedAt = None\<rparr> (s\<lparr>st_world := snd (os_now svc (st_world s))\<rparr>) = (Inr e, t)"
    by (auto simp: OutboxService_CreatePending_def gom assms(1) split: if_splits)
  from create_Inr [OF c] m show ?thesis by (simp add: outbox_only_iff)
qed

lemma service_pending_Inl:
  assumes "os_repo svc = repo"
    and "OutboxService_CreatePending svc marshal aggregateType aggregateID eventType payload s = (Inl err, t)"
  shows "world_only s t"
  using assms(2)
  by (auto simp: OutboxService_CreatePending_def gom assms(1) split: if_splits dest!: create_Inl)

end

lemma NewOutboxService_repo: "os_repo (NewOutboxService E repo []) = repo"
  by (simp add: NewOutboxService_def)

interpretation order_outbox_service: order_outbox
    "OutboxService_CreatePending (NewOutboxService E (NewOutboxRepository E) []) marshal" marshal
  for E :: "'w env" and marshal
proof unfold_locales
  fix aggregateType aggregateID eventType payload and s t :: "'w st" and e
  assume "OutboxService_CreatePending (NewOutboxService E (NewOutboxRepository E) []) marshal
    aggregateType aggregateID eventType payload s = (Inr e, t)"
  from outbox_repo.service_pending_Inr [OF NewOutboxService_repo this]
  show "outbox_only s t \<and> st_outbox_events t = st_outbox_events s @ [e] \<and>
      oe_ID e \<notin> oe_ID ` set (st_outbox_events s) \<and> oe_Status e = OutboxEventStatusPending \<and> oe_Attempts e = 0 \<and>
      oe_AggregateType e = aggregateType \<and> oe_AggregateID e = aggregateID \<and> oe_EventType e = eventType \<and>
      (\<exists>bytes. marshal payload = Inr bytes \<and> (bytes \<noteq> '''' \<longrightarrow> oe_Payload e = bytes))" .
next
  fix aggregateType aggregateID eventType payload and s t :: "'w st" and err
  assume "OutboxService_CreatePending (NewOutboxService E (NewOutboxRepository E) []) marshal
    aggregateType aggregateID eventType payload s = (Inl err, t)"
  then show "world_only s t" by (rule outbox_repo.service_pending_Inl [OF NewOutboxService_repo])
qed

section \<open>Placing an order\<close>

text \<open>The lines of a request, as order lines.\<close>

definition request_lines :: "PlaceOrderReq \<Rightarrow> OrderLine list" where
  "request_lines req = map new_order_line (po_Lines req)"

definition order_placed ::
    "(OrderCreatedPayload \<Rightarrow> goerr + string) \<Rightarrow> PlaceOrderReq \<Rightarrow> 'w st \<Rightarrow> Order \<Rightarrow> 'w st \<Rightarrow> bool" where
  "order_placed marshal req s ord t \<longleftrightarrow>
     (\<forall>p \<in> ol_ProductID ` set (request_lines req).
        0 < ordered (request_lines req) p \<and> ordered (request_lines req) p \<le> stock0 s p) \<and>
     (\<forall>p. stock t p =
        (if p \<in> ol_ProductID ` set (request_lines req) then Some (stock0 s p - ordered (request_lines req) p)
         else stock s p)) \<and>
     (\<exists>ns. list_all2 (line_total s) (request_lines req) ns \<and> sum_list ns \<le> max_i64 \<and>
        o_TotalPrice ord = FromMinorUnits (sum_list ns) \<and>
        map line_key (o_Lines ord) = map line_key (priced (request_lines req) ns)) \<and>
     o_UserID ord = po_UserID req \<and> o_Status ord = OrderStatusNew \<and>
     o_IdempotencyKey ord = (if po_IdempotencyKeyHash req \<noteq> '''' then Some (po_IdempotencyKeyHash req) else None) \<and>
     o_IdempotencyFingerprint ord =
       (if po_IdempotencyKeyHash req \<noteq> '''' then Some (po_IdempotencyFingerprint req) else None) \<and>
     o_ID ord \<notin> o_ID ` set (st_orders s) \<and> (\<forall>x \<in> set (st_orders s). \<not> order_key_clash x ord) \<and>
     st_orders t = st_orders s @ [order_row ord] \<and>
     st_order_lines t = st_order_lines s @ map line_row (o_Lines ord) \<and>
     (\<forall>l \<in> set (o_Lines ord). ol_OrderID l = o_ID ord) \<and>
     (\<exists>e. st_outbox_events t = st_outbox_events s @ [e] \<and> oe_ID e \<notin> oe_ID ` set (st_outbox_events s) \<and>
        oe_Status e = OutboxEventStatusPending \<and> oe_Attempts e = 0 \<and> oe_AggregateID e = o_ID ord \<and> oe_EventType e = OrderCreatedEventType \<and>
        (\<exists>bytes. marshal (buildOrderCreatedPayload ord) = Inr bytes \<and> (bytes \<noteq> '''' \<longrightarrow> oe_Payload e = bytes))) \<and>
     st_users t = st_users s \<and> st_products t = st_products s \<and> st_carts t = st_carts s \<and>
     st_cart_lines t = st_cart_lines s"

lemma line_prices_irrelevant:
  assumes "length lines = length ns"
  shows "ordered (priced lines ns) p = ordered lines p"
    "ol_ProductID ` set (priced lines ns) = ol_ProductID ` set lines"
  using assms by (induction lines ns rule: list_induct2) (auto simp: priced_def ordered_Cons)

lemma with_product [simp]:
  "line_key (l\<lparr>ol_Product := p\<rparr>) = line_key l" "line_row (l\<lparr>ol_Product := p\<rparr>) = line_row l"
  by (simp_all add: line_key_def line_row_def)

locale order_uow =
  inv: order_inventory "uow_Inventory uow" + prod: order_products "uow_Products uow" +
  ord: order_store "uow_Orders uow" + out: order_outbox create_pending marshal
  for uow :: "'w UnitOfWork" and create_pending :: "'w OrderOutbox"
    and marshal :: "OrderCreatedPayload \<Rightarrow> goerr + string" +
  assumes uow_outbox: "uow_Outbox uow = Some create_pending"
begin

end

context order_uow
begin

lemma placeOrderTx_steps:
  assumes "placeOrderTx req uow s = (Inr (ordr, b), t)"
  obtains lines tot m plan c u1 u2 u3 e where
    "priceLines (uow_Products uow) (request_lines req) 0 Map.empty s = (Inr (lines, tot, m), u1)"
    "stockConsumptionPlan lines = Inr plan"
    "forG plan (\<lambda>(p, q). in_ConsumeStock (uow_Inventory uow) p q) u1 = (Inr (), u2)"
    "rp_CreateOrder (uow_Orders uow) (new_order req tot) lines u2 = (Inr c, u3)"
    "ordr = c\<lparr>o_Lines := map (\<lambda>line. line\<lparr>ol_Product := m (ol_ProductID line)\<rparr>) (o_Lines c)\<rparr>"
    "create_pending orderAggregateType (o_ID ordr) OrderCreatedEventType (buildOrderCreatedPayload ordr) u3 = (Inr e, t)"
    "b = True"
proof -
  from assms obtain lines tot m u1 where 1: "priceLines (uow_Products uow) (request_lines req) 0 Map.empty s = (Inr (lines, tot, m), u1)"
    and r1: "bindG (liftG (stockConsumptionPlan lines)) (\<lambda>plan.
     bindG (forG plan (\<lambda>(productID, quantity). in_ConsumeStock (uow_Inventory uow) productID quantity)) (\<lambda>_.
     bindG (rp_CreateOrder (uow_Orders uow) (new_order req tot) lines) (\<lambda>created0.
     let created = created0\<lparr>o_Lines := map (\<lambda>line. line\<lparr>ol_Product := m (ol_ProductID line)\<rparr>) (o_Lines created0)\<rparr> in
         bindG (create_pending orderAggregateType (o_ID created) OrderCreatedEventType (buildOrderCreatedPayload created))
           (\<lambda>_. retG (created, True))))) u1 = (Inr (ordr, b), t)"
    unfolding placeOrderTx_def request_lines_def uow_outbox by (auto simp: bindG_Inr_iff Let_def)
  from r1 obtain plan u2 where 2: "stockConsumptionPlan lines = Inr plan"
    and 3: "forG plan (\<lambda>(p, q). in_ConsumeStock (uow_Inventory uow) p q) u1 = (Inr (), u2)"
    and r2: "bindG (rp_CreateOrder (uow_Orders uow) (new_order req tot) lines) (\<lambda>created0.
     let created = created0\<lparr>o_Lines := map (\<lambda>line. line\<lparr>ol_Product := m (ol_ProductID line)\<rparr>) (o_Lines created0)\<rparr> in
         bindG (create_pending orderAggregateType (o_ID created) OrderCreatedEventType (buildOrderCreatedPayload created))
           (\<lambda>_. retG (created, True))) u2 = (Inr (ordr, b), t)"
    by (auto simp: bindG_Inr_iff [where m = "liftG x" for x] bindG_Inr_iff [where m = "forG x y" for x y] liftG_iff)
  from r2 obtain c u3 e where "rp_CreateOrder (uow_Orders uow) (new_order req tot) lines u2 = (Inr c, u3)"
    "ordr = c\<lparr>o_Lines := map (\<lambda>line. line\<lparr>ol_Product := m (ol_ProductID line)\<rparr>) (o_Lines c)\<rparr>"
    "create_pending orderAggregateType (o_ID ordr) OrderCreatedEventType (buildOrderCreatedPayload ordr) u3 = (Inr e, t)"
    "b = True"
    by (auto simp: bindG_Inr_iff Let_def gom)
  with that 1 2 3 show ?thesis by blast
qed

lemma placeOrderTx_Inr:
  assumes ok: "inventory_ok s" and run: "placeOrderTx req uow s = (Inr (ordr, b), t)"
  shows "inventory_ok t \<and> b \<and> order_placed marshal req s ordr t \<and> \<not> o_IdempotencyReplay ordr"
proof -
  from run obtain lines tot m plan c u1 u2 u3 e where
    p: "priceLines (uow_Products uow) (request_lines req) 0 Map.empty s = (Inr (lines, tot, m), u1)"
    and plan: "stockConsumptionPlan lines = Inr plan"
    and consume: "forG plan (\<lambda>(p, q). in_ConsumeStock (uow_Inventory uow) p q) u1 = (Inr (), u2)"
    and create: "rp_CreateOrder (uow_Orders uow) (new_order req tot) lines u2 = (Inr c, u3)"
    and ordr: "ordr = c\<lparr>o_Lines := map (\<lambda>line. line\<lparr>ol_Product := m (ol_ProductID line)\<rparr>) (o_Lines c)\<rparr>"
    and outb: "create_pending orderAggregateType (o_ID ordr) OrderCreatedEventType (buildOrderCreatedPayload ordr) u3 = (Inr e, t)"
    and b: "b = True" by (rule placeOrderTx_steps)
  have w1: "world_only s u1" using keepsGD [OF prod.priceLines_frame p] .
  note s1 = world_only_stock [OF w1]
  from prod.priceLines_Inr [OF p] obtain ns where ns: "list_all2 (line_total s) (request_lines req) ns"
    "lines = priced (request_lines req) ns" "tot = sum_list ns" "tot \<le> max_i64" by (auto simp: max_i64_def)
  have len: "length (request_lines req) = length ns" using ns(1) by (rule list_all2_lengthD)
  note irr = line_prices_irrelevant [OF len, folded ns(2)]
  note pl = stockConsumptionPlan_Inr [OF plan]
  have dist: "distinct (map fst plan)" using pl(1) by (simp add: strict_sorted_iff)
  have keys: "fst ` set plan = ol_ProductID ` set (request_lines req)" using pl(2) irr(2) by simp
  have lk: "lookup plan k = ordered (request_lines req) k" if "k \<in> fst ` set plan" for k
  proof -
    from that obtain q where "map_of plan k = Some q" "(k, q) \<in> set plan"
      by (metis dist imageE map_of_eq_Some_iff prod.collapse)
    with pl(3) [of k q] irr(1) show ?thesis by (simp add: lookup_def)
  qed
  have "inventory_ok u1" using ok s1 by simp
  from inv.consume_plan [OF this dist consume]
  have c2: "inventory_ok u2" "inventory_only u1 u2"
    "\<And>k. stock u2 k = (if k \<in> fst ` set plan then Some (stock0 u1 k - lookup plan k) else stock u1 k)"
    "\<And>k q. (k, q) \<in> set plan \<Longrightarrow> 0 < q \<and> q \<le> stock0 u1 k" by auto
  note cr = ord.create_Inr [OF create]
  note st3 = orders_only_stock [of u2 u3]
  note ou = out.pending_Inr [OF outb]
  have st4: "stock t = stock u3 \<and> inventory_ok t = inventory_ok u3"
    using ou by (simp add: outbox_only_iff fun_eq_iff stock_def inventory_ok_def)
  have s01: "stock0 u1 k = stock0 s k" for k using s1 by (simp add: stock0_def)
  have A: "\<forall>k \<in> ol_ProductID ` set (request_lines req).
      0 < ordered (request_lines req) k \<and> ordered (request_lines req) k \<le> stock0 s k"
  proof
    fix k assume "k \<in> ol_ProductID ` set (request_lines req)"
    then have k: "k \<in> fst ` set plan" using keys by simp
    then obtain q where "(k, q) \<in> set plan" by auto
    with c2(4) pl(3) irr(1) s01 show "0 < ordered (request_lines req) k \<and> ordered (request_lines req) k \<le> stock0 s k"
      by metis
  qed
  have B: "\<forall>k. stock t k = (if k \<in> ol_ProductID ` set (request_lines req)
      then Some (stock0 s k - ordered (request_lines req) k) else stock s k)"
    using c2(3) st4 st3 cr keys lk s01 s1 by simp
  have lines: "map line_key (o_Lines ordr) = map line_key (priced (request_lines req) ns)"
    "map line_row (o_Lines ordr) = map line_row (o_Lines c)" "\<forall>l \<in> set (o_Lines ordr). ol_OrderID l = o_ID ordr"
    using cr by (simp_all add: ordr ns(2) with_product comp_def)
  have tot: "o_TotalPrice ordr = FromMinorUnits (sum_list ns)" "sum_list ns \<le> max_i64"
    using cr ns by (simp_all add: ordr new_order_def)
  have hd: "o_UserID ordr = po_UserID req" "o_Status ordr = OrderStatusNew"
    "o_IdempotencyKey ordr = (if po_IdempotencyKeyHash req \<noteq> '''' then Some (po_IdempotencyKeyHash req) else None)"
    "o_IdempotencyFingerprint ordr = (if po_IdempotencyKeyHash req \<noteq> '''' then Some (po_IdempotencyFingerprint req) else None)"
    "\<not> o_IdempotencyReplay ordr"
    using cr by (simp_all add: ordr new_order_def)
  have row: "order_row ordr = order_row c" "order_key_clash x ordr = order_key_clash x c" "o_ID ordr = o_ID c" for x
    by (simp_all add: ordr order_row_def order_key_clash_def)
  have tabs: "st_orders t = st_orders s @ [order_row ordr]"
    "st_order_lines t = st_order_lines s @ map line_row (o_Lines ordr)"
    "st_outbox_events t = st_outbox_events s @ [e]"
    "st_users t = st_users s" "st_products t = st_products s" "st_carts t = st_carts s" "st_cart_lines t = st_cart_lines s"
    "st_orders u2 = st_orders s"
    using w1 c2(2) cr ou lines(2) row
    by (simp_all add: world_only_iff same_tables_iff inventory_only_iff orders_only_def outbox_only_iff)
  have fresh: "o_ID ordr \<notin> o_ID ` set (st_orders s)" "\<forall>x \<in> set (st_orders s). \<not> order_key_clash x ordr"
    using cr tabs(8) row by simp_all
  have new: "oe_ID e \<notin> oe_ID ` set (st_outbox_events s)" using tabs(3) ou by auto
  have "inventory_ok t" using st4 st3 cr c2(1) by simp
  moreover have "order_placed marshal req s ordr t"
    unfolding order_placed_def using A B ns(1) tot lines hd fresh new tabs ou by blast
  ultimately show ?thesis using b hd(5) by simp
qed

lemma placeOrderTx_metrics:
  assumes ok: "inventory_ok s" and run: "placeOrderTx req uow s = (r, t)"
  shows "st_metrics t = st_metrics s"
proof -
  obtain r1 u1 where p: "priceLines (uow_Products uow) (request_lines req) 0 Map.empty s = (r1, u1)" by fastforce
  have w1: "world_only s u1" using keepsGD [OF prod.priceLines_frame p] .
  show ?thesis
  proof (cases r1)
    case (Inl e)
    with run p w1 show ?thesis
      by (auto simp: placeOrderTx_def request_lines_def bindG_def world_only_iff same_metrics_def)
  next
    case (Inr x)
    obtain lines tot m where x: "x = (lines, tot, m)" by (cases x)
    show ?thesis
    proof (cases "stockConsumptionPlan lines")
      case (Inl e)
      with run p w1 Inr x show ?thesis
        by (auto simp: placeOrderTx_def request_lines_def bindG_def liftG_def world_only_iff same_metrics_def)
    next
      case (Inr plan)
      have dist: "distinct (map fst plan)" using stockConsumptionPlan_Inr(1) [OF Inr] by (simp add: strict_sorted_iff)
      obtain r2 u2 where c: "forG plan (\<lambda>(p, q). in_ConsumeStock (uow_Inventory uow) p q) u1 = (r2, u2)" by fastforce
      have "inventory_ok u1" using ok world_only_stock [OF w1] by simp
      from inv.consume_plan [OF this dist c] have m2: "st_metrics u2 = st_metrics s"
        using w1 by (simp add: inventory_only_iff world_only_iff same_metrics_def)
      obtain r3 u3 where o: "rp_CreateOrder (uow_Orders uow) (new_order req tot) lines u2 = (r3, u3)" by fastforce
      have m3: "st_metrics u3 = st_metrics s"
        using o m2 ord.create_Inl ord.create_Inr by (cases r3) (auto simp: orders_only_def)
      have m4: "st_metrics v = st_metrics s" if "create_pending a i ty pl u3 = (r4, v)" for a i ty pl r4 v
        using that m3 out.pending_Inr out.pending_Inl
        by (cases r4) (auto simp: outbox_only_iff world_only_iff same_metrics_def)
      show ?thesis
        using run p \<open>r1 = Inr x\<close> x Inr c o m2 m3 m4
        by (auto simp: placeOrderTx_def request_lines_def bindG_def liftG_def retG_def uow_outbox Let_def
            split: sum.splits prod.splits)
    qed
  qed
qed

end

section \<open>The service as assembled\<close>

interpretation order_tx: order_uow "transactionalUnitOfWork E marshal"
    "OutboxService_CreatePending (NewOutboxService E (NewOutboxRepository E) []) marshal" marshal
  for E :: "'w env" and marshal
proof (intro order_uow.intro order_uow_axioms.intro)
  show "order_inventory (uow_Inventory (transactionalUnitOfWork E marshal))"
    unfolding transactionalUnitOfWork_def UnitOfWork.simps by (rule inventory_repo.service.order_inventory_axioms)
  show "order_products (uow_Products (transactionalUnitOfWork E marshal))"
    unfolding transactionalUnitOfWork_def UnitOfWork.simps by (rule order_product_repo.order_products_axioms)
  show "order_store (uow_Orders (transactionalUnitOfWork E marshal))"
    unfolding transactionalUnitOfWork_def UnitOfWork.simps by (rule order_repo.order_store_axioms)
  show "order_outbox (OutboxService_CreatePending (NewOutboxService E (NewOutboxRepository E) []) marshal) marshal"
    by (rule order_outbox_service.order_outbox_axioms)
qed (simp add: transactionalUnitOfWork_def)

lemma order_placed_cong:
  assumes "world_only s u" "world_only v t" "order_placed marshal req u ord v"
  shows "order_placed marshal req s ord t"
proof -
  have "line_total u = line_total s"
    using assms(1) by (simp add: fun_eq_iff line_total_def world_only_iff same_tables_iff)
  then show ?thesis
    using assms world_only_stock [OF assms(1)] world_only_stock [OF assms(2)]
    by (simp add: order_placed_def world_only_iff same_tables_iff stock0_def)
qed

lemma PlaceOrder_transact_Inr:
  assumes ok: "inventory_ok s"
    and run: "UnitOfWork_WithinTransaction E marshal (placeOrderTx req) s = (Inr (ordr, b), t)"
  shows "b \<and> inventory_ok t \<and> order_placed marshal req s ordr t \<and> \<not> o_IdempotencyReplay ordr \<and> st_metrics t = st_metrics s"
proof -
  from run obtain u v where u: "world_only s u"
    "placeOrderTx req (transactionalUnitOfWork E marshal) u = (Inr (ordr, b), v)" "world_only v t"
    unfolding UnitOfWork_WithinTransaction_def by (rule Transaction_Inr)
  have uok: "inventory_ok u" using ok world_only_stock [OF u(1)] by simp
  from order_tx.placeOrderTx_Inr [OF uok u(2)] order_tx.placeOrderTx_metrics [OF uok u(2)]
    order_placed_cong [OF u(1,3)] world_only_stock [OF u(3)] u(1,3)
  show ?thesis by (simp add: world_only_iff same_metrics_def)
qed

lemma PlaceOrder_transact_Inl:
  assumes ok: "inventory_ok s"
    and run: "UnitOfWork_WithinTransaction E marshal (placeOrderTx req) s = (Inl e, t)"
  shows "world_only s t"
proof -
  have "same_tables s t" using run unfolding UnitOfWork_WithinTransaction_def by (rule Transaction_Inl)
  moreover have "st_metrics t = st_metrics s"
    using run unfolding UnitOfWork_WithinTransaction_def
    by (rule Transaction_metrics)
      (use ok world_only_stock order_tx.placeOrderTx_metrics in blast)
  ultimately show ?thesis by (simp add: world_only_iff same_metrics_def)
qed

lemma replay_frame: "keepsG world_only (replayIdempotentOrder (NewOrderService E marshal validate) req)"
  unfolding replayIdempotentOrder_def NewOrderService_def
  by (auto intro!: framing simp: NewOrderRepository_def)

lemma replay_Inr:
  assumes "replayIdempotentOrder (NewOrderService E marshal validate) req s = (Inr c, t)"
  shows "o_IdempotencyReplay c \<and> o_UserID c = po_UserID req \<and>
    o_IdempotencyKey c = Some (po_IdempotencyKeyHash req) \<and>
    o_IdempotencyFingerprint c = Some (po_IdempotencyFingerprint req) \<and>
    order_row c \<in> order_row ` set (st_orders s)"
proof -
  from assms obtain c0 where g: "rp_GetOrderByIdempotencyKey (NewOrderRepository E) (po_UserID req) (po_IdempotencyKeyHash req) s = (Inr c0, t)"
    and f: "o_IdempotencyFingerprint c0 = Some (po_IdempotencyFingerprint req)"
    and c: "c = c0\<lparr>o_IdempotencyReplay := True\<rparr>"
    by (auto simp: replayIdempotentOrder_def NewOrderService_def gom split: if_splits)
  from order_repo.byKey_Inr [OF g] f show ?thesis by (simp add: c order_row_def)
qed

text \<open>An answer that repeats an earlier order: it is the caller's order of that key.\<close>

definition order_replayed :: "PlaceOrderReq \<Rightarrow> 'w st \<Rightarrow> Order \<Rightarrow> 'w st \<Rightarrow> bool" where
  "order_replayed req s ord t \<longleftrightarrow>
     same_tables s t \<and> st_metrics t = st_metrics s \<and> o_IdempotencyReplay ord \<and> o_UserID ord = po_UserID req \<and>
     o_IdempotencyKey ord = Some (po_IdempotencyKeyHash req) \<and>
     o_IdempotencyFingerprint ord = Some (po_IdempotencyFingerprint req) \<and>
     order_row ord \<in> order_row ` set (st_orders s)"

definition place_result :: "(OrderCreatedPayload \<Rightarrow> goerr + string) \<Rightarrow> PlaceOrderReq \<Rightarrow> 'w st \<Rightarrow> goerr + Order \<Rightarrow> 'w st \<Rightarrow> bool" where
  "place_result marshal req s r t \<longleftrightarrow>
     (case r of
        Inl e \<Rightarrow> same_tables s t \<and> st_metrics t = st_metrics s
      | Inr ord \<Rightarrow>
          order_replayed req s ord t \<or>
          inventory_ok t \<and> order_placed marshal req s ord t \<and> \<not> o_IdempotencyReplay ord \<and>
            st_metrics t = RecordOutboxEventCreated OrderCreatedEventType (st_metrics s))"

lemma place_result_world: "world_only s u \<Longrightarrow> place_result marshal req u r t \<Longrightarrow> place_result marshal req s r t"
  using order_placed_cong [of s u t t marshal req]
  by (auto simp: place_result_def order_replayed_def world_only_iff same_tables_iff same_metrics_def split: sum.splits)

lemma replay_result:
  assumes "replayIdempotentOrder (NewOrderService E marshal validate) req s = (r, t)"
  shows "place_result marshal req s r t \<and> world_only s t"
  using keepsGD [OF replay_frame assms] replay_Inr [of E marshal validate req s _ t] assms
  by (cases r) (auto simp: place_result_def order_replayed_def world_only_iff same_metrics_def)

lemma transact_result:
  assumes ok: "inventory_ok s"
    and run: "tryG (sv_transactor (NewOrderService E marshal validate) (placeOrderTx req)) (\<lambda>r. case r of
          Inl err \<Rightarrow> if errors_Is err ErrIdempotencyDuplicate then replayIdempotentOrder (NewOrderService E marshal validate) req
                     else throwG err
        | Inr (ordr, outboxCreated) \<Rightarrow>
            bindG (if outboxCreated then metricG (RecordOutboxEventCreated OrderCreatedEventType) else retG ())
              (\<lambda>_. retG ordr)) s = (r, t)"
  shows "place_result marshal req s r t"
proof -
  obtain q u where q: "UnitOfWork_WithinTransaction E marshal (placeOrderTx req) s = (q, u)" by fastforce
  show ?thesis
  proof (cases q)
    case (Inl err)
    from PlaceOrder_transact_Inl [OF ok] q Inl have w: "world_only s u" by blast
    show ?thesis
    proof (cases "errors_Is err ErrIdempotencyDuplicate")
      case True
      with run q Inl have "replayIdempotentOrder (NewOrderService E marshal validate) req u = (r, t)"
        by (simp add: NewOrderService_def tryG_def)
      from replay_result [OF this] show ?thesis using place_result_world [OF w] by blast
    next
      case False
      with run q Inl have "r = Inl err" "t = u" by (auto simp: NewOrderService_def tryG_def throwG_def)
      with w show ?thesis by (simp add: place_result_def world_only_iff same_metrics_def)
    qed
  next
    case (Inr x)
    obtain ordr b where x: "x = (ordr, b)" by fastforce
    from PlaceOrder_transact_Inr [OF ok, of E marshal req ordr b u] q Inr x
    have p: "b" "inventory_ok u" "order_placed marshal req s ordr u" "\<not> o_IdempotencyReplay ordr" "st_metrics u = st_metrics s"
      by simp_all
    with run q Inr x have "r = Inr ordr" "t = u\<lparr>st_metrics := RecordOutboxEventCreated OrderCreatedEventType (st_metrics s)\<rparr>"
      by (auto simp: NewOrderService_def tryG_def bindG_def metricG_def retG_def)
    with p show ?thesis
      by (simp add: place_result_def order_placed_def inventory_ok_def stock_def [abs_def] stock0_def)
  qed
qed

lemma PlaceOrder_result:
  assumes ok: "inventory_ok s"
    and run: "OrderService_PlaceOrder (NewOrderService E marshal validate) req s = (r, t)"
  shows "place_result marshal req s r t"
proof -
  let ?svc = "NewOrderService E marshal validate"
  have fail: "place_result marshal req s (Inl e) s" for e by (simp add: place_result_def)
  note tr = transact_result [where E = E and validate = validate and marshal = marshal and req = req]
  show ?thesis
  proof (cases "validateOrderQuantities (po_Lines req)")
    case (Some e)
    with run fail show ?thesis by (auto simp: OrderService_PlaceOrder_def bindG_def checkG_def Let_def)
  next
    case v1: None
    show ?thesis
    proof (cases "validate req")
      case (Some e)
      with run v1 fail show ?thesis by (auto simp: OrderService_PlaceOrder_def bindG_def checkG_def Let_def NewOrderService_def)
    next
      case v2: None
      then have "sv_validate ?svc req = None" by (simp add: NewOrderService_def)
      note run' = run [unfolded OrderService_PlaceOrder_def Let_def bindG_def [where m = "checkG x" for x] checkG_def v1 this,
          simplified]
      show ?thesis
      proof (cases "po_IdempotencyKeyHash req = '''' \<or> po_IdempotencyFingerprint req = ''''")
        case True
        with run' fail tr [OF ok, of r t] show ?thesis by (auto simp: throwG_def split: if_splits)
      next
        case False
        obtain q u where q: "replayIdempotentOrder ?svc req s = (q, u)" by fastforce
        note rp = replay_result [OF q]
        show ?thesis
        proof (cases q)
          case (Inr c)
          with run' False q rp show ?thesis by (auto simp: tryG_def retG_def)
        next
          case (Inl e)
          show ?thesis
          proof (cases "errors_Is e ErrOrderNotFound")
            case True
            from rp have w: "world_only s u" by simp
            then have "inventory_ok u" using ok world_only_stock by blast
            from tr [OF this, of r t] run' False q Inl True have "place_result marshal req u r t" by (simp add: tryG_def)
            with w show ?thesis by (rule place_result_world)
          next
            case False2: False
            with run' False q Inl rp show ?thesis by (auto simp: tryG_def throwG_def)
          qed
        qed
      qed
    qed
  qed
qed

section \<open>A concrete order\<close>

definition demo_product :: Product where
  "demo_product = \<lparr>p_ID = ''p1'', p_CreatedAt = 0, p_UpdatedAt = 0, p_DeletedAt = None, p_Code = ''P1'',
     p_Name = ''Lamp'', p_Description = '''', p_Price = Fin (1 / 4), p_Active = True\<rparr>"

definition demo_shop :: "nat st" where
  "demo_shop = demo_stock\<lparr>st_products := [demo_product]\<rparr>"

definition demo_key :: string where
  "demo_key = replicate 64 (CHR ''a'')"

definition demo_request :: PlaceOrderReq where
  "demo_request = \<lparr>po_UserID = ''u1'', po_IdempotencyKeyHash = demo_key, po_IdempotencyFingerprint = demo_key,
     po_Lines = [\<lparr>pl_ProductID = ''p1'', pl_Quantity = 4\<rparr>]\<rparr>"

definition demo_service :: "nat OrderService" where
  "demo_service = NewOrderService calm (\<lambda>_. Inr ''{}'') (\<lambda>_. None)"

lemma demo_shop_ok: "inventory_ok demo_shop"
  using demo_stock_ok by (simp add: demo_shop_def inventory_ok_def)

lemma FromMinorUnits_100: "FromMinorUnits 100 = Fin 1"
  using round64_of_int [of 1] by (simp add: FromMinorUnits_def MinorUnitScale_def float_of_int64_exact)

definition demo_uow :: "nat UnitOfWork" where
  "demo_uow = transactionalUnitOfWork calm (\<lambda>_. Inr ''{}'')"

definition demo_lines :: "OrderLine list" where
  "demo_lines = [(new_order_line \<lparr>pl_ProductID = ''p1'', pl_Quantity = 4\<rparr>)\<lparr>ol_Price := Fin 1\<rparr>]"

definition demo_order :: Order where
  "demo_order = \<lparr>o_ID = '''', o_CreatedAt = zero_time, o_UpdatedAt = zero_time, o_DeletedAt = None, o_Code = '''',
     o_UserID = ''u1'', o_Lines = [], o_TotalPrice = Fin 1, o_Status = '''', o_IdempotencyKey = Some demo_key,
     o_IdempotencyFingerprint = Some demo_key, o_IdempotencyReplay = False\<rparr>"

definition demo_sold :: "nat st" where
  "demo_sold = snd (forG [(''p1'', 4)] (\<lambda>(p, q). in_ConsumeStock (uow_Inventory demo_uow) p q) demo_shop)"

definition demo_created :: "(goerr + Order) \<times> nat st" where
  "demo_created = rp_CreateOrder (uow_Orders demo_uow) demo_order demo_lines demo_sold"

definition with_demo_product :: "Order \<Rightarrow> Order" where
  "with_demo_product c =
     c\<lparr>o_Lines := map (\<lambda>l. l\<lparr>ol_Product := (Map.empty(''p1'' \<mapsto> demo_product)) (ol_ProductID l)\<rparr>) (o_Lines c)\<rparr>"

definition demo_answer :: Order where
  "demo_answer = with_demo_product (projr (fst demo_created))"

definition demo_pending :: "(goerr + OutboxEvent) \<times> nat st" where
  "demo_pending = the (uow_Outbox demo_uow) orderAggregateType (o_ID demo_answer) OrderCreatedEventType
     (buildOrderCreatedPayload demo_answer) (snd demo_created)"

definition demo_placed :: "nat st" where
  "demo_placed = (snd demo_pending)\<lparr>st_metrics := RecordOutboxEventCreated OrderCreatedEventType []\<rparr>"

text \<open>The steps of the transaction for this request, over any environment without faults.\<close>

lemma demo_places:
  fixes E :: "'w env" and marshal
  defines "uow \<equiv> transactionalUnitOfWork E marshal"
  assumes product: "FindById E (products_table E) ''p1'' s = (Inr demo_product, s)"
    and consumed: "forG [(''p1'', 4)] (\<lambda>(p, q). in_ConsumeStock (uow_Inventory uow) p q) s = (Inr (), s1)"
    and created: "rp_CreateOrder (uow_Orders uow) demo_order demo_lines s1 = (Inr c, s2)"
    and event: "the (uow_Outbox uow) orderAggregateType (o_ID c) OrderCreatedEventType
        (buildOrderCreatedPayload (with_demo_product c)) s2 = (Inr e, s3)"
    and calm: "\<And>s. stmtG E (retG ()) s = (Inr (), s)"
  shows "UnitOfWork_WithinTransaction E marshal (placeOrderTx demo_request) s = (Inr (with_demo_product c, True), s3)"
proof -
  have priced: "priceLines (uow_Products uow) (map new_order_line (po_Lines demo_request)) 0 Map.empty s =
      (Inr (demo_lines, 100, Map.empty(''p1'' \<mapsto> demo_product)), s)"
    using product
    by (simp add: uow_def transactionalUnitOfWork_def OrderProductRepo_GetProductByID_def demo_request_def
        new_order_line_def bindG_def retG_def demo_product_def ToMinorUnits_quarter Multiply_eq Add_eq max_i64_def
        FromMinorUnits_100 demo_lines_def)
  have plan: "stockConsumptionPlan demo_lines = Inr [(''p1'', 4)]" by code_simp
  have order: "new_order demo_request 100 = demo_order"
    by (simp add: new_order_def demo_order_def demo_request_def demo_key_def FromMinorUnits_100)
  have id: "o_ID (with_demo_product c) = o_ID c" by (simp add: with_demo_product_def)
  have "placeOrderTx demo_request uow s = (Inr (with_demo_product c, True), s3)"
    unfolding placeOrderTx_def bindG_def priced
    using consumed created event
    by (simp add: liftG_def retG_def bindG_def plan order Let_def with_demo_product_def uow_def transactionalUnitOfWork_def)
  with calm show ?thesis
    by (simp add: UnitOfWork_WithinTransaction_def WithTransactionContext_def bindG_def flip: uow_def)
qed

lemma demo_consumed:
  "forG [(''p1'', 4)] (\<lambda>(p, q). in_ConsumeStock (uow_Inventory demo_uow) p q) demo_shop = (Inr (), demo_sold)"
proof -
  have "fst (forG [(''p1'', 4)] (\<lambda>(p, q). in_ConsumeStock (uow_Inventory demo_uow) p q) demo_shop) = Inr ()"
    by code_simp
  then show ?thesis by (simp add: demo_sold_def prod_eq_iff)
qed

lemma demo_order_row: "rp_CreateOrder (uow_Orders demo_uow) demo_order demo_lines demo_sold =
    (Inr (projr (fst demo_created)), snd demo_created)"
proof -
  have "\<not> isl (fst demo_created)" by code_simp
  then show ?thesis by (simp add: demo_created_def prod_eq_iff sum.expand)
qed

lemma demo_event: "the (uow_Outbox demo_uow) orderAggregateType (o_ID (projr (fst demo_created))) OrderCreatedEventType
     (buildOrderCreatedPayload (with_demo_product (projr (fst demo_created)))) (snd demo_created) =
     (Inr (projr (fst demo_pending)), snd demo_pending)"
proof -
  have "\<not> isl (fst demo_pending)" by code_simp
  moreover have "o_ID demo_answer = o_ID (projr (fst demo_created))" by (simp add: demo_answer_def with_demo_product_def)
  ultimately show ?thesis by (simp add: demo_pending_def prod_eq_iff flip: demo_answer_def)
qed

lemma demo_transact:
  "UnitOfWork_WithinTransaction calm (\<lambda>_. Inr ''{}'') (placeOrderTx demo_request) demo_shop =
     (Inr (demo_answer, True), snd demo_pending)"
  unfolding demo_answer_def
proof (rule demo_places [OF _ demo_consumed [unfolded demo_uow_def] demo_order_row [unfolded demo_uow_def]
      demo_event [unfolded demo_uow_def]])
  show "FindById calm (products_table calm) ''p1'' demo_shop = (Inr demo_product, demo_shop)"
    by (simp add: FindById_def stmtG_def askG_def queryG_def calm_def bindG_def first_def products_table_def
        demo_shop_def demo_product_def)
  show "stmtG calm (retG ()) s = (Inr (), s)" for s :: "nat st"
    by (simp add: stmtG_def bindG_def askG_def calm_def retG_def)
qed

lemma demo_run: "OrderService_PlaceOrder demo_service demo_request demo_shop = (Inr demo_answer, demo_placed)"
proof -
  have "st_metrics (snd demo_pending) = []" by code_simp
  moreover have "replayIdempotentOrder demo_service demo_request demo_shop = (Inl ErrOrderNotFound, demo_shop)"
  proof -
    have "fst (replayIdempotentOrder demo_service demo_request demo_shop) = Inl ErrOrderNotFound" by code_simp
    moreover have "snd (replayIdempotentOrder demo_service demo_request demo_shop) = demo_shop" by code_simp
    ultimately show ?thesis by (simp add: prod_eq_iff)
  qed
  ultimately show ?thesis
    using demo_transact
    by (simp add: OrderService_PlaceOrder_def demo_service_def NewOrderService_def checkG_def bindG_def tryG_def
        validateOrderQuantities_def demo_request_def MaxOrderLineQuantity_def Let_def metricG_def retG_def demo_placed_def
        demo_key_def)
qed

text \<open>
  C1: a \<open>PlaceOrder\<close> call that answers an order which is not a replay has taken from
  the stock of every ordered product exactly the quantity summed over the lines of the request,
  which was there; it has added one order of the caller in state \<open>new\<close>, one row per line with
  the line's exact price in minor units, the total of those prices, and one pending
  \<open>order.created\<close> event that carries the order; no other table has changed, and one created
  event is counted.
\<close>

theorem place_order_effect:
  assumes "inventory_ok s"
    and "OrderService_PlaceOrder (NewOrderService E marshal validate) req s = (Inr ord, t)"
    and "\<not> o_IdempotencyReplay ord"
  shows "order_placed marshal req s ord t \<and> inventory_ok t \<and>
    st_metrics t = RecordOutboxEventCreated OrderCreatedEventType (st_metrics s)"
  using PlaceOrder_result [OF assms(1,2)] assms(3)
  by (auto simp: place_result_def order_replayed_def)

theorem place_order_effect_witness:
  "order_placed (\<lambda>_. Inr ''{}'') demo_request demo_shop demo_answer demo_placed \<and> inventory_ok demo_placed \<and>
    st_metrics demo_placed = RecordOutboxEventCreated OrderCreatedEventType (st_metrics demo_shop)"
proof (rule place_order_effect [OF demo_shop_ok])
  show "OrderService_PlaceOrder (NewOrderService calm (\<lambda>_. Inr ''{}'') (\<lambda>_. None)) demo_request demo_shop = (Inr demo_answer, demo_placed)"
    using demo_run by (simp add: demo_service_def)
  show "\<not> o_IdempotencyReplay demo_answer" by code_simp
qed

text \<open>
  C4: a \<open>PlaceOrder\<close> call that answers an error has changed no row of any table, at
  whatever statement it failed, and has counted no created event.
\<close>

theorem place_order_failure_atomic:
  assumes "inventory_ok s"
    and "OrderService_PlaceOrder (NewOrderService E marshal validate) req s = (Inl e, t)"
  shows "same_tables s t \<and> st_metrics t = st_metrics s"
  using PlaceOrder_result [OF assms] by (simp add: place_result_def)

definition demo_unknown :: PlaceOrderReq where
  "demo_unknown = demo_request\<lparr>po_Lines := [\<lparr>pl_ProductID = ''p9'', pl_Quantity = 1\<rparr>]\<rparr>"

lemma demo_unknown_run:
  "OrderService_PlaceOrder demo_service demo_unknown demo_shop =
     (Inl ErrRecordNotFound, snd (OrderService_PlaceOrder demo_service demo_unknown demo_shop))"
proof -
  have "fst (OrderService_PlaceOrder demo_service demo_unknown demo_shop) = Inl ErrRecordNotFound" by code_simp
  then show ?thesis by (simp add: prod_eq_iff)
qed

theorem place_order_failure_atomic_witness:
  "same_tables demo_shop (snd (OrderService_PlaceOrder demo_service demo_unknown demo_shop)) \<and>
     st_metrics (snd (OrderService_PlaceOrder demo_service demo_unknown demo_shop)) = st_metrics demo_shop"
  using place_order_failure_atomic [OF demo_shop_ok demo_unknown_run [unfolded demo_service_def]]
  by (simp add: demo_service_def)

end
