(* ===== verification/CancelOrder.thy ===== *)
theory CancelOrder
  imports PlaceOrder
begin

text \<open>
  What \<open>CancelOrder\<close> and the reads of \<open>internal/order/service\<close> do, and the runs of many
  interleaved calls: an order is cancelled at most once, and a key names at most one order.
\<close>

section \<open>Cancelling an order\<close>

definition lines_of :: "string \<Rightarrow> 'w st \<Rightarrow> OrderLine list" where
  "lines_of i s = filter (\<lambda>l. ol_OrderID l = i) (st_order_lines s)"

definition orders_ok :: "'w st \<Rightarrow> bool" where
  "orders_ok s \<longleftrightarrow> distinct (map o_ID (st_orders s)) \<and>
     (\<forall>x \<in> set (st_orders s). \<forall>y \<in> set (st_orders s). order_key_clash x y \<longrightarrow> o_ID x = o_ID y) \<and>
     (\<forall>l \<in> set (st_order_lines s). ol_OrderID l \<in> o_ID ` set (st_orders s))"

definition order_cancelled :: "string \<Rightarrow> string \<Rightarrow> 'w st \<Rightarrow> Order \<Rightarrow> 'w st \<Rightarrow> bool" where
  "order_cancelled orderID userID s ord t \<longleftrightarrow>
     (\<exists>c \<in> set (st_orders s). cancellable orderID userID c) \<and>
     (\<exists>now. st_orders t = map (\<lambda>r. if o_ID r = orderID
        then order_row (r\<lparr>o_Status := OrderStatusCancelled, o_UpdatedAt := now\<rparr>) else r) (st_orders s)) \<and>
     (\<forall>p. stock t p =
        (if p \<in> ol_ProductID ` set (lines_of orderID s) then Some (stock0 s p + ordered (lines_of orderID s) p)
         else stock s p)) \<and>
     o_ID ord = orderID \<and> o_UserID ord = userID \<and> o_Status ord = OrderStatusCancelled \<and>
     st_order_lines t = st_order_lines s \<and> st_outbox_events t = st_outbox_events s \<and>
     st_users t = st_users s \<and> st_products t = st_products s \<and> st_carts t = st_carts s \<and>
     st_cart_lines t = st_cart_lines s"

lemma ordered_rows:
  "map line_row ls = map line_row ls' \<Longrightarrow>
     ordered ls p = ordered ls' p \<and> ol_ProductID ` set ls = ol_ProductID ` set ls'"
proof (induction ls arbitrary: ls')
  case (Cons l ls)
  then obtain l' ls2 where ls': "ls' = l' # ls2" by (cases ls') auto
  with Cons.prems have "line_row l = line_row l'" by simp
  then have "ol_ProductID l = ol_ProductID l'" "ol_Quantity l = ol_Quantity l'"
    by (cases l; cases l'; simp add: line_row_def)+
  with Cons.IH [of ls2] Cons.prems ls' show ?case by (auto simp: ordered_Cons)
qed simp

context order_uow
begin

lemma cancelOrderTx_steps:
  assumes "cancelOrderTx i user uow s = (Inr (ordr, b), t)"
  obtains c plan u1 u2 where
    "rp_GetOrderByID (uow_Orders uow) i True s = (Inr c, u1)" "o_UserID c = user"
    "rp_CancelOrderIfCancellable (uow_Orders uow) i user u1 = (Inr (), u2)"
    "stockConsumptionPlan (o_Lines c) = Inr plan"
    "forG plan (\<lambda>(p, q). in_Restock (uow_Inventory uow) p q) u2 = (Inr (), t)"
    "ordr = c\<lparr>o_Status := OrderStatusCancelled\<rparr>"
  using assms unfolding cancelOrderTx_def
  by (auto simp: bindG_Inr_iff throwG_iff retG_iff liftG_iff split: if_splits)

lemma cancelOrderTx_Inr:
  assumes ok: "inventory_ok s" "orders_ok s" and run: "cancelOrderTx i user uow s = (Inr (ordr, b), t)"
  shows "inventory_ok t \<and> order_cancelled i user s ordr t \<and> st_metrics t = st_metrics s"
proof -
  from run obtain c plan u1 u2 where
    g: "rp_GetOrderByID (uow_Orders uow) i True s = (Inr c, u1)" "o_UserID c = user"
    and cn: "rp_CancelOrderIfCancellable (uow_Orders uow) i user u1 = (Inr (), u2)"
    and plan: "stockConsumptionPlan (o_Lines c) = Inr plan"
    and rs: "forG plan (\<lambda>(p, q). in_Restock (uow_Inventory uow) p q) u2 = (Inr (), t)"
    and ordr: "ordr = c\<lparr>o_Status := OrderStatusCancelled\<rparr>" by (rule cancelOrderTx_steps)
  have w1: "world_only s u1" using keepsGD [OF ord.byID_frame g(1)] .
  have eq1: "st_orders u1 = st_orders s" "st_order_lines u1 = st_order_lines s"
    using w1 by (simp_all add: world_only_iff same_tables_iff)
  note gi = ord.byID_Inr [OF g(1)]
  have "distinct (map o_ID (st_orders u1))" using ok(2) eq1 by (simp add: orders_ok_def)
  from ord.cancel_Inr [OF this cn] eq1 have c1: "orders_only u1 u2" "st_order_lines u2 = st_order_lines s"
    "\<exists>c \<in> set (st_orders s). cancellable i user c"
    "\<exists>now. st_orders u2 = map (\<lambda>r. if o_ID r = i
         then order_row (r\<lparr>o_Status := OrderStatusCancelled, o_UpdatedAt := now\<rparr>) else r) (st_orders s)" by simp_all
  note st2 = orders_only_stock [OF c1(1)] world_only_stock [OF w1]
  have uok: "inventory_ok u2" using ok(1) st2 by simp
  note pl = stockConsumptionPlan_Inr [OF plan]
  have dist: "distinct (map fst plan)" using pl(1) by (simp add: strict_sorted_iff)
  have "\<forall>(p, q) \<in> set plan. q \<le> max_i64" using pl(3) by auto
  from inv.restock_plan [OF uok dist this rs]
  have r: "inventory_ok t" "inventory_only u2 t"
    "\<And>k. stock t k = (if k \<in> fst ` set plan then Some (stock0 u2 k + lookup plan k) else stock u2 k)" by auto
  have rows: "ordered (o_Lines c) p = ordered (lines_of i s) p"
    "ol_ProductID ` set (o_Lines c) = ol_ProductID ` set (lines_of i s)" for p
    using ordered_rows [of "o_Lines c" "lines_of i s" p] gi by (simp_all add: lines_of_def)
  have lk: "lookup plan k = ordered (o_Lines c) k" if "k \<in> fst ` set plan" for k
  proof -
    from that obtain q where "map_of plan k = Some q" "(k, q) \<in> set plan"
      by (metis dist imageE map_of_eq_Some_iff prod.collapse)
    with pl(3) [of k q] show ?thesis by (simp add: lookup_def)
  qed
  have "\<forall>p. stock t p = (if p \<in> ol_ProductID ` set (lines_of i s)
      then Some (stock0 s p + ordered (lines_of i s) p) else stock s p)"
    using r(3) lk pl(2) rows st2 by (simp add: stock0_def)
  moreover have "o_ID ordr = i" "o_UserID ordr = user" "o_Status ordr = OrderStatusCancelled"
    using gi g(2) by (simp_all add: ordr)
  moreover have "st_order_lines t = st_order_lines s" "st_outbox_events t = st_outbox_events s"
    "st_users t = st_users s" "st_products t = st_products s" "st_carts t = st_carts s" "st_cart_lines t = st_cart_lines s"
    "st_orders t = st_orders u2" "st_metrics t = st_metrics s"
    using w1 c1(1,2) r(2)
    by (simp_all add: world_only_iff same_tables_iff same_metrics_def inventory_only_iff orders_only_def)
  ultimately show ?thesis using r(1) c1(3,4) unfolding order_cancelled_def by (intro conjI) simp_all
qed

end

lemma order_cancelled_cong:
  assumes "world_only s u" "world_only v t" "order_cancelled i user u ord v"
  shows "order_cancelled i user s ord t"
  using assms world_only_stock [OF assms(1)] world_only_stock [OF assms(2)]
  by (simp add: order_cancelled_def world_only_iff same_tables_iff stock0_def lines_of_def)

lemma CancelOrder_result:
  assumes ok: "inventory_ok s" "orders_ok s"
    and run: "OrderService_CancelOrder (NewOrderService E marshal validate) i user s = (r, t)"
  shows "case r of Inl e \<Rightarrow> same_tables s t
     | Inr ord \<Rightarrow> order_cancelled i user s ord t \<and> inventory_ok t"
proof -
  obtain q where q: "UnitOfWork_WithinTransaction E marshal (cancelOrderTx i user) s = (q, t)"
    and r: "r = (case q of Inl e \<Rightarrow> Inl e | Inr (ord, b) \<Rightarrow> Inr ord)"
    using run by (auto simp: OrderService_CancelOrder_def NewOrderService_def bindG_def retG_def split: prod.splits sum.splits)
  show ?thesis
  proof (cases q)
    case (Inl e)
    with q r show ?thesis by (auto simp: UnitOfWork_WithinTransaction_def dest: Transaction_Inl)
  next
    case (Inr x)
    obtain ordr b where x: "x = (ordr, b)" by fastforce
    from q Inr x obtain u v where u: "world_only s u"
      "cancelOrderTx i user (transactionalUnitOfWork E marshal) u = (Inr (ordr, b), v)" "world_only v t"
      unfolding UnitOfWork_WithinTransaction_def by (auto elim: Transaction_Inr)
    have "inventory_ok u" "orders_ok u"
      using ok u(1) world_only_stock [OF u(1)] by (simp_all add: orders_ok_def world_only_iff same_tables_iff)
    from order_tx.cancelOrderTx_Inr [OF this u(2)] order_cancelled_cong [OF u(1,3)] world_only_stock [OF u(3)] r Inr x
    show ?thesis by simp
  qed
qed

section \<open>Outstanding orders\<close>

text \<open>The quantity of a product over the lines of the orders that are not cancelled.\<close>

definition reserved :: "'w st \<Rightarrow> string \<Rightarrow> int64" where
  "reserved s p =
     (\<Sum>x\<leftarrow>filter (\<lambda>x. o_Status x \<noteq> OrderStatusCancelled) (st_orders s). ordered (lines_of (o_ID x) s) p)"

lemma ordered_append: "ordered (a @ b) p = ordered a p + ordered b p"
  by (simp add: ordered_def)

lemma ordered_line_row: "ordered (map line_row ls) p = ordered ls p"
  by (induction ls) (auto simp: ordered_Cons line_row_def)

lemma ordered_keys: "map line_key a = map line_key b \<Longrightarrow> ordered a p = ordered b p"
proof (induction a arbitrary: b)
  case (Cons l a)
  then obtain l' b' where "b = l' # b'" by (cases b) auto
  with Cons show ?case by (auto simp: ordered_Cons line_key_def)
qed simp

lemma ordered_other: "p \<notin> ol_ProductID ` set ls \<Longrightarrow> ordered ls p = 0"
  by (induction ls) (auto simp: ordered_Cons)

lemma sum_filter_update:
  fixes g :: "string \<Rightarrow> int"
  assumes "distinct (map k xs)" "c \<in> set xs" "P c" "\<And>x. k (f x) = k x" "\<And>x. \<not> P (f x)"
  shows "(\<Sum>x\<leftarrow>filter P (map (\<lambda>x. if k x = k c then f x else x) xs). g (k x)) =
         (\<Sum>x\<leftarrow>filter P xs. g (k x)) - g (k c)"
  using assms(1,2)
proof (induction xs)
  case (Cons x xs)
  show ?case
  proof (cases "k x = k c")
    case True
    then have x: "x = c" using Cons.prems distinct_key_unique [OF Cons.prems(1)] by auto
    have "k y \<noteq> k c" if "y \<in> set xs" for y
      using Cons.prems(1) that x by (metis distinct.simps(2) image_eqI list.set_map list.simps(9))
    then have "map (\<lambda>x. if k x = k c then f x else x) xs = xs" by (intro map_idI) simp
    with x assms(3,5) show ?thesis by simp
  next
    case False
    then have "c \<in> set xs" "distinct (map k xs)" using Cons.prems by auto
    with Cons.IH False show ?thesis by simp
  qed
qed simp

lemma placed_products:
  assumes "order_placed marshal req s ord t"
  shows "ordered (o_Lines ord) p = ordered (request_lines req) p"
proof -
  from assms obtain ns where ns: "list_all2 (line_total s) (request_lines req) ns"
    and k: "map line_key (o_Lines ord) = map line_key (priced (request_lines req) ns)"
    by (auto simp: order_placed_def)
  have "length (request_lines req) = length ns" using ns by (rule list_all2_lengthD)
  from line_prices_irrelevant(1) [OF this] ordered_keys [OF k] show ?thesis by simp
qed

lemma clash_sym: "order_key_clash x y = order_key_clash y x"
  unfolding order_key_clash_def by metis

lemma clash_rows:
  "order_key_clash x (order_row y) = order_key_clash x y" "order_key_clash (order_row x) y = order_key_clash x y"
  "order_key_clash x (y\<lparr>o_Status := st, o_UpdatedAt := now\<rparr>) = order_key_clash x y"
  "order_key_clash (x\<lparr>o_Status := st, o_UpdatedAt := now\<rparr>) y = order_key_clash x y"
  by (simp_all add: order_key_clash_def order_row_def)

lemma placed_orders_ok:
  assumes ok: "orders_ok s" and pl: "order_placed marshal req s ord t"
  shows "orders_ok t"
proof -
  from pl have t: "st_orders t = st_orders s @ [order_row ord]" "st_order_lines t = st_order_lines s @ map line_row (o_Lines ord)"
    "o_ID ord \<notin> o_ID ` set (st_orders s)" "\<forall>x \<in> set (st_orders s). \<not> order_key_clash x ord"
    "\<forall>l \<in> set (o_Lines ord). ol_OrderID l = o_ID ord"
    by (simp_all add: order_placed_def)
  have row: "o_ID (order_row ord) = o_ID ord" "order_key_clash x (order_row ord) = order_key_clash x ord"
    "order_key_clash (order_row ord) x = order_key_clash x ord" for x
    by (simp_all add: clash_rows clash_sym [of ord x]) (simp add: order_row_def)
  show ?thesis using ok t row by (auto simp: orders_ok_def line_row_def)
qed

lemma placed_reserved:
  assumes ok: "orders_ok s" and pl: "order_placed marshal req s ord t"
  shows "stock0 t p + reserved t p = stock0 s p + reserved s p"
proof -
  from pl have t: "st_orders t = st_orders s @ [order_row ord]" "st_order_lines t = st_order_lines s @ map line_row (o_Lines ord)"
    "o_ID ord \<notin> o_ID ` set (st_orders s)" "\<forall>l \<in> set (o_Lines ord). ol_OrderID l = o_ID ord"
    "o_Status ord = OrderStatusNew"
    by (simp_all add: order_placed_def)
  have old: "lines_of (o_ID x) t = lines_of (o_ID x) s" if "x \<in> set (st_orders s)" for x
  proof -
    have "o_ID x \<in> o_ID ` set (st_orders s)" using that by simp
    then have "o_ID x \<noteq> o_ID ord" using t(3) by metis
    with t(4) show ?thesis by (auto simp: lines_of_def t(2) line_row_def filter_empty_conv)
  qed
  have "ol_OrderID l \<noteq> o_ID ord" if "l \<in> set (st_order_lines s)" for l
  proof -
    have "ol_OrderID l \<in> o_ID ` set (st_orders s)" using ok that by (simp add: orders_ok_def)
    with t(3) show ?thesis by metis
  qed
  then have none: "lines_of (o_ID ord) s = []" by (simp add: lines_of_def filter_empty_conv)
  have new: "lines_of (o_ID ord) t = map line_row (o_Lines ord)"
    using none t(4) by (simp add: lines_of_def t(2)) (simp add: line_row_def)
  have "map (\<lambda>x. ordered (lines_of (o_ID x) t) p) (filter (\<lambda>x. o_Status x \<noteq> OrderStatusCancelled) (st_orders s)) =
        map (\<lambda>x. ordered (lines_of (o_ID x) s) p) (filter (\<lambda>x. o_Status x \<noteq> OrderStatusCancelled) (st_orders s))"
    using old by (intro map_cong) auto
  then have "(\<Sum>x\<leftarrow>filter (\<lambda>x. o_Status x \<noteq> OrderStatusCancelled) (st_orders s). ordered (lines_of (o_ID x) t) p) =
        (\<Sum>x\<leftarrow>filter (\<lambda>x. o_Status x \<noteq> OrderStatusCancelled) (st_orders s). ordered (lines_of (o_ID x) s) p)"
    by (rule arg_cong [where f = sum_list])
  moreover have "o_Status (order_row ord) \<noteq> OrderStatusCancelled" "o_ID (order_row ord) = o_ID ord"
    using t(5) by (simp_all add: order_row_def OrderStatus_defs)
  ultimately have "reserved t p = reserved s p + ordered (o_Lines ord) p"
    by (simp add: reserved_def t(1) new ordered_line_row)
  moreover have "stock0 t p = stock0 s p - ordered (request_lines req) p"
    using pl ordered_other [of p "request_lines req"] by (auto simp: order_placed_def stock0_def)
  ultimately show ?thesis using placed_products [OF pl] by simp
qed

lemma cancelled_orders_ok:
  assumes ok: "orders_ok s" and cn: "order_cancelled i user s ord t"
  shows "orders_ok t"
proof -
  from cn obtain now where t: "st_orders t = map (\<lambda>r. if o_ID r = i
        then order_row (r\<lparr>o_Status := OrderStatusCancelled, o_UpdatedAt := now\<rparr>) else r) (st_orders s)"
    "st_order_lines t = st_order_lines s" by (auto simp: order_cancelled_def)
  define f where "f r = (if o_ID r = i then order_row (r\<lparr>o_Status := OrderStatusCancelled, o_UpdatedAt := now\<rparr>) else r)" for r
  have t1: "st_orders t = map f (st_orders s)" by (simp add: t(1) f_def)
  have f: "o_ID (f r) = o_ID r" "order_key_clash (f x) (f y) = order_key_clash x y" for r x y
    by (simp_all add: f_def clash_rows) (simp add: order_row_def)
  have "map o_ID (st_orders t) = map o_ID (st_orders s)" by (simp add: t1 comp_def f(1))
  moreover from this have "o_ID ` set (st_orders t) = o_ID ` set (st_orders s)" by (metis list.set_map)
  moreover have "order_key_clash x y \<longrightarrow> o_ID x = o_ID y"
    if xy: "x \<in> set (st_orders t)" "y \<in> set (st_orders t)" for x y
  proof -
    from xy obtain a b where ab: "a \<in> set (st_orders s)" "b \<in> set (st_orders s)" "x = f a" "y = f b"
      unfolding t1 by auto
    then have "order_key_clash a b \<longrightarrow> o_ID a = o_ID b" using ok by (simp add: orders_ok_def)
    then show ?thesis by (simp add: ab(3,4) f)
  qed
  ultimately show ?thesis using ok t(2) by (simp add: orders_ok_def)
qed

lemma cancelled_reserved:
  assumes ok: "orders_ok s" and cn: "order_cancelled i user s ord t"
  shows "stock0 t p + reserved t p = stock0 s p + reserved s p"
proof -
  from cn obtain now c where t: "st_orders t = map (\<lambda>r. if o_ID r = i
        then order_row (r\<lparr>o_Status := OrderStatusCancelled, o_UpdatedAt := now\<rparr>) else r) (st_orders s)"
    "st_order_lines t = st_order_lines s" and c: "c \<in> set (st_orders s)" "cancellable i user c"
    by (auto simp: order_cancelled_def)
  let ?P = "\<lambda>x. o_Status x \<noteq> OrderStatusCancelled"
  let ?f = "\<lambda>r. order_row (r\<lparr>o_Status := OrderStatusCancelled, o_UpdatedAt := now\<rparr>)"
  have ci: "o_ID c = i" "?P c" using c(2) by (auto simp: cancellable_def OrderStatus_defs)
  have lines: "lines_of k t = lines_of k s" for k by (simp add: lines_of_def t(2))
  have "(\<Sum>x\<leftarrow>filter ?P (map (\<lambda>x. if o_ID x = o_ID c then ?f x else x) (st_orders s)). ordered (lines_of (o_ID x) s) p) =
      (\<Sum>x\<leftarrow>filter ?P (st_orders s). ordered (lines_of (o_ID x) s) p) - ordered (lines_of (o_ID c) s) p"
    by (rule sum_filter_update) (use ok c ci in \<open>simp_all add: orders_ok_def order_row_def\<close>)
  then have "reserved t p = reserved s p - ordered (lines_of i s) p"
    by (simp add: reserved_def t(1) lines ci(1))
  moreover have "stock0 t p = stock0 s p + ordered (lines_of i s) p"
    using cn ordered_other [of p "lines_of i s"] by (auto simp: order_cancelled_def stock0_def)
  ultimately show ?thesis by simp
qed

section \<open>Runs\<close>

text \<open>
  What concurrent calls can do to the tables: the phases of any number of \<open>PlaceOrder\<close> calls
  (look up the key, place in a transaction, look up the key again) and \<open>CancelOrder\<close> calls
  follow each other in any order; transactions are serializable on the rows they touch, by
  the row locks and the unique index. The trace holds the answers.
\<close>

datatype order_event = Placed PlaceOrderReq Order | Replayed PlaceOrderReq Order | CancelledBy string string

inductive order_run ::
    "'w env \<Rightarrow> (OrderCreatedPayload \<Rightarrow> goerr + string) \<Rightarrow> 'w st \<Rightarrow> order_event list \<Rightarrow> 'w st \<Rightarrow> bool"
  for E marshal s where
  start: "order_run E marshal s [] s"
| placed: "order_run E marshal s tr t \<Longrightarrow>
    UnitOfWork_WithinTransaction E marshal (placeOrderTx req) t = (Inr (ord, b), t') \<Longrightarrow>
    order_run E marshal s (Placed req ord # tr) t'"
| place_failed: "order_run E marshal s tr t \<Longrightarrow>
    UnitOfWork_WithinTransaction E marshal (placeOrderTx req) t = (Inl e, t') \<Longrightarrow>
    order_run E marshal s tr t'"
| replayed: "order_run E marshal s tr t \<Longrightarrow>
    replayIdempotentOrder (NewOrderService E marshal validate) req t = (Inr ord, t') \<Longrightarrow>
    order_run E marshal s (Replayed req ord # tr) t'"
| replay_failed: "order_run E marshal s tr t \<Longrightarrow>
    replayIdempotentOrder (NewOrderService E marshal validate) req t = (Inl e, t') \<Longrightarrow>
    order_run E marshal s tr t'"
| cancelled: "order_run E marshal s tr t \<Longrightarrow>
    OrderService_CancelOrder (NewOrderService E marshal validate) i user t = (Inr ord, t') \<Longrightarrow>
    order_run E marshal s (CancelledBy i user # tr) t'"
| cancel_failed: "order_run E marshal s tr t \<Longrightarrow>
    OrderService_CancelOrder (NewOrderService E marshal validate) i user t = (Inl e, t') \<Longrightarrow>
    order_run E marshal s tr t'"
| metrics: "order_run E marshal s tr t \<Longrightarrow> same_tables t t' \<Longrightarrow> order_run E marshal s tr t'"

text \<open>What a trace says of the tables.\<close>

definition answer_recorded :: "'w st \<Rightarrow> PlaceOrderReq \<Rightarrow> Order \<Rightarrow> bool" where
  "answer_recorded t req ord \<longleftrightarrow>
     (\<exists>x \<in> set (st_orders t). o_ID x = o_ID ord \<and> o_UserID x = po_UserID req \<and>
        (po_IdempotencyKeyHash req \<noteq> '''' \<longrightarrow> o_IdempotencyKey x = Some (po_IdempotencyKeyHash req)))"

definition trace_ok :: "order_event list \<Rightarrow> 'w st \<Rightarrow> bool" where
  "trace_ok tr t \<longleftrightarrow>
     (\<forall>req ord. Placed req ord \<in> set tr \<or> Replayed req ord \<in> set tr \<longrightarrow> answer_recorded t req ord) \<and>
     (\<forall>i user. CancelledBy i user \<in> set tr \<longrightarrow>
        (\<exists>x \<in> set (st_orders t). o_ID x = i \<and> o_UserID x = user \<and> o_Status x = OrderStatusCancelled))"

text \<open>The event is an order placed for a user and a key.\<close>

fun places :: "string \<Rightarrow> string \<Rightarrow> order_event \<Rightarrow> bool" where
  "places u k (Placed req ord) = (po_UserID req = u \<and> po_IdempotencyKeyHash req = k)"
| "places u k ev = False"

definition run_ok :: "'w st \<Rightarrow> order_event list \<Rightarrow> 'w st \<Rightarrow> bool" where
  "run_ok s tr t \<longleftrightarrow> inventory_ok t \<and> orders_ok t \<and> trace_ok tr t \<and>
     (\<forall>p. stock0 t p + reserved t p = stock0 s p + reserved s p) \<and>
     (\<forall>i. length (filter (\<lambda>ev. \<exists>u. ev = CancelledBy i u) tr) \<le> 1) \<and>
     (\<forall>u k. k \<noteq> '''' \<longrightarrow> length (filter (places u k) tr) \<le> 1) \<and>
     st_outbox_events t = st_outbox_events s @ drop (length (st_outbox_events s)) (st_outbox_events t) \<and>
     length (st_outbox_events t) = length (st_outbox_events s) + length (filter (\<lambda>ev. \<exists>r ord. ev = Placed r ord) tr)"

lemma run_ok_cong:
  assumes "same_tables t t'" "run_ok s tr t"
  shows "run_ok s tr t'"
  using assms
  by (simp add: run_ok_def same_tables_iff inventory_ok_def orders_ok_def trace_ok_def answer_recorded_def
      stock0_def stock_def reserved_def lines_of_def)

lemma run_ok_placed:
  assumes r: "run_ok s tr t" and pl: "order_placed marshal req t ord t'" and ok: "inventory_ok t'"
  shows "run_ok s (Placed req ord # tr) t'"
proof -
  from r have t: "orders_ok t" "trace_ok tr t" by (simp_all add: run_ok_def)
  from pl have t': "st_orders t' = st_orders t @ [order_row ord]" "o_UserID ord = po_UserID req"
    "po_IdempotencyKeyHash req \<noteq> '''' \<longrightarrow> o_IdempotencyKey ord = Some (po_IdempotencyKeyHash req)"
    "\<exists>e. st_outbox_events t' = st_outbox_events t @ [e]" "\<forall>x \<in> set (st_orders t). \<not> order_key_clash x ord"
    by (auto simp: order_placed_def)
  have "filter (places (po_UserID req) (po_IdempotencyKeyHash req)) tr = []" if k: "po_IdempotencyKeyHash req \<noteq> ''''"
  proof -
    have False if ev: "ev \<in> set tr" "places (po_UserID req) (po_IdempotencyKeyHash req) ev" for ev
    proof -
      from ev(2) obtain r a where r: "ev = Placed r a" "po_UserID r = po_UserID req"
        "po_IdempotencyKeyHash r = po_IdempotencyKeyHash req" by (cases ev) auto
      with ev(1) t(2) have "answer_recorded t r a" unfolding trace_ok_def by blast
      with r k t'(2,3) obtain x where "x \<in> set (st_orders t)" "order_key_clash x ord"
        by (auto simp: answer_recorded_def order_key_clash_def)
      with t'(5) show False by blast
    qed
    then show ?thesis by (auto simp: filter_empty_conv)
  qed
  then have once: "\<forall>u k. k \<noteq> '''' \<longrightarrow> length (filter (places u k) (Placed req ord # tr)) \<le> 1"
    using r by (auto simp: run_ok_def)
  have "trace_ok (Placed req ord # tr) t'"
    using t(2) t' by (fastforce simp: trace_ok_def answer_recorded_def order_row_def)
  moreover have "stock0 t' p + reserved t' p = stock0 s p + reserved s p" for p
    using placed_reserved [OF t(1) pl, of p] r by (simp add: run_ok_def)
  moreover have "st_outbox_events t' = st_outbox_events s @ drop (length (st_outbox_events s)) (st_outbox_events t')"
    "length (st_outbox_events t') = length (st_outbox_events s) +
       length (filter (\<lambda>ev. \<exists>r ord. ev = Placed r ord) (Placed req ord # tr))"
  proof -
    from r have o: "st_outbox_events t = st_outbox_events s @ drop (length (st_outbox_events s)) (st_outbox_events t)"
      "length (st_outbox_events t) = length (st_outbox_events s) + length (filter (\<lambda>ev. \<exists>r ord. ev = Placed r ord) tr)"
      by (simp_all add: run_ok_def)
    from t'(4) obtain e where e: "st_outbox_events t' = st_outbox_events t @ [e]" by blast
    show "length (st_outbox_events t') = length (st_outbox_events s) +
       length (filter (\<lambda>ev. \<exists>r ord. ev = Placed r ord) (Placed req ord # tr))" using o(2) e by simp
    show "st_outbox_events t' = st_outbox_events s @ drop (length (st_outbox_events s)) (st_outbox_events t')"
      using o e by (metis append_eq_conv_conj append_assoc)
  qed
  ultimately show ?thesis using r placed_orders_ok [OF t(1) pl] ok once by (simp add: run_ok_def)
qed

lemma run_ok_cancelled:
  assumes r: "run_ok s tr t" and cn: "order_cancelled i user t ord t'" and ok: "inventory_ok t'"
  shows "run_ok s (CancelledBy i user # tr) t'"
proof -
  from r have t: "orders_ok t" "trace_ok tr t" by (simp_all add: run_ok_def)
  from cn obtain now c where st: "st_orders t' = map (\<lambda>r. if o_ID r = i
        then order_row (r\<lparr>o_Status := OrderStatusCancelled, o_UpdatedAt := now\<rparr>) else r) (st_orders t)"
    and c: "c \<in> set (st_orders t)" "cancellable i user c" by (auto simp: order_cancelled_def)
  define f where "f r = (if o_ID r = i then order_row (r\<lparr>o_Status := OrderStatusCancelled, o_UpdatedAt := now\<rparr>) else r)" for r
  have st': "st_orders t' = map f (st_orders t)" by (simp add: st f_def)
  have f: "o_ID (f x) = o_ID x" "o_UserID (f x) = o_UserID x" "o_IdempotencyKey (f x) = o_IdempotencyKey x"
    "o_Status (f x) = (if o_ID x = i then OrderStatusCancelled else o_Status x)" for x
    by (simp_all add: f_def order_row_def)
  have c': "o_ID c = i" "o_UserID c = user" "o_Status c \<noteq> OrderStatusCancelled"
    using c(2) by (auto simp: cancellable_def OrderStatus_defs)
  have fresh: "CancelledBy i u \<notin> set tr" for u
  proof
    assume "CancelledBy i u \<in> set tr"
    with t(2) obtain x where x: "x \<in> set (st_orders t)" "o_ID x = i" "o_Status x = OrderStatusCancelled"
      unfolding trace_ok_def by blast
    have "x = c" using distinct_key_unique [of o_ID "st_orders t" x c] t(1) x c(1) c'(1) by (simp add: orders_ok_def)
    with x c' show False by simp
  qed
  then have "filter (\<lambda>ev. \<exists>u. ev = CancelledBy i u) tr = []" by (auto simp: filter_empty_conv)
  then have once: "length (filter (\<lambda>ev. \<exists>u. ev = CancelledBy k u) (CancelledBy i user # tr)) \<le> 1" for k
    using r by (auto simp: run_ok_def)
  have "answer_recorded t' q a" if "answer_recorded t q a" for q a
    using that f unfolding answer_recorded_def st' by auto
  moreover have "\<exists>x \<in> set (st_orders t'). o_ID x = k \<and> o_UserID x = u \<and> o_Status x = OrderStatusCancelled"
    if "\<exists>x \<in> set (st_orders t). o_ID x = k \<and> o_UserID x = u \<and> o_Status x = OrderStatusCancelled" for k u
  proof -
    from that obtain x where x: "x \<in> set (st_orders t)" "o_ID x = k" "o_UserID x = u" "o_Status x = OrderStatusCancelled"
      by blast
    then have "f x \<in> set (st_orders t')" unfolding st' by simp
    then show ?thesis using x f [of x] by (intro bexI [of _ "f x"]) simp_all
  qed
  moreover have "\<exists>x \<in> set (st_orders t'). o_ID x = i \<and> o_UserID x = user \<and> o_Status x = OrderStatusCancelled"
    using c(1) c' f [of c] unfolding st' by auto
  ultimately have "trace_ok (CancelledBy i user # tr) t'"
    using t(2) unfolding trace_ok_def by simp
  moreover have "stock0 t' p + reserved t' p = stock0 s p + reserved s p" for p
    using cancelled_reserved [OF t(1) cn, of p] r by (simp add: run_ok_def)
  moreover have "st_outbox_events t' = st_outbox_events t" using cn by (simp add: order_cancelled_def)
  ultimately show ?thesis using r cancelled_orders_ok [OF t(1) cn] ok once by (simp add: run_ok_def)
qed

lemma order_run_ok:
  assumes "order_run E marshal s tr t" "inventory_ok s" "orders_ok s"
  shows "run_ok s tr t"
  using assms
proof (induction rule: order_run.induct)
  case start
  then show ?case by (simp add: run_ok_def trace_ok_def)
next
  case (placed tr t req ord b t')
  then have r: "run_ok s tr t" by simp
  then have "inventory_ok t" by (simp add: run_ok_def)
  from PlaceOrder_transact_Inr [OF this placed.hyps(2)] run_ok_placed [OF r] show ?case by blast
next
  case (place_failed tr t req e t')
  then have r: "run_ok s tr t" by simp
  then have "inventory_ok t" by (simp add: run_ok_def)
  from PlaceOrder_transact_Inl [OF this place_failed.hyps(2)] run_ok_cong [OF _ r] show ?case
    by (simp add: world_only_iff)
next
  case (replayed tr t validate req ord t')
  then have r: "run_ok s tr t" by simp
  from replay_result [OF replayed.hyps(2)] have "same_tables t t'" by (simp add: world_only_iff)
  then have r': "run_ok s tr t'" and eq: "st_orders t' = st_orders t"
    using r run_ok_cong by (auto simp: same_tables_iff)
  from replay_Inr [OF replayed.hyps(2)] obtain x where "x \<in> set (st_orders t)" "order_row ord = order_row x"
    "o_UserID ord = po_UserID req" "o_IdempotencyKey ord = Some (po_IdempotencyKeyHash req)" by auto
  note x = this
  have "o_ID (order_row ord) = o_ID (order_row x)" "o_UserID (order_row ord) = o_UserID (order_row x)"
    "o_IdempotencyKey (order_row ord) = o_IdempotencyKey (order_row x)" by (simp_all add: x(2))
  then have "o_ID x = o_ID ord" "o_UserID x = o_UserID ord" "o_IdempotencyKey x = o_IdempotencyKey ord"
    by (simp_all add: order_row_def)
  then have "answer_recorded t' req ord" unfolding answer_recorded_def eq using x(1,3,4) by (intro bexI [of _ x]) simp_all
  with r' show ?case by (simp add: run_ok_def trace_ok_def)
next
  case (replay_failed tr t validate req e t')
  then have r: "run_ok s tr t" by simp
  from replay_result [OF replay_failed.hyps(2)] run_ok_cong [OF _ r] show ?case by (simp add: world_only_iff)
next
  case (cancelled tr t validate i user ord t')
  then have r: "run_ok s tr t" by simp
  then have "inventory_ok t" "orders_ok t" by (simp_all add: run_ok_def)
  from CancelOrder_result [OF this cancelled.hyps(2)]
  have "order_cancelled i user t ord t'" "inventory_ok t'" by simp_all
  then show ?case by (rule run_ok_cancelled [OF r])
next
  case (cancel_failed tr t validate i user e t')
  then have r: "run_ok s tr t" by simp
  then have "inventory_ok t" "orders_ok t" by (simp_all add: run_ok_def)
  from CancelOrder_result [OF this cancel_failed.hyps(2)] run_ok_cong [OF _ r] show ?case by simp
next
  case (metrics tr t t')
  then show ?case using run_ok_cong by blast
qed

section \<open>A concrete run\<close>

definition demo_cancelled :: "nat st" where
  "demo_cancelled = snd (OrderService_CancelOrder demo_service (o_ID demo_answer) ''u1'' (snd demo_pending))"

definition demo_cancelled_order :: Order where
  "demo_cancelled_order = projr (fst (OrderService_CancelOrder demo_service (o_ID demo_answer) ''u1'' (snd demo_pending)))"

lemma demo_cancel:
  "OrderService_CancelOrder (NewOrderService calm (\<lambda>_. Inr ''{}'') (\<lambda>_. None)) (o_ID demo_answer) ''u1'' (snd demo_pending) =
     (Inr demo_cancelled_order, demo_cancelled)"
proof -
  have "\<not> isl (fst (OrderService_CancelOrder demo_service (o_ID demo_answer) ''u1'' (snd demo_pending)))" by code_simp
  then show ?thesis by (simp add: demo_cancelled_def demo_cancelled_order_def demo_service_def prod_eq_iff)
qed

lemma demo_shop_orders_ok: "orders_ok demo_shop"
  by (simp add: orders_ok_def demo_shop_def demo_stock_def empty_st_def)

lemma demo_order_run:
  "order_run calm (\<lambda>_. Inr ''{}'') demo_shop [CancelledBy (o_ID demo_answer) ''u1'', Placed demo_request demo_answer] demo_cancelled"
  by (rule order_run.cancelled [OF order_run.placed [OF order_run.start demo_transact] demo_cancel])

lemma demo_pending_ok: "inventory_ok (snd demo_pending) \<and> orders_ok (snd demo_pending)"
  using order_run_ok [OF order_run.placed [OF order_run.start demo_transact] demo_shop_ok demo_shop_orders_ok]
  by (simp add: run_ok_def)

section \<open>The properties\<close>

text \<open>
  C2: over any run of interleaved \<open>PlaceOrder\<close> and \<open>CancelOrder\<close> calls, failed ones
  included, the stock of a product and the quantity held by the orders that are not cancelled
  add up to what they did at the start, and the stock stays between zero and the column's
  limit: no unit is sold twice, lost on a failure, or restocked twice.
\<close>

theorem stock_and_reservations_conserved:
  assumes "order_run E marshal s tr t" "inventory_ok s" "orders_ok s"
  shows "stock0 t p + reserved t p = stock0 s p + reserved s p \<and> 0 \<le> stock0 t p \<and> stock0 t p \<le> max_i64"
  using order_run_ok [OF assms] stock0_nonneg [of t p] by (auto simp: run_ok_def)

theorem stock_and_reservations_conserved_witness:
  "stock0 demo_cancelled ''p1'' + reserved demo_cancelled ''p1'' = stock0 demo_shop ''p1'' + reserved demo_shop ''p1'' \<and>
     0 \<le> stock0 demo_cancelled ''p1'' \<and> stock0 demo_cancelled ''p1'' \<le> max_i64"
  by (rule stock_and_reservations_conserved [OF demo_order_run demo_shop_ok demo_shop_orders_ok])

text \<open>
  C3: a user's idempotency key creates at most one order, however the calls that carry
  it race: all the calls of the run that answered an order for the key, whether they placed
  it or repeated it, answered the same order.
\<close>

theorem idempotency_key_names_one_order:
  assumes "order_run E marshal s tr t" "inventory_ok s" "orders_ok s"
    and "Placed req ord \<in> set tr \<or> Replayed req ord \<in> set tr"
    and "Placed req' ord' \<in> set tr \<or> Replayed req' ord' \<in> set tr"
    and "po_UserID req' = po_UserID req" "po_IdempotencyKeyHash req' = po_IdempotencyKeyHash req"
    and "po_IdempotencyKeyHash req \<noteq> ''''"
  shows "o_ID ord' = o_ID ord \<and> length (filter (places (po_UserID req) (po_IdempotencyKeyHash req)) tr) \<le> 1"
proof -
  have ok: "run_ok s tr t" using order_run_ok [OF assms(1-3)] .
  then have "answer_recorded t req ord" "answer_recorded t req' ord'"
    using assms(4,5) unfolding run_ok_def trace_ok_def by blast+
  then obtain x x' where "x \<in> set (st_orders t)" "x' \<in> set (st_orders t)" "o_ID x = o_ID ord" "o_ID x' = o_ID ord'"
    "order_key_clash x x'"
    using assms(6-8) by (auto simp: answer_recorded_def order_key_clash_def)
  with ok assms(8) show ?thesis by (auto simp: run_ok_def orders_ok_def)
qed

definition demo_replayed :: "(goerr + Order) \<times> nat st" where
  "demo_replayed = replayIdempotentOrder demo_service demo_request (snd demo_pending)"

lemma demo_replay_run:
  "order_run calm (\<lambda>_. Inr ''{}'') demo_shop [Replayed demo_request (projr (fst demo_replayed)), Placed demo_request demo_answer]
     (snd demo_replayed)"
proof (rule order_run.replayed [OF order_run.placed [OF order_run.start demo_transact]])
  have "\<not> isl (fst demo_replayed)" by code_simp
  then show "replayIdempotentOrder (NewOrderService calm (\<lambda>_. Inr ''{}'') (\<lambda>_. None)) demo_request (snd demo_pending) =
      (Inr (projr (fst demo_replayed)), snd demo_replayed)"
    by (simp add: demo_replayed_def demo_service_def prod_eq_iff)
qed

theorem idempotency_key_names_one_order_witness:
  "o_ID (projr (fst demo_replayed)) = o_ID demo_answer \<and>
     length (filter (places (po_UserID demo_request) (po_IdempotencyKeyHash demo_request))
       [Replayed demo_request (projr (fst demo_replayed)), Placed demo_request demo_answer]) \<le> 1"
  by (rule idempotency_key_names_one_order
      [OF demo_replay_run demo_shop_ok demo_shop_orders_ok, where req = demo_request and req' = demo_request])
    (simp_all add: demo_request_def demo_key_def)

text \<open>
  C6: over any run of interleaved calls an order is cancelled at most once, and the
  outbox has gained exactly one event for every order that was placed, behind the events
  that were there: a failed, repeated or cancelled order adds none.
\<close>

theorem cancelled_once_and_one_event_per_order:
  assumes "order_run E marshal s tr t" "inventory_ok s" "orders_ok s"
  shows "length (filter (\<lambda>ev. \<exists>u. ev = CancelledBy i u) tr) \<le> 1 \<and>
     take (length (st_outbox_events s)) (st_outbox_events t) = st_outbox_events s \<and>
     length (st_outbox_events t) = length (st_outbox_events s) + length (filter (\<lambda>ev. \<exists>r ord. ev = Placed r ord) tr)"
proof -
  from order_run_ok [OF assms] have r: "length (filter (\<lambda>ev. \<exists>u. ev = CancelledBy i u) tr) \<le> 1"
    "st_outbox_events t = st_outbox_events s @ drop (length (st_outbox_events s)) (st_outbox_events t)"
    "length (st_outbox_events t) = length (st_outbox_events s) + length (filter (\<lambda>ev. \<exists>r ord. ev = Placed r ord) tr)"
    by (auto simp: run_ok_def)
  then show ?thesis by (metis append_eq_conv_conj)
qed

theorem cancelled_once_and_one_event_per_order_witness:
  "length (filter (\<lambda>ev. \<exists>u. ev = CancelledBy (o_ID demo_answer) u)
       [CancelledBy (o_ID demo_answer) ''u1'', Placed demo_request demo_answer]) \<le> 1 \<and>
     take (length (st_outbox_events demo_shop)) (st_outbox_events demo_cancelled) = st_outbox_events demo_shop \<and>
     length (st_outbox_events demo_cancelled) = length (st_outbox_events demo_shop) +
       length (filter (\<lambda>ev. \<exists>r ord. ev = Placed r ord)
         [CancelledBy (o_ID demo_answer) ''u1'', Placed demo_request demo_answer])"
  by (rule cancelled_once_and_one_event_per_order [OF demo_order_run demo_shop_ok demo_shop_orders_ok])

text \<open>
  C5: a \<open>CancelOrder\<close> call that succeeds has found the caller's own order, new or in
  progress, has set its status to \<open>cancelled\<close> and has given back to each product exactly what
  the order's lines had taken, changing nothing else; a call that fails has changed no row.
\<close>

theorem cancel_order_effect:
  assumes "inventory_ok s" "orders_ok s"
    and "OrderService_CancelOrder (NewOrderService E marshal validate) i user s = (r, t)"
  shows "case r of Inl e \<Rightarrow> same_tables s t
     | Inr ord \<Rightarrow> order_cancelled i user s ord t \<and> inventory_ok t"
  using assms by (rule CancelOrder_result)

theorem cancel_order_effect_witness:
  "order_cancelled (o_ID demo_answer) ''u1'' (snd demo_pending) demo_cancelled_order demo_cancelled \<and> inventory_ok demo_cancelled"
  using cancel_order_effect [OF _ _ demo_cancel] demo_pending_ok by simp

lemma GetOrderByID_Inr:
  assumes "OrderService_GetOrderByID (NewOrderService E marshal validate) i user s = (Inr ord, t)"
  shows "o_ID ord = i \<and> o_UserID ord = user \<and> user \<noteq> '''' \<and> order_row ord \<in> order_row ` set (st_orders s) \<and> same_tables s t"
proof -
  from assms have g: "rp_GetOrderByID (NewOrderRepository E) i True s = (Inr ord, t)"
    and u: "user \<noteq> ''''" "o_UserID ord = user"
    by (auto simp: OrderService_GetOrderByID_def NewOrderService_def gom split: if_splits)
  have "world_only s t" using keepsGD [OF order_repo.byID_frame g] .
  with order_repo.byID_Inr [OF g] u show ?thesis by (auto simp: world_only_iff)
qed

lemma order_reads_frame:
  "keepsG world_only (OrderService_GetOrderByID (NewOrderService E marshal validate) i user)"
  "keepsG world_only (OrderService_GetMyOrders (NewOrderService E marshal validate) req)"
proof -
  show "keepsG world_only (OrderService_GetOrderByID (NewOrderService E marshal validate) i user)"
    unfolding OrderService_GetOrderByID_def NewOrderService_def by (auto intro!: framing order_repo.byID_frame)
  show "keepsG world_only (OrderService_GetMyOrders (NewOrderService E marshal validate) req)"
    unfolding OrderService_GetMyOrders_def NewOrderService_def NewOrderRepository_def OrderRepo_GetMyOrders_def
    by (auto intro!: framing simp: Let_def)
qed

text \<open>
  An order is answered only to the user who owns it: the row that \<open>GetOrderByID\<close> read has
  that id, and nothing is changed.
\<close>

theorem get_order_owner_only:
  assumes "OrderService_GetOrderByID (NewOrderService E marshal validate) i user s = (Inr ord, t)"
  shows "o_ID ord = i \<and> o_UserID ord = user \<and> user \<noteq> '''' \<and> order_row ord \<in> order_row ` set (st_orders s) \<and> same_tables s t"
  using assms by (rule GetOrderByID_Inr)

theorem get_order_owner_only_witness:
  "o_ID (projr (fst (OrderService_GetOrderByID demo_service (o_ID demo_answer) ''u1'' (snd demo_pending)))) = o_ID demo_answer \<and>
     order_row (projr (fst (OrderService_GetOrderByID demo_service (o_ID demo_answer) ''u1'' (snd demo_pending)))) \<in>
       order_row ` set (st_orders (snd demo_pending))"
proof -
  have "\<not> isl (fst (OrderService_GetOrderByID demo_service (o_ID demo_answer) ''u1'' (snd demo_pending)))" by code_simp
  then have "OrderService_GetOrderByID demo_service (o_ID demo_answer) ''u1'' (snd demo_pending) =
      (Inr (projr (fst (OrderService_GetOrderByID demo_service (o_ID demo_answer) ''u1'' (snd demo_pending)))),
       snd (OrderService_GetOrderByID demo_service (o_ID demo_answer) ''u1'' (snd demo_pending)))"
    by (simp add: prod_eq_iff)
  from get_order_owner_only [OF this [unfolded demo_service_def]] show ?thesis by (simp add: demo_service_def)
qed

end
