(* ===== verification/Redis.thy ===== *)
theory Redis
  imports Models
begin

text \<open>
  \<open>pkg/redis\<close>: the wrapper over the go-redis client. The commands of the client are a
  parameter, the record \<open>goredis\<close>: each acts on the outside world and may fail, by its
  deadline for one. The wrapper, the Lua script of the counters, and the decoding of the
  replies are the code's. \<open>json.Marshal\<close> and \<open>json.Unmarshal\<close> are arguments. The commands of a \<open>SCAN\<close>
  loop share one context, whose deadline they are given.
\<close>

section \<open>Untyped values\<close>

text \<open>A value of type \<open>interface{}\<close> as the client returns it.\<close>

datatype any = AStr string | ABytes string | AInt int64 | ANil | AList "any list"

text \<open>\<open>fmt.Sprint\<close>\<close>

fun join :: "string \<Rightarrow> string list \<Rightarrow> string" where
  "join sep [] = ''''"
| "join sep [x] = x"
| "join sep (x # y # zs) = x @ sep @ join sep (y # zs)"

fun Sprint :: "any \<Rightarrow> string" where
  "Sprint (AStr s) = s"
| "Sprint (ABytes b) = ''['' @ join '' '' (map (\<lambda>c. show_nat (of_char c)) b) @ '']''"
| "Sprint (AInt i) = show_int i"
| "Sprint ANil = ''<nil>''"
| "Sprint (AList xs) = ''['' @ join '' '' (map Sprint xs) @ '']''"

definition streamValueToString :: "any \<Rightarrow> goerr + string" where
  "streamValueToString v =
     (case v of AStr s \<Rightarrow> Inr s | ABytes s \<Rightarrow> Inr s | _ \<Rightarrow> Inr (Sprint v))"

record RedisStreamMessage =
  rm_ID :: string
  rm_Values :: "string \<rightharpoonup> any"

section \<open>The client\<close>

text \<open>
  The context of a command: made by \<open>context.WithTimeout\<close> for this command alone, or shared by the commands
  of a loop, with the instant at which it ends.
\<close>

datatype cmdctx = WithTimeout duration | Until time

record 'w goredis =
  gr_Ping :: "('w, unit) gom"
  gr_Get :: "string \<Rightarrow> ('w, string) gom"
  gr_Exists :: "string \<Rightarrow> ('w, int64) gom"
  gr_Set :: "string \<Rightarrow> string \<Rightarrow> duration \<Rightarrow> ('w, unit) gom"
  gr_SetNX :: "string \<Rightarrow> string \<Rightarrow> duration \<Rightarrow> ('w, bool) gom"
  gr_Run :: "('w, int64) gom \<Rightarrow> ('w, int64) gom"
  gr_Incr :: "string \<Rightarrow> ('w, int64) gom"
  gr_PTTL :: "string \<Rightarrow> ('w, int64) gom"
  gr_PExpire :: "string \<Rightarrow> int64 \<Rightarrow> ('w, unit) gom"
  gr_XAdd :: "string \<Rightarrow> (string \<rightharpoonup> any) \<Rightarrow> ('w, string) gom"
  gr_XGroupCreateMkStream :: "string \<Rightarrow> string \<Rightarrow> string \<Rightarrow> ('w, unit) gom"
  gr_XReadGroup :: "string \<Rightarrow> string \<Rightarrow> string \<Rightarrow> int64 \<Rightarrow> duration \<Rightarrow>
                    ('w, (string \<times> (string \<times> (string \<rightharpoonup> any)) list) list) gom"
  gr_XAck :: "string \<Rightarrow> string \<Rightarrow> string list \<Rightarrow> ('w, unit) gom"
  gr_XAutoClaim :: "string \<Rightarrow> string \<Rightarrow> string \<Rightarrow> int64 \<Rightarrow> string \<Rightarrow> int64 \<Rightarrow> ('w, any) gom"
  gr_Del :: "cmdctx \<Rightarrow> string list \<Rightarrow> ('w, unit) gom"
  gr_Scan :: "cmdctx \<Rightarrow> 64 word \<Rightarrow> string \<Rightarrow> int64 \<Rightarrow> ('w, string list \<times> 64 word) gom"

text \<open>The struct \<open>redis\<close>: the client is held twice, as \<open>Cmdable\<close> and as \<open>*Client\<close>.\<close>

record 'w redis =
  rd_cmd :: "'w goredis option"
  rd_client :: "'w goredis option"

text \<open>A command acts on the outside world only.\<close>

definition cmdG :: "('w, 'a) gom \<Rightarrow> ('w st, 'a) gom" where
  "cmdG m s = (let (r, w) = m (st_world s) in (r, s\<lparr>st_world := w\<rparr>))"

lemma cmdG_iff [gom]:
  "cmdG m s = (r, t) \<longleftrightarrow> r = fst (m (st_world s)) \<and> t = s\<lparr>st_world := snd (m (st_world s))\<rparr>"
  by (auto simp: cmdG_def split: prod.splits)

lemma cmdG_frame [frames, simp]:
  "keepsG world_only (cmdG m)" "keepsG same_tables (cmdG m)" "keepsG same_metrics (cmdG m)"
  by (auto intro!: keepsGI simp: gom same_metrics_def)

text \<open>A method on a nil client panics; no caller reaches it after \<open>New\<close>.\<close>

definition commandG :: "'w redis \<Rightarrow> ('w goredis \<Rightarrow> ('w, 'a) gom) \<Rightarrow> ('w st, 'a) gom" where
  "commandG r f = (case rd_cmd r of None \<Rightarrow> throwG (ErrNew ''panic: nil client'') | Some c \<Rightarrow> cmdG (f c))"

lemma commandG_frame [frames, simp]:
  "keepsG world_only (commandG r f)" "keepsG same_tables (commandG r f)" "keepsG same_metrics (commandG r f)"
  by (auto simp: commandG_def split: option.splits)

text \<open>\<open>time.Duration.Milliseconds\<close> truncates.\<close>

definition Milliseconds :: "duration \<Rightarrow> int64" where
  "Milliseconds d = sgn d * (\<bar>d\<bar> div 1000000)"

section \<open>Keys\<close>

definition redis_Ping :: "'w redis option \<Rightarrow> ('w st, unit) gom" where
  "redis_Ping r =
     (case r of
        None \<Rightarrow> throwG (ErrNew ''redis command client is required'')
      | Some r \<Rightarrow> (case rd_cmd r of
                    None \<Rightarrow> throwG (ErrNew ''redis command client is required'')
                  | Some c \<Rightarrow> cmdG (gr_Ping c)))"

definition redis_IsConnected :: "'w redis option \<Rightarrow> ('w st, bool) gom" where
  "redis_IsConnected r = tryG (redis_Ping r) (\<lambda>e. retG (\<not> isl e))"

definition redis_Get :: "'w redis \<Rightarrow> (string \<Rightarrow> goerr + 'a) \<Rightarrow> string \<Rightarrow> ('w st, 'a) gom" where
  "redis_Get r unmarshal key =
     bindG (commandG r (\<lambda>c. gr_Get c key)) (\<lambda>strValue. liftG (unmarshal strValue))"

definition redis_Exists :: "'w redis \<Rightarrow> string \<Rightarrow> ('w st, bool) gom" where
  "redis_Exists r key = bindG (commandG r (\<lambda>c. gr_Exists c key)) (\<lambda>count. retG (0 < count))"

text \<open>The error of \<open>json.Marshal\<close> is dropped and the bytes are nil.\<close>

definition bData :: "('a \<Rightarrow> goerr + string) \<Rightarrow> 'a \<Rightarrow> string" where
  "bData marshal v = (case marshal v of Inl _ \<Rightarrow> '''' | Inr b \<Rightarrow> b)"

definition redis_SetWithExpiration ::
    "'w redis \<Rightarrow> ('a \<Rightarrow> goerr + string) \<Rightarrow> string \<Rightarrow> 'a \<Rightarrow> duration \<Rightarrow> ('w st, unit) gom" where
  "redis_SetWithExpiration r marshal key v expiration = commandG r (\<lambda>c. gr_Set c key (bData marshal v) expiration)"

definition redis_Set :: "'w redis \<Rightarrow> ('a \<Rightarrow> goerr + string) \<Rightarrow> string \<Rightarrow> 'a \<Rightarrow> ('w st, unit) gom" where
  "redis_Set r marshal key v = commandG r (\<lambda>c. gr_Set c key (bData marshal v) 0)"

definition redis_SetNXWithExpiration ::
    "'w redis \<Rightarrow> ('a \<Rightarrow> goerr + string) \<Rightarrow> string \<Rightarrow> 'a \<Rightarrow> duration \<Rightarrow> ('w st, bool) gom" where
  "redis_SetNXWithExpiration r marshal key v expiration =
     commandG r (\<lambda>c. gr_SetNX c key (bData marshal v) expiration)"

text \<open>The Lua script; the server runs it without interleaving.\<close>

definition incrementWithExpirationScript :: "'w goredis \<Rightarrow> string \<Rightarrow> int64 \<Rightarrow> ('w, int64) gom" where
  "incrementWithExpirationScript c key expiration_ms =
     bindG (gr_Incr c key) (\<lambda>count.
     if 0 < expiration_ms then
       bindG (gr_PTTL c key) (\<lambda>ttl.
       if count = 1 \<or> ttl = - 1 then bindG (gr_PExpire c key expiration_ms) (\<lambda>_. retG count)
       else retG count)
     else retG count)"

definition redis_IncrementWithExpiration :: "'w redis \<Rightarrow> string \<Rightarrow> duration \<Rightarrow> ('w st, int64) gom" where
  "redis_IncrementWithExpiration r key expiration =
     (case rd_cmd r of
        None \<Rightarrow> throwG (ErrNew ''redis command client is required'')
      | Some c \<Rightarrow> cmdG (gr_Run c (incrementWithExpirationScript c key (Milliseconds expiration))))"

text \<open>\<open>Timeout*time.Second\<close>\<close>

definition Timeout :: duration where "Timeout = 1 * 1000000000"

definition redis_Remove :: "'w redis \<Rightarrow> string list \<Rightarrow> ('w st, unit) gom" where
  "redis_Remove r keys = commandG r (\<lambda>c. gr_Del c (WithTimeout Timeout) keys)"

definition scanBatchSize :: int64 where "scanBatchSize = 100"

text \<open>
  The \<open>SCAN\<close> loops end when the server answers cursor 0 or a command fails; \<open>None\<close> is a loop
  that does not end. The context is made before the loop, so its deadline is the clock of that moment plus
  \<open>Timeout\<close>.
\<close>

partial_function (option) Keys_loop ::
    "'w goredis \<Rightarrow> cmdctx \<Rightarrow> string \<Rightarrow> 64 word \<Rightarrow> string list \<Rightarrow> 'w \<Rightarrow> ((goerr + string list) \<times> 'w) option" where
  "Keys_loop c ctx pattern cursor keys w =
     (case gr_Scan c ctx cursor pattern scanBatchSize w of
        (Inl e, w1) \<Rightarrow> Some (Inl e, w1)
      | (Inr (batch, nextCursor), w1) \<Rightarrow>
          if nextCursor = 0 then Some (Inr (keys @ batch), w1)
          else Keys_loop c ctx pattern nextCursor (keys @ batch) w1)"

definition redis_Keys :: "'w env \<Rightarrow> 'w goredis \<Rightarrow> string \<Rightarrow> 'w \<Rightarrow> ((goerr + string list) \<times> 'w) option" where
  "redis_Keys E c pattern w =
     (let (now, w1) = env_now E w in Keys_loop c (Until (now + Timeout)) pattern 0 [] w1)"

partial_function (option) RemovePattern_loop ::
    "'w goredis \<Rightarrow> cmdctx \<Rightarrow> string \<Rightarrow> 64 word \<Rightarrow> 'w \<Rightarrow> ((goerr + unit) \<times> 'w) option" where
  "RemovePattern_loop c ctx pattern cursor w =
     (case gr_Scan c ctx cursor pattern scanBatchSize w of
        (Inl e, w1) \<Rightarrow> Some (Inl e, w1)
      | (Inr (keys, nextCursor), w1) \<Rightarrow>
          (case (if keys \<noteq> [] then gr_Del c ctx keys w1 else (Inr (), w1)) of
             (Inl e, w2) \<Rightarrow> Some (Inl e, w2)
           | (Inr _, w2) \<Rightarrow> if nextCursor = 0 then Some (Inr (), w2) else RemovePattern_loop c ctx pattern nextCursor w2))"

definition redis_RemovePattern :: "'w env \<Rightarrow> 'w goredis \<Rightarrow> string \<Rightarrow> 'w \<Rightarrow> ((goerr + unit) \<times> 'w) option" where
  "redis_RemovePattern E c pattern w =
     (let (now, w1) = env_now E w in RemovePattern_loop c (Until (now + Timeout)) pattern 0 w1)"

section \<open>Streams\<close>

definition redis_XAdd :: "'w redis \<Rightarrow> string \<Rightarrow> (string \<rightharpoonup> any) \<Rightarrow> ('w st, string) gom" where
  "redis_XAdd r stream values = commandG r (\<lambda>c. gr_XAdd c stream values)"

definition redis_XGroupCreateMkStream :: "'w redis \<Rightarrow> string \<Rightarrow> string \<Rightarrow> string \<Rightarrow> ('w st, unit) gom" where
  "redis_XGroupCreateMkStream r stream grp start = commandG r (\<lambda>c. gr_XGroupCreateMkStream c stream grp start)"

definition toRedisStreamMessages ::
    "(string \<times> (string \<times> (string \<rightharpoonup> any)) list) list \<Rightarrow> RedisStreamMessage list" where
  "toRedisStreamMessages streams =
     concat (map (\<lambda>(_, messages). map (\<lambda>(i, values). \<lparr>rm_ID = i, rm_Values = values\<rparr>) messages) streams)"

definition redis_XReadGroup ::
    "'w redis \<Rightarrow> string \<Rightarrow> string \<Rightarrow> string \<Rightarrow> int64 \<Rightarrow> duration \<Rightarrow> ('w st, RedisStreamMessage list) gom" where
  "redis_XReadGroup r grp consumer stream count block =
     tryG (commandG r (\<lambda>c. gr_XReadGroup c grp consumer stream count block)) (\<lambda>q. case q of
       Inl err \<Rightarrow> if err = ErrRedisNil then retG [] else throwG err
     | Inr streams \<Rightarrow> retG (toRedisStreamMessages streams))"

definition redis_XAck :: "'w redis \<Rightarrow> string \<Rightarrow> string \<Rightarrow> string list \<Rightarrow> ('w st, unit) gom" where
  "redis_XAck r stream grp ids = commandG r (\<lambda>c. gr_XAck c stream grp ids)"

fun streamFields :: "any list \<Rightarrow> (string \<rightharpoonup> any) \<Rightarrow> goerr + (string \<rightharpoonup> any)" where
  "streamFields (k # v # kvs) values =
     (case streamValueToString k of Inl e \<Rightarrow> Inl e | Inr key \<Rightarrow> streamFields kvs (values(key \<mapsto> v)))"
| "streamFields _ values = Inr values"

definition streamFieldValuesToMap :: "any \<Rightarrow> goerr + (string \<rightharpoonup> any)" where
  "streamFieldValuesToMap raw =
     (case raw of
        AList kvs \<Rightarrow> if length kvs mod 2 \<noteq> 0 then Inl (ErrNew ''unexpected stream field values'')
                        else streamFields kvs Map.empty
      | _ \<Rightarrow> Inl (ErrNew ''unexpected stream field values''))"

fun parseMessages :: "any list \<Rightarrow> goerr + RedisStreamMessage list" where
  "parseMessages [] = Inr []"
| "parseMessages (rawMessage # rest) =
     (case rawMessage of
        AList [i, kvs] \<Rightarrow>
          (case streamValueToString i of
             Inl e \<Rightarrow> Inl e
           | Inr id' \<Rightarrow>
               (case streamFieldValuesToMap kvs of
                  Inl e \<Rightarrow> Inl e
                | Inr values \<Rightarrow>
                    (case parseMessages rest of
                       Inl e \<Rightarrow> Inl e
                     | Inr ms \<Rightarrow> Inr (\<lparr>rm_ID = id', rm_Values = values\<rparr> # ms))))
      | _ \<Rightarrow> Inl (ErrNew ''unexpected XAUTOCLAIM message response''))"

definition parseXAutoClaimResult :: "any \<Rightarrow> goerr + (RedisStreamMessage list \<times> string)" where
  "parseXAutoClaimResult result =
     (case result of
        AList (start # raw # _) \<Rightarrow>
          (case streamValueToString start of
             Inl e \<Rightarrow> Inl e
           | Inr nextStart \<Rightarrow>
               (case raw of
                  AList rawMessages \<Rightarrow> map_sum id (\<lambda>messages. (messages, nextStart)) (parseMessages rawMessages)
                | _ \<Rightarrow> Inl (ErrNew ''unexpected XAUTOCLAIM messages response'')))
      | _ \<Rightarrow> Inl (ErrNew ''unexpected XAUTOCLAIM response''))"

definition redis_XAutoClaim ::
    "'w redis \<Rightarrow> string \<Rightarrow> string \<Rightarrow> string \<Rightarrow> string \<Rightarrow> duration \<Rightarrow> int64 \<Rightarrow>
     ('w st, RedisStreamMessage list \<times> string) gom" where
  "redis_XAutoClaim r stream grp consumer start minIdle count =
     (case rd_client r of
        None \<Rightarrow> throwG (ErrNew ''redis client is required'')
      | Some c \<Rightarrow>
          tryG (cmdG (gr_XAutoClaim c stream grp consumer (Milliseconds minIdle) start count)) (\<lambda>q. case q of
            Inl err \<Rightarrow> if err = ErrRedisNil then retG ([], start) else throwG err
          | Inr result \<Rightarrow> liftG (parseXAutoClaimResult result)))"

section \<open>Frames\<close>

lemma redis_frames [frames, simp]:
  "keepsG world_only (redis_Ping ro)" "keepsG world_only (redis_IsConnected ro)"
  "keepsG world_only (redis_Get r unmarshal k)" "keepsG world_only (redis_Exists r k)"
  "keepsG world_only (redis_SetWithExpiration r marshal k v d)" "keepsG world_only (redis_Set r marshal k v)"
  "keepsG world_only (redis_SetNXWithExpiration r marshal k v d)"
  "keepsG world_only (redis_IncrementWithExpiration r k d)" "keepsG world_only (redis_Remove r ks)"
  "keepsG world_only (redis_XAdd r stream values)" "keepsG world_only (redis_XGroupCreateMkStream r stream grp start)"
  "keepsG world_only (redis_XReadGroup r grp consumer stream count block)"
  "keepsG world_only (redis_XAck r stream grp ids)"
  "keepsG world_only (redis_XAutoClaim r stream grp consumer start minIdle count)"
  unfolding redis_Ping_def redis_IsConnected_def redis_Get_def redis_Exists_def redis_SetWithExpiration_def
    redis_Set_def redis_SetNXWithExpiration_def redis_IncrementWithExpiration_def redis_Remove_def redis_XAdd_def
    redis_XGroupCreateMkStream_def redis_XReadGroup_def redis_XAck_def redis_XAutoClaim_def
  by (auto intro!: framing)

section \<open>The loops end\<close>

text \<open>
  What is documented of the time: the clock of the process does not go back, a \<open>SCAN\<close> takes time, and a
  command whose context has a deadline does not succeed after it. Nothing is said of the cursors.
\<close>

definition timed :: "'w env \<Rightarrow> 'w goredis \<Rightarrow> ('w \<Rightarrow> time) \<Rightarrow> bool" where
  "timed E c clock \<longleftrightarrow>
     (\<forall>w now w'. env_now E w = (now, w') \<longrightarrow> clock w \<le> now \<and> now \<le> clock w') \<and>
     (\<forall>d cursor pattern n w x w'. gr_Scan c (Until d) cursor pattern n w = (Inr x, w') \<longrightarrow> clock w < clock w' \<and> clock w' \<le> d) \<and>
     (\<forall>d keys w x w'. gr_Del c (Until d) keys w = (x, w') \<longrightarrow> clock w \<le> clock w' \<and> (x = Inr () \<longrightarrow> clock w' \<le> d))"

text \<open>
  A complete iteration: \<open>SCAN\<close> answers the batches one after the other, from a cursor until it answers
  cursor 0, and \<open>each\<close> succeeds on every batch.
\<close>

inductive scans ::
    "'w goredis \<Rightarrow> cmdctx \<Rightarrow> string \<Rightarrow> (string list \<Rightarrow> ('w, unit) gom) \<Rightarrow> 64 word \<Rightarrow> 'w \<Rightarrow> string list list \<Rightarrow> 'w \<Rightarrow> bool"
  for c ctx pattern each where
  last: "gr_Scan c ctx cursor pattern scanBatchSize w = (Inr (batch, 0), w1) \<Longrightarrow> each batch w1 = (Inr (), w2) \<Longrightarrow>
    scans c ctx pattern each cursor w [batch] w2"
| more: "gr_Scan c ctx cursor pattern scanBatchSize w = (Inr (batch, nextCursor), w1) \<Longrightarrow> each batch w1 = (Inr (), w2) \<Longrightarrow>
    nextCursor \<noteq> 0 \<Longrightarrow> scans c ctx pattern each nextCursor w2 batches w3 \<Longrightarrow>
    scans c ctx pattern each cursor w (batch # batches) w3"

lemma scans_step:
  assumes "gr_Scan c ctx cursor pattern scanBatchSize w = (Inr (batch, nextCursor), w1)" "each batch w1 = (Inr (), w2)"
  shows "scans c ctx pattern each cursor w bs t \<longleftrightarrow>
    (if nextCursor = 0 then bs = [batch] \<and> t = w2
     else \<exists>bs'. bs = batch # bs' \<and> scans c ctx pattern each nextCursor w2 bs' t)"
  using assms by (subst scans.simps) auto

lemma scans_failed:
  "gr_Scan c ctx cursor pattern scanBatchSize w = (Inl e, w1) \<Longrightarrow> \<not> scans c ctx pattern each cursor w bs t"
  "gr_Scan c ctx cursor pattern scanBatchSize w = (Inr (batch, nextCursor), w1) \<Longrightarrow> each batch w1 = (Inl e, w2) \<Longrightarrow>
     \<not> scans c ctx pattern each cursor w bs t"
  by (subst scans.simps, simp)+

text \<open>What a loop that ends has done: \<open>ok\<close> is its value after a complete iteration.\<close>

definition scan_result ::
    "(string list list \<Rightarrow> 'w \<Rightarrow> bool) \<Rightarrow> (string list list \<Rightarrow> 'a) \<Rightarrow> ((goerr + 'a) \<times> 'w) option \<Rightarrow> bool" where
  "scan_result it ok res \<longleftrightarrow>
     (\<exists>r t. res = Some (r, t) \<and>
        (case r of Inl _ \<Rightarrow> \<forall>bs u. \<not> it bs u | Inr x \<Rightarrow> \<exists>bs. it bs t \<and> x = ok bs))"

lemma scan_result_done:
  assumes "scan_result (\<lambda>bs t. bs = batches \<and> t = u) ok res"
  shows "res = Some (Inr (ok batches), u)"
proof -
  from assms obtain r t where res: "res = Some (r, t)"
    and r: "case r of Inl _ \<Rightarrow> \<forall>bs u'. \<not> (bs = batches \<and> u' = u) | Inr x \<Rightarrow> \<exists>bs. (bs = batches \<and> t = u) \<and> x = ok bs"
    unfolding scan_result_def by blast
  with res show ?thesis by (cases r) auto
qed

definition no_action :: "string list \<Rightarrow> ('w, unit) gom" where
  "no_action keys w = (Inr (), w)"

definition delete_batch :: "'w goredis \<Rightarrow> cmdctx \<Rightarrow> string list \<Rightarrow> ('w, unit) gom" where
  "delete_batch c ctx keys w = (if keys \<noteq> [] then gr_Del c ctx keys w else (Inr (), w))"

text \<open>The time that is left until the deadline decreases.\<close>

lemma timed_SCAN:
  assumes "timed E c clock" "gr_Scan c (Until d) cursor pattern n w = (Inr x, w1)" "clock w1 \<le> clock w2"
  shows "nat (d - clock w2) < nat (d - clock w)"
proof -
  from assms(1,2) have "clock w < clock w1" "clock w1 \<le> d" unfolding timed_def by blast+
  with assms(3) show ?thesis by simp
qed

lemma Keys_loop_result:
  assumes t: "timed E c clock"
  shows "scan_result (scans c (Until d) pattern no_action cursor w) (\<lambda>bs. keys @ concat bs)
    (Keys_loop c (Until d) pattern cursor keys w)"
proof (induction "nat (d - clock w)" arbitrary: w cursor keys rule: less_induct)
  case less
  note step = Keys_loop.simps [of c "Until d" pattern cursor keys w]
  show ?case
  proof (cases "gr_Scan c (Until d) cursor pattern scanBatchSize w")
    case (Pair q w1)
    show ?thesis
    proof (cases q)
      case (Inl e)
      with step Pair show ?thesis by (simp add: scan_result_def scans_failed)
    next
      case (Inr x)
      obtain batch nextCursor where x: "x = (batch, nextCursor)" by fastforce
      note scan = Pair [unfolded Inr x]
      have it: "scans c (Until d) pattern no_action cursor w bs u \<longleftrightarrow> (if nextCursor = 0 then bs = [batch] \<and> u = w1
          else \<exists>bs'. bs = batch # bs' \<and> scans c (Until d) pattern no_action nextCursor w1 bs' u)" for bs u
        by (rule scans_step [OF scan]) (simp add: no_action_def)
      show ?thesis
      proof (cases "nextCursor = 0")
        case True
        with step scan show ?thesis by (simp add: scan_result_def it)
      next
        case False
        from less [OF timed_SCAN [OF t scan order_refl], of nextCursor "keys @ batch"]
        obtain r u where r: "Keys_loop c (Until d) pattern nextCursor (keys @ batch) w1 = Some (r, u)"
          and cs: "case r of Inl _ \<Rightarrow> \<forall>bs u. \<not> scans c (Until d) pattern no_action nextCursor w1 bs u
            | Inr x \<Rightarrow> \<exists>bs. scans c (Until d) pattern no_action nextCursor w1 bs u \<and> x = (keys @ batch) @ concat bs"
          unfolding scan_result_def by blast
        with step scan False show ?thesis by (cases r) (auto simp: scan_result_def it)
      qed
    qed
  qed
qed

lemma RemovePattern_loop_result:
  assumes t: "timed E c clock"
  shows "scan_result (scans c (Until d) pattern (delete_batch c (Until d)) cursor w) (\<lambda>_. ())
    (RemovePattern_loop c (Until d) pattern cursor w)"
proof (induction "nat (d - clock w)" arbitrary: w cursor rule: less_induct)
  case less
  let ?del = "delete_batch c (Until d)"
  note step = RemovePattern_loop.simps [of c "Until d" pattern cursor w, folded delete_batch_def]
  show ?case
  proof (cases "gr_Scan c (Until d) cursor pattern scanBatchSize w")
    case (Pair q w1)
    show ?thesis
    proof (cases q)
      case (Inl e)
      with step Pair show ?thesis by (simp add: scan_result_def scans_failed)
    next
      case (Inr x)
      obtain keys nextCursor where x: "x = (keys, nextCursor)" by fastforce
      note scan = Pair [unfolded Inr x]
      obtain y w2 where y: "?del keys w1 = (y, w2)" by fastforce
      show ?thesis
      proof (cases y)
        case e: (Inl e)
        have "\<not> scans c (Until d) pattern ?del cursor w bs u" for bs u
          by (rule scans_failed(2) [OF scan, where each = ?del]) (use y e in simp)
        with step scan y e show ?thesis by (simp add: scan_result_def)
      next
        case ok: (Inr unit)
        have "clock w1 \<le> clock w2"
          using t y unfolding timed_def delete_batch_def by (auto split: if_splits)
        note less_time = timed_SCAN [OF t scan this]
        have it: "scans c (Until d) pattern ?del cursor w bs u \<longleftrightarrow> (if nextCursor = 0 then bs = [keys] \<and> u = w2
            else \<exists>bs'. bs = keys # bs' \<and> scans c (Until d) pattern ?del nextCursor w2 bs' u)" for bs u
          by (rule scans_step [OF scan]) (use y ok in simp)
        show ?thesis
        proof (cases "nextCursor = 0")
          case True
          with step scan y ok show ?thesis by (simp add: scan_result_def it)
        next
          case False
          from less [OF less_time, of nextCursor]
          obtain r u where r: "RemovePattern_loop c (Until d) pattern nextCursor w2 = Some (r, u)"
            and cs: "case r of Inl _ \<Rightarrow> \<forall>bs u. \<not> scans c (Until d) pattern ?del nextCursor w2 bs u
              | Inr x \<Rightarrow> \<exists>bs. scans c (Until d) pattern ?del nextCursor w2 bs u \<and> x = ()"
            unfolding scan_result_def by blast
          with step scan y ok False show ?thesis by (cases r) (auto simp: scan_result_def it)
        qed
      qed
    qed
  qed
qed


text \<open>
  A server: the clock, one counter and its expiration. A \<open>SCAN\<close> takes 400 milliseconds; two batches are
  a complete iteration.
\<close>

type_synonym demo_server = "nat \<times> nat \<times> nat option"

fun demo_ttl :: "demo_server \<Rightarrow> string \<Rightarrow> int64" where
  "demo_ttl (n, k, d) key = (if k = 0 then - 2 else case d of None \<Rightarrow> - 1 | Some ms \<Rightarrow> int ms)"

fun demo_scan :: "cmdctx \<Rightarrow> 64 word \<Rightarrow> demo_server \<Rightarrow> (goerr + string list \<times> 64 word) \<times> demo_server" where
  "demo_scan ctx cursor (n, x) =
     (if (case ctx of Until d \<Rightarrow> int n + 400000000 \<le> d | WithTimeout t \<Rightarrow> 400000000 \<le> t)
      then (Inr (if cursor = 0 then ([''a''], 7) else ([''b''], 0)), (n + 400000000, x))
      else (Inl (DriverErr ''context deadline exceeded''), (n, x)))"

definition demo_redis :: "demo_server goredis" where
  "demo_redis =
     \<lparr>gr_Ping = retG (), gr_Get = (\<lambda>_. throwG ErrRedisNil), gr_Exists = (\<lambda>_. retG 0), gr_Set = (\<lambda>_ _ _. retG ()),
      gr_SetNX = (\<lambda>_ _ _. retG True), gr_Run = (\<lambda>m. m),
      gr_Incr = (\<lambda>_ (n, k, d). (Inr (int k + 1), (n, k + 1, if k = 0 then None else d))),
      gr_PTTL = (\<lambda>key w. (Inr (demo_ttl w key), w)),
      gr_PExpire = (\<lambda>_ ms (n, k, d). (Inr (), (n, k, Some (nat ms)))),
      gr_XAdd = (\<lambda>_ _. retG ''1-0''), gr_XGroupCreateMkStream = (\<lambda>_ _ _. retG ()), gr_XReadGroup = (\<lambda>_ _ _ _ _. retG []),
      gr_XAck = (\<lambda>_ _ _. retG ()), gr_XAutoClaim = (\<lambda>_ _ _ _ _ _. throwG ErrRedisNil),
      gr_Del = (\<lambda>ctx _ (n, x). if (case ctx of Until d \<Rightarrow> int n \<le> d | _ \<Rightarrow> True) then (Inr (), (n, x))
                                else (Inl (DriverErr ''context deadline exceeded''), (n, x))),
      gr_Scan = (\<lambda>ctx cursor _ _. demo_scan ctx cursor)\<rparr>"

definition redis_clock :: "demo_server env" where
  "redis_clock = \<lparr>env_fault = (\<lambda>w. (None, w)), env_locked = (\<lambda>w. (\<lambda>_. False, w)), env_now = (\<lambda>w. (int (fst w), w)),
     env_date = (\<lambda>w. ((2025, 1, 2), w)), env_uuid = (\<lambda>w. (''id'', w)), env_rand = (\<lambda>w. (0, w)),
     env_bcrypt = (\<lambda>p w. (Inr p, w))\<rparr>"

lemma demo_timed: "timed redis_clock demo_redis (\<lambda>w. int (fst w))"
  by (auto simp: timed_def demo_redis_def redis_clock_def split: if_splits cmdctx.splits)


section \<open>The counter's expiration\<close>

text \<open>
  What Redis documents of the commands in the script: \<open>PTTL\<close> reads the remaining time of a key
  (\<open>-1\<close> for none, \<open>-2\<close> for no key), a key that \<open>INCR\<close> answered exists, \<open>PEXPIRE\<close> of a positive
  time sets the time of a key that exists; and \<open>Run\<close> returns a value only when the server ran
  the script.
\<close>

definition counter_laws :: "'w goredis \<Rightarrow> ('w \<Rightarrow> string \<Rightarrow> int64) \<Rightarrow> bool" where
  "counter_laws c ttl \<longleftrightarrow>
     (\<forall>key w n w'. gr_Incr c key w = (Inr n, w') \<longrightarrow> ttl w' key \<noteq> - 2) \<and>
     (\<forall>key w n w'. gr_PTTL c key w = (Inr n, w') \<longrightarrow> n = ttl w key \<and> ttl w' key = ttl w key) \<and>
     (\<forall>key ms w u w'. gr_PExpire c key ms w = (Inr u, w') \<and> 0 < ms \<and> ttl w key \<noteq> - 2 \<longrightarrow> 0 \<le> ttl w' key) \<and>
     (\<forall>w key. - 2 \<le> ttl w key) \<and>
     (\<forall>script w n w'. gr_Run c script w = (Inr n, w') \<longrightarrow> (\<exists>v. script v = (Inr n, w')))"

text \<open>
  C20: a counter that \<open>IncrementWithExpiration\<close> answers, given an expiration of at least a
  millisecond, has an expiration afterwards, also when an earlier call lost it: the window of a rate limit or
  of a failure count always ends. Without an expiration, as for the version of the product lists,
  nothing is promised.
\<close>

theorem counter_always_expires:
  assumes "counter_laws c ttl" "rd_cmd r = Some c" "0 < Milliseconds expiration"
    and "redis_IncrementWithExpiration r key expiration s = (Inr n, t)"
  shows "0 \<le> ttl (st_world t) key"
proof -
  from assms(2,4) have "gr_Run c (incrementWithExpirationScript c key (Milliseconds expiration)) (st_world s) = (Inr n, st_world t)"
    by (auto simp: redis_IncrementWithExpiration_def cmdG_def split: prod.splits)
  then obtain v where "incrementWithExpirationScript c key (Milliseconds expiration) v = (Inr n, st_world t)"
    using assms(1) unfolding counter_laws_def by blast
  then obtain cnt w1 tt w2 where i: "gr_Incr c key v = (Inr cnt, w1)" and p: "gr_PTTL c key w1 = (Inr tt, w2)"
    and rest: "(if cnt = 1 \<or> tt = - 1 then bindG (gr_PExpire c key (Milliseconds expiration)) (\<lambda>_. retG cnt)
        else retG cnt) w2 = (Inr n, st_world t)"
    using assms(3) by (auto simp: incrementWithExpirationScript_def bindG_Inr_iff)
  have tt: "tt = ttl w1 key" "ttl w2 key = ttl w1 key" "ttl w1 key \<noteq> - 2" "- 2 \<le> ttl w1 key"
    using assms(1) i p unfolding counter_laws_def by blast+
  show ?thesis
  proof (cases "cnt = 1 \<or> tt = - 1")
    case True
    with rest obtain u where "gr_PExpire c key (Milliseconds expiration) w2 = (Inr u, st_world t)"
      by (auto simp: bindG_Inr_iff retG_iff)
    moreover have "ttl w2 key \<noteq> - 2" using tt by simp
    ultimately show ?thesis using assms(1,3) unfolding counter_laws_def by blast
  next
    case False
    with rest have "w2 = st_world t" by (simp add: retG_iff)
    with tt False show ?thesis by simp
  qed
qed

definition demo_counter_st :: "demo_server st" where
  "demo_counter_st = \<lparr>st_world = (0, 4, None), st_metrics = [], st_users = [], st_products = [], st_inventories = [],
     st_orders = [], st_order_lines = [], st_outbox_events = [], st_carts = [], st_cart_lines = []\<rparr>"

lemma demo_counter_laws: "counter_laws demo_redis demo_ttl"
  by (auto simp: counter_laws_def demo_redis_def split: option.splits)

theorem counter_always_expires_witness:
  "0 \<le> demo_ttl (st_world (snd (redis_IncrementWithExpiration \<lparr>rd_cmd = Some demo_redis, rd_client = Some demo_redis\<rparr>
      ''rl'' 60000000000 demo_counter_st))) ''rl''"
proof (rule counter_always_expires [OF demo_counter_laws])
  show "redis_IncrementWithExpiration \<lparr>rd_cmd = Some demo_redis, rd_client = Some demo_redis\<rparr> ''rl'' 60000000000 demo_counter_st =
      (Inr 5, snd (redis_IncrementWithExpiration \<lparr>rd_cmd = Some demo_redis, rd_client = Some demo_redis\<rparr>
        ''rl'' 60000000000 demo_counter_st))"
    by (simp add: prod_eq_iff redis_IncrementWithExpiration_def cmdG_def demo_redis_def demo_counter_st_def
        incrementWithExpirationScript_def bindG_def retG_def Milliseconds_def)
qed (simp_all add: Milliseconds_def)

section \<open>Decoding\<close>

text \<open>The reply of \<open>XAUTOCLAIM\<close> for a list of entries, in Redis' flat form.\<close>

definition autoclaim_reply :: "string \<Rightarrow> (string \<times> (string \<times> any) list) list \<Rightarrow> any" where
  "autoclaim_reply start entries =
     AList [AStr start,
       AList (map (\<lambda>(i, kvs). AList [AStr i, AList (concat (map (\<lambda>(k, v). [AStr k, v]) kvs))]) entries),
       AList []]"

lemma streamFields_encoded:
  "streamFields (concat (map (\<lambda>(k, v). [AStr k, v]) kvs)) m = Inr (m ++ map_of (rev kvs))"
proof (induction kvs arbitrary: m)
  case (Cons kv kvs)
  then show ?case by (cases kv) (simp add: streamValueToString_def map_add_def fun_eq_iff split: option.splits)
qed simp

lemma length_flat: "length (concat (map (\<lambda>(k, v). [AStr k, v]) kvs)) = 2 * length kvs"
  by (induction kvs) auto

lemma streamFieldValuesToMap_encoded:
  "streamFieldValuesToMap (AList (concat (map (\<lambda>(k, v). [AStr k, v]) kvs))) = Inr (map_of (rev kvs))"
  by (simp add: streamFieldValuesToMap_def length_flat streamFields_encoded)

lemma parseMessages_encoded:
  "parseMessages (map (\<lambda>(i, kvs). AList [AStr i, AList (concat (map (\<lambda>(k, v). [AStr k, v]) kvs))]) entries) =
     Inr (map (\<lambda>(i, kvs). \<lparr>rm_ID = i, rm_Values = map_of (rev kvs)\<rparr>) entries)"
  by (induction entries) (auto simp: streamFieldValuesToMap_encoded streamValueToString_def)

text \<open>
  Decoding inverts Redis' flat encoding of an \<open>XAUTOCLAIM\<close> reply: the entries come back
  in order with their ids and their fields (the last value of a repeated field), together
  with the cursor of the next call, and nothing is rejected.
\<close>

theorem autoclaim_reply_decoded:
  "parseXAutoClaimResult (autoclaim_reply start entries) =
     Inr (map (\<lambda>(i, kvs). \<lparr>rm_ID = i, rm_Values = map_of (rev kvs)\<rparr>) entries, start)"
  by (simp add: parseXAutoClaimResult_def autoclaim_reply_def streamValueToString_def parseMessages_encoded)

end
