(* ===== verification/Publisher.thy ===== *)
theory Publisher
  imports Outbox Redis
begin

text \<open>
  \<open>internal/outbox/service/publisher_worker.go\<close>, the publishers, and what one run of the
  worker does to the outbox table: every claimed event ends as published, as pending with one
  more attempt, or as a dead letter, and no other event changes.
\<close>

section \<open>Publishers\<close>

text \<open>\<open>json.Valid\<close> and the layout \<open>time.RFC3339Nano\<close> of the standard library.\<close>

record stdlib =
  json_Valid :: "string \<Rightarrow> bool"
  time_Format :: "time \<Rightarrow> string"
  time_Parse :: "string \<Rightarrow> goerr + time"

definition DefaultRedisStreamName :: string where "DefaultRedisStreamName = ''stream:orders''"

record 'w RedisStreamPublisher =
  sp_cache :: "'w redis option"
  sp_streamName :: string

definition NewRedisStreamPublisher :: "'w redis option \<Rightarrow> string \<Rightarrow> 'w RedisStreamPublisher" where
  "NewRedisStreamPublisher cache streamName =
     \<lparr>sp_cache = cache, sp_streamName = (if streamName = '''' then DefaultRedisStreamName else streamName)\<rparr>"

definition stream_values :: "stdlib \<Rightarrow> OutboxEvent \<Rightarrow> string \<rightharpoonup> any" where
  "stream_values L event =
     [''event_id'' \<mapsto> AStr (oe_ID event), ''aggregate_type'' \<mapsto> AStr (oe_AggregateType event),
      ''aggregate_id'' \<mapsto> AStr (oe_AggregateID event), ''event_type'' \<mapsto> AStr (oe_EventType event),
      ''payload'' \<mapsto> AStr (if oe_Payload event = '''' then ''null'' else oe_Payload event),
      ''created_at'' \<mapsto> AStr (time_Format L (oe_CreatedAt event))]"

definition RedisStreamPublisher_Publish ::
    "stdlib \<Rightarrow> 'w RedisStreamPublisher \<Rightarrow> OutboxEvent option \<Rightarrow> ('w st, unit) gom" where
  "RedisStreamPublisher_Publish L p event =
     (case sp_cache p of
        None \<Rightarrow> throwG (ErrNew ''redis cache is required'')
      | Some cache \<Rightarrow>
          (case event of
             None \<Rightarrow> throwG (ErrNew ''outbox event is required'')
           | Some ev \<Rightarrow>
               let payload = (if oe_Payload ev = '''' then ''null'' else oe_Payload ev)
               in if \<not> json_Valid L payload then throwG (ErrNew ''outbox event payload must be valid JSON'')
                  else tryG (redis_XAdd cache (sp_streamName p) (stream_values L ev)) (\<lambda>r. case r of
                         Inl err \<Rightarrow> throwG (Wrapf ''publish outbox event to redis stream'' err)
                       | Inr _ \<Rightarrow> retG ())))"

text \<open>The log publisher writes a line to the log, which is not part of the state.\<close>

definition LogPublisher_Publish :: "OutboxEvent option \<Rightarrow> ('w st, unit) gom" where
  "LogPublisher_Publish event = retG ()"

section \<open>The worker\<close>

definition defaultPublisherBatchSize :: int64 where "defaultPublisherBatchSize = 100"

definition defaultPublisherRetryBase :: duration where "defaultPublisherRetryBase = 60000000000"

definition defaultPublisherMaxAttempts :: int64 where "defaultPublisherMaxAttempts = 3"

text \<open>The transactor holds the database; \<open>None\<close> is a nil transactor.\<close>

record 'w PublisherWorker =
  pw_transactor :: "'w env option"
  pw_publisher :: "'w EventPublisher option"
  pw_now :: "'w \<Rightarrow> time \<times> 'w"
  pw_workerID :: string
  pw_batchSize :: int64
  pw_maxAttempts :: int64
  pw_retryBase :: duration
  pw_processingTimeout :: duration

type_synonym 'w PublisherWorkerOption = "'w PublisherWorker \<Rightarrow> 'w PublisherWorker"

record PublishBatchResult =
  pr_Fetched :: int64
  pr_Published :: int64
  pr_Failed :: int64
  pr_DeadLettered :: int64
  pr_Latency :: duration

definition WithPublisherNow :: "('w \<Rightarrow> time \<times> 'w) option \<Rightarrow> 'w PublisherWorkerOption" where
  "WithPublisherNow now w = (case now of Some f \<Rightarrow> w\<lparr>pw_now := f\<rparr> | None \<Rightarrow> w)"

definition WithPublisherBatchSize :: "int64 \<Rightarrow> 'w PublisherWorkerOption" where
  "WithPublisherBatchSize n w = (if 0 < n then w\<lparr>pw_batchSize := n\<rparr> else w)"

definition WithPublisherMaxAttempts :: "int64 \<Rightarrow> 'w PublisherWorkerOption" where
  "WithPublisherMaxAttempts n w = (if 0 < n then w\<lparr>pw_maxAttempts := n\<rparr> else w)"

definition WithPublisherRetryBase :: "duration \<Rightarrow> 'w PublisherWorkerOption" where
  "WithPublisherRetryBase d w = (if 0 < d then w\<lparr>pw_retryBase := d\<rparr> else w)"

definition WithPublisherWorkerID :: "string \<Rightarrow> 'w PublisherWorkerOption" where
  "WithPublisherWorkerID i w = (if i \<noteq> '''' then w\<lparr>pw_workerID := i\<rparr> else w)"

definition WithPublisherProcessingTimeout :: "duration \<Rightarrow> 'w PublisherWorkerOption" where
  "WithPublisherProcessingTimeout d w = (if 0 < d then w\<lparr>pw_processingTimeout := d\<rparr> else w)"

text \<open>\<open>os.Hostname\<close> is an argument.\<close>

definition defaultPublisherWorkerID :: "goerr + string \<Rightarrow> string" where
  "defaultPublisherWorkerID hostname =
     (case hostname of Inl _ \<Rightarrow> ''publisher-worker'' | Inr h \<Rightarrow> if h = '''' then ''publisher-worker'' else h)"

definition NewPublisherWorker ::
    "'w env \<Rightarrow> goerr + string \<Rightarrow> 'w env option \<Rightarrow> 'w EventPublisher option \<Rightarrow> 'w PublisherWorkerOption list \<Rightarrow>
     'w PublisherWorker" where
  "NewPublisherWorker E hostname transactor publisher opts =
     fold (\<lambda>opt w. opt w) opts
       \<lparr>pw_transactor = transactor, pw_publisher = publisher, pw_now = env_now E,
        pw_workerID = defaultPublisherWorkerID hostname, pw_batchSize = defaultPublisherBatchSize,
        pw_maxAttempts = defaultPublisherMaxAttempts, pw_retryBase = defaultPublisherRetryBase,
        pw_processingTimeout = 900000000000\<rparr>"

definition worker_outbox :: "'w PublisherWorker \<Rightarrow> 'w env \<Rightarrow> 'w OutboxRepository \<Rightarrow> 'w OutboxService" where
  "worker_outbox w E repo =
     NewOutboxService E repo
       [WithNow (Some (pw_now w)), WithMaxAttempts (pw_maxAttempts w), WithRetryDelay (pw_retryBase w)]"

definition PublisherWorker_markPublished :: "'w PublisherWorker \<Rightarrow> 'w env \<Rightarrow> string \<Rightarrow> ('w st, unit) gom" where
  "PublisherWorker_markPublished w E eventID =
     Transactor_WithinTransaction E (\<lambda>repo. OutboxService_MarkPublished (worker_outbox w E repo) eventID)"

definition PublisherWorker_recordPublishFailure :: "'w PublisherWorker \<Rightarrow> 'w env \<Rightarrow> OutboxEvent \<Rightarrow> ('w st, unit) gom" where
  "PublisherWorker_recordPublishFailure w E event =
     Transactor_WithinTransaction E (\<lambda>repo. OutboxService_RecordPublishFailure (worker_outbox w E repo) (Some event))"

definition nowG :: "'w PublisherWorker \<Rightarrow> ('w st, time) gom" where
  "nowG w = askG (pw_now w)"

text \<open>The result and the error that \<open>RunOnce\<close> returns together.\<close>

type_synonym publish_outcome = "PublishBatchResult \<times> goerr option"

definition finish :: "'w PublisherWorker \<Rightarrow> time \<Rightarrow> PublishBatchResult \<Rightarrow> goerr option \<Rightarrow> ('w st, publish_outcome) gom" where
  "finish w startedAt result err =
     bindG (nowG w) (\<lambda>now. retG (result\<lparr>pr_Latency := now - startedAt\<rparr>, err))"

text \<open>
  One event of the batch: the new result, and the error that ends the run. \<open>publishFailed\<close> is
  the branch of a publisher that failed, \<open>publishDone\<close> the other.
\<close>

definition publishFailed ::
    "'w PublisherWorker \<Rightarrow> 'w env \<Rightarrow> time \<Rightarrow> OutboxEvent \<Rightarrow> PublishBatchResult \<Rightarrow> ('w st, publish_outcome) gom" where
  "publishFailed w E eventStartedAt event result =
     bindG (nowG w) (\<lambda>now.
     bindG (metricG (RecordOutboxPublishFailure (oe_EventType event) ''publish_error'' (now - eventStartedAt))) (\<lambda>_.
     let result1 = result\<lparr>pr_Failed := pr_Failed result + 1\<rparr>;
         willDeadLetter = pw_maxAttempts w \<le> i64 (oe_Attempts event + 1)
     in tryG (PublisherWorker_recordPublishFailure w E event) (\<lambda>q. case q of
          Inl recordErr \<Rightarrow>
            bindG (metricG (RecordOutboxPublishFailure (oe_EventType event) ''record_publish_failure'' 0)) (\<lambda>_.
            bindG (metricG (RecordOutboxFinalizeFailure (oe_EventType event) ''record_publish_failure'')) (\<lambda>_.
            retG (result1, Some recordErr)))
        | Inr _ \<Rightarrow>
            if willDeadLetter then
              bindG (metricG (RecordOutboxDeadLetter (oe_EventType event) ''publish_exhausted'')) (\<lambda>_.
              retG (result1\<lparr>pr_DeadLettered := pr_DeadLettered result1 + 1\<rparr>, None))
            else retG (result1, None))))"

definition publishDone ::
    "'w PublisherWorker \<Rightarrow> 'w env \<Rightarrow> time \<Rightarrow> OutboxEvent \<Rightarrow> PublishBatchResult \<Rightarrow> ('w st, publish_outcome) gom" where
  "publishDone w E eventStartedAt event result =
     tryG (PublisherWorker_markPublished w E (oe_ID event)) (\<lambda>q. case q of
       Inl err \<Rightarrow>
         bindG (nowG w) (\<lambda>now.
         bindG (metricG (RecordOutboxPublishFailure (oe_EventType event) ''mark_published_failed'' (now - eventStartedAt))) (\<lambda>_.
         bindG (metricG (RecordOutboxFinalizeFailure (oe_EventType event) ''mark_published_failed'')) (\<lambda>_.
         retG (result, Some err))))
     | Inr _ \<Rightarrow>
         bindG (nowG w) (\<lambda>now.
         bindG (metricG (RecordOutboxPublishSuccess (oe_EventType event) (now - eventStartedAt))) (\<lambda>_.
         retG (result\<lparr>pr_Published := pr_Published result + 1\<rparr>, None))))"

definition publishEvent ::
    "'w PublisherWorker \<Rightarrow> 'w env \<Rightarrow> 'w EventPublisher \<Rightarrow> OutboxEvent \<Rightarrow> PublishBatchResult \<Rightarrow>
     ('w st, publish_outcome) gom" where
  "publishEvent w E publish event result =
     bindG (metricG (RecordOutboxClaim (oe_EventType event))) (\<lambda>_.
     bindG (metricG (RecordOutboxPublishAttempt (oe_EventType event))) (\<lambda>_.
     bindG (nowG w) (\<lambda>eventStartedAt.
     tryG (publish event) (\<lambda>r. case r of
       Inl err \<Rightarrow> publishFailed w E eventStartedAt event result
     | Inr _ \<Rightarrow> publishDone w E eventStartedAt event result))))"

fun publishEvents ::
    "'w PublisherWorker \<Rightarrow> 'w env \<Rightarrow> 'w EventPublisher \<Rightarrow> OutboxEvent list \<Rightarrow> PublishBatchResult \<Rightarrow>
     ('w st, publish_outcome) gom" where
  "publishEvents w E publish [] result = retG (result, None)"
| "publishEvents w E publish (event # events) result =
     bindG (publishEvent w E publish event result) (\<lambda>(result1, err).
     case err of Some e \<Rightarrow> retG (result1, Some e) | None \<Rightarrow> publishEvents w E publish events result1)"

definition no_batch :: PublishBatchResult where
  "no_batch = \<lparr>pr_Fetched = 0, pr_Published = 0, pr_Failed = 0, pr_DeadLettered = 0, pr_Latency = 0\<rparr>"

text \<open>
  The claim: the answer of the transaction, and \<open>result.Fetched\<close>, which the closure has set
  when only the commit fails.
\<close>

definition claimBatch :: "'w PublisherWorker \<Rightarrow> 'w env \<Rightarrow> ('w st, (goerr + OutboxEvent list) \<times> int64) gom" where
  "claimBatch w E s =
     (let claim = (\<lambda>repo. OutboxService_ClaimReady (worker_outbox w E repo) (pw_batchSize w) (pw_workerID w)
                            (pw_processingTimeout w));
          (r, t) = Transactor_WithinTransaction E claim s;
          fetched = (case bindG (stmtG E (retG ())) (\<lambda>_. claim (NewOutboxRepository E)) s of
                       (Inr events, _) \<Rightarrow> int (length events) | (Inl _, _) \<Rightarrow> 0)
      in (Inr (r, fetched), t))"

definition PublisherWorker_RunOnce :: "'w PublisherWorker \<Rightarrow> ('w st, publish_outcome) gom" where
  "PublisherWorker_RunOnce w =
     bindG (nowG w) (\<lambda>startedAt.
     case pw_transactor w of
       None \<Rightarrow> retG (no_batch, Some (ErrNew ''outbox transactor is required''))
     | Some E \<Rightarrow>
         (case pw_publisher w of
            None \<Rightarrow> retG (no_batch, Some (ErrNew ''outbox publisher is required''))
          | Some publish \<Rightarrow>
              bindG (claimBatch w E) (\<lambda>(r, fetched).
              let result = no_batch\<lparr>pr_Fetched := fetched\<rparr>
              in case r of
                   Inl err \<Rightarrow>
                     bindG (finish w startedAt result (Some err)) (\<lambda>out.
                     bindG (metricG (RecordOutboxClaimFailure ''claim_error'')) (\<lambda>_. retG out))
                 | Inr events \<Rightarrow>
                     bindG (nowG w) (\<lambda>_.
                     bindG (publishEvents w E publish events result)
                       (\<lambda>(result1, err). finish w startedAt result1 err)))))"

section \<open>What a worker does to the events\<close>

definition others_same :: "'w st \<Rightarrow> 'w st \<Rightarrow> bool" where
  "others_same s t \<longleftrightarrow> same_tables (s\<lparr>st_outbox_events := []\<rparr>) (t\<lparr>st_outbox_events := []\<rparr>)"

lemma others_same_iff: "others_same s t \<longleftrightarrow>
    st_users t = st_users s \<and> st_products t = st_products s \<and> st_inventories t = st_inventories s \<and>
    st_orders t = st_orders s \<and> st_order_lines t = st_order_lines s \<and> st_carts t = st_carts s \<and>
    st_cart_lines t = st_cart_lines s"
  by (auto simp: others_same_def same_tables_iff)

lemma others_same_trans: "others_same s t \<Longrightarrow> others_same t u \<Longrightarrow> others_same s u"
  by (simp add: others_same_iff)

text \<open>The event after a failed attempt.\<close>

definition retried :: "int64 \<Rightarrow> time \<Rightarrow> OutboxEvent \<Rightarrow> OutboxEvent" where
  "retried maxAttempts nextAttemptAt e =
     (if maxAttempts \<le> i64 (oe_Attempts e + 1) then dead_lettered (publish_failed nextAttemptAt e)
      else publish_failed nextAttemptAt e)"

lemma retried_ID [simp]: "oe_ID (retried m tm e) = oe_ID e"
  by (simp add: retried_def)

lemma claim_forgotten [simp]:
  "published tm (claimed now by e) = published tm e" "publish_failed tm (claimed now by e) = publish_failed tm e"
  "retried m tm (claimed now by e) = retried m tm e" "oe_Attempts (claimed now by e) = oe_Attempts e"
  by (simp_all add: published_def claimed_def publish_failed_def retried_def)

definition event_changed :: "(OutboxEvent \<Rightarrow> OutboxEvent) \<Rightarrow> string \<Rightarrow> 'w st \<Rightarrow> 'w st \<Rightarrow> bool" where
  "event_changed f i s t \<longleftrightarrow>
     others_same s t \<and> st_outbox_events t = map (\<lambda>e. if oe_ID e = i then f e else e) (st_outbox_events s)"

lemma event_changed_world:
  "same_tables s u \<Longrightarrow> event_changed f i u v \<Longrightarrow> same_tables v t \<Longrightarrow> event_changed f i s t"
  by (simp add: event_changed_def others_same_iff same_tables_iff)

lemma events_changed_one: "events_changed f {i} s t \<Longrightarrow> event_changed f i s t"
  by (simp add: events_changed_def event_changed_def others_same_iff outbox_only_iff)

lemma worker_outbox_sel [simp]:
  "os_repo (worker_outbox w E repo) = repo" "os_now (worker_outbox w E repo) = pw_now w"
  "os_maxAttempts (worker_outbox w E repo) = (if 0 < pw_maxAttempts w then pw_maxAttempts w else defaultMaxAttempts)"
  by (simp_all add: worker_outbox_def NewOutboxService_def WithNow_def WithMaxAttempts_def WithRetryDelay_def)

lemma events_ok_world: "same_tables s u \<Longrightarrow> events_ok s \<Longrightarrow> events_ok u"
  by (simp add: events_ok_def same_tables_iff)

lemma markPublished_Inr:
  assumes ok: "events_ok s" and run: "PublisherWorker_markPublished w E i s = (Inr u, t)"
  shows "\<exists>tm. event_changed (published tm) i s t"
proof -
  from run obtain s1 t1 where s1: "world_only s s1" and t1: "world_only t1 t"
    and b: "OutboxService_MarkPublished (worker_outbox w E (NewOutboxRepository E)) i s1 = (Inr u, t1)"
    unfolding PublisherWorker_markPublished_def Transactor_WithinTransaction_def by (rule Transaction_Inr)
  from b obtain tm s2 where a: "askG (pw_now w) s1 = (Inr tm, s2)"
    and m: "or_MarkPublished (NewOutboxRepository E) i tm s2 = (Inr u, t1)"
    by (auto simp: OutboxService_MarkPublished_def bindG_Inr_iff)
  have s2: "world_only s1 s2" using keepsGD [OF askG_frame(1) a] .
  have "same_tables s s2" using s1 s2 by (simp add: world_only_iff same_tables_iff)
  moreover from this have "event_changed (published tm) i s2 t1"
    using outbox_repo.published_Inr [OF _ m] ok events_ok_world events_changed_one by blast
  ultimately show ?thesis using t1 event_changed_world by (metis world_only_iff)
qed

text \<open>The worker's copy of an event has the row's number of attempts.\<close>

definition copy_of_row :: "OutboxEvent \<Rightarrow> 'w st \<Rightarrow> bool" where
  "copy_of_row ev s \<longleftrightarrow> (\<forall>x \<in> set (st_outbox_events s). oe_ID x = oe_ID ev \<longrightarrow> oe_Attempts x = oe_Attempts ev)"

lemma copy_of_row_world: "same_tables s u \<Longrightarrow> copy_of_row ev s \<Longrightarrow> copy_of_row ev u"
  by (simp add: copy_of_row_def same_tables_iff)

text \<open>The row after a failed attempt, as the worker's copy decides.\<close>

definition failed_as :: "int64 \<Rightarrow> OutboxEvent \<Rightarrow> time \<Rightarrow> OutboxEvent \<Rightarrow> OutboxEvent" where
  "failed_as maxAttempts ev tm e =
     (if maxAttempts \<le> i64 (oe_Attempts ev + 1) then dead_lettered (publish_failed tm e) else publish_failed tm e)"

lemma failed_as_ID [simp]: "oe_ID (failed_as m ev tm e) = oe_ID e"
  by (simp add: failed_as_def)

lemma RecordPublishFailure_Inr:
  assumes ok: "events_ok s" "0 < pw_maxAttempts w"
    and run: "OutboxService_RecordPublishFailure (worker_outbox w E (NewOutboxRepository E)) (Some ev) s = (Inr u, t)"
  shows "\<exists>tm. event_changed (failed_as (pw_maxAttempts w) ev tm) (oe_ID ev) s t"
proof -
  define dead where "dead = (pw_maxAttempts w \<le> i64 (oe_Attempts ev + 1))"
  from run ok(2) obtain now s1 s2 where a: "askG (pw_now w) s = (Inr now, s1)"
    and f0: "or_MarkPublishFailed (NewOutboxRepository E) (oe_ID ev)
        (now + i64 (i64 (oe_Attempts ev + 1) * os_retryDelay (worker_outbox w E (NewOutboxRepository E)))) s1 = (Inr (), s2)"
    and d: "(if dead then or_MarkDeadLetter (NewOutboxRepository E) (oe_ID ev) else retG ()) s2 = (Inr u, t)"
    by (auto simp: OutboxService_RecordPublishFailure_def Let_def bindG_Inr_iff dead_def cong: if_cong)
  obtain tm where f: "or_MarkPublishFailed (NewOutboxRepository E) (oe_ID ev) tm s1 = (Inr (), s2)" using f0 by blast
  have s1: "world_only s s1" using keepsGD [OF askG_frame(1) a] .
  have ok1: "events_ok s1" by (rule events_ok_world [OF _ ok(1)]) (use s1 in \<open>simp add: world_only_iff\<close>)
  from outbox_repo.failed_Inr [OF ok1 f] have c1: "events_changed (publish_failed tm) {oe_ID ev} s1 s2" by simp
  have ok2: "events_ok s2" using events_changed_ok(2) [OF c1] ok1 by simp
  have eq: "st_outbox_events s1 = st_outbox_events s" "others_same s s1"
    using s1 by (simp_all add: world_only_iff same_tables_iff others_same_iff)
  show ?thesis
  proof (cases dead)
    case True
    with d outbox_repo.dead_Inr [OF ok2] have c2: "events_changed dead_lettered {oe_ID ev} s2 t" by auto
    from c1 c2 eq True show ?thesis
      by (intro exI [of _ tm])
        (auto simp: event_changed_def events_changed_def outbox_only_iff others_same_iff failed_as_def dead_def)
  next
    case False
    with d have "t = s2" by (simp add: gom)
    with c1 eq False show ?thesis
      by (intro exI [of _ tm])
        (auto simp: event_changed_def events_changed_def outbox_only_iff others_same_iff failed_as_def dead_def)
  qed
qed

lemma recordPublishFailure_steps:
  assumes ok: "events_ok s" "0 < pw_maxAttempts w"
    and run: "PublisherWorker_recordPublishFailure w E ev s = (Inr u, t)"
  shows "\<exists>tm. event_changed (failed_as (pw_maxAttempts w) ev tm) (oe_ID ev) s t"
proof -
  from run obtain s1 t1 where s1: "world_only s s1" and t1: "world_only t1 t"
    and b: "OutboxService_RecordPublishFailure (worker_outbox w E (NewOutboxRepository E)) (Some ev) s1 = (Inr u, t1)"
    unfolding PublisherWorker_recordPublishFailure_def Transactor_WithinTransaction_def by (rule Transaction_Inr)
  have st: "same_tables s s1" using s1 by (simp add: world_only_iff)
  from RecordPublishFailure_Inr [OF events_ok_world [OF st ok(1)] ok(2) b]
  obtain tm where "event_changed (failed_as (pw_maxAttempts w) ev tm) (oe_ID ev) s1 t1" by blast
  with s1 t1 show ?thesis by (metis event_changed_world world_only_iff)
qed

lemma recordPublishFailure_Inr:
  assumes ok: "events_ok s" "0 < pw_maxAttempts w"
    and e: "copy_of_row ev s"
    and run: "PublisherWorker_recordPublishFailure w E ev s = (Inr u, t)"
  shows "\<exists>tm. event_changed (retried (pw_maxAttempts w) tm) (oe_ID ev) s t"
proof -
  from recordPublishFailure_steps [OF ok run] obtain tm where
    c: "event_changed (failed_as (pw_maxAttempts w) ev tm) (oe_ID ev) s t" by blast
  have "(\<lambda>x. if oe_ID x = oe_ID ev then failed_as (pw_maxAttempts w) ev tm x else x) x =
      (\<lambda>x. if oe_ID x = oe_ID ev then retried (pw_maxAttempts w) tm x else x) x"
    if "x \<in> set (st_outbox_events s)" for x
    using e that by (simp add: retried_def failed_as_def copy_of_row_def)
  then have "map (\<lambda>x. if oe_ID x = oe_ID ev then failed_as (pw_maxAttempts w) ev tm x else x) (st_outbox_events s) =
      map (\<lambda>x. if oe_ID x = oe_ID ev then retried (pw_maxAttempts w) tm x else x) (st_outbox_events s)"
    by (intro map_cong) auto
  with c show ?thesis by (auto simp: event_changed_def intro!: exI [of _ tm])
qed

lemma finalize_Inl:
  "PublisherWorker_markPublished w E i s = (Inl e, t) \<Longrightarrow> same_tables s t"
  "PublisherWorker_recordPublishFailure w E ev s = (Inl e, t) \<Longrightarrow> same_tables s t"
  unfolding PublisherWorker_markPublished_def PublisherWorker_recordPublishFailure_def Transactor_WithinTransaction_def
  by (erule Transaction_Inl)+

lemma event_changed_metrics [simp]:
  "event_changed f i s (t\<lparr>st_metrics := m\<rparr>) = event_changed f i s t"
  by (simp add: event_changed_def others_same_iff)

lemma bind_steps:
  "bindG (metricG m) f s = f () (s\<lparr>st_metrics := m (st_metrics s)\<rparr>)"
  "bindG (nowG w) g s = g (fst (pw_now w (st_world s))) (s\<lparr>st_world := snd (pw_now w (st_world s))\<rparr>)"
  by (simp_all add: bindG_def metricG_def nowG_def askG_def split: prod.splits)

lemma finish_result:
  "finish w startedAt res err s = (r, t) \<Longrightarrow>
     same_tables s t \<and> (\<exists>d. r = Inr (res\<lparr>pr_Latency := d\<rparr>, err))"
  by (auto simp: finish_def bind_steps retG_def)

text \<open>One event is finalized, or the run ends with an error and the tables are unchanged.\<close>

definition counted :: "PublishBatchResult \<Rightarrow> int64 \<Rightarrow> int64 \<Rightarrow> int64 \<Rightarrow> PublishBatchResult \<Rightarrow> bool" where
  "counted res p f d res' \<longleftrightarrow>
     pr_Fetched res' = pr_Fetched res \<and> pr_Published res' = pr_Published res + p \<and>
     pr_Failed res' = pr_Failed res + f \<and> pr_DeadLettered res' = pr_DeadLettered res + d"

lemma publishFailed_effect:
  assumes ok: "events_ok s" "0 < pw_maxAttempts w"
    and e: "copy_of_row ev s"
    and run: "publishFailed w E t0 ev res s = (r, t)"
  obtains recordErr res' where "r = Inr (res', Some recordErr)" "same_tables s t" "counted res 0 1 0 res'"
  | tm res' where "r = Inr (res', None)" "event_changed (retried (pw_maxAttempts w) tm) (oe_ID ev) s t"
      "counted res 0 1 (if pw_maxAttempts w \<le> i64 (oe_Attempts ev + 1) then 1 else 0) res'"
proof -
  define s1 where "s1 = s\<lparr>st_world := snd (pw_now w (st_world s)),
     st_metrics := RecordOutboxPublishFailure (oe_EventType ev) ''publish_error'' (fst (pw_now w (st_world s)) - t0) (st_metrics s)\<rparr>"
  obtain q s2 where m: "PublisherWorker_recordPublishFailure w E ev s1 = (q, s2)" by fastforce
  have s1: "same_tables s s1" by (simp add: s1_def same_tables_iff)
  have e1: "copy_of_row ev s1" by (rule copy_of_row_world [OF s1 e])
  show thesis
  proof (cases q)
    case (Inl recordErr)
    with run m have r: "r = Inr (res\<lparr>pr_Failed := pr_Failed res + 1\<rparr>, Some recordErr)" "same_tables s2 t"
      by (auto simp: publishFailed_def bind_steps tryG_def Let_def retG_def s1_def same_tables_iff)
    from r(2) finalize_Inl(2) [OF m [unfolded Inl]] s1 have "same_tables s t" by (simp add: same_tables_iff)
    then show thesis by (rule that(1) [OF r(1)]) (simp add: counted_def)
  next
    case (Inr x)
    from recordPublishFailure_Inr [OF events_ok_world [OF s1 ok(1)] ok(2) e1 m [unfolded Inr]]
    obtain tm where c: "event_changed (retried (pw_maxAttempts w) tm) (oe_ID ev) s1 s2" by blast
    obtain res' where "r = Inr (res', None)" "same_tables s2 t"
      "counted res 0 1 (if pw_maxAttempts w \<le> i64 (oe_Attempts ev + 1) then 1 else 0) res'"
      using run m Inr
      by (auto simp: publishFailed_def bind_steps tryG_def Let_def retG_def s1_def counted_def same_tables_iff split: if_splits)
    with event_changed_world [OF s1 c] that(2) show thesis by blast
  qed
qed

lemma publishDone_effect:
  assumes ok: "events_ok s" and run: "publishDone w E t0 ev res s = (r, t)"
  obtains err res' where "r = Inr (res', Some err)" "same_tables s t" "counted res 0 0 0 res'"
  | tm res' where "r = Inr (res', None)" "event_changed (published tm) (oe_ID ev) s t" "counted res 1 0 0 res'"
proof -
  obtain q s2 where m: "PublisherWorker_markPublished w E (oe_ID ev) s = (q, s2)" by fastforce
  show thesis
  proof (cases q)
    case (Inl err)
    with run m have r: "r = Inr (res, Some err)" "same_tables s2 t"
      by (auto simp: publishDone_def bind_steps tryG_def retG_def same_tables_iff)
    from r(2) finalize_Inl(1) [OF m [unfolded Inl]] have "same_tables s t" by (simp add: same_tables_iff)
    then show thesis by (rule that(1) [OF r(1)]) (simp add: counted_def)
  next
    case (Inr x)
    from markPublished_Inr [OF ok m [unfolded Inr]] obtain tm where c: "event_changed (published tm) (oe_ID ev) s s2" by blast
    from run m Inr have r: "r = Inr (res\<lparr>pr_Published := pr_Published res + 1\<rparr>, None)" "same_tables s2 t"
      by (auto simp: publishDone_def bind_steps tryG_def retG_def same_tables_iff)
    from event_changed_world [OF same_tables_refl c r(2)] show thesis
      by (rule that(2) [OF r(1)]) (simp add: counted_def)
  qed
qed

text \<open>
  The contract of a publisher beside a worker \<open>w\<close> and its database: it does not touch the
  tables, and the event it was given is delivered when it answers no error. What delivery
  means is the predicate \<open>dn\<close> on the outside world; no step of the worker takes it back.
\<close>

definition kept :: "(OutboxEvent \<Rightarrow> 'w \<Rightarrow> bool) \<Rightarrow> OutboxEvent \<Rightarrow> 'w st \<Rightarrow> 'w st \<Rightarrow> bool" where
  "kept dn ev s t \<longleftrightarrow> (dn ev (st_world s) \<longrightarrow> dn ev (st_world t))"

lemma reflp_kept [simp]: "reflp (kept dn ev)"
  by (simp add: reflp_def kept_def)

lemma transp_kept [simp]: "transp (kept dn ev)"
  by (auto simp: transp_def kept_def)

lemmas keeping = framing keepsG_bind [OF transp_kept] keepsG_try [OF transp_kept] keepsG_for [OF reflp_kept transp_kept]

lemma metricG_kept [simp]: "keepsG (kept dn ev) (metricG f)"
  by (auto intro!: keepsGI simp: gom kept_def)

locale event_publisher =
  fixes publish :: "'w EventPublisher"
    and dn :: "OutboxEvent \<Rightarrow> 'w \<Rightarrow> bool"
    and w :: "'w PublisherWorker"
    and E :: "'w env"
  assumes publish_frame: "keepsG world_only (publish ev)"
    and delivers: "publish ev s = (Inr u, t) \<Longrightarrow> dn ev (st_world t)"
    and kept_publish [simp]: "keepsG (kept dn ev) (publish ev')"
    and kept_now [simp]: "keepsG (kept dn ev) (nowG w)"
    and kept_markPublished [simp]: "keepsG (kept dn ev) (PublisherWorker_markPublished w E i)"
    and kept_recordPublishFailure [simp]: "keepsG (kept dn ev) (PublisherWorker_recordPublishFailure w E ev')"
begin

lemma kept_publishDone: "keepsG (kept dn ev) (publishDone w E t0 ev' res)"
  unfolding publishDone_def by (auto intro!: keeping)

lemma kept_publishFailed: "keepsG (kept dn ev) (publishFailed w E t0 ev' res)"
  unfolding publishFailed_def Let_def by (auto intro!: keeping)

lemma kept_publishEvent: "keepsG (kept dn ev) (publishEvent w E publish ev' res)"
  unfolding publishEvent_def by (auto intro!: keeping kept_publishDone kept_publishFailed)

lemma kept_publishEvents: "keepsG (kept dn ev) (publishEvents w E publish evs res)"
  by (induction evs arbitrary: res) (auto intro!: keeping kept_publishEvent)

lemma kept_finish: "keepsG (kept dn ev) (finish w startedAt res err)"
  unfolding finish_def by (auto intro!: keeping)

lemma publish_step: "publish ev s = (r, t) \<Longrightarrow> same_tables s t"
  using keepsGD [OF publish_frame] by (simp add: world_only_iff)

lemma publishEvent_effect:
  assumes ok: "events_ok s" "0 < pw_maxAttempts w"
    and e: "copy_of_row ev s"
    and run: "publishEvent w E publish ev res s = (r, t)"
  obtains err res' f where "r = Inr (res', Some err)" "same_tables s t" "counted res 0 f 0 res'" "f = 0 \<or> f = 1"
  | tm res' where "r = Inr (res', None)" "event_changed (published tm) (oe_ID ev) s t" "counted res 1 0 0 res'"
      "dn ev (st_world t)"
  | tm res' where "r = Inr (res', None)" "event_changed (retried (pw_maxAttempts w) tm) (oe_ID ev) s t"
      "counted res 0 1 (if pw_maxAttempts w \<le> i64 (oe_Attempts ev + 1) then 1 else 0) res'"
proof -
  define s1 where "s1 = s\<lparr>st_metrics := RecordOutboxPublishAttempt (oe_EventType ev)
     (RecordOutboxClaim (oe_EventType ev) (st_metrics s)), st_world := snd (pw_now w (st_world s))\<rparr>"
  define t0 where "t0 = fst (pw_now w (st_world s))"
  have s1: "same_tables s s1" by (simp add: s1_def same_tables_iff)
  obtain q s2 where p: "publish ev s1 = (q, s2)" by fastforce
  have rest: "(case q of Inl err \<Rightarrow> publishFailed w E t0 ev res | Inr _ \<Rightarrow> publishDone w E t0 ev res) s2 = (r, t)"
    using run p by (simp add: publishEvent_def bind_steps tryG_def s1_def t0_def [symmetric])
  have st: "same_tables s s2" using s1 publish_step [OF p] by (simp add: same_tables_iff)
  have ok2: "events_ok s2" by (rule events_ok_world [OF st ok(1)])
  have e2: "copy_of_row ev s2" by (rule copy_of_row_world [OF st e])
  have t1: "same_tables s2 t \<Longrightarrow> same_tables s t" using st by (simp add: same_tables_iff)
  note lift = event_changed_world [OF st _ same_tables_refl]
  show thesis
  proof (cases q)
    case (Inl e)
    with rest have "publishFailed w E t0 ev res s2 = (r, t)" by simp
    then show thesis
      by (rule publishFailed_effect [OF ok2 ok(2) e2]) (use that(1,3) t1 lift in blast)+
  next
    case (Inr x)
    with rest have d: "publishDone w E t0 ev res s2 = (r, t)" by simp
    have "dn ev (st_world t)"
      using keepsGD [OF kept_publishDone d, of ev] delivers p Inr unfolding kept_def by blast
    note dn = this
    from d show thesis
    proof (rule publishDone_effect [OF ok2])
      fix err res' assume "r = Inr (res', Some err)" "same_tables s2 t" "counted res 0 0 0 res'"
      then show thesis using that(1) t1 by blast
    next
      fix tm res' assume a: "r = Inr (res', None)" "event_changed (published tm) (oe_ID ev) s2 t" "counted res 1 0 0 res'"
      show thesis by (rule that(2) [OF a(1) lift [OF a(2)] a(3) dn])
    qed
  qed
qed

end

section \<open>A batch\<close>

text \<open>
  The events \<open>P\<close> are published, the events \<open>F\<close> have failed once more, every other event and
  every other table is as it was.
\<close>

definition batch_effect :: "int64 \<Rightarrow> (string \<Rightarrow> time) \<Rightarrow> string set \<Rightarrow> string set \<Rightarrow> 'w st \<Rightarrow> 'w st \<Rightarrow> bool" where
  "batch_effect m tm P F s t \<longleftrightarrow>
     others_same s t \<and>
     st_outbox_events t = map (\<lambda>e. if oe_ID e \<in> P then published (tm (oe_ID e)) e
                                   else if oe_ID e \<in> F then retried m (tm (oe_ID e)) e else e) (st_outbox_events s)"

lemma batch_effect_none: "same_tables s t \<Longrightarrow> batch_effect m tm {} {} s t"
  by (simp add: batch_effect_def same_tables_iff others_same_iff)

lemma batch_effect_published:
  assumes "event_changed (published x) i s u" "batch_effect m tm P F u t" "i \<notin> P \<union> F"
  shows "batch_effect m (tm(i := x)) (insert i P) F s t"
  using assms by (auto simp: batch_effect_def event_changed_def others_same_iff)

lemma batch_effect_retried:
  assumes "event_changed (retried m x) i s u" "batch_effect m tm P F u t" "i \<notin> P \<union> F"
  shows "batch_effect m (tm(i := x)) P (insert i F) s t"
  using assms by (auto simp: batch_effect_def event_changed_def others_same_iff)

lemma event_changed_keeps:
  assumes c: "event_changed f i s u" and f: "\<And>e. oe_ID (f e) = oe_ID e"
  shows "events_ok s \<Longrightarrow> events_ok u" "oe_ID ev \<noteq> i \<Longrightarrow> copy_of_row ev s \<Longrightarrow> copy_of_row ev u"
proof -
  have u: "st_outbox_events u = map (\<lambda>e. if oe_ID e = i then f e else e) (st_outbox_events s)"
    using c by (simp add: event_changed_def)
  have "map oe_ID (st_outbox_events u) = map oe_ID (st_outbox_events s)" by (simp add: u f)
  then show "events_ok s \<Longrightarrow> events_ok u" by (simp add: events_ok_def)
  show "oe_ID ev \<noteq> i \<Longrightarrow> copy_of_row ev s \<Longrightarrow> copy_of_row ev u"
    by (auto simp: copy_of_row_def u f)
qed

definition dead_letters :: "int64 \<Rightarrow> string set \<Rightarrow> OutboxEvent list \<Rightarrow> int" where
  "dead_letters m F evs = int (length (filter (\<lambda>ev. oe_ID ev \<in> F \<and> m \<le> i64 (oe_Attempts ev + 1)) evs))"

text \<open>The outcome of a batch: on an error the events after the failing one are untouched.\<close>

definition batch_outcome ::
    "int64 \<Rightarrow> (OutboxEvent \<Rightarrow> 'w \<Rightarrow> bool) \<Rightarrow> OutboxEvent list \<Rightarrow> PublishBatchResult \<Rightarrow> 'w st \<Rightarrow> PublishBatchResult \<Rightarrow> goerr option \<Rightarrow> string set \<Rightarrow> string set \<Rightarrow> 'w st \<Rightarrow> bool" where
  "batch_outcome m dn evs res s res' err P F t \<longleftrightarrow>
     (\<forall>ev \<in> set evs. oe_ID ev \<in> P \<longrightarrow> dn ev (st_world t)) \<and>
     P \<union> F \<subseteq> oe_ID ` set evs \<and> P \<inter> F = {} \<and> (err = None \<longrightarrow> P \<union> F = oe_ID ` set evs) \<and>
     (\<exists>tm. batch_effect m tm P F s t) \<and>
     (\<exists>f. counted res (int (card P)) (int (card F) + f) (dead_letters m F evs) res' \<and>
        (if err = None then f = 0 else f = 0 \<or> f = 1))"

lemma counted_trans:
  "counted r p f d r' \<Longrightarrow> counted r' p' f' d' r'' \<Longrightarrow> counted r (p + p') (f + f') (d + d') r''"
  by (simp add: counted_def)

lemma dead_letters_other: "oe_ID ev \<notin> F \<Longrightarrow> dead_letters m F (ev # evs) = dead_letters m F evs"
  by (simp add: dead_letters_def)

lemma dead_letters_insert:
  assumes "oe_ID ev \<notin> oe_ID ` set evs"
  shows "dead_letters m (insert (oe_ID ev) F) (ev # evs) =
     (if m \<le> i64 (oe_Attempts ev + 1) then 1 else 0) + dead_letters m F evs"
proof -
  have "filter (\<lambda>x. oe_ID x \<in> insert (oe_ID ev) F \<and> m \<le> i64 (oe_Attempts x + 1)) evs =
      filter (\<lambda>x. oe_ID x \<in> F \<and> m \<le> i64 (oe_Attempts x + 1)) evs"
  proof (intro filter_cong refl)
    fix x assume "x \<in> set evs"
    then have "oe_ID x \<noteq> oe_ID ev" using assms by (metis imageI)
    then show "(oe_ID x \<in> insert (oe_ID ev) F \<and> m \<le> i64 (oe_Attempts x + 1)) =
        (oe_ID x \<in> F \<and> m \<le> i64 (oe_Attempts x + 1))" by simp
  qed
  then show ?thesis by (simp add: dead_letters_def)
qed

lemma batch_outcome_stop:
  assumes "same_tables s t" "counted res 0 f 0 res'" "f = 0 \<or> f = 1"
  shows "batch_outcome m dn evs res s res' (Some e) {} {} t"
  using assms batch_effect_none [OF assms(1)] by (auto simp: batch_outcome_def dead_letters_def)

lemma batch_outcome_published:
  assumes c: "event_changed (published x) (oe_ID ev) s u" "counted res 1 0 0 res1"
    and d: "oe_ID ev \<notin> oe_ID ` set evs" and b: "batch_outcome m dn evs res1 u res' err P F t"
    and dn: "dn ev (st_world t)"
  shows "batch_outcome m dn (ev # evs) res s res' err (insert (oe_ID ev) P) F t"
proof -
  have "\<forall>x \<in> set (ev # evs). oe_ID x \<in> insert (oe_ID ev) P \<longrightarrow> dn x (st_world t)"
  proof
    fix x assume x: "x \<in> set (ev # evs)"
    show "oe_ID x \<in> insert (oe_ID ev) P \<longrightarrow> dn x (st_world t)"
    proof (cases "x = ev")
      case False
      then have "x \<in> set evs" using x by simp
      then have "oe_ID x \<noteq> oe_ID ev" using d by (metis imageI)
      with \<open>x \<in> set evs\<close> b show ?thesis by (simp add: batch_outcome_def)
    qed (use dn in simp)
  qed
  note dns = this
  from b have sub: "P \<union> F \<subseteq> oe_ID ` set evs" by (simp add: batch_outcome_def)
  then have n: "oe_ID ev \<notin> P \<union> F" using d by blast
  from b obtain tm f where "batch_effect m tm P F u t"
    "counted res1 (int (card P)) (int (card F) + f) (dead_letters m F evs) res'" "if err = None then f = 0 else f = 0 \<or> f = 1"
    by (auto simp: batch_outcome_def)
  note bf = this
  have "finite P" using sub finite_subset by fastforce
  then have "counted res (int (card (insert (oe_ID ev) P))) (int (card F) + f) (dead_letters m F (ev # evs)) res'"
    using counted_trans [OF c(2) bf(2)] n by (simp add: dead_letters_other)
  with batch_effect_published [OF c(1) bf(1) n] bf(3) b n dns show ?thesis
    unfolding batch_outcome_def by (intro conjI) auto
qed

lemma batch_outcome_retried:
  assumes c: "event_changed (retried m x) (oe_ID ev) s u"
      "counted res 0 1 (if m \<le> i64 (oe_Attempts ev + 1) then 1 else 0) res1"
    and d: "oe_ID ev \<notin> oe_ID ` set evs" and b: "batch_outcome m dn evs res1 u res' err P F t"
  shows "batch_outcome m dn (ev # evs) res s res' err P (insert (oe_ID ev) F) t"
proof -
  from b have sub: "P \<union> F \<subseteq> oe_ID ` set evs" by (simp add: batch_outcome_def)
  then have n: "oe_ID ev \<notin> P \<union> F" using d by blast
  from b obtain tm f where "batch_effect m tm P F u t"
    "counted res1 (int (card P)) (int (card F) + f) (dead_letters m F evs) res'" "if err = None then f = 0 else f = 0 \<or> f = 1"
    by (auto simp: batch_outcome_def)
  note bf = this
  have "finite F" using sub finite_subset by fastforce
  then have "counted res (int (card P)) (int (card (insert (oe_ID ev) F)) + f)
      (dead_letters m (insert (oe_ID ev) F) (ev # evs)) res'"
    using counted_trans [OF c(2) bf(2)] n by (simp add: dead_letters_insert [OF d] algebra_simps)
  with batch_effect_retried [OF c(1) bf(1) n] bf(3) b n show ?thesis
    unfolding batch_outcome_def by (intro conjI) auto
qed

context event_publisher
begin

lemma publishEvents_outcome:
  assumes "events_ok s" "0 < pw_maxAttempts w" "distinct (map oe_ID evs)" "\<forall>ev \<in> set evs. copy_of_row ev s"
    and "publishEvents w E publish evs res s = (r, t)"
  shows "\<exists>res' err P F. r = Inr (res', err) \<and> batch_outcome (pw_maxAttempts w) dn evs res s res' err P F t"
  using assms
proof (induction evs arbitrary: s res)
  case Nil
  then have "r = Inr (res, None)" "t = s" by (simp_all add: gom)
  moreover have "batch_outcome (pw_maxAttempts w) dn [] res s res None {} {} s"
    using batch_effect_none [of s s] by (auto simp: batch_outcome_def counted_def dead_letters_def)
  ultimately show ?case by blast
next
  case (Cons ev evs)
  let ?m = "pw_maxAttempts w"
  obtain q u where q: "publishEvent w E publish ev res s = (q, u)" by fastforce
  have d: "oe_ID ev \<notin> oe_ID ` set evs" "distinct (map oe_ID evs)" using Cons.prems(3) by simp_all
  have e: "copy_of_row ev s" using Cons.prems(4) by simp
  have go: "\<exists>res' err P F. r = Inr (res', err) \<and> batch_outcome ?m dn evs res1 u res' err P F t"
    if "q = Inr (res1, None)" "event_changed f (oe_ID ev) s u" "\<And>e. oe_ID (f e) = oe_ID e" for res1 f
  proof (rule Cons.IH)
    show "events_ok u" by (rule event_changed_keeps(1) [OF that(2,3) Cons.prems(1)])
    show "\<forall>x \<in> set evs. copy_of_row x u"
    proof
      fix x assume x: "x \<in> set evs"
      then have "oe_ID x \<noteq> oe_ID ev" using d(1) by (metis imageI)
      moreover have "copy_of_row x s" using Cons.prems(4) x by simp
      ultimately show "copy_of_row x u" using event_changed_keeps(2) [OF that(2,3)] by blast
    qed
    show "publishEvents w E publish evs res1 u = (r, t)" using Cons.prems(5) q that(1) by (simp add: bindG_def)
  qed (use Cons.prems(2) d(2) in simp_all)
  from q show ?case
  proof (rule publishEvent_effect [OF Cons.prems(1,2) e])
    fix err res' f
    assume a: "q = Inr (res', Some err)" "same_tables s u" "counted res 0 f 0 res'" "f = 0 \<or> f = 1"
    then have "r = Inr (res', Some err)" "t = u" using Cons.prems(5) q by (auto simp: bindG_def retG_def)
    with batch_outcome_stop [OF a(2,3,4)] show ?thesis by blast
  next
    fix tm res1
    assume a: "q = Inr (res1, None)" "event_changed (published tm) (oe_ID ev) s u" "counted res 1 0 0 res1" "dn ev (st_world u)"
    have "publishEvents w E publish evs res1 u = (r, t)" using Cons.prems(5) q a(1) by (simp add: bindG_def)
    from keepsGD [OF kept_publishEvents this, of ev] a(4) have "dn ev (st_world t)" by (simp add: kept_def)
    with go [OF a(1,2)] batch_outcome_published [OF a(2,3) d(1)] show ?thesis by fastforce
  next
    fix tm res1
    assume a: "q = Inr (res1, None)" "event_changed (retried ?m tm) (oe_ID ev) s u"
      "counted res 0 1 (if ?m \<le> i64 (oe_Attempts ev + 1) then 1 else 0) res1"
    from go [OF a(1,2)] batch_outcome_retried [OF a(2,3) d(1)] show ?thesis by fastforce
  qed
qed

end

section \<open>A run\<close>

text \<open>
  \<open>sel\<close> are the events that the run claimed at \<open>now\<close>, all of them due or abandoned; \<open>P\<close> are
  published, \<open>F\<close> wait for the next attempt or are dead letters, the rest of \<open>sel\<close> stays
  leased to this worker; every other row is as it was.
\<close>

definition worker_effect ::
    "'w PublisherWorker \<Rightarrow> OutboxEvent list \<Rightarrow> string set \<Rightarrow> string set \<Rightarrow> 'w st \<Rightarrow> 'w st \<Rightarrow> bool" where
  "worker_effect w sel P F s t \<longleftrightarrow>
     others_same s t \<and> distinct (map oe_ID sel) \<and> length sel \<le> nat (default_limit (pw_batchSize w)) \<and>
     P \<union> F \<subseteq> oe_ID ` set sel \<and> P \<inter> F = {} \<and>
     (\<exists>now by tm. set sel \<subseteq> {e \<in> set (st_outbox_events s). claimable now (now - pw_processingTimeout w) e} \<and>
        st_outbox_events t =
          map (\<lambda>e. if oe_ID e \<in> P then published (tm (oe_ID e)) e
                   else if oe_ID e \<in> F then retried (pw_maxAttempts w) (tm (oe_ID e)) e
                   else if oe_ID e \<in> oe_ID ` set sel then claimed now by e
                   else e) (st_outbox_events s))"

lemma Transaction_begin:
  assumes "WithTransactionContext E body s = (Inr x, t)"
  obtains u v where "stmtG E (retG ()) s = (Inr (), u)" "body u = (Inr x, v)" "world_only v t"
proof -
  from assms obtain u where b: "stmtG E (retG ()) s = (Inr (), u)"
    and rest: "(case body u of (Inl e, t) \<Rightarrow> (Inl e, rollback u t)
       | (Inr x, t) \<Rightarrow> (case stmtG E (retG ()) t of
              (Inl e, u') \<Rightarrow> (Inl e, rollback u u') | (Inr _, u') \<Rightarrow> (Inr x, u'))) = (Inr x, t)"
    by (auto simp: WithTransactionContext_def bindG_Inr_iff)
  from rest obtain v where "body u = (Inr x, v)" "stmtG E (retG ()) v = (Inr (), t)"
    by (auto split: prod.splits sum.splits)
  with that begin_commit_frame b show ?thesis by blast
qed

lemma claimBatch_result:
  assumes ok: "events_ok s" and run: "claimBatch w E s = (r, t)"
  shows "\<exists>q fetched. r = Inr (q, fetched) \<and>
     (case q of
        Inl e \<Rightarrow> same_tables s t
      | Inr events \<Rightarrow> fetched = int (length events) \<and>
          (\<exists>now by sel. events = map (claimed now by) sel \<and> distinct (map oe_ID sel) \<and>
             set sel \<subseteq> {e \<in> set (st_outbox_events s). claimable now (now - pw_processingTimeout w) e} \<and>
             length sel \<le> nat (default_limit (pw_batchSize w)) \<and> others_same s t \<and>
             st_outbox_events t = map (\<lambda>e. if oe_ID e \<in> oe_ID ` set sel then claimed now by e else e) (st_outbox_events s)))"
proof -
  define claim where "claim repo = OutboxService_ClaimReady (worker_outbox w E repo) (pw_batchSize w) (pw_workerID w)
    (pw_processingTimeout w)" for repo
  obtain q t' where q: "Transactor_WithinTransaction E claim s = (q, t')" by fastforce
  from run q have t: "t' = t" and r: "r = Inr (q, case bindG (stmtG E (retG ())) (\<lambda>_. claim (NewOutboxRepository E)) s of
      (Inr events, _) \<Rightarrow> int (length events) | (Inl _, _) \<Rightarrow> 0)"
    by (auto simp: claimBatch_def claim_def [abs_def])
  show ?thesis
  proof (cases q)
    case (Inl e)
    with q t have "same_tables s t" unfolding Transactor_WithinTransaction_def by (blast intro: Transaction_Inl)
    with r Inl show ?thesis by simp
  next
    case (Inr events)
    from q Inr obtain u v where c: "claim (NewOutboxRepository E) u = (Inr events, v)"
      and v: "world_only v t'" and b: "stmtG E (retG ()) s = (Inr (), u)"
      unfolding Transactor_WithinTransaction_def by (blast elim: Transaction_begin)
    have u: "world_only s u" by (rule begin_commit_frame [OF b])
    from c obtain now u1 where a: "askG (pw_now w) u = (Inr now, u1)"
      and cr: "or_ClaimReady (NewOutboxRepository E) now (pw_batchSize w) (pw_workerID w) (now - pw_processingTimeout w) u1 =
        (Inr events, v)"
      by (auto simp: claim_def OutboxService_ClaimReady_def bindG_Inr_iff)
    have su: "same_tables s u1" using u keepsGD [OF askG_frame(1) a] by (simp add: world_only_iff same_tables_iff)
    from outbox_repo.claim_Inr [OF events_ok_world [OF su ok] cr] obtain sel by'
      where sel: "events = map (claimed now by') sel" "distinct (map oe_ID sel)"
        "set sel \<subseteq> {e \<in> set (st_outbox_events u1). claimable now (now - pw_processingTimeout w) e}"
        "length sel \<le> nat (default_limit (pw_batchSize w))" "events_changed (claimed now by') (oe_ID ` set sel) u1 v"
      by blast
    have "others_same s t \<and> st_outbox_events t =
        map (\<lambda>e. if oe_ID e \<in> oe_ID ` set sel then claimed now by' e else e) (st_outbox_events s)"
      using sel(5) su v t by (simp add: events_changed_def outbox_only_iff others_same_iff same_tables_iff world_only_iff)
    moreover have "st_outbox_events u1 = st_outbox_events s" using su by (simp add: same_tables_iff)
    ultimately have x: "\<exists>now by sel. events = map (claimed now by) sel \<and> distinct (map oe_ID sel) \<and>
             set sel \<subseteq> {e \<in> set (st_outbox_events s). claimable now (now - pw_processingTimeout w) e} \<and>
             length sel \<le> nat (default_limit (pw_batchSize w)) \<and> others_same s t \<and>
             st_outbox_events t = map (\<lambda>e. if oe_ID e \<in> oe_ID ` set sel then claimed now by e else e) (st_outbox_events s)"
      using sel by auto
    have "r = Inr (Inr events, int (length events))" using r Inr b c by (simp add: bindG_def)
    with x show ?thesis by simp
  qed
qed

lemma map_if_compose:
  assumes "P \<union> F \<subseteq> I"
  shows "map (\<lambda>e. if oe_ID e \<in> P then published (tm (oe_ID e)) e else if oe_ID e \<in> F then retried m (tm (oe_ID e)) e else e)
      (map (\<lambda>e. if oe_ID e \<in> I then claimed now by e else e) es) =
    map (\<lambda>e. if oe_ID e \<in> P then published (tm (oe_ID e)) e else if oe_ID e \<in> F then retried m (tm (oe_ID e)) e
      else if oe_ID e \<in> I then claimed now by e else e) es"
  using assms by (induction es) auto

context event_publisher
begin

lemma RunOnce_outcome:
  assumes ok: "events_ok s" "0 < pw_maxAttempts w"
    and w: "pw_transactor w = Some E" "pw_publisher w = Some publish"
    and run: "PublisherWorker_RunOnce w s = (r, t)"
  shows "\<exists>res err. r = Inr (res, err) \<and>
    ((err \<noteq> None \<and> same_tables s t) \<or>
     (\<exists>sel P F. worker_effect w sel P F s t \<and> (err = None \<longrightarrow> P \<union> F = oe_ID ` set sel) \<and>
        pr_Fetched res = int (length sel) \<and> pr_Published res = int (card P) \<and>
        int (card F) \<le> pr_Failed res \<and> pr_Failed res \<le> int (card F) + (if err = None then 0 else 1) \<and>
        (\<forall>e \<in> set sel. oe_ID e \<in> P \<longrightarrow> (\<exists>now by. dn (claimed now by e) (st_world t)))))"
proof -
  define s1 where "s1 = s\<lparr>st_world := snd (pw_now w (st_world s))\<rparr>"
  define t0 where "t0 = fst (pw_now w (st_world s))"
  obtain q u where q: "claimBatch w E s1 = (q, u)" by fastforce
  have s1: "same_tables s s1" by (simp add: s1_def same_tables_iff)
  from claimBatch_result [OF events_ok_world [OF s1 ok(1)] q] obtain c fetched where
    qc: "q = Inr (c, fetched)" and cc: "case c of
        Inl e \<Rightarrow> same_tables s1 u
      | Inr events \<Rightarrow> fetched = int (length events) \<and>
          (\<exists>now by sel. events = map (claimed now by) sel \<and> distinct (map oe_ID sel) \<and>
             set sel \<subseteq> {e \<in> set (st_outbox_events s1). claimable now (now - pw_processingTimeout w) e} \<and>
             length sel \<le> nat (default_limit (pw_batchSize w)) \<and> others_same s1 u \<and>
             st_outbox_events u = map (\<lambda>e. if oe_ID e \<in> oe_ID ` set sel then claimed now by e else e) (st_outbox_events s1))"
    by blast
  show ?thesis
  proof (cases c)
    case (Inl e)
    obtain o1 u1 where f: "finish w t0 (no_batch\<lparr>pr_Fetched := fetched\<rparr>) (Some e) u = (o1, u1)" by fastforce
    from finish_result [OF f] obtain d where o1: "o1 = Inr (no_batch\<lparr>pr_Fetched := fetched, pr_Latency := d\<rparr>, Some e)"
      and u1: "same_tables u u1" by blast
    from run w q qc Inl f o1 have "r = o1" "same_tables u1 t"
      by (auto simp: PublisherWorker_RunOnce_def bind_steps Let_def bindG_def [of "claimBatch w E"] s1_def [symmetric]
          t0_def [symmetric] bindG_def [of "finish w t0 x y" for x y] retG_def same_tables_iff)
    with o1 u1 cc Inl s1 show ?thesis by (auto simp: same_tables_iff)
  next
    case (Inr events)
    with cc obtain now by' sel where sel: "fetched = int (length events)" "events = map (claimed now by') sel"
      "distinct (map oe_ID sel)" "set sel \<subseteq> {e \<in> set (st_outbox_events s1). claimable now (now - pw_processingTimeout w) e}"
      "length sel \<le> nat (default_limit (pw_batchSize w))" "others_same s1 u"
      "st_outbox_events u = map (\<lambda>e. if oe_ID e \<in> oe_ID ` set sel then claimed now by' e else e) (st_outbox_events s1)"
      by auto
    define u1 where "u1 = u\<lparr>st_world := snd (pw_now w (st_world u))\<rparr>"
    have u1: "same_tables u u1" by (simp add: u1_def same_tables_iff)
    obtain p v where p: "publishEvents w E publish events (no_batch\<lparr>pr_Fetched := fetched\<rparr>) u1 = (p, v)" by fastforce
    have ids: "map oe_ID events = map oe_ID sel" by (simp add: sel(2))
    have "map oe_ID (st_outbox_events u1) = map oe_ID (st_outbox_events s)"
      using u1 sel(7) s1 by (simp add: same_tables_iff)
    then have ok1: "events_ok u1" using ok(1) by (simp add: events_ok_def)
    have cp: "\<forall>ev \<in> set events. copy_of_row ev u1"
    proof
      fix ev assume "ev \<in> set events"
      then obtain e where e: "ev = claimed now by' e" "e \<in> set sel" by (auto simp: sel(2))
      then have e1: "e \<in> set (st_outbox_events s)" using sel(4) s1 by (auto simp: same_tables_iff)
      have "oe_Attempts x = oe_Attempts e" if "x \<in> set (st_outbox_events s)" "oe_ID x = oe_ID e" for x
        using distinct_key_unique [of oe_ID "st_outbox_events s" x e] that e1 ok(1) by (simp add: events_ok_def)
      then show "copy_of_row ev u1"
        using u1 s1 sel(7) by (auto simp: copy_of_row_def same_tables_iff e(1))
    qed
    from publishEvents_outcome [OF ok1 ok(2) _ cp p] sel(3) ids
    obtain res' err P F where pr: "p = Inr (res', err)"
      and bo: "batch_outcome (pw_maxAttempts w) dn events (no_batch\<lparr>pr_Fetched := fetched\<rparr>) u1 res' err P F v" by auto
    obtain o1 v1 where f: "finish w t0 res' err v = (o1, v1)" by fastforce
    from finish_result [OF f] obtain d where o1: "o1 = Inr (res'\<lparr>pr_Latency := d\<rparr>, err)" and v1: "same_tables v v1" by blast
    have rt: "r = o1" "t = v1"
      using run w q qc Inr p pr f
      by (simp_all add: PublisherWorker_RunOnce_def bind_steps Let_def bindG_def [of "claimBatch w E"] s1_def [symmetric]
          t0_def [symmetric] u1_def [symmetric] bindG_def [of "publishEvents w E publish x y" for x y])
    from bo have "\<forall>ev \<in> set events. oe_ID ev \<in> P \<longrightarrow> dn ev (st_world v)" by (simp add: batch_outcome_def)
    then have "\<forall>ev \<in> set events. oe_ID ev \<in> P \<longrightarrow> dn ev (st_world t)"
      using keepsGD [OF kept_finish f] rt(2) by (auto simp: kept_def)
    then have dns: "\<forall>e \<in> set sel. oe_ID e \<in> P \<longrightarrow> (\<exists>now by. dn (claimed now by e) (st_world t))"
      by (auto simp: sel(2))
    from bo obtain tm fl where b: "P \<union> F \<subseteq> oe_ID ` set events" "P \<inter> F = {}" "err = None \<longrightarrow> P \<union> F = oe_ID ` set events"
      "batch_effect (pw_maxAttempts w) tm P F u1 v"
      "counted (no_batch\<lparr>pr_Fetched := fetched\<rparr>) (int (card P)) (int (card F) + fl)
         (dead_letters (pw_maxAttempts w) F events) res'" "if err = None then fl = 0 else fl = 0 \<or> fl = 1"
      by (auto simp: batch_outcome_def)
    have ids': "oe_ID ` set events = oe_ID ` set sel" using ids by (metis list.set_map)
    have ev: "st_outbox_events t = map (\<lambda>e. if oe_ID e \<in> P then published (tm (oe_ID e)) e
        else if oe_ID e \<in> F then retried (pw_maxAttempts w) (tm (oe_ID e)) e
        else if oe_ID e \<in> oe_ID ` set sel then claimed now by' e else e) (st_outbox_events s)"
      using b(1,4) v1 u1 s1 sel(7) rt(2) unfolding batch_effect_def ids'
      by (simp only: same_tables_iff map_if_compose)
    have "others_same s t"
      using b(4) v1 u1 s1 sel(6) rt(2) by (simp add: batch_effect_def same_tables_iff others_same_iff)
    moreover have "st_outbox_events s1 = st_outbox_events s" using s1 by (simp add: same_tables_iff)
    ultimately have fr: "others_same s t" "set sel \<subseteq> {e \<in> set (st_outbox_events s). claimable now (now - pw_processingTimeout w) e}"
      using sel(4) by simp_all
    have "worker_effect w sel P F s t"
      unfolding worker_effect_def
    proof (intro conjI)
      show "\<exists>now by tm. set sel \<subseteq> {e \<in> set (st_outbox_events s). claimable now (now - pw_processingTimeout w) e} \<and>
        st_outbox_events t =
          map (\<lambda>e. if oe_ID e \<in> P then published (tm (oe_ID e)) e
                   else if oe_ID e \<in> F then retried (pw_maxAttempts w) (tm (oe_ID e)) e
                   else if oe_ID e \<in> oe_ID ` set sel then claimed now by e
                   else e) (st_outbox_events s)"
        by (intro exI conjI) (rule fr(2), rule ev)
    qed (use fr(1) sel(3,5) b(1,2) ids' in simp_all)
    moreover have "pr_Fetched res' = int (length sel)" "pr_Published res' = int (card P)" "pr_Failed res' = int (card F) + fl"
      using b(5) sel(1,2) by (simp_all add: counted_def no_batch_def)
    moreover have "int (card F) \<le> int (card F) + fl" "int (card F) + fl \<le> int (card F) + (if err = None then 0 else 1)"
      using b(6) by (auto split: if_splits)
    ultimately have "worker_effect w sel P F s t \<and> (err = None \<longrightarrow> P \<union> F = oe_ID ` set sel) \<and>
        pr_Fetched (res'\<lparr>pr_Latency := d\<rparr>) = int (length sel) \<and> pr_Published (res'\<lparr>pr_Latency := d\<rparr>) = int (card P) \<and>
        int (card F) \<le> pr_Failed (res'\<lparr>pr_Latency := d\<rparr>) \<and>
        pr_Failed (res'\<lparr>pr_Latency := d\<rparr>) \<le> int (card F) + (if err = None then 0 else 1) \<and>
        (\<forall>e \<in> set sel. oe_ID e \<in> P \<longrightarrow> (\<exists>now by. dn (claimed now by e) (st_world t)))"
      using b(3) ids' dns by simp
    then show ?thesis using rt(1) o1 by blast
  qed
qed

end

section \<open>The publishers of the code\<close>

lemma kept_True [simp]: "keepsG (kept (\<lambda>_ _. True) ev) m"
  by (simp add: keepsG_def kept_def)

lemma RedisStreamPublisher_frame [frames, simp]: "keepsG world_only (RedisStreamPublisher_Publish L p evo)"
  unfolding RedisStreamPublisher_Publish_def Let_def by (auto intro!: framing)

interpretation redis_publisher: event_publisher "\<lambda>ev. RedisStreamPublisher_Publish L p (Some ev)" "\<lambda>_ _. True" w E
  for L p w E
  by unfold_locales simp_all

interpretation log_publisher: event_publisher "\<lambda>ev. LogPublisher_Publish (Some ev)" "\<lambda>_ _. True" w E for w E
  by unfold_locales (simp_all add: LogPublisher_Publish_def)

text \<open>A predicate on the outside world that no read of the environment makes false.\<close>

definition stays :: "('w \<Rightarrow> bool) \<Rightarrow> ('w \<Rightarrow> 'a \<times> 'w) \<Rightarrow> bool" where
  "stays D f \<longleftrightarrow> (\<forall>w. D w \<longrightarrow> D (snd (f w)))"

definition env_stays :: "('w \<Rightarrow> bool) \<Rightarrow> 'w env \<Rightarrow> bool" where
  "env_stays D E \<longleftrightarrow>
     stays D (env_fault E) \<and> stays D (env_locked E) \<and> stays D (env_now E) \<and> stays D (env_uuid E)"

lemma kept_askG: "stays (dn ev) f \<Longrightarrow> keepsG (kept dn ev) (askG f)"
  by (auto intro!: keepsGI simp: gom kept_def stays_def)

lemma kept_rows [simp]:
  "keepsG (kept dn ev) (queryG f)" "keepsG (kept dn ev) (updateG (outbox_events_table E) q g)"
  "keepsG (kept dn ev) (insertG (outbox_events_table E) row)" "keepsG (kept dn ev) (upsertG (outbox_events_table E) c g row)"
  by (auto simp: keepsG_def kept_def queryG_def updateG_def insertG_def upsertG_def bindG_def retG_def Let_def
      split: sum.splits option.splits prod.splits if_splits)

lemma kept_stmtG:
  assumes "env_stays (dn ev) E" "keepsG (kept dn ev) m"
  shows "keepsG (kept dn ev) (stmtG E m)"
  unfolding stmtG_def using assms by (auto intro!: keeping kept_askG simp: env_stays_def)

lemma kept_Update:
  assumes "env_stays (dn ev) E"
  shows "keepsG (kept dn ev) (Update E (outbox_events_table E) row)"
  unfolding Update_def Let_def using assms
  by (auto intro!: keeping kept_stmtG kept_askG simp: env_stays_def)

lemma kept_getByID:
  assumes "env_stays (dn ev) E"
  shows "keepsG (kept dn ev) (OutboxRepo_getByID E i)"
  unfolding OutboxRepo_getByID_def FindById_def using assms by (auto intro!: kept_stmtG)

lemma kept_marks:
  assumes "env_stays (dn ev) E"
  shows "keepsG (kept dn ev) (or_MarkPublished (NewOutboxRepository E) i tm)"
    "keepsG (kept dn ev) (or_MarkPublishFailed (NewOutboxRepository E) i tm)"
    "keepsG (kept dn ev) (or_MarkDeadLetter (NewOutboxRepository E) i)"
  unfolding NewOutboxRepository_def OutboxRepository.simps OutboxRepo_MarkPublished_def OutboxRepo_MarkPublishFailed_def
    OutboxRepo_MarkDeadLetter_def
  using assms by (auto intro!: keeping kept_Update kept_getByID)

lemma kept_transaction:
  assumes "env_stays (dn ev) E" "keepsG (kept dn ev) body"
  shows "keepsG (kept dn ev) (WithTransactionContext E body)"
proof -
  have b: "keepsG (kept dn ev) (stmtG E (retG ()))" by (rule kept_stmtG) (use assms(1) in simp_all)
  have "keepsG (kept dn ev) (\<lambda>s. case body s of
         (Inl e, t) \<Rightarrow> (Inl e, rollback s t)
       | (Inr x, t) \<Rightarrow>
           (case stmtG E (retG ()) t of
              (Inl e, u) \<Rightarrow> (Inl e, rollback s u)
            | (Inr _, u) \<Rightarrow> (Inr x, u)))"
  proof (rule keepsGI)
    fix s r t
    assume run: "(case body s of
         (Inl e, t) \<Rightarrow> (Inl e, rollback s t)
       | (Inr x, t) \<Rightarrow>
           (case stmtG E (retG ()) t of
              (Inl e, u) \<Rightarrow> (Inl e, rollback s u)
            | (Inr _, u) \<Rightarrow> (Inr x, u))) = (r, t)"
    obtain q u where q: "body s = (q, u)" by fastforce
    obtain q2 v where q2: "stmtG E (retG ()) u = (q2, v)" by fastforce
    have "kept dn ev s u" "kept dn ev u v" using keepsGD [OF assms(2) q] keepsGD [OF b q2] by simp_all
    with run q q2 show "kept dn ev s t" by (auto simp: kept_def split: sum.splits)
  qed
  with b show ?thesis unfolding WithTransactionContext_def by (intro keeping)
qed

lemma kept_finalize:
  assumes "env_stays (dn ev) E" "stays (dn ev) (pw_now w)"
  shows "keepsG (kept dn ev) (PublisherWorker_markPublished w E i)"
    "keepsG (kept dn ev) (PublisherWorker_recordPublishFailure w E ev')"
  unfolding PublisherWorker_markPublished_def PublisherWorker_recordPublishFailure_def Transactor_WithinTransaction_def
    OutboxService_MarkPublished_def OutboxService_RecordPublishFailure_def worker_outbox_sel option.simps Let_def
  using assms by (auto intro!: kept_transaction keeping kept_askG kept_marks)

lemma redis_XAdd_Inr:
  assumes "rd_cmd cache = Some c" "redis_XAdd cache k v s = (Inr i, t)"
  shows "gr_XAdd c k v (st_world s) = (Inr i, st_world t)"
  using assms by (auto simp: redis_XAdd_def commandG_def cmdG_def split: prod.splits)

text \<open>What a Redis server must keep: nothing that the worker calls makes \<open>D\<close> false.\<close>

definition quiet :: "('w \<Rightarrow> bool) \<Rightarrow> 'w env \<Rightarrow> 'w goredis \<Rightarrow> bool" where
  "quiet D E c \<longleftrightarrow> env_stays D E \<and> (\<forall>key values. stays D (gr_XAdd c key values))"

lemma kept_redis_publish:
  assumes "sp_cache p = Some cache" "rd_cmd cache = Some c" "\<forall>key values. stays (dn ev) (gr_XAdd c key values)"
  shows "keepsG (kept dn ev) (RedisStreamPublisher_Publish L p evo)"
proof -
  have "keepsG (kept dn ev) (redis_XAdd cache key kvs)" for key kvs
    using assms(2,3) by (auto intro!: keepsGI simp: redis_XAdd_def commandG_def gom kept_def stays_def)
  then show ?thesis using assms(1) by (auto simp: RedisStreamPublisher_Publish_def Let_def intro!: keeping)
qed

lemma stream_values_claimed [simp]: "stream_values L (claimed now b e) = stream_values L e"
  by (simp add: stream_values_def claimed_def)

text \<open>The Redis publisher delivers: the entry of an event it has published is in the stream.\<close>

lemma redis_stream_delivers:
  fixes stream :: "'w \<Rightarrow> (string \<times> (string \<rightharpoonup> any)) set"
  assumes "sp_cache p = Some cache" "rd_cmd cache = Some c"
    and xadd: "\<forall>key values v i v'. gr_XAdd c key values v = (Inr i, v') \<longrightarrow> (key, values) \<in> stream v'"
    and quiet: "\<forall>x. quiet (\<lambda>v. x \<in> stream v) E c" "\<forall>x. stays (\<lambda>v. x \<in> stream v) (pw_now w)"
  shows "event_publisher (\<lambda>ev. RedisStreamPublisher_Publish L p (Some ev))
    (\<lambda>ev v. (sp_streamName p, stream_values L ev) \<in> stream v) w E"
proof -
  define dn where "dn ev v \<longleftrightarrow> (sp_streamName p, stream_values L ev) \<in> stream v" for ev and v :: 'w
  have env: "env_stays (dn ev) E" "stays (dn ev) (pw_now w)" "\<forall>key values. stays (dn ev) (gr_XAdd c key values)" for ev
    using quiet by (simp_all add: dn_def [abs_def] quiet_def)
  have "event_publisher (\<lambda>ev. RedisStreamPublisher_Publish L p (Some ev)) dn w E"
  proof (intro event_publisher.intro)
    show "dn ev (st_world t)" if run: "RedisStreamPublisher_Publish L p (Some ev) s = (Inr u, t)" for ev s t and u :: unit
    proof -
      from run assms(1) obtain i where "redis_XAdd cache (sp_streamName p) (stream_values L ev) s = (Inr i, t)"
        by (auto simp: RedisStreamPublisher_Publish_def Let_def gom split: if_splits sum.splits)
      from redis_XAdd_Inr [OF assms(2) this] xadd show ?thesis unfolding dn_def by blast
    qed
    show "keepsG (kept dn ev) (RedisStreamPublisher_Publish L p (Some ev'))" for ev ev'
      by (rule kept_redis_publish [OF assms(1,2) env(3)])
    show "keepsG (kept dn ev) (nowG w)" for ev
      unfolding nowG_def by (rule kept_askG [OF env(2)])
  qed (simp_all add: kept_finalize [OF env(1,2)])
  then show ?thesis by (simp add: dn_def [abs_def])
qed

section \<open>Properties\<close>


text \<open>
  Delivery comes before publication. If \<open>XADD\<close> appends to the stream whenever it
  answers an id, and nothing takes entries away, then every event that a run marks as
  published has its entry, with its identity and payload, in the stream: a crash or an error
  at any point can repeat a delivery but never lose one.
\<close>

theorem published_only_after_delivery:
  fixes stream :: "'w \<Rightarrow> (string \<times> (string \<rightharpoonup> any)) set"
  assumes "events_ok s" "0 < pw_maxAttempts w" "pw_transactor w = Some E"
    and "pw_publisher w = Some (\<lambda>ev. RedisStreamPublisher_Publish L p (Some ev))"
    and "sp_cache p = Some cache" "rd_cmd cache = Some c"
    and "\<forall>key values v i v'. gr_XAdd c key values v = (Inr i, v') \<longrightarrow> (key, values) \<in> stream v'"
    and "\<forall>key values x. stays (\<lambda>v. x \<in> stream v) (gr_XAdd c key values)"
    and "\<forall>x. env_stays (\<lambda>v. x \<in> stream v) E \<and> stays (\<lambda>v. x \<in> stream v) (pw_now w)"
    and "PublisherWorker_RunOnce w s = (Inr (res, err), t)"
  shows "(err \<noteq> None \<and> same_tables s t) \<or>
    (\<exists>sel P F. worker_effect w sel P F s t \<and>
       (\<forall>e \<in> set sel. oe_ID e \<in> P \<longrightarrow> (sp_streamName p, stream_values L e) \<in> stream (st_world t)))"
proof -
  note pub = redis_stream_delivers [OF assms(5-7), of E w L]
  have quiet: "\<forall>x. quiet (\<lambda>v. x \<in> stream v) E c" "\<forall>x. stays (\<lambda>v. x \<in> stream v) (pw_now w)"
    using assms(8,9) by (simp_all add: quiet_def)
  from event_publisher.RunOnce_outcome [OF pub [OF quiet] assms(1-4,10)] show ?thesis
    unfolding stream_values_claimed by blast
qed

text \<open>A concrete run: the outside world is the list of the stream's entries.\<close>

type_synonym demo_log = "(string \<times> (string \<rightharpoonup> any)) list"

definition demo_env :: "demo_log env" where
  "demo_env = \<lparr>env_fault = (\<lambda>w. (None, w)), env_locked = (\<lambda>w. (\<lambda>_. False, w)), env_now = (\<lambda>w. (7, w)),
     env_date = (\<lambda>w. ((2025, 1, 2), w)), env_uuid = (\<lambda>w. (''id'', w)), env_rand = (\<lambda>w. (0, w)),
     env_bcrypt = (\<lambda>p w. (Inr p, w))\<rparr>"

definition demo_client :: "demo_log goredis" where
  "demo_client =
     \<lparr>gr_Ping = retG (), gr_Get = (\<lambda>_. throwG ErrRedisNil), gr_Exists = (\<lambda>_. retG 0), gr_Set = (\<lambda>_ _ _. retG ()),
      gr_SetNX = (\<lambda>_ _ _. retG True), gr_Run = (\<lambda>m. m), gr_Incr = (\<lambda>_. retG 1), gr_PTTL = (\<lambda>_. retG 1),
      gr_PExpire = (\<lambda>_ _. retG ()), gr_XAdd = (\<lambda>key kvs w. (Inr ''1-0'', (key, kvs) # w)),
      gr_XGroupCreateMkStream = (\<lambda>_ _ _. retG ()), gr_XReadGroup = (\<lambda>_ _ _ _ _. retG []), gr_XAck = (\<lambda>_ _ _. retG ()),
      gr_XAutoClaim = (\<lambda>_ _ _ _ _ _. throwG ErrRedisNil), gr_Del = (\<lambda>_ _. retG ()), gr_Scan = (\<lambda>_ _ _ _. retG ([], 0))\<rparr>"

definition demo_publisher :: "demo_log RedisStreamPublisher" where
  "demo_publisher = NewRedisStreamPublisher (Some \<lparr>rd_cmd = Some demo_client, rd_client = Some demo_client\<rparr>) ''''"

definition demo_lib :: stdlib where
  "demo_lib = \<lparr>json_Valid = (\<lambda>_. True), time_Format = (\<lambda>_. ''now''), time_Parse = (\<lambda>_. Inr 0)\<rparr>"

definition demo_worker :: "demo_log PublisherWorker" where
  "demo_worker = NewPublisherWorker demo_env (Inr ''host'') (Some demo_env)
     (Some (\<lambda>ev. RedisStreamPublisher_Publish demo_lib demo_publisher (Some ev))) []"

definition demo_event :: OutboxEvent where
  "demo_event = \<lparr>oe_ID = ''e1'', oe_AggregateType = ''order'', oe_AggregateID = ''o1'', oe_EventType = ''order.created'',
     oe_Payload = ''{}'', oe_Status = OutboxEventStatusPending, oe_Attempts = 0, oe_NextAttemptAt = 5,
     oe_LockedAt = None, oe_LockedBy = '''', oe_CreatedAt = 4, oe_PublishedAt = None\<rparr>"

definition demo_outbox :: "demo_log st" where
  "demo_outbox = \<lparr>st_world = [], st_metrics = [], st_users = [], st_products = [], st_inventories = [],
     st_orders = [], st_order_lines = [], st_outbox_events = [demo_event], st_carts = [], st_cart_lines = []\<rparr>"

definition demo_result :: PublishBatchResult where
  "demo_result = \<lparr>pr_Fetched = 1, pr_Published = 1, pr_Failed = 0, pr_DeadLettered = 0, pr_Latency = 0\<rparr>"

lemma demo_worker_run: "PublisherWorker_RunOnce demo_worker demo_outbox =
    (Inr (demo_result, None), snd (PublisherWorker_RunOnce demo_worker demo_outbox))"
proof -
  have "fst (PublisherWorker_RunOnce demo_worker demo_outbox) = Inr (demo_result, None)" by code_simp
  then show ?thesis by (simp add: prod_eq_iff)
qed

lemma demo_worker_facts:
  "events_ok demo_outbox" "0 < pw_maxAttempts demo_worker" "pw_transactor demo_worker = Some demo_env"
  "pw_publisher demo_worker = Some (\<lambda>ev. RedisStreamPublisher_Publish demo_lib demo_publisher (Some ev))"
  by (simp_all add: events_ok_def demo_outbox_def demo_worker_def NewPublisherWorker_def defaultPublisherMaxAttempts_def)


theorem published_only_after_delivery_witness:
  "((None :: goerr option) \<noteq> None \<and> same_tables demo_outbox (snd (PublisherWorker_RunOnce demo_worker demo_outbox))) \<or>
    (\<exists>sel P F. worker_effect demo_worker sel P F demo_outbox (snd (PublisherWorker_RunOnce demo_worker demo_outbox)) \<and>
       (\<forall>e \<in> set sel. oe_ID e \<in> P \<longrightarrow> (sp_streamName demo_publisher, stream_values demo_lib e)
          \<in> set (st_world (snd (PublisherWorker_RunOnce demo_worker demo_outbox)))))"
  by (rule published_only_after_delivery [OF demo_worker_facts _ _ _ _ _ demo_worker_run, where stream = set])
    (auto simp: demo_publisher_def NewRedisStreamPublisher_def demo_client_def stays_def env_stays_def demo_env_def
      demo_worker_def NewPublisherWorker_def)

text \<open>
  The finalizing updates do not look at the lease. Whatever the state of an event
  and whoever holds it, \<open>MarkPublishFailed\<close> returns it to \<open>pending\<close> with one attempt more: a
  worker whose lease ran out, and whose event another worker has published in the meantime,
  makes it due again.
\<close>

theorem finalizing_ignores_the_lease:
  assumes "events_ok s" "e \<in> set (st_outbox_events s)"
    and "OutboxRepo_MarkPublishFailed E (oe_ID e) tm s = (Inr u, t)"
  shows "\<exists>e' \<in> set (st_outbox_events t). oe_ID e' = oe_ID e \<and> oe_Status e' = OutboxEventStatusPending \<and>
     oe_PublishedAt e' = oe_PublishedAt e \<and> oe_LockedBy e' = ''''"
proof -
  have "events_changed (publish_failed tm) {oe_ID e} s t" using Mark_Inr(2) [OF assms(1,3)] by simp
  then have "publish_failed tm e \<in> set (st_outbox_events t)"
    using assms(2) by (auto simp: events_changed_def intro!: image_eqI [of _ _ e])
  then show ?thesis by (intro bexI [of _ "publish_failed tm e"]) (simp_all add: publish_failed_def)
qed

definition demo_published_event :: OutboxEvent where
  "demo_published_event = demo_event\<lparr>oe_Status := OutboxEventStatusPublished, oe_PublishedAt := Some 6\<rparr>"

theorem finalizing_ignores_the_lease_witness:
  "\<exists>e' \<in> set (st_outbox_events (snd (OutboxRepo_MarkPublishFailed demo_env ''e1'' 99
        (demo_outbox\<lparr>st_outbox_events := [demo_published_event]\<rparr>)))).
     oe_ID e' = ''e1'' \<and> oe_Status e' = OutboxEventStatusPending \<and> oe_PublishedAt e' = Some 6 \<and> oe_LockedBy e' = ''''"
proof -
  let ?s = "demo_outbox\<lparr>st_outbox_events := [demo_published_event]\<rparr>"
  have "fst (OutboxRepo_MarkPublishFailed demo_env ''e1'' 99 ?s) = Inr ()" by code_simp
  then have run: "OutboxRepo_MarkPublishFailed demo_env (oe_ID demo_published_event) 99 ?s =
      (Inr (), snd (OutboxRepo_MarkPublishFailed demo_env ''e1'' 99 ?s))"
    by (simp add: prod_eq_iff demo_published_event_def demo_event_def)
  have "events_ok ?s" "demo_published_event \<in> set (st_outbox_events ?s)" by (simp_all add: events_ok_def)
  from finalizing_ignores_the_lease [OF this run] show ?thesis by (simp add: demo_published_event_def demo_event_def)
qed

end
