(* ===== verification/OrderWorld.thy ===== *)
theory OrderWorld
  imports CancelOrder Publisher
begin

text \<open>
  The operations of an order reach the outside world only through the environment of the database: what no
  read of the environment makes false (\<open>env_keeps\<close>), no order request makes false. The lemmas go up from
  the statements over the repositories to the transactions of the service.
\<close>

section \<open>The environment\<close>

definition env_keeps :: "('w \<Rightarrow> bool) \<Rightarrow> 'w env \<Rightarrow> bool" where
  "env_keeps D E \<longleftrightarrow> env_stays D E \<and> stays D (env_date E) \<and> stays D (env_rand E)"

lemma stays_string:
  assumes "stays D (env_rand E)"
  shows "stays D (stringWithCharset E n)"
proof -
  have i: "stays D (Intn E m)" for m using assms by (auto simp: stays_def Intn_def split: prod.splits)
  have "D w \<longrightarrow> D (snd (stringWithCharset E n w))" for w
  proof (induction n arbitrary: w)
    case (Suc n)
    obtain a w1 where a: "Intn E (length Charset) w = (a, w1)" by fastforce
    obtain b w2 where b: "stringWithCharset E n w1 = (b, w2)" by fastforce
    from i [of "length Charset"] a Suc.IH [of w1] b show ?case by (auto simp: stays_def dest: spec [of _ w])
  qed simp
  then show ?thesis by (simp add: stays_def)
qed

lemma stays_code:
  assumes "env_keeps D E"
  shows "stays D (GenerateCode E prefix)"
  unfolding stays_def
proof (intro allI impI)
  fix w assume w: "D w"
  obtain y m d w1 where date: "env_date E w = ((y, m, d), w1)" by (metis prod.exhaust)
  obtain suffix w2 where suffix: "stringWithCharset E RandLength w1 = (suffix, w2)" by fastforce
  have "D w1" using assms w date by (auto simp: env_keeps_def stays_def dest: spec [of _ w])
  moreover have "stays D (stringWithCharset E RandLength)"
    by (rule stays_string) (use assms in \<open>simp add: env_keeps_def\<close>)
  ultimately have "D w2" using suffix by (auto simp: stays_def dest: spec [of _ w1])
  then show "D (snd (GenerateCode E prefix w))" by (simp add: GenerateCode_def date suffix)
qed

section \<open>Statements\<close>

text \<open>A step that keeps \<open>D\<close>; the event of \<open>kept\<close> plays no part.\<close>

abbreviation keepsW :: "('w \<Rightarrow> bool) \<Rightarrow> ('w st, 'a) gom \<Rightarrow> bool" where
  "keepsW D m \<equiv> keepsG (kept (\<lambda>_. D) undefined) m"

lemma keepsWD: "keepsW D m \<Longrightarrow> m s = (r, t) \<Longrightarrow> D (st_world s) \<Longrightarrow> D (st_world t)"
  by (auto dest: keepsGD simp: kept_def)

definition puts :: "('w, 'r) table \<Rightarrow> bool" where
  "puts tb \<longleftrightarrow> (\<forall>rows s. st_world (tb_put tb rows s) = st_world s)"

lemma puts_tables [simp]:
  "puts (orders_table E)" "puts (order_lines_table E)" "puts (inventories_table E)" "puts (outbox_events_table E)"
  by (simp_all add: puts_def orders_table_def order_lines_table_def inventories_table_def outbox_events_table_def)

lemma keepsW_rows:
  assumes "puts tb"
  shows "keepsW D (insertG tb r)" "keepsW D (updateG tb p f)" "keepsW D (upsertG tb c f r)" "keepsW D (insertManyG tb rs)"
proof -
  show i: "keepsW D (insertG tb r)" for r
    using assms by (auto simp: keepsG_def kept_def insertG_def puts_def split: option.splits)
  show u: "keepsW D (updateG tb p f)" for p f
    using assms by (auto simp: keepsG_def kept_def updateG_def puts_def Let_def split: sum.splits)
  have b: "keepsW D (bindG (insertG tb r) (\<lambda>_. retG [tb_stored tb r]))" by (intro keeping i) simp_all
  show "keepsW D (upsertG tb c f r)"
    by (rule keepsGI) (auto simp: upsertG_def kept_def split: option.splits if_splits dest: keepsWD [OF u] keepsWD [OF b])
  have f: "keepsW D (forG rs (insertG tb))" by (intro keeping i)
  show "keepsW D (insertManyG tb rs)"
    by (rule keepsGI) (auto simp: insertManyG_def kept_def split: prod.splits sum.splits dest: keepsWD [OF f])
qed

locale env_kept =
  fixes D :: "'w \<Rightarrow> bool" and E :: "'w env"
  assumes keeps: "env_keeps D E"
begin

lemma reads: "keepsW D (askG (env_now E))" "keepsW D (askG (env_uuid E))" "keepsW D (askG (GenerateCode E prefix))"
  using keeps stays_code [OF keeps] by (auto intro!: kept_askG simp: env_keeps_def env_stays_def)

lemma stmt: "keepsW D m \<Longrightarrow> keepsW D (stmtG E m)"
  using keeps by (intro kept_stmtG) (simp_all add: env_keeps_def)

lemma transaction: "keepsW D body \<Longrightarrow> keepsW D (WithTransactionContext E body)"
  using keeps by (intro kept_transaction) (simp_all add: env_keeps_def)

lemma hooks:
  "keepsW D (Order_BeforeCreate E a)" "keepsW D (OrderLine_BeforeCreate E b)" "keepsW D (Inventory_BeforeCreate E c)"
  "keepsW D (OutboxEvent_BeforeCreate E d)"
  unfolding BeforeCreate_defs by (auto intro!: keeping reads)

lemma create: "puts tb \<Longrightarrow> (\<And>d. keepsW D (tb_before_create tb d)) \<Longrightarrow> keepsW D (Create E tb doc)"
  unfolding Create_def Let_def by (auto intro!: keeping reads stmt keepsW_rows)

lemma create_all: "(\<And>d. keepsW D (tb_before_create tb d)) \<Longrightarrow> keepsW D (before_create_all tb ds)"
  by (induction ds) (auto intro!: keeping)

lemma create_batches:
  "puts tb \<Longrightarrow> (\<And>d. keepsW D (tb_before_create tb d)) \<Longrightarrow> keepsW D (createBatches E tb bs)"
  by (induction bs) (auto simp: Let_def intro!: keeping reads stmt keepsW_rows create_all)

lemma create_in_batches:
  assumes "puts tb" "\<And>d. keepsW D (tb_before_create tb d)"
  shows "keepsW D (CreateInBatches E tb docs n)"
  by (rule keepsGI)
    (auto simp: CreateInBatches_def kept_def split: prod.splits sum.splits dest: keepsWD [OF create_batches [OF assms]])

lemma preload: "keepsW D (preloadG E tb names rs)"
  by (induction names arbitrary: rs) (auto intro!: keeping stmt)

lemma find: "keepsW D (FindOne E tb opts)" "keepsW D (FindById E tb i)"
  unfolding FindOne_def FindById_def Let_def by (auto intro!: keeping stmt preload)

lemmas world_steps = keeping reads stmt keepsW_rows find

section \<open>Repositories\<close>

lemma order_repository:
  "keepsW D (OrderRepo_CreateOrder E ord ls)" "keepsW D (OrderRepo_GetOrderByID E i b)"
  "keepsW D (OrderRepo_CancelOrderIfCancellable E i u)" "keepsW D (OrderProductRepo_GetProductByID E p)"
proof -
  have o: "keepsW D (Create E (orders_table E) x)" for x
    by (rule create) (simp_all add: orders_table_def hooks, simp add: puts_def)
  have l: "keepsW D (CreateInBatches E (order_lines_table E) xs n)" for xs n
    by (rule create_in_batches) (simp_all add: order_lines_table_def hooks, simp add: puts_def)
  show "keepsW D (OrderRepo_CreateOrder E ord ls)"
    unfolding OrderRepo_CreateOrder_def OrderRepo_createOrder_def Let_def by (auto intro!: world_steps o l split: sum.splits)
  show "keepsW D (OrderRepo_GetOrderByID E i b)" unfolding OrderRepo_GetOrderByID_def by (rule find)
  show "keepsW D (OrderRepo_CancelOrderIfCancellable E i u)"
    unfolding OrderRepo_CancelOrderIfCancellable_def by (auto intro!: world_steps)
  show "keepsW D (OrderProductRepo_GetProductByID E p)" unfolding OrderProductRepo_GetProductByID_def by (rule find)
qed

lemma inventory_service:
  "keepsW D (InventoryService_ConsumeStock (NewInventoryRepository E) p q)"
  "keepsW D (InventoryService_Restock (NewInventoryRepository E) p q)"
  unfolding InventoryService_ConsumeStock_def InventoryService_Restock_def getInventory_def NewInventoryRepository_def
    IInventoryRepository.simps InventoryRepo_ConsumeStock_def InventoryRepo_Restock_def InventoryRepo_GetByProductID_def
    created_inventory_def
  by (auto intro!: world_steps hooks split: sum.splits)

lemma outbox_service:
  "keepsW D (OutboxService_CreatePending (NewOutboxService E (NewOutboxRepository E) []) marshal a b c p)"
proof -
  have c: "keepsW D (Create E (outbox_events_table E) x)" for x
    by (rule create) (simp_all add: outbox_events_table_def hooks, simp add: puts_def)
  show ?thesis
    unfolding OutboxService_CreatePending_def NewOutboxService_def NewOutboxRepository_def OutboxRepo_CreatePending_def
    by (auto simp: Let_def intro!: world_steps c)
qed

section \<open>Transactions\<close>

lemma price_lines: "(\<And>i. keepsW D (products i)) \<Longrightarrow> keepsW D (priceLines products ls n m)"
  by (induction ls arbitrary: n m) (auto intro!: keeping split: sum.splits)

lemma place_tx: "keepsW D (placeOrderTx req (transactionalUnitOfWork E marshal))"
  unfolding placeOrderTx_def transactionalUnitOfWork_def NewInventoryService_def NewOrderRepository_def Let_def
  by (auto intro!: keeping price_lines order_repository inventory_service outbox_service)

lemma cancel_tx: "keepsW D (cancelOrderTx i u (transactionalUnitOfWork E marshal))"
  unfolding cancelOrderTx_def transactionalUnitOfWork_def NewInventoryService_def NewOrderRepository_def
  by (auto intro!: keeping order_repository inventory_service)

lemma place: "keepsW D (UnitOfWork_WithinTransaction E marshal (placeOrderTx req))"
  unfolding UnitOfWork_WithinTransaction_def by (rule transaction [OF place_tx])

lemma cancel: "keepsW D (OrderService_CancelOrder (NewOrderService E marshal validate) i u)"
  unfolding OrderService_CancelOrder_def NewOrderService_def OrderService.simps UnitOfWork_WithinTransaction_def
  by (auto intro!: keeping transaction [OF cancel_tx])

end

text \<open>Every predicate that the environment keeps is an instance: the one that holds and is kept.\<close>

interpretation lasting: env_kept "\<lambda>w. env_keeps D E \<and> D w" E for D and E :: "'w env"
  by unfold_locales (auto simp: env_keeps_def env_stays_def stays_def)

lemma orders_keep:
  assumes "env_keeps D E" "D (st_world s)"
  shows "UnitOfWork_WithinTransaction E marshal (placeOrderTx req) s = (r, t) \<Longrightarrow> D (st_world t)"
    and "OrderService_CancelOrder (NewOrderService E marshal validate) i u s = (q, t) \<Longrightarrow> D (st_world t)"
  using keepsWD [OF lasting.place [of D E marshal req], of s r t] keepsWD [OF lasting.cancel [of D E marshal validate i u], of s q t] assms
  by simp_all

end
