(* ===== verification/Consumer.thy ===== *)
theory Consumer
  imports Publisher
begin

text \<open>
  \<open>internal/outbox/consumer\<close>: the consumer of the stream. A message is parsed, skipped when its
  event is known as processed, handled, recorded, and acknowledged; a message that cannot be
  parsed or whose handler keeps failing goes to the dead-letter stream. The lemmas give the
  accounts of a batch and the order of the calls: nothing is acknowledged before it is safe.
\<close>

section \<open>Messages\<close>

record StreamEvent =
  se_MessageID :: string
  se_EventID :: string
  se_AggregateType :: string
  se_AggregateID :: string
  se_EventType :: string
  se_Payload :: string
  se_CreatedAt :: time

definition field_required :: "string \<Rightarrow> goerr" where
  "field_required key = ErrNew (''stream event field '' @ [CHR 0x22] @ key @ [CHR 0x22] @ '' is required'')"

definition requiredString :: "(string \<rightharpoonup> any) \<Rightarrow> string \<Rightarrow> goerr + string" where
  "requiredString values key =
     (case values key of
        None \<Rightarrow> Inl (field_required key)
      | Some v \<Rightarrow>
          let text = (case v of AStr s \<Rightarrow> s | ABytes s \<Rightarrow> s | _ \<Rightarrow> Sprint v)
          in if text = '''' then Inl (field_required key) else Inr text)"

definition streamFieldValueToString :: "any \<Rightarrow> goerr + string" where
  "streamFieldValueToString v =
     (case v of AStr s \<Rightarrow> Inr s | ABytes s \<Rightarrow> Inr s | _ \<Rightarrow> Inr (Sprint v))"

definition optionalString :: "(string \<rightharpoonup> any) \<Rightarrow> string \<Rightarrow> string" where
  "optionalString values key =
     (case values key of
        None \<Rightarrow> ''''
      | Some v \<Rightarrow> (case streamFieldValueToString v of Inl _ \<Rightarrow> '''' | Inr text \<Rightarrow> text))"

definition messageEventType :: "RedisStreamMessage \<Rightarrow> string" where
  "messageEventType message = optionalString (rm_Values message) ''event_type''"

definition bindE :: "goerr + 'a \<Rightarrow> ('a \<Rightarrow> goerr + 'b) \<Rightarrow> goerr + 'b" where
  "bindE x f = (case x of Inl e \<Rightarrow> Inl e | Inr y \<Rightarrow> f y)"

lemma bindE_Inr [simp]: "bindE (Inr x) f = f x"
  by (simp add: bindE_def)

definition ParseStreamMessage :: "stdlib \<Rightarrow> RedisStreamMessage \<Rightarrow> goerr + StreamEvent" where
  "ParseStreamMessage L message =
     (let required = requiredString (rm_Values message) in
      bindE (required ''event_id'') (\<lambda>eventID.
      bindE (required ''aggregate_type'') (\<lambda>aggregateType.
      bindE (required ''aggregate_id'') (\<lambda>aggregateID.
      bindE (required ''event_type'') (\<lambda>eventType.
      bindE (required ''payload'') (\<lambda>payloadValue.
      if \<not> json_Valid L payloadValue then Inl ErrInvalidPayload
      else
        bindE (required ''created_at'') (\<lambda>createdAtValue.
        bindE (time_Parse L createdAtValue) (\<lambda>createdAt.
        Inr \<lparr>se_MessageID = rm_ID message, se_EventID = eventID, se_AggregateType = aggregateType,
             se_AggregateID = aggregateID, se_EventType = eventType, se_Payload = payloadValue,
             se_CreatedAt = createdAt\<rparr>))))))))"

section \<open>The store of processed events\<close>

record 'w ProcessedEventStore =
  ps_WasProcessed :: "string \<Rightarrow> ('w st, bool) gom"
  ps_MarkProcessed :: "string \<Rightarrow> ('w st, unit) gom"

definition processedEventKey :: "string \<Rightarrow> string" where
  "processedEventKey eventID = ''processed:events:'' @ eventID"

record 'w RedisProcessedEventStore =
  rs_cache :: "'w redis option"
  rs_ttl :: duration

definition RedisProcessedEventStore_WasProcessed :: "'w RedisProcessedEventStore \<Rightarrow> string \<Rightarrow> ('w st, bool) gom" where
  "RedisProcessedEventStore_WasProcessed store eventID =
     (case rs_cache store of
        None \<Rightarrow> throwG (ErrNew ''redis cache is required'')
      | Some cache \<Rightarrow> redis_Exists cache (processedEventKey eventID))"

definition RedisProcessedEventStore_MarkProcessed :: "'w RedisProcessedEventStore \<Rightarrow> string \<Rightarrow> ('w st, unit) gom" where
  "RedisProcessedEventStore_MarkProcessed store eventID =
     (case rs_cache store of
        None \<Rightarrow> throwG (ErrNew ''redis cache is required'')
      | Some cache \<Rightarrow>
          bindG (redis_SetNXWithExpiration cache (\<lambda>_. Inr ''true'') (processedEventKey eventID) True (rs_ttl store)) (\<lambda>ok.
          if ok then retG () else throwG ErrAlreadyProcessed))"

definition NewRedisProcessedEventStore :: "'w redis option \<Rightarrow> duration \<Rightarrow> 'w ProcessedEventStore" where
  "NewRedisProcessedEventStore cache ttl =
     (let store = \<lparr>rs_cache = cache, rs_ttl = ttl\<rparr>
      in \<lparr>ps_WasProcessed = RedisProcessedEventStore_WasProcessed store,
          ps_MarkProcessed = RedisProcessedEventStore_MarkProcessed store\<rparr>)"

type_synonym 'w EventHandler = "StreamEvent \<Rightarrow> ('w st, unit) gom"

definition LogEventHandler_Handle :: "'w EventHandler" where
  "LogEventHandler_Handle event = retG ()"

section \<open>The consumer\<close>

definition DefaultStreamName :: string where "DefaultStreamName = ''stream:orders''"
definition DefaultGroupName :: string where "DefaultGroupName = ''order-events''"
definition DefaultConsumerName :: string where "DefaultConsumerName = ''local-consumer-1''"
definition DefaultBatchSize :: int64 where "DefaultBatchSize = 10"
definition DefaultBlockDuration :: duration where "DefaultBlockDuration = 5000000000"
definition DefaultClaimMinIdle :: duration where "DefaultClaimMinIdle = 60000000000"
definition DefaultClaimBatchSize :: int64 where "DefaultClaimBatchSize = 10"
definition DefaultClaimStartID :: string where "DefaultClaimStartID = ''0-0''"
definition DefaultMaxDeliveryAttempts :: int64 where "DefaultMaxDeliveryAttempts = 5"
definition DefaultFailureTTL :: duration where "DefaultFailureTTL = 86400000000000"
definition DefaultDeadLetterStreamName :: string where "DefaultDeadLetterStreamName = ''stream:orders:dead_letter''"
definition consumerGroupStartID :: string where "consumerGroupStartID = ''0''"
definition redisBusyGroupErrMarker :: string where "redisBusyGroupErrMarker = ''BUSYGROUP''"

record 'w RedisConsumer =
  rc_cache :: "'w redis option"
  rc_handler :: "'w EventHandler option"
  rc_processedStore :: "'w ProcessedEventStore option"
  rc_streamName :: string
  rc_groupName :: string
  rc_consumerName :: string
  rc_batchSize :: int64
  rc_block :: duration
  rc_claimMinIdle :: duration
  rc_claimBatchSize :: int64
  rc_claimStartID :: string
  rc_maxDeliveryAttempts :: int64
  rc_failureTTL :: duration
  rc_deadLetterStreamName :: string
  rc_now :: "'w \<Rightarrow> time \<times> 'w"

type_synonym 'w RedisConsumerOption = "'w RedisConsumer \<Rightarrow> 'w RedisConsumer"

record BatchResult =
  br_Read :: int64
  br_Processed :: int64
  br_Skipped :: int64
  br_Failed :: int64
  br_Invalid :: int64
  br_Acked :: int64
  br_DeadLettered :: int64
  br_NextClaimStart :: string

definition WithStreamName :: "string \<Rightarrow> 'w RedisConsumerOption" where
  "WithStreamName n c = (if n \<noteq> '''' then c\<lparr>rc_streamName := n\<rparr> else c)"

definition WithGroupName :: "string \<Rightarrow> 'w RedisConsumerOption" where
  "WithGroupName n c = (if n \<noteq> '''' then c\<lparr>rc_groupName := n\<rparr> else c)"

definition WithConsumerName :: "string \<Rightarrow> 'w RedisConsumerOption" where
  "WithConsumerName n c = (if n \<noteq> '''' then c\<lparr>rc_consumerName := n\<rparr> else c)"

definition WithBatchSize :: "int64 \<Rightarrow> 'w RedisConsumerOption" where
  "WithBatchSize n c = (if 0 < n then c\<lparr>rc_batchSize := n\<rparr> else c)"

definition WithBlock :: "duration \<Rightarrow> 'w RedisConsumerOption" where
  "WithBlock d c = (if 0 < d then c\<lparr>rc_block := d\<rparr> else c)"

definition WithClaimMinIdle :: "duration \<Rightarrow> 'w RedisConsumerOption" where
  "WithClaimMinIdle d c = (if 0 < d then c\<lparr>rc_claimMinIdle := d\<rparr> else c)"

definition WithClaimBatchSize :: "int64 \<Rightarrow> 'w RedisConsumerOption" where
  "WithClaimBatchSize n c = (if 0 < n then c\<lparr>rc_claimBatchSize := n\<rparr> else c)"

definition WithMaxDeliveryAttempts :: "int64 \<Rightarrow> 'w RedisConsumerOption" where
  "WithMaxDeliveryAttempts n c = (if 0 < n then c\<lparr>rc_maxDeliveryAttempts := n\<rparr> else c)"

definition WithFailureTTL :: "duration \<Rightarrow> 'w RedisConsumerOption" where
  "WithFailureTTL d c = (if 0 < d then c\<lparr>rc_failureTTL := d\<rparr> else c)"

definition WithDeadLetterStreamName :: "string \<Rightarrow> 'w RedisConsumerOption" where
  "WithDeadLetterStreamName n c = (if n \<noteq> '''' then c\<lparr>rc_deadLetterStreamName := n\<rparr> else c)"

definition WithConsumerNow :: "('w \<Rightarrow> time \<times> 'w) option \<Rightarrow> 'w RedisConsumerOption" where
  "WithConsumerNow now c = (case now of Some f \<Rightarrow> c\<lparr>rc_now := f\<rparr> | None \<Rightarrow> c)"

definition NewRedisConsumer ::
    "'w env \<Rightarrow> 'w redis option \<Rightarrow> 'w EventHandler option \<Rightarrow> 'w ProcessedEventStore option \<Rightarrow>
     'w RedisConsumerOption list \<Rightarrow> 'w RedisConsumer" where
  "NewRedisConsumer E cache handler processedStore opts =
     fold (\<lambda>opt c. opt c) opts
       \<lparr>rc_cache = cache, rc_handler = handler, rc_processedStore = processedStore,
        rc_streamName = DefaultStreamName, rc_groupName = DefaultGroupName, rc_consumerName = DefaultConsumerName,
        rc_batchSize = DefaultBatchSize, rc_block = DefaultBlockDuration, rc_claimMinIdle = DefaultClaimMinIdle,
        rc_claimBatchSize = DefaultClaimBatchSize, rc_claimStartID = DefaultClaimStartID,
        rc_maxDeliveryAttempts = DefaultMaxDeliveryAttempts, rc_failureTTL = DefaultFailureTTL,
        rc_deadLetterStreamName = DefaultDeadLetterStreamName, rc_now = env_now E\<rparr>"

text \<open>\<open>strings.Contains(err.Error(), ...)\<close> on the error of the driver.\<close>

fun contains :: "string \<Rightarrow> string \<Rightarrow> bool" where
  "contains [] sub = (sub = [])"
| "contains (x # xs) sub = (has_prefix sub (x # xs) \<or> contains xs sub)"

definition driver_text :: "goerr \<Rightarrow> string" where
  "driver_text err = (case err of DriverErr m \<Rightarrow> m | ErrNew m \<Rightarrow> m | _ \<Rightarrow> '''')"

definition RedisConsumer_EnsureGroup :: "'w RedisConsumer \<Rightarrow> ('w st, unit) gom" where
  "RedisConsumer_EnsureGroup c =
     (case rc_cache c of
        None \<Rightarrow> throwG (ErrNew ''redis cache is required'')
      | Some cache \<Rightarrow>
          tryG (redis_XGroupCreateMkStream cache (rc_streamName c) (rc_groupName c) consumerGroupStartID) (\<lambda>r. case r of
            Inr _ \<Rightarrow> retG ()
          | Inl err \<Rightarrow>
              if contains (driver_text err) redisBusyGroupErrMarker then retG ()
              else throwG (Wrapf ''create redis stream consumer group'' err)))"

section \<open>Processing\<close>

definition ackMessageID :: "'w RedisConsumer \<Rightarrow> 'w redis \<Rightarrow> string \<Rightarrow> ('w st, unit) gom" where
  "ackMessageID c cache messageID = redis_XAck cache (rc_streamName c) (rc_groupName c) [messageID]"

definition ack :: "'w RedisConsumer \<Rightarrow> 'w redis \<Rightarrow> StreamEvent \<Rightarrow> ('w st, unit) gom" where
  "ack c cache event = ackMessageID c cache (se_MessageID event)"

definition failureKey :: "'w RedisConsumer \<Rightarrow> string \<Rightarrow> string" where
  "failureKey c eventID =
     ''consumer:failures:'' @ rc_streamName c @ '':'' @ rc_groupName c @ '':'' @
       (if eventID = '''' then ''unknown'' else eventID)"

definition recordFailure :: "'w RedisConsumer \<Rightarrow> 'w redis \<Rightarrow> StreamEvent \<Rightarrow> ('w st, int64) gom" where
  "recordFailure c cache event =
     redis_IncrementWithExpiration cache (failureKey c (se_EventID event)) (rc_failureTTL c)"

definition deadLetterEvent ::
    "stdlib \<Rightarrow> 'w RedisConsumer \<Rightarrow> 'w redis \<Rightarrow> StreamEvent \<Rightarrow> int64 \<Rightarrow> string \<Rightarrow> ('w st, unit) gom" where
  "deadLetterEvent L c cache event failureCount errorType =
     bindG (askG (rc_now c)) (\<lambda>now.
     bindG (redis_XAdd cache (rc_deadLetterStreamName c)
       [''original_stream'' \<mapsto> AStr (rc_streamName c), ''original_group'' \<mapsto> AStr (rc_groupName c),
        ''original_message_id'' \<mapsto> AStr (se_MessageID event), ''event_id'' \<mapsto> AStr (se_EventID event),
        ''event_type'' \<mapsto> AStr (se_EventType event), ''aggregate_type'' \<mapsto> AStr (se_AggregateType event),
        ''aggregate_id'' \<mapsto> AStr (se_AggregateID event), ''payload'' \<mapsto> AStr (se_Payload event),
        ''failure_count'' \<mapsto> AInt failureCount, ''error_type'' \<mapsto> AStr errorType,
        ''dead_lettered_at'' \<mapsto> AStr (time_Format L now)]) (\<lambda>_. retG ()))"

definition deadLetterInvalidMessage ::
    "stdlib \<Rightarrow> 'w RedisConsumer \<Rightarrow> 'w redis \<Rightarrow> RedisStreamMessage \<Rightarrow> ('w st, unit) gom" where
  "deadLetterInvalidMessage L c cache message =
     (let optional = optionalString (rm_Values message);
          eventID = (if optional ''event_id'' = '''' then rm_ID message else optional ''event_id'')
      in bindG (askG (rc_now c)) (\<lambda>now.
         bindG (redis_XAdd cache (rc_deadLetterStreamName c)
           [''original_stream'' \<mapsto> AStr (rc_streamName c), ''original_group'' \<mapsto> AStr (rc_groupName c),
            ''original_message_id'' \<mapsto> AStr (rm_ID message), ''event_id'' \<mapsto> AStr eventID,
            ''event_type'' \<mapsto> AStr (optional ''event_type''), ''aggregate_type'' \<mapsto> AStr (optional ''aggregate_type''),
            ''aggregate_id'' \<mapsto> AStr (optional ''aggregate_id''), ''payload'' \<mapsto> AStr (optional ''payload''),
            ''failure_count'' \<mapsto> AInt 1, ''error_type'' \<mapsto> AStr ''parse_error'',
            ''dead_lettered_at'' \<mapsto> AStr (time_Format L now)]) (\<lambda>_. retG ())))"

definition failed :: "BatchResult \<Rightarrow> BatchResult" where
  "failed result = result\<lparr>br_Failed := br_Failed result + 1\<rparr>"

definition acked :: "BatchResult \<Rightarrow> BatchResult" where
  "acked result = result\<lparr>br_Acked := br_Acked result + 1\<rparr>"

definition skipped :: "BatchResult \<Rightarrow> BatchResult" where
  "skipped result = result\<lparr>br_Skipped := br_Skipped result + 1\<rparr>"

definition dead_letter :: "BatchResult \<Rightarrow> BatchResult" where
  "dead_letter result = result\<lparr>br_DeadLettered := br_DeadLettered result + 1\<rparr>"

text \<open>The branches of the loop body: a message that cannot be parsed ...\<close>

definition processInvalid ::
    "stdlib \<Rightarrow> 'w RedisConsumer \<Rightarrow> 'w redis \<Rightarrow> RedisStreamMessage \<Rightarrow> BatchResult \<Rightarrow> ('w st, BatchResult) gom" where
  "processInvalid L c cache message result =
     (let eventType = messageEventType message;
          result1 = failed (result\<lparr>br_Invalid := br_Invalid result + 1\<rparr>)
      in bindG (metricG (RecordOutboxConsumerRead eventType 1)) (\<lambda>_.
         bindG (metricG (RecordOutboxConsumerFailure eventType ''invalid_payload'')) (\<lambda>_.
         tryG (deadLetterInvalidMessage L c cache message) (\<lambda>d. case d of
           Inl _ \<Rightarrow>
             bindG (metricG (RecordOutboxConsumerDeadLetter eventType ''parse_error'' ''failure'')) (\<lambda>_. retG result1)
         | Inr _ \<Rightarrow>
             bindG (metricG (RecordOutboxConsumerDeadLetter eventType ''parse_error'' ''success'')) (\<lambda>_.
             tryG (ackMessageID c cache (rm_ID message)) (\<lambda>a. case a of
               Inl _ \<Rightarrow> bindG (metricG (RecordOutboxConsumerAck eventType ''failure'')) (\<lambda>_. retG (dead_letter result1))
             | Inr _ \<Rightarrow>
                 bindG (metricG (RecordOutboxConsumerAck eventType ''success'')) (\<lambda>_.
                 retG (acked (dead_letter result1)))))))))"

text \<open>... an event that was processed before, by \<open>WasProcessed\<close> or by a concurrent consumer ...\<close>

definition processDuplicate ::
    "'w RedisConsumer \<Rightarrow> 'w redis \<Rightarrow> StreamEvent \<Rightarrow> string \<Rightarrow> BatchResult \<Rightarrow> ('w st, BatchResult) gom" where
  "processDuplicate c cache event reason result =
     tryG (ack c cache event) (\<lambda>a. case a of
       Inl _ \<Rightarrow>
         bindG (metricG (RecordOutboxConsumerAck (se_EventType event) ''failure'')) (\<lambda>_.
         bindG (metricG (RecordOutboxConsumerFailure (se_EventType event) reason)) (\<lambda>_. retG (failed result)))
     | Inr _ \<Rightarrow>
         bindG (metricG (RecordOutboxConsumerDuplicateSkipped (se_EventType event))) (\<lambda>_.
         bindG (metricG (RecordOutboxConsumerAck (se_EventType event) ''success'')) (\<lambda>_.
         retG (acked (skipped result)))))"

text \<open>... an event whose handler failed ...\<close>

definition processHandlerError ::
    "stdlib \<Rightarrow> 'w RedisConsumer \<Rightarrow> 'w redis \<Rightarrow> StreamEvent \<Rightarrow> BatchResult \<Rightarrow> ('w st, BatchResult) gom" where
  "processHandlerError L c cache event result =
     (let result1 = failed result; eventType = se_EventType event
      in bindG (metricG (RecordOutboxConsumerFailure eventType ''handler_error'')) (\<lambda>_.
         tryG (recordFailure c cache event) (\<lambda>n. case n of
           Inl _ \<Rightarrow>
             bindG (metricG (RecordOutboxConsumerFailure eventType ''failure_counter'')) (\<lambda>_. retG result1)
         | Inr failureCount \<Rightarrow>
             if rc_maxDeliveryAttempts c \<le> failureCount then
               tryG (deadLetterEvent L c cache event failureCount ''handler_error'') (\<lambda>d. case d of
                 Inl _ \<Rightarrow>
                   bindG (metricG (RecordOutboxConsumerDeadLetter eventType ''handler_error'' ''failure'')) (\<lambda>_. retG result1)
               | Inr _ \<Rightarrow>
                   bindG (metricG (RecordOutboxConsumerDeadLetter eventType ''handler_error'' ''success'')) (\<lambda>_.
                   tryG (ack c cache event) (\<lambda>a. case a of
                     Inl _ \<Rightarrow> bindG (metricG (RecordOutboxConsumerAck eventType ''failure'')) (\<lambda>_. retG (dead_letter result1))
                   | Inr _ \<Rightarrow>
                       bindG (metricG (RecordOutboxConsumerAck eventType ''success'')) (\<lambda>_.
                       retG (acked (dead_letter result1))))))
             else retG result1)))"

text \<open>... an event whose handler succeeded ...\<close>

definition processHandled ::
    "'w RedisConsumer \<Rightarrow> 'w redis \<Rightarrow> 'w ProcessedEventStore \<Rightarrow> StreamEvent \<Rightarrow> BatchResult \<Rightarrow> ('w st, BatchResult) gom" where
  "processHandled c cache store event result =
     (let eventType = se_EventType event
      in bindG (metricG (RecordOutboxConsumerHandlerSuccess eventType)) (\<lambda>_.
         tryG (ps_MarkProcessed store (se_EventID event)) (\<lambda>m. case m of
           Inl err \<Rightarrow>
             if errors_Is err ErrAlreadyProcessed then processDuplicate c cache event ''ack_concurrent_duplicate'' result
             else bindG (metricG (RecordOutboxConsumerFailure eventType ''mark_processed'')) (\<lambda>_. retG (failed result))
         | Inr _ \<Rightarrow>
             tryG (ack c cache event) (\<lambda>a. case a of
               Inl _ \<Rightarrow>
                 bindG (metricG (RecordOutboxConsumerAck eventType ''failure'')) (\<lambda>_.
                 bindG (metricG (RecordOutboxConsumerFailure eventType ''ack'')) (\<lambda>_. retG (failed result)))
             | Inr _ \<Rightarrow>
                 bindG (metricG (RecordOutboxConsumerAck eventType ''success'')) (\<lambda>_.
                 retG (acked (result\<lparr>br_Processed := br_Processed result + 1\<rparr>)))))))"

text \<open>... and the loop.\<close>

definition processMessage ::
    "stdlib \<Rightarrow> 'w RedisConsumer \<Rightarrow> 'w redis \<Rightarrow> 'w EventHandler \<Rightarrow> 'w ProcessedEventStore \<Rightarrow>
     RedisStreamMessage \<Rightarrow> BatchResult \<Rightarrow> ('w st, BatchResult) gom" where
  "processMessage L c cache handler store message result =
     (case ParseStreamMessage L message of
        Inl _ \<Rightarrow> processInvalid L c cache message result
      | Inr event \<Rightarrow>
          bindG (metricG (RecordOutboxConsumerRead (se_EventType event) 1)) (\<lambda>_.
          tryG (ps_WasProcessed store (se_EventID event)) (\<lambda>p. case p of
            Inl _ \<Rightarrow>
              bindG (metricG (RecordOutboxConsumerFailure (se_EventType event) ''idempotency_check'')) (\<lambda>_.
              retG (failed result))
          | Inr processed \<Rightarrow>
              if processed then processDuplicate c cache event ''ack_duplicate'' result
              else
                tryG (handler event) (\<lambda>h. case h of
                  Inl _ \<Rightarrow> processHandlerError L c cache event result
                | Inr _ \<Rightarrow> processHandled c cache store event result))))"

fun processLoop ::
    "stdlib \<Rightarrow> 'w RedisConsumer \<Rightarrow> 'w redis \<Rightarrow> 'w EventHandler \<Rightarrow> 'w ProcessedEventStore \<Rightarrow>
     RedisStreamMessage list \<Rightarrow> BatchResult \<Rightarrow> ('w st, BatchResult) gom" where
  "processLoop L c cache handler store [] result = retG result"
| "processLoop L c cache handler store (message # messages) result =
     bindG (processMessage L c cache handler store message result) (\<lambda>result1.
     processLoop L c cache handler store messages result1)"

definition empty_batch :: BatchResult where
  "empty_batch = \<lparr>br_Read = 0, br_Processed = 0, br_Skipped = 0, br_Failed = 0, br_Invalid = 0, br_Acked = 0,
     br_DeadLettered = 0, br_NextClaimStart = ''''\<rparr>"

definition processMessages ::
    "stdlib \<Rightarrow> 'w RedisConsumer \<Rightarrow> 'w redis \<Rightarrow> 'w EventHandler \<Rightarrow> 'w ProcessedEventStore \<Rightarrow>
     RedisStreamMessage list \<Rightarrow> ('w st, BatchResult) gom" where
  "processMessages L c cache handler store messages =
     processLoop L c cache handler store messages (empty_batch\<lparr>br_Read := int (length messages)\<rparr>)"

text \<open>\<open>validate\<close> yields the three collaborators.\<close>

definition RedisConsumer_validate ::
    "'w RedisConsumer \<Rightarrow> goerr + ('w redis \<times> 'w EventHandler \<times> 'w ProcessedEventStore)" where
  "RedisConsumer_validate c =
     (case rc_cache c of
        None \<Rightarrow> Inl (ErrNew ''redis cache is required'')
      | Some cache \<Rightarrow>
          (case rc_handler c of
             None \<Rightarrow> Inl (ErrNew ''event handler is required'')
           | Some handler \<Rightarrow>
               (case rc_processedStore c of
                  None \<Rightarrow> Inl (ErrNew ''processed event store is required'')
                | Some store \<Rightarrow> Inr (cache, handler, store))))"

definition RedisConsumer_RunOnce :: "stdlib \<Rightarrow> 'w RedisConsumer \<Rightarrow> ('w st, BatchResult) gom" where
  "RedisConsumer_RunOnce L c =
     bindG (liftG (RedisConsumer_validate c)) (\<lambda>(cache, handler, store).
     tryG (redis_XReadGroup cache (rc_groupName c) (rc_consumerName c) (rc_streamName c) (rc_batchSize c) (rc_block c))
       (\<lambda>r. case r of
          Inl err \<Rightarrow> throwG (Wrapf ''read redis stream consumer group'' err)
        | Inr messages \<Rightarrow> processMessages L c cache handler store messages))"

definition RedisConsumer_ClaimStaleOnce :: "stdlib \<Rightarrow> 'w RedisConsumer \<Rightarrow> ('w st, BatchResult) gom" where
  "RedisConsumer_ClaimStaleOnce L c =
     bindG (liftG (RedisConsumer_validate c)) (\<lambda>(cache, handler, store).
     tryG (redis_XAutoClaim cache (rc_streamName c) (rc_groupName c) (rc_consumerName c) (rc_claimStartID c)
             (rc_claimMinIdle c) (rc_claimBatchSize c))
       (\<lambda>r. case r of
          Inl err \<Rightarrow> throwG (Wrapf ''claim stale redis stream messages'' err)
        | Inr (messages, nextStart) \<Rightarrow>
            bindG (metricG (RecordOutboxConsumerStaleClaim (int (length messages)))) (\<lambda>_.
            bindG (processMessages L c cache handler store messages) (\<lambda>result.
            retG (result\<lparr>br_NextClaimStart := nextStart\<rparr>)))))"

section \<open>The accounts of a batch\<close>

definition accounts :: "int64 \<Rightarrow> BatchResult \<Rightarrow> BatchResult \<Rightarrow> bool" where
  "accounts n a b \<longleftrightarrow>
     br_Read b = br_Read a \<and>
     br_Processed b + br_Skipped b + br_Failed b = br_Processed a + br_Skipped a + br_Failed a + n \<and>
     br_Processed a \<le> br_Processed b \<and> br_Skipped a \<le> br_Skipped b \<and> br_Failed a \<le> br_Failed b \<and>
     br_Processed b + br_Skipped b + br_Acked a \<le> br_Processed a + br_Skipped a + br_Acked b \<and>
     br_Acked b + br_Processed a + br_Skipped a + br_DeadLettered a \<le>
       br_Acked a + br_Processed b + br_Skipped b + br_DeadLettered b \<and>
     br_DeadLettered a \<le> br_DeadLettered b \<and> br_DeadLettered b + br_Failed a \<le> br_DeadLettered a + br_Failed b \<and>
     br_Invalid a \<le> br_Invalid b \<and> br_Invalid b + br_Failed a \<le> br_Invalid a + br_Failed b"

lemmas tallies = accounts_def failed_def acked_def skipped_def dead_letter_def

lemma accounts_refl: "accounts 0 a a"
  by (simp add: accounts_def)

lemma accounts_trans: "accounts m a b \<Longrightarrow> accounts n b c \<Longrightarrow> accounts (m + n) a c"
  unfolding accounts_def by linarith

lemmas steps = tryG_def retG_def bind_steps(1) Let_def

lemma processInvalid_accounts: "\<exists>b. fst (processInvalid L c cache message a s) = Inr b \<and> accounts 1 a b"
  by (auto simp: processInvalid_def steps tallies split: prod.splits sum.splits)

lemma processDuplicate_accounts: "\<exists>b. fst (processDuplicate c cache event reason a s) = Inr b \<and> accounts 1 a b"
  by (auto simp: processDuplicate_def steps tallies split: prod.splits sum.splits)

lemma processHandlerError_accounts: "\<exists>b. fst (processHandlerError L c cache event a s) = Inr b \<and> accounts 1 a b"
  by (auto simp: processHandlerError_def steps tallies split: prod.splits sum.splits)

lemma processHandled_accounts: "\<exists>b. fst (processHandled c cache store event a s) = Inr b \<and> accounts 1 a b"
proof -
  obtain m u where m: "ps_MarkProcessed store (se_EventID event)
      (s\<lparr>st_metrics := RecordOutboxConsumerHandlerSuccess (se_EventType event) (st_metrics s)\<rparr>) = (m, u)" by fastforce
  show ?thesis
  proof (cases m)
    case (Inl err)
    show ?thesis
    proof (cases "errors_Is err ErrAlreadyProcessed")
      case True
      with m Inl processDuplicate_accounts [of c cache event "''ack_concurrent_duplicate''" a u] show ?thesis
        by (simp add: processHandled_def steps)
    qed (use m Inl in \<open>simp add: processHandled_def steps tallies\<close>)
  qed (use m in \<open>auto simp: processHandled_def steps tallies split: prod.splits sum.splits\<close>)
qed

lemma processMessage_accounts: "\<exists>b. fst (processMessage L c cache handler store message a s) = Inr b \<and> accounts 1 a b"
proof (cases "ParseStreamMessage L message")
  case (Inr event)
  define s1 where "s1 = s\<lparr>st_metrics := RecordOutboxConsumerRead (se_EventType event) 1 (st_metrics s)\<rparr>"
  obtain p u where p: "ps_WasProcessed store (se_EventID event) s1 = (p, u)" by fastforce
  obtain h v where h: "handler event u = (h, v)" by fastforce
  note run = processMessage_def [of L c cache handler store message a] Inr steps p [unfolded s1_def] h
  show ?thesis
  proof (cases p)
    case (Inl e)
    then show ?thesis by (simp add: run tallies)
  next
    case (Inr processed)
    then show ?thesis
      using processDuplicate_accounts processHandlerError_accounts processHandled_accounts
      by (cases processed; cases h) (simp_all add: run)
  qed
qed (simp add: processMessage_def processInvalid_accounts)

lemma processLoop_accounts:
  "\<exists>b. fst (processLoop L c cache handler store messages a s) = Inr b \<and> accounts (int (length messages)) a b"
proof (induction messages arbitrary: a s)
  case (Cons m ms)
  from processMessage_accounts [of L c cache handler store m a s]
  obtain b t where b: "processMessage L c cache handler store m a s = (Inr b, t)" "accounts 1 a b"
    by (metis prod.collapse)
  from Cons.IH [of b t] obtain d where "fst (processLoop L c cache handler store ms b t) = Inr d"
    "accounts (int (length ms)) b d" by blast
  with b accounts_trans [OF b(2)] show ?case by (auto simp: bindG_def)
qed (simp add: retG_def accounts_refl)

section \<open>The order of the calls\<close>

text \<open>The calls that a batch makes to its collaborators, as an observer logs them.\<close>

datatype call =
    Handled StreamEvent bool
  | Checked string bool
  | Marked string bool
  | Acked string "string list"
  | Added string "string \<rightharpoonup> any" bool

text \<open>
  \<open>lg\<close> reads the log off the outside world: each call of a collaborator appends its entry,
  the clock and the failure counter append none.
\<close>

definition observed ::
    "('w \<Rightarrow> call list) \<Rightarrow> 'w RedisConsumer \<Rightarrow> 'w redis \<Rightarrow> 'w EventHandler \<Rightarrow> 'w ProcessedEventStore \<Rightarrow> bool" where
  "observed lg c cache handler store \<longleftrightarrow>
     (\<forall>ev s. lg (st_world (snd (handler ev s))) = lg (st_world s) @ [Handled ev (\<not> isl (fst (handler ev s)))]) \<and>
     (\<forall>i s. lg (st_world (snd (ps_WasProcessed store i s))) =
        lg (st_world s) @ [Checked i (fst (ps_WasProcessed store i s) = Inr True)]) \<and>
     (\<forall>i s. lg (st_world (snd (ps_MarkProcessed store i s))) =
        lg (st_world s) @ [Marked i (case fst (ps_MarkProcessed store i s) of
                                      Inl e \<Rightarrow> errors_Is e ErrAlreadyProcessed | Inr _ \<Rightarrow> True)]) \<and>
     (\<forall>stream g ids s. lg (st_world (snd (redis_XAck cache stream g ids s))) = lg (st_world s) @ [Acked stream ids]) \<and>
     (\<forall>stream kvs s. lg (st_world (snd (redis_XAdd cache stream kvs s))) =
        lg (st_world s) @ [Added stream kvs (\<not> isl (fst (redis_XAdd cache stream kvs s)))]) \<and>
     (\<forall>k d s. lg (st_world (snd (redis_IncrementWithExpiration cache k d s))) = lg (st_world s)) \<and>
     (\<forall>w. lg (snd (rc_now c w)) = lg w)"

text \<open>
  Why a message may be acknowledged after the calls \<open>cs\<close>: it was stored on the dead-letter
  stream, or its event was known as processed, or its event was handled and is recorded.
\<close>

definition dead_lettered_message :: "'w RedisConsumer \<Rightarrow> string \<Rightarrow> call list \<Rightarrow> bool" where
  "dead_lettered_message c i cs \<longleftrightarrow>
     (\<exists>kvs. Added (rc_deadLetterStreamName c) kvs True \<in> set cs \<and> kvs ''original_message_id'' = Some (AStr i))"

definition safe_to_ack :: "stdlib \<Rightarrow> 'w RedisConsumer \<Rightarrow> RedisStreamMessage \<Rightarrow> call list \<Rightarrow> bool" where
  "safe_to_ack L c m cs \<longleftrightarrow>
     dead_lettered_message c (rm_ID m) cs \<or>
     (case ParseStreamMessage L m of
        Inl _ \<Rightarrow> False
      | Inr ev \<Rightarrow> Checked (se_EventID ev) True \<in> set cs \<or>
                  Handled ev True \<in> set cs \<and> Marked (se_EventID ev) True \<in> set cs)"

text \<open>Every acknowledgement in \<open>cs\<close>, made after the calls \<open>pre\<close>, is of one message and safe.\<close>

fun acks_safe :: "stdlib \<Rightarrow> 'w RedisConsumer \<Rightarrow> RedisStreamMessage list \<Rightarrow> call list \<Rightarrow> call list \<Rightarrow> bool" where
  "acks_safe L c ms pre [] = True"
| "acks_safe L c ms pre (x # cs) =
     ((case x of
         Acked stream ids \<Rightarrow> stream = rc_streamName c \<and> (\<exists>m \<in> set ms. ids = [rm_ID m] \<and> safe_to_ack L c m pre)
       | _ \<Rightarrow> True) \<and> acks_safe L c ms (pre @ [x]) cs)"

lemma observedD:
  assumes "observed lg c cache handler store"
  shows "handler ev s = (r, t) \<Longrightarrow> lg (st_world t) = lg (st_world s) @ [Handled ev (\<not> isl r)]"
    "ps_WasProcessed store i s = (q, t) \<Longrightarrow> lg (st_world t) = lg (st_world s) @ [Checked i (q = Inr True)]"
    "ps_MarkProcessed store i s = (r, t) \<Longrightarrow>
       lg (st_world t) = lg (st_world s) @ [Marked i (case r of Inl e \<Rightarrow> errors_Is e ErrAlreadyProcessed | Inr _ \<Rightarrow> True)]"
    "redis_XAck cache stream g ids s = (r, t) \<Longrightarrow> lg (st_world t) = lg (st_world s) @ [Acked stream ids]"
    "redis_XAdd cache stream kvs s = (x, t) \<Longrightarrow> lg (st_world t) = lg (st_world s) @ [Added stream kvs (\<not> isl x)]"
    "redis_IncrementWithExpiration cache k d s = (n, t) \<Longrightarrow> lg (st_world t) = lg (st_world s)"
    "lg (snd (rc_now c w)) = lg w"
  using assms unfolding observed_def by (metis fst_conv snd_conv)+

lemma acks_safe_append:
  "acks_safe L c ms pre (xs @ ys) = (acks_safe L c ms pre xs \<and> acks_safe L c ms (pre @ xs) ys)"
  by (induction xs arbitrary: pre) auto

lemma dead_lettered_mono: "dead_lettered_message c i cs \<Longrightarrow> set cs \<subseteq> set ds \<Longrightarrow> dead_lettered_message c i ds"
  unfolding dead_lettered_message_def by blast

lemma safe_to_ack_mono: "safe_to_ack L c m cs \<Longrightarrow> set cs \<subseteq> set ds \<Longrightarrow> safe_to_ack L c m ds"
  using dead_lettered_mono [of c "rm_ID m" cs ds] by (auto simp: safe_to_ack_def split: sum.splits)

lemma acks_safe_mono:
  "acks_safe L c ms pre xs \<Longrightarrow> set ms \<subseteq> set ns \<Longrightarrow> set pre \<subseteq> set pre' \<Longrightarrow> acks_safe L c ns pre' xs"
proof (induction xs arbitrary: pre pre')
  case (Cons x xs)
  have "acks_safe L c ns (pre' @ [x]) xs" using Cons.IH [of "pre @ [x]" "pre' @ [x]"] Cons.prems by auto
  with Cons.prems show ?case by (auto split: call.splits intro: safe_to_ack_mono)
qed simp

lemma ParseStreamMessage_ID: "ParseStreamMessage L m = Inr ev \<Longrightarrow> se_MessageID ev = rm_ID m"
  by (auto simp: ParseStreamMessage_def Let_def bindE_def split: sum.splits if_splits)

lemma deadLetter_calls:
  assumes ob: "observed lg c cache handler store"
  shows "deadLetterInvalidMessage L c cache m s = (r, t) \<Longrightarrow> \<exists>kvs. kvs ''original_message_id'' = Some (AStr (rm_ID m)) \<and>
      lg (st_world t) = lg (st_world s) @ [Added (rc_deadLetterStreamName c) kvs (\<not> isl r)]"
    and "deadLetterEvent L c cache ev n ty s = (r, t) \<Longrightarrow> \<exists>kvs. kvs ''original_message_id'' = Some (AStr (se_MessageID ev)) \<and>
      lg (st_world t) = lg (st_world s) @ [Added (rc_deadLetterStreamName c) kvs (\<not> isl r)]"
proof -
  have ask: "bindG (askG g) f s = f (fst (g (st_world s))) (s\<lparr>st_world := snd (g (st_world s))\<rparr>)" for g f and s :: "'a st"
    by (simp add: bindG_def askG_def split: prod.splits)
  have add': "\<exists>kvs. kvs k = v \<and> lg (st_world t) = lg (st_world s) @ [Added stream kvs (\<not> isl r)]"
    if run: "bindG (askG (rc_now c)) (\<lambda>now. bindG (redis_XAdd cache stream (f now)) (\<lambda>_. retG ())) s = (r, t)"
      and f: "\<And>now. f now k = v" for stream f k v r t and s :: "'a st"
  proof -
    define s1 where "s1 = s\<lparr>st_world := snd (rc_now c (st_world s))\<rparr>"
    define kvs where "kvs = f (fst (rc_now c (st_world s)))"
    obtain x u where x: "redis_XAdd cache stream kvs s1 = (x, u)" by fastforce
    have "bindG (redis_XAdd cache stream kvs) (\<lambda>_. retG ()) s1 = (r, t)"
      using run by (simp add: ask s1_def kvs_def)
    with x have "t = u" "isl r = isl x"
      by (auto simp: bindG_def retG_def split: sum.splits)
    with observedD(5) [OF ob x] observedD(7) [OF ob] f [of "fst (rc_now c (st_world s))"] show ?thesis
      by (intro exI [of _ kvs]) (simp add: s1_def kvs_def)
  qed
  show "deadLetterInvalidMessage L c cache m s = (r, t) \<Longrightarrow> \<exists>kvs. kvs ''original_message_id'' = Some (AStr (rm_ID m)) \<and>
      lg (st_world t) = lg (st_world s) @ [Added (rc_deadLetterStreamName c) kvs (\<not> isl r)]"
    unfolding deadLetterInvalidMessage_def Let_def by (erule add') simp
  show "deadLetterEvent L c cache ev n ty s = (r, t) \<Longrightarrow> \<exists>kvs. kvs ''original_message_id'' = Some (AStr (se_MessageID ev)) \<and>
      lg (st_world t) = lg (st_world s) @ [Added (rc_deadLetterStreamName c) kvs (\<not> isl r)]"
    unfolding deadLetterEvent_def by (erule add') simp
qed

text \<open>Acknowledging one message, after a dead letter or not.\<close>

lemma ack_calls:
  assumes ob: "observed lg c cache handler store" and run: "ackMessageID c cache i s = (r, t)"
  shows "lg (st_world t) = lg (st_world s) @ [Acked (rc_streamName c) [i]]"
  using observedD(4) [OF ob] run unfolding ackMessageID_def by blast

lemma dead_letter_then_ack_safe:
  assumes "kvs ''original_message_id'' = Some (AStr (rm_ID m))"
  shows "acks_safe L c [m] pre [Added (rc_deadLetterStreamName c) kvs True, Acked (rc_streamName c) [rm_ID m]]"
  using assms by (auto simp: safe_to_ack_def dead_lettered_message_def)

definition calls_safe :: "('w \<Rightarrow> call list) \<Rightarrow> stdlib \<Rightarrow> 'w RedisConsumer \<Rightarrow> RedisStreamMessage list \<Rightarrow> call list \<Rightarrow> 'w st \<Rightarrow> 'w st \<Rightarrow> bool" where
  "calls_safe lg L c ms pre s t \<longleftrightarrow> (\<exists>cs. lg (st_world t) = lg (st_world s) @ cs \<and> acks_safe L c ms pre cs)"

lemma calls_safe_none: "lg (st_world t) = lg (st_world s) \<Longrightarrow> calls_safe lg L c ms pre s t"
  unfolding calls_safe_def by (intro exI [of _ "[]"]) simp

lemma calls_safe_one:
  "lg (st_world t) = lg (st_world s) @ [x] \<Longrightarrow> (\<And>st ids. x \<noteq> Acked st ids) \<Longrightarrow> calls_safe lg L c ms pre s t"
  unfolding calls_safe_def by (intro exI [of _ "[x]"]) (auto split: call.splits)

lemma calls_safe_step:
  assumes "lg (st_world u) = lg (st_world s) @ [x]" "calls_safe lg L c ms (pre @ [x]) u t" "\<And>st ids. x \<noteq> Acked st ids"
  shows "calls_safe lg L c ms pre s t"
proof -
  from assms(2) obtain cs where cs: "lg (st_world t) = lg (st_world u) @ cs" "acks_safe L c ms (pre @ [x]) cs"
    by (auto simp: calls_safe_def)
  with assms(1,3) have "lg (st_world t) = lg (st_world s) @ x # cs" "acks_safe L c ms pre (x # cs)"
    by (auto split: call.splits)
  then show ?thesis unfolding calls_safe_def by blast
qed

lemma calls_safe_ack:
  assumes "lg (st_world t) = lg (st_world s) @ [Acked (rc_streamName c) [rm_ID m]]" "safe_to_ack L c m pre"
  shows "calls_safe lg L c [m] pre s t"
  unfolding calls_safe_def using assms by (intro exI [of _ "[Acked (rc_streamName c) [rm_ID m]]"]) simp

lemma calls_safe_dead_letter:
  assumes "lg (st_world t) = lg (st_world s) @ [Added (rc_deadLetterStreamName c) kvs True, Acked (rc_streamName c) [rm_ID m]]"
    "kvs ''original_message_id'' = Some (AStr (rm_ID m))"
  shows "calls_safe lg L c [m] pre s t"
  unfolding calls_safe_def using dead_letter_then_ack_safe [where kvs = kvs and m = m] assms by blast

lemma calls_safe_metrics [simp]:
  "calls_safe lg L c ms pre (s\<lparr>st_metrics := x\<rparr>) t = calls_safe lg L c ms pre s t"
  "calls_safe lg L c ms pre s (t\<lparr>st_metrics := x\<rparr>) = calls_safe lg L c ms pre s t"
  by (simp_all add: calls_safe_def)

lemma processInvalid_safe:
  assumes ob: "observed lg c cache handler store" and run: "processInvalid L c cache m a s = (r, t)"
  shows "calls_safe lg L c [m] pre s t"
proof -
  define s1 where "s1 = s\<lparr>st_metrics := RecordOutboxConsumerFailure (messageEventType m) ''invalid_payload''
     (RecordOutboxConsumerRead (messageEventType m) 1 (st_metrics s))\<rparr>"
  obtain d u where d: "deadLetterInvalidMessage L c cache m s1 = (d, u)" by fastforce
  from deadLetter_calls(1) [OF ob d] obtain kvs where kvs: "kvs ''original_message_id'' = Some (AStr (rm_ID m))"
    "lg (st_world u) = lg (st_world s) @ [Added (rc_deadLetterStreamName c) kvs (\<not> isl d)]" by (auto simp: s1_def)
  note sims = processInvalid_def steps d [unfolded s1_def]
  show ?thesis
  proof (cases d)
    case (Inl e)
    with run have "st_world t = st_world u" by (auto simp: sims)
    with kvs(2) show ?thesis by (intro calls_safe_one [of _ _ _ "Added (rc_deadLetterStreamName c) kvs (\<not> isl d)"]) simp_all
  next
    case (Inr x)
    define u1 where "u1 = u\<lparr>st_metrics := RecordOutboxConsumerDeadLetter (messageEventType m) ''parse_error'' ''success'' (st_metrics u)\<rparr>"
    obtain k v where k: "ackMessageID c cache (rm_ID m) u1 = (k, v)" by fastforce
    with run Inr have "st_world t = st_world v" by (auto simp: sims u1_def split: sum.splits)
    moreover have "lg (st_world v) = lg (st_world s) @ [Added (rc_deadLetterStreamName c) kvs True, Acked (rc_streamName c) [rm_ID m]]"
      using ack_calls [OF ob k] kvs(2) Inr by (simp add: u1_def)
    ultimately show ?thesis using kvs(1) by (intro calls_safe_dead_letter [of _ _ _ _ kvs]) simp_all
  qed
qed

lemma processDuplicate_safe:
  assumes ob: "observed lg c cache handler store" and run: "processDuplicate c cache ev reason a s = (r, t)"
    and ev: "se_MessageID ev = rm_ID m" and safe: "safe_to_ack L c m pre"
  shows "calls_safe lg L c [m] pre s t"
proof -
  obtain k u where k: "ackMessageID c cache (rm_ID m) s = (k, u)" by fastforce
  with run have "st_world t = st_world u" by (auto simp: processDuplicate_def ack_def ev steps split: sum.splits)
  with ack_calls [OF ob k] show ?thesis by (intro calls_safe_ack [OF _ safe]) simp
qed

lemma processHandlerError_safe:
  assumes ob: "observed lg c cache handler store" and run: "processHandlerError L c cache ev a s = (r, t)"
    and ev: "se_MessageID ev = rm_ID m"
  shows "calls_safe lg L c [m] pre s t"
proof -
  define s1 where "s1 = s\<lparr>st_metrics := RecordOutboxConsumerFailure (se_EventType ev) ''handler_error'' (st_metrics s)\<rparr>"
  obtain n u where n: "recordFailure c cache ev s1 = (n, u)" by fastforce
  have u: "lg (st_world u) = lg (st_world s)" using observedD(6) [OF ob n [unfolded recordFailure_def]] by (simp add: s1_def)
  note sims = processHandlerError_def steps n [unfolded s1_def]
  show ?thesis
  proof (cases "\<exists>k. n = Inr k \<and> rc_maxDeliveryAttempts c \<le> k")
    case False
    with run have "st_world t = st_world u" by (cases n) (auto simp: sims)
    with u show ?thesis by (intro calls_safe_none) simp
  next
    case True
    then obtain k where k: "n = Inr k" "rc_maxDeliveryAttempts c \<le> k" by blast
    obtain d v where d: "deadLetterEvent L c cache ev k ''handler_error'' u = (d, v)" by fastforce
    from deadLetter_calls(2) [OF ob d] obtain kvs where kvs: "kvs ''original_message_id'' = Some (AStr (rm_ID m))"
      "lg (st_world v) = lg (st_world s) @ [Added (rc_deadLetterStreamName c) kvs (\<not> isl d)]" by (auto simp: u ev)
    show ?thesis
    proof (cases d)
      case (Inl e)
      with run k d have "st_world t = st_world v" by (auto simp: sims)
      with kvs(2) show ?thesis by (intro calls_safe_one [of _ _ _ "Added (rc_deadLetterStreamName c) kvs (\<not> isl d)"]) simp_all
    next
      case (Inr x)
      define v1 where "v1 = v\<lparr>st_metrics := RecordOutboxConsumerDeadLetter (se_EventType ev) ''handler_error'' ''success'' (st_metrics v)\<rparr>"
      obtain b z where b: "ackMessageID c cache (rm_ID m) v1 = (b, z)" by fastforce
      with run k d Inr have "st_world t = st_world z" by (auto simp: sims v1_def ack_def ev split: sum.splits)
      moreover have "lg (st_world z) = lg (st_world s) @ [Added (rc_deadLetterStreamName c) kvs True, Acked (rc_streamName c) [rm_ID m]]"
        using ack_calls [OF ob b] kvs(2) Inr by (simp add: v1_def)
      ultimately show ?thesis using kvs(1) by (intro calls_safe_dead_letter [of _ _ _ _ kvs]) simp_all
    qed
  qed
qed

lemma processHandled_safe:
  assumes ob: "observed lg c cache handler store" and run: "processHandled c cache store ev a s = (r, t)"
    and ev: "ParseStreamMessage L m = Inr ev" and h: "Handled ev True \<in> set pre"
  shows "calls_safe lg L c [m] pre s t"
proof -
  note mid = ParseStreamMessage_ID [OF ev]
  define s1 where "s1 = s\<lparr>st_metrics := RecordOutboxConsumerHandlerSuccess (se_EventType ev) (st_metrics s)\<rparr>"
  obtain q u where q: "ps_MarkProcessed store (se_EventID ev) s1 = (q, u)" by fastforce
  define b where "b = (case q of Inl e \<Rightarrow> errors_Is e ErrAlreadyProcessed | Inr _ \<Rightarrow> True)"
  have u: "lg (st_world u) = lg (st_world s) @ [Marked (se_EventID ev) b]"
    using observedD(3) [OF ob q] by (simp add: s1_def b_def)
  have safe: "safe_to_ack L c m (pre @ [Marked (se_EventID ev) b])" if b
    using h ev that by (simp add: safe_to_ack_def)
  note sims = processHandled_def steps q [unfolded s1_def]
  show ?thesis
  proof (cases b)
    case False
    then obtain e where "q = Inl e" "\<not> errors_Is e ErrAlreadyProcessed" by (cases q) (auto simp: b_def)
    with run have "st_world t = st_world u" by (auto simp: sims)
    with u show ?thesis by (intro calls_safe_one [of _ _ _ "Marked (se_EventID ev) b"]) simp_all
  next
    case True
    have "calls_safe lg L c [m] (pre @ [Marked (se_EventID ev) b]) u t"
    proof (cases q)
      case (Inl e)
      with True have "errors_Is e ErrAlreadyProcessed" by (simp add: b_def)
      with run Inl have "processDuplicate c cache ev ''ack_concurrent_duplicate'' a u = (r, t)" by (simp add: sims)
      then show ?thesis by (rule processDuplicate_safe [OF ob _ mid safe [OF True]])
    next
      case (Inr x)
      obtain k v where k: "ackMessageID c cache (rm_ID m) u = (k, v)" by fastforce
      with run Inr have "st_world t = st_world v" by (auto simp: sims ack_def mid split: sum.splits)
      with ack_calls [OF ob k] show ?thesis by (intro calls_safe_ack [OF _ safe [OF True]]) simp
    qed
    then show ?thesis by (rule calls_safe_step [OF u]) simp
  qed
qed

lemma processMessage_safe:
  assumes ob: "observed lg c cache handler store" and run: "processMessage L c cache handler store m a s = (r, t)"
  shows "calls_safe lg L c [m] pre s t"
proof (cases "ParseStreamMessage L m")
  case (Inl e)
  with run have "processInvalid L c cache m a s = (r, t)" by (simp add: processMessage_def)
  then show ?thesis by (rule processInvalid_safe [OF ob])
next
  case (Inr ev)
  note mid = ParseStreamMessage_ID [OF Inr]
  define s1 where "s1 = s\<lparr>st_metrics := RecordOutboxConsumerRead (se_EventType ev) 1 (st_metrics s)\<rparr>"
  obtain p u where p: "ps_WasProcessed store (se_EventID ev) s1 = (p, u)" by fastforce
  define b where "b = (p = Inr True)"
  have u: "lg (st_world u) = lg (st_world s) @ [Checked (se_EventID ev) b]"
    using observedD(2) [OF ob p] by (simp add: s1_def b_def)
  note sims = processMessage_def Inr steps p [unfolded s1_def]
  show ?thesis
  proof (cases p)
    case (Inl e)
    with run have "st_world t = st_world u" by (auto simp: sims)
    with u show ?thesis by (intro calls_safe_one [of _ _ _ "Checked (se_EventID ev) b"]) simp_all
  next
    case Inr2: (Inr seen)
    have "calls_safe lg L c [m] (pre @ [Checked (se_EventID ev) b]) u t"
    proof (cases seen)
      case True
      with run Inr2 have "processDuplicate c cache ev ''ack_duplicate'' a u = (r, t)" by (simp add: sims)
      moreover have "safe_to_ack L c m (pre @ [Checked (se_EventID ev) b])"
        using Inr Inr2 True by (simp add: safe_to_ack_def b_def)
      ultimately show ?thesis by (rule processDuplicate_safe [OF ob _ mid])
    next
      case False
      obtain h v where h: "handler ev u = (h, v)" by fastforce
      have v: "lg (st_world v) = lg (st_world u) @ [Handled ev (\<not> isl h)]" by (rule observedD(1) [OF ob h])
      have "calls_safe lg L c [m] ((pre @ [Checked (se_EventID ev) b]) @ [Handled ev (\<not> isl h)]) v t"
      proof (cases h)
        case (Inl e)
        with run Inr2 False h have "processHandlerError L c cache ev a v = (r, t)" by (simp add: sims)
        then show ?thesis by (rule processHandlerError_safe [OF ob _ mid])
      next
        case Inr3: (Inr x)
        with run Inr2 False h have "processHandled c cache store ev a v = (r, t)" by (simp add: sims)
        then show ?thesis by (rule processHandled_safe [OF ob _ Inr]) (simp add: Inr3)
      qed
      then show ?thesis by (rule calls_safe_step [OF v]) simp
    qed
    then show ?thesis by (rule calls_safe_step [OF u]) simp
  qed
qed

lemma calls_safe_append:
  assumes "calls_safe lg L c ms pre s u" "\<And>pre. calls_safe lg L c ns pre u t"
  shows "calls_safe lg L c (ms @ ns) pre s t"
proof -
  from assms(1) obtain xs where xs: "lg (st_world u) = lg (st_world s) @ xs" "acks_safe L c ms pre xs"
    by (auto simp: calls_safe_def)
  from assms(2) [of "pre @ xs"] obtain ys where ys: "lg (st_world t) = lg (st_world u) @ ys" "acks_safe L c ns (pre @ xs) ys"
    by (auto simp: calls_safe_def)
  have "acks_safe L c (ms @ ns) pre (xs @ ys)"
    using acks_safe_mono [OF xs(2)] acks_safe_mono [OF ys(2)] by (simp add: acks_safe_append)
  with xs(1) ys(1) show ?thesis unfolding calls_safe_def by (metis append.assoc)
qed

lemma processLoop_safe:
  assumes ob: "observed lg c cache handler store"
  shows "processLoop L c cache handler store ms a s = (r, t) \<Longrightarrow> calls_safe lg L c ms pre s t"
proof (induction ms arbitrary: a s pre)
  case Nil
  then show ?case by (intro calls_safe_none) (simp add: retG_def)
next
  case (Cons m ms)
  from processMessage_accounts [of L c cache handler store m a s]
  obtain b u where b: "processMessage L c cache handler store m a s = (Inr b, u)" by (metis prod.collapse)
  with Cons.prems have "processLoop L c cache handler store ms b u = (r, t)" by (simp add: bindG_def)
  from calls_safe_append [OF processMessage_safe [OF ob b, of pre] Cons.IH [OF this]] show ?case by simp
qed

section \<open>What a batch guarantees\<close>

lemma processMessages_accounts:
  assumes "processMessages L c cache handler store ms s = (Inr b, t)"
  shows "br_Read b = int (length ms)" "br_Processed b + br_Skipped b + br_Failed b = int (length ms)"
    "br_Processed b + br_Skipped b \<le> br_Acked b" "br_Acked b \<le> br_Processed b + br_Skipped b + br_DeadLettered b"
    "br_DeadLettered b \<le> br_Failed b" "br_Invalid b \<le> br_Failed b"
proof -
  let ?a = "empty_batch\<lparr>br_Read := int (length ms)\<rparr>"
  have "fst (processLoop L c cache handler store ms ?a s) = Inr b" using assms by (simp add: processMessages_def)
  with processLoop_accounts [of L c cache handler store ms ?a s] have "accounts (int (length ms)) ?a b" by simp
  then show "br_Read b = int (length ms)" "br_Processed b + br_Skipped b + br_Failed b = int (length ms)"
    "br_Processed b + br_Skipped b \<le> br_Acked b" "br_Acked b \<le> br_Processed b + br_Skipped b + br_DeadLettered b"
    "br_DeadLettered b \<le> br_Failed b" "br_Invalid b \<le> br_Failed b"
    by (simp_all add: accounts_def empty_batch_def)
qed

lemma RedisConsumer_batch:
  assumes "RedisConsumer_RunOnce L c s = (Inr b, t) \<or> RedisConsumer_ClaimStaleOnce L c s = (Inr b, t)"
  shows "\<exists>cache handler store ms u d. processMessages L c cache handler store ms u = (Inr d, t) \<and>
    b\<lparr>br_NextClaimStart := ''''\<rparr> = d\<lparr>br_NextClaimStart := ''''\<rparr>"
  using assms
proof
  assume "RedisConsumer_RunOnce L c s = (Inr b, t)"
  then obtain cache handler store x u where "(case x of Inl err \<Rightarrow> throwG (Wrapf ''read redis stream consumer group'' err)
      | Inr messages \<Rightarrow> processMessages L c cache handler store messages) u = (Inr b, t)"
    by (auto simp: RedisConsumer_RunOnce_def bindG_Inr_iff tryG_iff)
  then have "\<exists>ms. processMessages L c cache handler store ms u = (Inr b, t)" by (cases x) (auto simp: throwG_def)
  then show ?thesis by blast
next
  assume "RedisConsumer_ClaimStaleOnce L c s = (Inr b, t)"
  then obtain cache handler store x u where x: "(case x of Inl err \<Rightarrow> throwG (Wrapf ''claim stale redis stream messages'' err)
      | Inr (messages, nextStart) \<Rightarrow>
          bindG (metricG (RecordOutboxConsumerStaleClaim (int (length messages)))) (\<lambda>_.
          bindG (processMessages L c cache handler store messages) (\<lambda>result.
          retG (result\<lparr>br_NextClaimStart := nextStart\<rparr>)))) u = (Inr b, t)"
    by (auto simp: RedisConsumer_ClaimStaleOnce_def bindG_Inr_iff tryG_iff)
  have "\<exists>ms n v d. processMessages L c cache handler store ms v = (Inr d, t) \<and> b = d\<lparr>br_NextClaimStart := n\<rparr>"
  proof (cases x)
    case (Inr y)
    with x show ?thesis by (cases y) (clarsimp simp: gom, blast)
  qed (use x in \<open>simp add: throwG_def\<close>)
  then obtain ms n v d where "processMessages L c cache handler store ms v = (Inr d, t)" "b = d\<lparr>br_NextClaimStart := n\<rparr>" by blast
  then show ?thesis by (intro exI conjI) (assumption, simp)
qed

text \<open>
  C19: the counts of a batch add up. Every message that was read is processed, skipped as a
  duplicate or failed, and exactly one of these; each processed or skipped message was
  acknowledged, the other acknowledgements are of dead-lettered messages, and dead-lettered and
  invalid messages count as failed. This holds for new and for claimed messages.
\<close>

theorem consumer_accounts:
  assumes "RedisConsumer_RunOnce L c s = (Inr b, t) \<or> RedisConsumer_ClaimStaleOnce L c s = (Inr b, t)"
  shows "br_Read b = br_Processed b + br_Skipped b + br_Failed b \<and>
    br_Processed b + br_Skipped b \<le> br_Acked b \<and> br_Acked b \<le> br_Processed b + br_Skipped b + br_DeadLettered b \<and>
    br_DeadLettered b \<le> br_Failed b \<and> br_Invalid b \<le> br_Failed b"
proof -
  from RedisConsumer_batch [OF assms] obtain cache handler store ms u d where
    run: "processMessages L c cache handler store ms u = (Inr d, t)" and
    eq: "b\<lparr>br_NextClaimStart := ''''\<rparr> = d\<lparr>br_NextClaimStart := ''''\<rparr>" by blast
  from eq have "br_Read b = br_Read d" "br_Processed b = br_Processed d" "br_Skipped b = br_Skipped d" "br_Failed b = br_Failed d"
    "br_Invalid b = br_Invalid d" "br_Acked b = br_Acked d" "br_DeadLettered b = br_DeadLettered d"
    by (cases b; cases d; simp)+
  with processMessages_accounts [OF run] show ?thesis by simp
qed

text \<open>
  C17: nothing is acknowledged before it is safe. In the calls that a batch makes, every
  acknowledgement is of one message of the batch, on the consumer's stream, and comes after the
  message was stored on the dead-letter stream, or its event was found among the processed ones,
  or its event was handled without an error and recorded as processed. A message that a crash
  leaves unacknowledged is delivered again, so no event is lost.
\<close>

theorem nothing_acked_before_safe:
  assumes "observed lg c cache handler store" "processMessages L c cache handler store ms s = (r, t)"
  shows "\<exists>calls. lg (st_world t) = lg (st_world s) @ calls \<and> acks_safe L c ms [] calls"
  using processLoop_safe [OF assms(1) assms(2) [unfolded processMessages_def], where pre = "[]"]
  unfolding calls_safe_def .

text \<open>
  C18: the consumer reads back what the publisher wrote. An event with an identity whose
  payload is JSON, written to the stream and read under some message id, is parsed to the same
  event (an empty payload as \<open>null\<close>, the time of creation as the layout keeps it).
\<close>

theorem published_event_parsed:
  assumes "oe_ID ev \<noteq> ''''" "oe_AggregateType ev \<noteq> ''''" "oe_AggregateID ev \<noteq> ''''" "oe_EventType ev \<noteq> ''''"
    and "json_Valid L (if oe_Payload ev = '''' then ''null'' else oe_Payload ev)"
    and "time_Format L (oe_CreatedAt ev) \<noteq> ''''" "time_Parse L (time_Format L (oe_CreatedAt ev)) = Inr (oe_CreatedAt ev)"
  shows "ParseStreamMessage L \<lparr>rm_ID = i, rm_Values = stream_values L ev\<rparr> =
    Inr \<lparr>se_MessageID = i, se_EventID = oe_ID ev, se_AggregateType = oe_AggregateType ev, se_AggregateID = oe_AggregateID ev,
         se_EventType = oe_EventType ev, se_Payload = (if oe_Payload ev = '''' then ''null'' else oe_Payload ev),
         se_CreatedAt = oe_CreatedAt ev\<rparr>"
  using assms by (cases "oe_Payload ev = ''''") (simp_all add: ParseStreamMessage_def requiredString_def stream_values_def)

text \<open>A concrete run: the outside world is the log of the calls.\<close>

definition logged :: "call \<Rightarrow> 'a \<Rightarrow> (call list, 'a) gom" where
  "logged x r w = (Inr r, w @ [x])"

definition log_client :: "call list goredis" where
  "log_client =
     \<lparr>gr_Ping = retG (), gr_Get = (\<lambda>_. throwG ErrRedisNil), gr_Exists = (\<lambda>_. retG 0), gr_Set = (\<lambda>_ _ _. retG ()),
      gr_SetNX = (\<lambda>_ _ _. retG True), gr_Run = (\<lambda>m. m), gr_Incr = (\<lambda>_. retG 1), gr_PTTL = (\<lambda>_. retG 1),
      gr_PExpire = (\<lambda>_ _. retG ()), gr_XAdd = (\<lambda>key kvs. logged (Added key kvs True) ''1-0''),
      gr_XGroupCreateMkStream = (\<lambda>_ _ _. retG ()),
      gr_XReadGroup = (\<lambda>_ _ _ _ _. retG [(''stream:orders'', [(''1-0'', stream_values demo_lib demo_event), (''2-0'', Map.empty)])]),
      gr_XAck = (\<lambda>stream _ ids. logged (Acked stream ids) ()),
      gr_XAutoClaim = (\<lambda>_ _ _ _ _ _. throwG ErrRedisNil), gr_Del = (\<lambda>_ _. retG ()), gr_Scan = (\<lambda>_ _ _ _. retG ([], 0))\<rparr>"

definition log_cache :: "call list redis" where
  "log_cache = \<lparr>rd_cmd = Some log_client, rd_client = Some log_client\<rparr>"

definition log_handler :: "call list EventHandler" where
  "log_handler ev = cmdG (logged (Handled ev True) ())"

definition log_store :: "call list ProcessedEventStore" where
  "log_store = \<lparr>ps_WasProcessed = (\<lambda>i. cmdG (logged (Checked i False) False)),
                ps_MarkProcessed = (\<lambda>i. cmdG (logged (Marked i True) ()))\<rparr>"

definition log_env :: "call list env" where
  "log_env = \<lparr>env_fault = (\<lambda>w. (None, w)), env_locked = (\<lambda>w. (\<lambda>_. False, w)), env_now = (\<lambda>w. (7, w)),
     env_date = (\<lambda>w. ((2025, 1, 2), w)), env_uuid = (\<lambda>w. (''id'', w)), env_rand = (\<lambda>w. (0, w)),
     env_bcrypt = (\<lambda>p w. (Inr p, w))\<rparr>"

definition log_consumer :: "call list RedisConsumer" where
  "log_consumer = NewRedisConsumer log_env (Some log_cache) (Some log_handler) (Some log_store) []"

definition log_state :: "call list st" where
  "log_state = \<lparr>st_world = [], st_metrics = [], st_users = [], st_products = [], st_inventories = [],
     st_orders = [], st_order_lines = [], st_outbox_events = [], st_carts = [], st_cart_lines = []\<rparr>"

definition log_result :: BatchResult where
  "log_result = \<lparr>br_Read = 2, br_Processed = 1, br_Skipped = 0, br_Failed = 1, br_Invalid = 1, br_Acked = 2,
     br_DeadLettered = 1, br_NextClaimStart = ''''\<rparr>"

lemma log_observed: "observed id log_consumer log_cache log_handler log_store"
  by (simp add: observed_def log_handler_def log_store_def log_cache_def log_client_def log_consumer_def log_env_def
    NewRedisConsumer_def redis_XAck_def redis_XAdd_def redis_IncrementWithExpiration_def incrementWithExpirationScript_def
    commandG_def cmdG_def logged_def bindG_def retG_def)

theorem consumer_accounts_witness:
  "fst (RedisConsumer_RunOnce demo_lib log_consumer log_state) = Inr log_result \<and>
   br_Read log_result = br_Processed log_result + br_Skipped log_result + br_Failed log_result"
proof -
  have run: "fst (RedisConsumer_RunOnce demo_lib log_consumer log_state) = Inr log_result" by code_simp
  then have "RedisConsumer_RunOnce demo_lib log_consumer log_state =
      (Inr log_result, snd (RedisConsumer_RunOnce demo_lib log_consumer log_state))" by (simp add: prod_eq_iff)
  with run consumer_accounts [OF disjI1 [OF this]] show ?thesis by simp
qed

theorem nothing_acked_before_safe_witness:
  "let ms = [\<lparr>rm_ID = ''1-0'', rm_Values = stream_values demo_lib demo_event\<rparr>, \<lparr>rm_ID = ''2-0'', rm_Values = Map.empty\<rparr>];
       t = snd (processMessages demo_lib log_consumer log_cache log_handler log_store ms log_state)
   in \<exists>calls. st_world t = calls \<and> acks_safe demo_lib log_consumer ms [] calls"
  unfolding Let_def
  using nothing_acked_before_safe [OF log_observed, where L = demo_lib and s = log_state and
    ms = "[\<lparr>rm_ID = ''1-0'', rm_Values = stream_values demo_lib demo_event\<rparr>, \<lparr>rm_ID = ''2-0'', rm_Values = Map.empty\<rparr>]"]
  by (simp add: log_state_def prod_eq_iff)

theorem published_event_parsed_witness:
  "ParseStreamMessage (demo_lib\<lparr>time_Parse := (\<lambda>_. Inr 4)\<rparr>) \<lparr>rm_ID = ''1-0'', rm_Values = stream_values (demo_lib\<lparr>time_Parse := (\<lambda>_. Inr 4)\<rparr>) demo_event\<rparr> =
    Inr \<lparr>se_MessageID = ''1-0'', se_EventID = ''e1'', se_AggregateType = ''order'', se_AggregateID = ''o1'',
         se_EventType = ''order.created'', se_Payload = ''{}'', se_CreatedAt = 4\<rparr>"
  using published_event_parsed [of demo_event "demo_lib\<lparr>time_Parse := (\<lambda>_. Inr 4)\<rparr>" "''1-0''"]
  by (simp add: demo_lib_def demo_event_def)

end
