(* ===== verification/Config.thy ===== *)
theory Config
  imports Prelude
begin

text \<open>
  \<open>pkg/config\<close>: the settings, their validation and the accessors with their defaults. Reading the
  environment is not modelled: a \<open>Schema\<close> is what was read. The lemmas show what a validated
  configuration guarantees, and where a duration wraps around.
\<close>

section \<open>Settings\<close>


definition DevelopmentEnv :: string where "DevelopmentEnv = ''development''"
definition TestEnv :: string where "TestEnv = ''test''"
definition ProductionEnv :: string where "ProductionEnv = ''production''"
definition MinimumProductionAuthSecretBytes :: int64 where "MinimumProductionAuthSecretBytes = 32"
definition DatabaseTimeout :: int64 where "DatabaseTimeout = 5 * 1000000000"
definition ProductCachingTime :: int64 where "ProductCachingTime = 1 * 60000000000"
definition DefaultHTTPReadTimeoutSeconds :: int64 where "DefaultHTTPReadTimeoutSeconds = 10"
definition DefaultHTTPWriteTimeoutSeconds :: int64 where "DefaultHTTPWriteTimeoutSeconds = 30"
definition DefaultHTTPIdleTimeoutSeconds :: int64 where "DefaultHTTPIdleTimeoutSeconds = 60"
definition DefaultHTTPReadHeaderTimeoutSeconds :: int64 where "DefaultHTTPReadHeaderTimeoutSeconds = 5"
definition DefaultHTTPMaxHeaderBytes :: int64 where "DefaultHTTPMaxHeaderBytes = 1048576"
definition DefaultMaxRequestBodyBytes :: int64 where "DefaultMaxRequestBodyBytes = 1048576"
definition DefaultMetricsPath :: string where "DefaultMetricsPath = ''/metrics''"
definition DefaultOrderIdempotencyTTLSeconds :: int64 where "DefaultOrderIdempotencyTTLSeconds = 24 * 60 * 60"
definition DefaultOrderRateLimitLimit :: int64 where "DefaultOrderRateLimitLimit = 120"
definition DefaultOrderRateLimitWindowSeconds :: int64 where "DefaultOrderRateLimitWindowSeconds = 60"
definition DefaultOutboxPublishBatchSize :: int64 where "DefaultOutboxPublishBatchSize = 100"
definition DefaultOutboxPublishMaxAttempts :: int64 where "DefaultOutboxPublishMaxAttempts = 3"
definition DefaultOutboxPublishRetryBaseSeconds :: int64 where "DefaultOutboxPublishRetryBaseSeconds = 60"
definition DefaultOutboxPublishIntervalSeconds :: int64 where "DefaultOutboxPublishIntervalSeconds = 30"
definition DefaultOutboxProcessingTimeoutSeconds :: int64 where "DefaultOutboxProcessingTimeoutSeconds = 15 * 60"
definition OutboxPublisherTypeLog :: string where "OutboxPublisherTypeLog = ''log''"
definition OutboxPublisherTypeRedisStream :: string where "OutboxPublisherTypeRedisStream = ''redis_stream''"
definition DefaultOutboxPublisherType :: string where "DefaultOutboxPublisherType = OutboxPublisherTypeLog"
definition DefaultOutboxRedisStreamName :: string where "DefaultOutboxRedisStreamName = ''stream:orders''"
definition DefaultOutboxConsumerGroup :: string where "DefaultOutboxConsumerGroup = ''order-events''"
definition DefaultOutboxConsumerName :: string where "DefaultOutboxConsumerName = ''local-consumer-1''"
definition DefaultOutboxConsumerBatchSize :: int64 where "DefaultOutboxConsumerBatchSize = 10"
definition DefaultOutboxConsumerBlockSeconds :: int64 where "DefaultOutboxConsumerBlockSeconds = 5"
definition DefaultOutboxConsumerProcessedTTLSeconds :: int64 where "DefaultOutboxConsumerProcessedTTLSeconds = 24 * 60 * 60"
definition DefaultOutboxConsumerClaimMinIdleSeconds :: int64 where "DefaultOutboxConsumerClaimMinIdleSeconds = 60"
definition DefaultOutboxConsumerClaimBatchSize :: int64 where "DefaultOutboxConsumerClaimBatchSize = 10"
definition DefaultOutboxConsumerMaxDeliveryAttempts :: int64 where "DefaultOutboxConsumerMaxDeliveryAttempts = 5"
definition DefaultOutboxConsumerFailureTTLSeconds :: int64 where "DefaultOutboxConsumerFailureTTLSeconds = 24 * 60 * 60"
definition DefaultOutboxDeadLetterStreamName :: string where "DefaultOutboxDeadLetterStreamName = ''stream:orders:dead_letter''"
definition DefaultDatabaseMaxOpenConns :: int64 where "DefaultDatabaseMaxOpenConns = 25"
definition DefaultDatabaseMaxIdleConns :: int64 where "DefaultDatabaseMaxIdleConns = 5"
definition DefaultDatabaseConnMaxLifetimeSeconds :: int64 where "DefaultDatabaseConnMaxLifetimeSeconds = 5 * 60"
definition DefaultDatabaseConnMaxIdleTimeSeconds :: int64 where "DefaultDatabaseConnMaxIdleTimeSeconds = 60"

record Schema =
  cfg_Environment :: string
  cfg_HttpPort :: int64
  cfg_GrpcPort :: int64
  cfg_AuthSecret :: string
  cfg_DatabaseURI :: string
  cfg_RedisURI :: string
  cfg_RedisPassword :: string
  cfg_RedisDB :: int64
  cfg_GRPCReflectionEnabled :: string
  cfg_SwaggerEnabled :: string
  cfg_DatabaseAutoMigrate :: bool
  cfg_DatabaseMaxOpenConns :: int64
  cfg_DatabaseMaxIdleConns :: int64
  cfg_DatabaseConnMaxLifetimeSeconds :: int64
  cfg_DatabaseConnMaxIdleTimeSeconds :: int64
  cfg_HTTPReadTimeoutSeconds :: int64
  cfg_HTTPWriteTimeoutSeconds :: int64
  cfg_HTTPIdleTimeoutSeconds :: int64
  cfg_HTTPReadHeaderTimeoutSeconds :: int64
  cfg_HTTPMaxHeaderBytes :: int64
  cfg_MaxRequestBodyBytes :: int64
  cfg_MetricsEnabled :: string
  cfg_MetricsPath :: string
  cfg_OrderIdempotencyTTLSeconds :: int64
  cfg_OrderRateLimitLimit :: int64
  cfg_OrderRateLimitWindowSeconds :: int64
  cfg_OutboxPublisherEnabled :: bool
  cfg_OutboxPublisherType :: string
  cfg_OutboxRedisStreamName :: string
  cfg_OutboxPublishBatchSize :: int64
  cfg_OutboxPublishMaxAttempts :: int64
  cfg_OutboxPublishRetryBaseSeconds :: int64
  cfg_OutboxPublishIntervalSeconds :: int64
  cfg_OutboxProcessingTimeoutSeconds :: int64
  cfg_OutboxConsumerEnabled :: bool
  cfg_OutboxConsumerGroup :: string
  cfg_OutboxConsumerName :: string
  cfg_OutboxConsumerBatchSize :: int64
  cfg_OutboxConsumerBlockSeconds :: int64
  cfg_OutboxConsumerProcessedTTLSeconds :: int64
  cfg_OutboxConsumerClaimMinIdleSeconds :: int64
  cfg_OutboxConsumerClaimBatchSize :: int64
  cfg_OutboxConsumerMaxDeliveryAttempts :: int64
  cfg_OutboxConsumerFailureTTLSeconds :: int64
  cfg_OutboxDeadLetterStreamName :: string

section \<open>Defaults\<close>

definition second_ns :: int64 where "second_ns = 1000000000"

text \<open>\<open>time.Duration(value) * time.Second\<close> wraps in 64 bits.\<close>

definition secondsOrDefault :: "int64 \<Rightarrow> int64 \<Rightarrow> int64" where
  "secondsOrDefault v defaultValue = i64 ((if v \<le> 0 then defaultValue else v) * second_ns)"

definition intOrDefault :: "int64 \<Rightarrow> int64 \<Rightarrow> int64" where
  "intOrDefault v defaultValue = (if v = 0 then defaultValue else v)"

text \<open>\<open>strconv.ParseBool\<close> and \<open>strings.ToLower\<close>.\<close>

definition ParseBool :: "string \<Rightarrow> bool option" where
  "ParseBool s =
     (if s \<in> {''1'', ''t'', ''T'', ''true'', ''TRUE'', ''True''} then Some True
      else if s \<in> {''0'', ''f'', ''F'', ''false'', ''FALSE'', ''False''} then Some False
      else None)"

definition lower :: "char \<Rightarrow> char" where
  "lower c = (if 65 \<le> (of_char c :: nat) \<and> (of_char c :: nat) \<le> 90 then char_of ((of_char c :: nat) + 32) else c)"

definition ToLower :: "string \<Rightarrow> string" where
  "ToLower = map lower"

section \<open>Validation\<close>

definition validateOptionalBool :: "string \<Rightarrow> string \<Rightarrow> goerr option" where
  "validateOptionalBool name v =
     (if TrimSpace v = '''' then None
      else if ParseBool v = None then Some (ErrNew (name @ '' must be true or false''))
      else None)"

definition pool_values :: "Schema \<Rightarrow> (string \<times> int64) list" where
  "pool_values cfg =
     [(''database_max_open_conns'', cfg_DatabaseMaxOpenConns cfg), (''database_max_idle_conns'', cfg_DatabaseMaxIdleConns cfg),
      (''database_conn_max_lifetime_seconds'', cfg_DatabaseConnMaxLifetimeSeconds cfg),
      (''database_conn_max_idle_time_seconds'', cfg_DatabaseConnMaxIdleTimeSeconds cfg)]"

definition validateDatabasePoolConfig :: "Schema \<Rightarrow> goerr option" where
  "validateDatabasePoolConfig cfg =
     (case find (\<lambda>(name, v). v < 0) (pool_values cfg) of
        Some (name, _) \<Rightarrow> Some (ErrNew (name @ '' must not be negative''))
      | None \<Rightarrow>
          let maxOpen = intOrDefault (cfg_DatabaseMaxOpenConns cfg) DefaultDatabaseMaxOpenConns;
              maxIdle = intOrDefault (cfg_DatabaseMaxIdleConns cfg) DefaultDatabaseMaxIdleConns
          in if maxOpen < maxIdle then Some (ErrNew ''database_max_idle_conns must not exceed database_max_open_conns'')
             else None)"

definition isPlaceholderAuthSecret :: "string \<Rightarrow> bool" where
  "isPlaceholderAuthSecret secret \<longleftrightarrow>
     ToLower (TrimSpace secret) \<in>
       {'''', ''######'', ''auth_secret'', ''secret'', ''change-me'', ''changeme'', ''local-dev-secret'',
        ''replace-with-a-random-secret''}"

text \<open>A sequence of checks: the first that fails is the error.\<close>

definition orElse :: "goerr option \<Rightarrow> goerr option \<Rightarrow> goerr option" where
  "orElse a b = (case a of Some e \<Rightarrow> Some e | None \<Rightarrow> b)"

definition refuse :: "bool \<Rightarrow> string \<Rightarrow> goerr option" where
  "refuse c message = (if c then Some (ErrNew message) else None)"

definition Validate :: "Schema \<Rightarrow> goerr option" where
  "Validate cfg =
     orElse (refuse (cfg_Environment cfg \<notin> {DevelopmentEnv, TestEnv, ProductionEnv})
               ''environment must be one of development, test, or production'')
    (orElse (validateDatabasePoolConfig cfg)
    (orElse (validateOptionalBool ''metrics_enabled'' (cfg_MetricsEnabled cfg))
    (orElse (validateOptionalBool ''grpc_reflection_enabled'' (cfg_GRPCReflectionEnabled cfg))
    (orElse (validateOptionalBool ''swagger_enabled'' (cfg_SwaggerEnabled cfg))
    (if cfg_Environment cfg \<noteq> ProductionEnv then None
     else
       orElse (refuse (isPlaceholderAuthSecret (cfg_AuthSecret cfg))
                 ''production auth_secret must be set to a non-placeholder value'')
      (orElse (refuse (int (length (TrimSpace (cfg_AuthSecret cfg))) < MinimumProductionAuthSecretBytes)
                 ''production auth_secret must be at least 32 bytes'')
      (orElse (refuse (cfg_HttpPort cfg \<le> 0) ''production http_port must be greater than zero'')
      (orElse (refuse (cfg_GrpcPort cfg \<le> 0) ''production grpc_port must be greater than zero'')
      (orElse (refuse (TrimSpace (cfg_DatabaseURI cfg) = '''') ''production database_uri is required'')
      (orElse (refuse (TrimSpace (cfg_RedisURI cfg) = '''') ''production redis_uri is required'')
              (refuse (cfg_DatabaseAutoMigrate cfg) ''production database_auto_migrate must be false'')))))))))))"

section \<open>Accessors\<close>


definition DatabaseAutoMigrate :: "Schema \<Rightarrow> bool" where
  "DatabaseAutoMigrate cfg = cfg_DatabaseAutoMigrate cfg"

definition DatabaseMaxOpenConns :: "Schema \<Rightarrow> int64" where
  "DatabaseMaxOpenConns cfg = intOrDefault (cfg_DatabaseMaxOpenConns cfg) DefaultDatabaseMaxOpenConns"

definition DatabaseMaxIdleConns :: "Schema \<Rightarrow> int64" where
  "DatabaseMaxIdleConns cfg = intOrDefault (cfg_DatabaseMaxIdleConns cfg) DefaultDatabaseMaxIdleConns"

definition DatabaseConnMaxLifetime :: "Schema \<Rightarrow> int64" where
  "DatabaseConnMaxLifetime cfg = secondsOrDefault (cfg_DatabaseConnMaxLifetimeSeconds cfg) DefaultDatabaseConnMaxLifetimeSeconds"

definition DatabaseConnMaxIdleTime :: "Schema \<Rightarrow> int64" where
  "DatabaseConnMaxIdleTime cfg = secondsOrDefault (cfg_DatabaseConnMaxIdleTimeSeconds cfg) DefaultDatabaseConnMaxIdleTimeSeconds"

definition HTTPReadTimeout :: "Schema \<Rightarrow> int64" where
  "HTTPReadTimeout cfg = secondsOrDefault (cfg_HTTPReadTimeoutSeconds cfg) DefaultHTTPReadTimeoutSeconds"

definition HTTPWriteTimeout :: "Schema \<Rightarrow> int64" where
  "HTTPWriteTimeout cfg = secondsOrDefault (cfg_HTTPWriteTimeoutSeconds cfg) DefaultHTTPWriteTimeoutSeconds"

definition HTTPIdleTimeout :: "Schema \<Rightarrow> int64" where
  "HTTPIdleTimeout cfg = secondsOrDefault (cfg_HTTPIdleTimeoutSeconds cfg) DefaultHTTPIdleTimeoutSeconds"

definition HTTPReadHeaderTimeout :: "Schema \<Rightarrow> int64" where
  "HTTPReadHeaderTimeout cfg = secondsOrDefault (cfg_HTTPReadHeaderTimeoutSeconds cfg) DefaultHTTPReadHeaderTimeoutSeconds"

definition HTTPMaxHeaderBytes :: "Schema \<Rightarrow> int64" where
  "HTTPMaxHeaderBytes cfg = (if cfg_HTTPMaxHeaderBytes cfg \<le> 0 then DefaultHTTPMaxHeaderBytes else cfg_HTTPMaxHeaderBytes cfg)"

definition MaxRequestBodyBytes :: "Schema \<Rightarrow> int64" where
  "MaxRequestBodyBytes cfg = (if cfg_MaxRequestBodyBytes cfg \<le> 0 then DefaultMaxRequestBodyBytes else cfg_MaxRequestBodyBytes cfg)"

definition MetricsEnabled :: "Schema \<Rightarrow> bool" where
  "MetricsEnabled cfg = (if TrimSpace (cfg_MetricsEnabled cfg) = '''' then cfg_Environment cfg \<noteq> ProductionEnv else ParseBool (cfg_MetricsEnabled cfg) = Some True)"

definition GRPCReflectionEnabled :: "Schema \<Rightarrow> bool" where
  "GRPCReflectionEnabled cfg = (if TrimSpace (cfg_GRPCReflectionEnabled cfg) = '''' then cfg_Environment cfg \<noteq> ProductionEnv else ParseBool (cfg_GRPCReflectionEnabled cfg) = Some True)"

definition SwaggerEnabled :: "Schema \<Rightarrow> bool" where
  "SwaggerEnabled cfg = (if TrimSpace (cfg_SwaggerEnabled cfg) = '''' then cfg_Environment cfg \<noteq> ProductionEnv else ParseBool (cfg_SwaggerEnabled cfg) = Some True)"

definition MetricsPath :: "Schema \<Rightarrow> string" where
  "MetricsPath cfg = (if cfg_MetricsPath cfg = '''' then DefaultMetricsPath else cfg_MetricsPath cfg)"

definition OrderIdempotencyTTL :: "Schema \<Rightarrow> int64" where
  "OrderIdempotencyTTL cfg = secondsOrDefault (cfg_OrderIdempotencyTTLSeconds cfg) DefaultOrderIdempotencyTTLSeconds"

definition OrderRateLimitLimit :: "Schema \<Rightarrow> int64" where
  "OrderRateLimitLimit cfg = (if cfg_OrderRateLimitLimit cfg \<le> 0 then DefaultOrderRateLimitLimit else cfg_OrderRateLimitLimit cfg)"

definition OrderRateLimitWindow :: "Schema \<Rightarrow> int64" where
  "OrderRateLimitWindow cfg = secondsOrDefault (cfg_OrderRateLimitWindowSeconds cfg) DefaultOrderRateLimitWindowSeconds"

definition OutboxPublisherEnabled :: "Schema \<Rightarrow> bool" where
  "OutboxPublisherEnabled cfg = cfg_OutboxPublisherEnabled cfg"

definition OutboxPublisherType :: "Schema \<Rightarrow> string" where
  "OutboxPublisherType cfg = (if cfg_OutboxPublisherType cfg = '''' then DefaultOutboxPublisherType else cfg_OutboxPublisherType cfg)"

definition OutboxRedisStreamName :: "Schema \<Rightarrow> string" where
  "OutboxRedisStreamName cfg = (if cfg_OutboxRedisStreamName cfg = '''' then DefaultOutboxRedisStreamName else cfg_OutboxRedisStreamName cfg)"

definition OutboxPublishBatchSize :: "Schema \<Rightarrow> int64" where
  "OutboxPublishBatchSize cfg = (if cfg_OutboxPublishBatchSize cfg \<le> 0 then DefaultOutboxPublishBatchSize else cfg_OutboxPublishBatchSize cfg)"

definition OutboxPublishMaxAttempts :: "Schema \<Rightarrow> int64" where
  "OutboxPublishMaxAttempts cfg = (if cfg_OutboxPublishMaxAttempts cfg \<le> 0 then DefaultOutboxPublishMaxAttempts else cfg_OutboxPublishMaxAttempts cfg)"

definition OutboxPublishRetryBase :: "Schema \<Rightarrow> int64" where
  "OutboxPublishRetryBase cfg = secondsOrDefault (cfg_OutboxPublishRetryBaseSeconds cfg) DefaultOutboxPublishRetryBaseSeconds"

definition OutboxPublishInterval :: "Schema \<Rightarrow> int64" where
  "OutboxPublishInterval cfg = secondsOrDefault (cfg_OutboxPublishIntervalSeconds cfg) DefaultOutboxPublishIntervalSeconds"

definition OutboxProcessingTimeout :: "Schema \<Rightarrow> int64" where
  "OutboxProcessingTimeout cfg = secondsOrDefault (cfg_OutboxProcessingTimeoutSeconds cfg) DefaultOutboxProcessingTimeoutSeconds"

definition OutboxConsumerEnabled :: "Schema \<Rightarrow> bool" where
  "OutboxConsumerEnabled cfg = cfg_OutboxConsumerEnabled cfg"

definition OutboxConsumerGroup :: "Schema \<Rightarrow> string" where
  "OutboxConsumerGroup cfg = (if cfg_OutboxConsumerGroup cfg = '''' then DefaultOutboxConsumerGroup else cfg_OutboxConsumerGroup cfg)"

definition OutboxConsumerName :: "Schema \<Rightarrow> string" where
  "OutboxConsumerName cfg = (if cfg_OutboxConsumerName cfg = '''' then DefaultOutboxConsumerName else cfg_OutboxConsumerName cfg)"

definition OutboxConsumerBatchSize :: "Schema \<Rightarrow> int64" where
  "OutboxConsumerBatchSize cfg = (if cfg_OutboxConsumerBatchSize cfg \<le> 0 then DefaultOutboxConsumerBatchSize else cfg_OutboxConsumerBatchSize cfg)"

definition OutboxConsumerBlock :: "Schema \<Rightarrow> int64" where
  "OutboxConsumerBlock cfg = secondsOrDefault (cfg_OutboxConsumerBlockSeconds cfg) DefaultOutboxConsumerBlockSeconds"

definition OutboxConsumerProcessedTTL :: "Schema \<Rightarrow> int64" where
  "OutboxConsumerProcessedTTL cfg = secondsOrDefault (cfg_OutboxConsumerProcessedTTLSeconds cfg) DefaultOutboxConsumerProcessedTTLSeconds"

definition OutboxConsumerClaimMinIdle :: "Schema \<Rightarrow> int64" where
  "OutboxConsumerClaimMinIdle cfg = secondsOrDefault (cfg_OutboxConsumerClaimMinIdleSeconds cfg) DefaultOutboxConsumerClaimMinIdleSeconds"

definition OutboxConsumerClaimBatchSize :: "Schema \<Rightarrow> int64" where
  "OutboxConsumerClaimBatchSize cfg = (if cfg_OutboxConsumerClaimBatchSize cfg \<le> 0 then DefaultOutboxConsumerClaimBatchSize else cfg_OutboxConsumerClaimBatchSize cfg)"

definition OutboxConsumerMaxDeliveryAttempts :: "Schema \<Rightarrow> int64" where
  "OutboxConsumerMaxDeliveryAttempts cfg = (if cfg_OutboxConsumerMaxDeliveryAttempts cfg \<le> 0 then DefaultOutboxConsumerMaxDeliveryAttempts else cfg_OutboxConsumerMaxDeliveryAttempts cfg)"

definition OutboxConsumerFailureTTL :: "Schema \<Rightarrow> int64" where
  "OutboxConsumerFailureTTL cfg = secondsOrDefault (cfg_OutboxConsumerFailureTTLSeconds cfg) DefaultOutboxConsumerFailureTTLSeconds"

definition OutboxDeadLetterStreamName :: "Schema \<Rightarrow> string" where
  "OutboxDeadLetterStreamName cfg = (if cfg_OutboxDeadLetterStreamName cfg = '''' then DefaultOutboxDeadLetterStreamName else cfg_OutboxDeadLetterStreamName cfg)"

section \<open>What a configuration guarantees\<close>

lemma orElse_None [simp]: "orElse a b = None \<longleftrightarrow> a = None \<and> b = None"
  by (simp add: orElse_def split: option.splits)

lemma refuse_None [simp]: "refuse c m = None \<longleftrightarrow> \<not> c"
  by (simp add: refuse_def)

lemma validateDatabasePoolConfig_None:
  assumes "validateDatabasePoolConfig cfg = None"
  shows "0 < DatabaseMaxIdleConns cfg" "DatabaseMaxIdleConns cfg \<le> DatabaseMaxOpenConns cfg"
    "0 \<le> cfg_DatabaseConnMaxLifetimeSeconds cfg" "0 \<le> cfg_DatabaseConnMaxIdleTimeSeconds cfg"
proof -
  from assms have f: "find (\<lambda>(name, v). v < 0) (pool_values cfg) = None"
    by (auto simp: validateDatabasePoolConfig_def split: option.splits)
  then have "\<forall>(name, v) \<in> set (pool_values cfg). 0 \<le> v" by (auto simp: find_None_iff_all)
  then show "0 < DatabaseMaxIdleConns cfg" "0 \<le> cfg_DatabaseConnMaxLifetimeSeconds cfg" "0 \<le> cfg_DatabaseConnMaxIdleTimeSeconds cfg"
    by (auto simp: pool_values_def DatabaseMaxIdleConns_def intOrDefault_def DefaultDatabaseMaxIdleConns_def)
  from assms f show "DatabaseMaxIdleConns cfg \<le> DatabaseMaxOpenConns cfg"
    by (auto simp: validateDatabasePoolConfig_def DatabaseMaxIdleConns_def DatabaseMaxOpenConns_def Let_def split: if_splits)
qed

lemma validateOptionalBool_None:
  "validateOptionalBool name v = None \<Longrightarrow> TrimSpace v \<noteq> '''' \<Longrightarrow> ParseBool v \<noteq> None"
  by (auto simp: validateOptionalBool_def split: if_splits)

text \<open>
  A configuration that passes \<open>Validate\<close> has a usable connection pool (at least one idle
  connection, no more idle than open ones), and every switch is either empty or a boolean. In
  production the secret has at least 32 bytes and is no placeholder, the ports are set, the
  schema is not migrated by the server, and metrics, Swagger and gRPC reflection are off unless
  they are switched on by name.
\<close>

theorem validated_configuration:
  assumes "Validate cfg = None"
  shows "0 < DatabaseMaxIdleConns cfg \<and> DatabaseMaxIdleConns cfg \<le> DatabaseMaxOpenConns cfg \<and>
    (\<forall>v \<in> {cfg_MetricsEnabled cfg, cfg_SwaggerEnabled cfg, cfg_GRPCReflectionEnabled cfg}.
       TrimSpace v = '''' \<or> ParseBool v \<noteq> None) \<and>
    (cfg_Environment cfg = ProductionEnv \<longrightarrow>
       32 \<le> length (cfg_AuthSecret cfg) \<and> \<not> isPlaceholderAuthSecret (cfg_AuthSecret cfg) \<and>
       0 < cfg_HttpPort cfg \<and> 0 < cfg_GrpcPort cfg \<and> \<not> DatabaseAutoMigrate cfg \<and>
       (MetricsEnabled cfg \<longrightarrow> ParseBool (cfg_MetricsEnabled cfg) = Some True) \<and>
       (SwaggerEnabled cfg \<longrightarrow> ParseBool (cfg_SwaggerEnabled cfg) = Some True) \<and>
       (GRPCReflectionEnabled cfg \<longrightarrow> ParseBool (cfg_GRPCReflectionEnabled cfg) = Some True))"
proof -
  have trim: "length (TrimSpace s) \<le> length s" for s
    using length_dropWhile_le [of is_space "rev (dropWhile is_space s)"] length_dropWhile_le [of is_space s]
    by (simp add: TrimSpace_def)
  have pool: "validateDatabasePoolConfig cfg = None" using assms by (simp add: Validate_def)
  have "\<forall>v \<in> {cfg_MetricsEnabled cfg, cfg_SwaggerEnabled cfg, cfg_GRPCReflectionEnabled cfg}.
      TrimSpace v = '''' \<or> ParseBool v \<noteq> None"
    using assms by (auto simp: Validate_def dest: validateOptionalBool_None)
  moreover have "32 \<le> length (cfg_AuthSecret cfg)" if "cfg_Environment cfg = ProductionEnv"
    using assms that trim [of "cfg_AuthSecret cfg"] by (auto simp: Validate_def MinimumProductionAuthSecretBytes_def)
  ultimately show ?thesis
    using assms validateDatabasePoolConfig_None(1,2) [OF pool]
    by (auto simp: Validate_def DatabaseAutoMigrate_def MetricsEnabled_def SwaggerEnabled_def GRPCReflectionEnabled_def
        split: if_splits)
qed

definition second_settings :: "Schema \<Rightarrow> int64 list" where
  "second_settings cfg =
     [cfg_DatabaseConnMaxLifetimeSeconds cfg, cfg_DatabaseConnMaxIdleTimeSeconds cfg, cfg_HTTPReadTimeoutSeconds cfg,
      cfg_HTTPWriteTimeoutSeconds cfg, cfg_HTTPIdleTimeoutSeconds cfg, cfg_HTTPReadHeaderTimeoutSeconds cfg,
      cfg_OrderIdempotencyTTLSeconds cfg, cfg_OrderRateLimitWindowSeconds cfg, cfg_OutboxPublishRetryBaseSeconds cfg,
      cfg_OutboxPublishIntervalSeconds cfg, cfg_OutboxProcessingTimeoutSeconds cfg, cfg_OutboxConsumerBlockSeconds cfg,
      cfg_OutboxConsumerProcessedTTLSeconds cfg, cfg_OutboxConsumerClaimMinIdleSeconds cfg,
      cfg_OutboxConsumerFailureTTLSeconds cfg]"

definition duration_settings :: "Schema \<Rightarrow> int64 list" where
  "duration_settings cfg =
     [DatabaseConnMaxLifetime cfg, DatabaseConnMaxIdleTime cfg, HTTPReadTimeout cfg, HTTPWriteTimeout cfg,
      HTTPIdleTimeout cfg, HTTPReadHeaderTimeout cfg, OrderIdempotencyTTL cfg, OrderRateLimitWindow cfg,
      OutboxPublishRetryBase cfg, OutboxPublishInterval cfg, OutboxProcessingTimeout cfg, OutboxConsumerBlock cfg,
      OutboxConsumerProcessedTTL cfg, OutboxConsumerClaimMinIdle cfg, OutboxConsumerFailureTTL cfg]"

lemma secondsOrDefault_pos:
  assumes "v \<le> 9223372036" "0 < d" "d \<le> 9223372036"
  shows "0 < secondsOrDefault v d" "secondsOrDefault v d = (if v \<le> 0 then d else v) * second_ns"
  using assms by (auto simp: secondsOrDefault_def second_ns_def i64_nonneg_id max_i64_def)

lemmas duration_defs =
  DatabaseConnMaxLifetime_def DatabaseConnMaxIdleTime_def HTTPReadTimeout_def HTTPWriteTimeout_def HTTPIdleTimeout_def
  HTTPReadHeaderTimeout_def OrderIdempotencyTTL_def OrderRateLimitWindow_def OutboxPublishRetryBase_def
  OutboxPublishInterval_def OutboxProcessingTimeout_def OutboxConsumerBlock_def OutboxConsumerProcessedTTL_def
  OutboxConsumerClaimMinIdle_def OutboxConsumerFailureTTL_def

lemmas default_seconds =
  DefaultDatabaseConnMaxLifetimeSeconds_def DefaultDatabaseConnMaxIdleTimeSeconds_def DefaultHTTPReadTimeoutSeconds_def
  DefaultHTTPWriteTimeoutSeconds_def DefaultHTTPIdleTimeoutSeconds_def DefaultHTTPReadHeaderTimeoutSeconds_def
  DefaultOrderIdempotencyTTLSeconds_def DefaultOrderRateLimitWindowSeconds_def DefaultOutboxPublishRetryBaseSeconds_def
  DefaultOutboxPublishIntervalSeconds_def DefaultOutboxProcessingTimeoutSeconds_def DefaultOutboxConsumerBlockSeconds_def
  DefaultOutboxConsumerProcessedTTLSeconds_def DefaultOutboxConsumerClaimMinIdleSeconds_def
  DefaultOutboxConsumerFailureTTLSeconds_def

text \<open>
  Whatever is configured, including nothing, zero and negative numbers, every duration
  that an accessor answers is positive, as long as no setting exceeds 9223372036 seconds.
\<close>

theorem durations_positive:
  assumes "\<forall>v \<in> set (second_settings cfg). v \<le> 9223372036"
  shows "\<forall>d \<in> set (duration_settings cfg). 0 < d"
  using assms unfolding second_settings_def duration_settings_def duration_defs
  by (auto intro!: secondsOrDefault_pos simp: default_seconds)


definition demo_config :: Schema where
  "demo_config = \<lparr>cfg_Environment = ProductionEnv, cfg_HttpPort = 8888, cfg_GrpcPort = 8889,
     cfg_AuthSecret = ''0123456789abcdef0123456789abcdef'', cfg_DatabaseURI = ''postgres'', cfg_RedisURI = ''redis:6379'',
     cfg_RedisPassword = '''', cfg_RedisDB = 0, cfg_GRPCReflectionEnabled = '''', cfg_SwaggerEnabled = ''false'',
     cfg_DatabaseAutoMigrate = False, cfg_DatabaseMaxOpenConns = 0, cfg_DatabaseMaxIdleConns = 0,
     cfg_DatabaseConnMaxLifetimeSeconds = 0, cfg_DatabaseConnMaxIdleTimeSeconds = 0, cfg_HTTPReadTimeoutSeconds = 0,
     cfg_HTTPWriteTimeoutSeconds = 0, cfg_HTTPIdleTimeoutSeconds = 0, cfg_HTTPReadHeaderTimeoutSeconds = 0,
     cfg_HTTPMaxHeaderBytes = 0, cfg_MaxRequestBodyBytes = 0, cfg_MetricsEnabled = '''', cfg_MetricsPath = '''',
     cfg_OrderIdempotencyTTLSeconds = 0, cfg_OrderRateLimitLimit = 0, cfg_OrderRateLimitWindowSeconds = 0,
     cfg_OutboxPublisherEnabled = True, cfg_OutboxPublisherType = '''', cfg_OutboxRedisStreamName = '''',
     cfg_OutboxPublishBatchSize = 0, cfg_OutboxPublishMaxAttempts = 0, cfg_OutboxPublishRetryBaseSeconds = 0,
     cfg_OutboxPublishIntervalSeconds = 0, cfg_OutboxProcessingTimeoutSeconds = 0, cfg_OutboxConsumerEnabled = True,
     cfg_OutboxConsumerGroup = '''', cfg_OutboxConsumerName = '''', cfg_OutboxConsumerBatchSize = 0,
     cfg_OutboxConsumerBlockSeconds = 0, cfg_OutboxConsumerProcessedTTLSeconds = 0,
     cfg_OutboxConsumerClaimMinIdleSeconds = 0, cfg_OutboxConsumerClaimBatchSize = 0,
     cfg_OutboxConsumerMaxDeliveryAttempts = 0, cfg_OutboxConsumerFailureTTLSeconds = 0, cfg_OutboxDeadLetterStreamName = ''''\<rparr>"

lemma demo_config_valid: "Validate demo_config = None"
  by code_simp

text \<open>
  Beyond that the multiplication wraps. With 9223372037 seconds the window of the rate
  limit is negative although the configuration is valid; a counter with such a window gets no
  expiration, so a customer who reached the limit stays locked out.
\<close>

theorem huge_window_wraps:
  "\<exists>cfg. Validate cfg = None \<and> cfg_OrderRateLimitWindowSeconds cfg = 9223372037 \<and> OrderRateLimitWindow cfg < 0"
proof (intro exI conjI)
  let ?cfg = "demo_config\<lparr>cfg_OrderRateLimitWindowSeconds := 9223372037\<rparr>"
  show "Validate ?cfg = None" by code_simp
  show "OrderRateLimitWindow ?cfg < 0"
    by (simp add: OrderRateLimitWindow_def secondsOrDefault_def second_ns_def i64_def)
qed simp

theorem validated_configuration_witness:
  "Validate demo_config = None \<and> 32 \<le> length (cfg_AuthSecret demo_config) \<and> \<not> MetricsEnabled demo_config"
  using validated_configuration [OF demo_config_valid] demo_config_valid
  by (simp add: demo_config_def ParseBool_def)

theorem durations_positive_witness: "0 < OrderRateLimitWindow demo_config"
  using durations_positive [of demo_config] by (simp add: second_settings_def duration_settings_def demo_config_def)

end
