(* ===== verification/Background.thy ===== *)
theory Background
  imports Publisher Consumer Config
begin

text \<open>
  The background work that \<open>internal/server/http\<close> starts beside the HTTP server: the loops of the
  outbox publisher and of the consumer, and how they are built from the configuration.

  \<^item> A loop is a \<open>partial_function (option)\<close>: it ends only when it sees the end of its context. The
    \<open>select\<close> between the context and the ticker is a parameter on the whole state, because the other
    goroutines run while a loop waits.
  \<^item> The locale \<open>loop_body\<close> is what a loop keeps when its body keeps it, with a bound on the rounds.
  \<^item> \<open>stream_ok\<close> is the promise of the outbox: what is marked as published is in the stream.
\<close>

section \<open>Building the workers\<close>

definition newOutboxPublisher :: "Schema \<Rightarrow> stdlib \<Rightarrow> 'w redis option \<Rightarrow> goerr + 'w EventPublisher" where
  "newOutboxPublisher cfg L cache =
     (let publisherType = OutboxPublisherType cfg
      in if publisherType = OutboxPublisherTypeLog then Inr (\<lambda>event. LogPublisher_Publish (Some event))
         else if publisherType = OutboxPublisherTypeRedisStream
         then Inr (\<lambda>event. RedisStreamPublisher_Publish L (NewRedisStreamPublisher cache (OutboxRedisStreamName cfg)) (Some event))
         else Inl (ErrNew (''unknown outbox publisher type '' @ publisherType)))"

text \<open>
  \<open>None\<close> is a publisher that is switched off. \<open>time.NewTicker\<close> panics on an interval that is not positive. The code
  calls it in the goroutine of the loop, before the first batch, and the panic ends the whole process; here the
  start fails instead, so that no batch is run. The accessor of the interval answers such a value only
  when the product with a second wraps around.
\<close>

definition startOutboxPublisher ::
    "Schema \<Rightarrow> stdlib \<Rightarrow> 'w env \<Rightarrow> goerr + string \<Rightarrow> 'w redis option \<Rightarrow> goerr + 'w PublisherWorker option" where
  "startOutboxPublisher cfg L E hostname cache =
     (if \<not> OutboxPublisherEnabled cfg then Inr None
      else case newOutboxPublisher cfg L cache of
             Inl err \<Rightarrow> Inl err
           | Inr publisher \<Rightarrow>
               let worker = NewPublisherWorker E hostname (Some E) (Some publisher)
                     [WithPublisherBatchSize (OutboxPublishBatchSize cfg), WithPublisherMaxAttempts (OutboxPublishMaxAttempts cfg),
                      WithPublisherRetryBase (OutboxPublishRetryBase cfg), WithPublisherProcessingTimeout (OutboxProcessingTimeout cfg)]
               in if OutboxPublishInterval cfg \<le> 0 then Inl (ErrNew ''panic: non-positive interval for NewTicker'')
                  else Inr (Some worker))"

definition newOutboxConsumer :: "Schema \<Rightarrow> 'w env \<Rightarrow> 'w redis option \<Rightarrow> 'w RedisConsumer" where
  "newOutboxConsumer cfg E cache =
     NewRedisConsumer E cache (Some LogEventHandler_Handle)
       (Some (NewRedisProcessedEventStore cache (OutboxConsumerProcessedTTL cfg)))
       [WithStreamName (OutboxRedisStreamName cfg), WithGroupName (OutboxConsumerGroup cfg),
        WithConsumerName (OutboxConsumerName cfg), WithBatchSize (OutboxConsumerBatchSize cfg),
        WithBlock (OutboxConsumerBlock cfg), WithClaimMinIdle (OutboxConsumerClaimMinIdle cfg),
        WithClaimBatchSize (OutboxConsumerClaimBatchSize cfg),
        WithMaxDeliveryAttempts (OutboxConsumerMaxDeliveryAttempts cfg), WithFailureTTL (OutboxConsumerFailureTTL cfg),
        WithDeadLetterStreamName (OutboxDeadLetterStreamName cfg)]"

definition startOutboxConsumer :: "Schema \<Rightarrow> 'w env \<Rightarrow> 'w redis option \<Rightarrow> ('w st, 'w RedisConsumer option) gom" where
  "startOutboxConsumer cfg E cache =
     (if \<not> OutboxConsumerEnabled cfg then retG None
      else let consumer = newOutboxConsumer cfg E cache
           in bindG (RedisConsumer_EnsureGroup consumer) (\<lambda>_. retG (Some consumer)))"

section \<open>The loops\<close>

text \<open>Whether a batch failed, and whether the loop ends at its error: \<open>ctx.Err() != nil\<close>.\<close>

fun publish_error :: "goerr + publish_outcome \<Rightarrow> bool" where
  "publish_error (Inl err) = True"
| "publish_error (Inr (result, err)) = (err \<noteq> None)"

definition stops_at :: "bool \<Rightarrow> ('s \<Rightarrow> bool \<times> 's) \<Rightarrow> 's \<Rightarrow> bool \<times> 's" where
  "stops_at error ctxErr s = (if error then ctxErr s else (False, s))"

text \<open>\<open>wait\<close> answers whether the context ended before the next tick.\<close>

partial_function (option) publisher_loop ::
    "('s \<Rightarrow> (goerr + publish_outcome) \<times> 's) \<Rightarrow> ('s \<Rightarrow> bool \<times> 's) \<Rightarrow> ('s \<Rightarrow> bool \<times> 's) \<Rightarrow> 's \<Rightarrow> 's option" where
  "publisher_loop runOnce ctxErr wait s =
     (case runOnce s of (r, t) \<Rightarrow>
      (case stops_at (publish_error r) ctxErr t of (stop, u) \<Rightarrow>
       if stop then Some u
       else (case wait u of (ended, v) \<Rightarrow> if ended then Some v else publisher_loop runOnce ctxErr wait v)))"

text \<open>\<open>done\<close> answers whether the context has ended when a round begins.\<close>

partial_function (option) consumer_loop ::
    "('s, 'a) gom \<Rightarrow> ('s, 'b) gom \<Rightarrow> ('s \<Rightarrow> bool \<times> 's) \<Rightarrow> ('s \<Rightarrow> bool \<times> 's) \<Rightarrow> 's \<Rightarrow> 's option" where
  "consumer_loop runOnce claimStaleOnce ctxErr ctxDone s =
     (case ctxDone s of (ended, s1) \<Rightarrow>
      if ended then Some s1
      else (case runOnce s1 of (r, t) \<Rightarrow>
            (case stops_at (isl r) ctxErr t of (stop, u) \<Rightarrow>
             if stop then Some u
             else (case claimStaleOnce u of (q, v) \<Rightarrow>
                   (case stops_at (isl q) ctxErr v of (stop, w) \<Rightarrow>
                    if stop then Some w else consumer_loop runOnce claimStaleOnce ctxErr ctxDone w)))))"

text \<open>The wait for a worker at shutdown: whether it has ended within ten seconds.\<close>

definition waitBackgroundDone :: "bool \<Rightarrow> goerr option" where
  "waitBackgroundDone ended =
     (if ended then None else Some (ErrNew ''background worker did not stop before timeout''))"

section \<open>What a loop keeps\<close>

text \<open>
  \<open>I\<close> holds between the steps; \<open>left\<close> counts the rounds that the owner of the context still allows:
  no step raises it, and a wait that does not end the loop lowers it.
\<close>

locale publisher_body =
  fixes I :: "'s \<Rightarrow> bool" and left :: "'s \<Rightarrow> nat" and runOnce :: "'s \<Rightarrow> (goerr + publish_outcome) \<times> 's"
    and ctxErr :: "'s \<Rightarrow> bool \<times> 's" and wait :: "'s \<Rightarrow> bool \<times> 's"
  assumes body_keeps: "I s \<Longrightarrow> runOnce s = (r, t) \<Longrightarrow> I t \<and> left t \<le> left s"
    and ctxErr_keeps: "I s \<Longrightarrow> ctxErr s = (b, t) \<Longrightarrow> I t \<and> left t \<le> left s"
    and wait_keeps: "I s \<Longrightarrow> wait s = (b, t) \<Longrightarrow> I t \<and> (\<not> b \<longrightarrow> left t < left s)"
begin

lemma publisher_loop_returns: "I s \<Longrightarrow> \<exists>t. publisher_loop runOnce ctxErr wait s = Some t \<and> I t"
proof (induction "left s" arbitrary: s rule: less_induct)
  case less
  obtain r t where r: "runOnce s = (r, t)" by fastforce
  obtain stop u where u: "stops_at (publish_error r) ctxErr t = (stop, u)" by fastforce
  obtain ended v where v: "wait u = (ended, v)" by fastforce
  note t = body_keeps [OF less.prems r]
  have u': "I u \<and> left u \<le> left t" using t ctxErr_keeps u by (auto simp: stops_at_def split: if_splits)
  then have v': "I v \<and> (\<not> ended \<longrightarrow> left v < left u)" using wait_keeps v by blast
  show ?case
  proof (cases "stop \<or> ended")
    case True
    with u' v' show ?thesis by (subst publisher_loop.simps) (auto simp: r u v)
  next
    case False
    with t u' v' have "left v < left s" "I v" by auto
    from less.hyps [OF this] False show ?thesis by (subst publisher_loop.simps) (simp add: r u v)
  qed
qed

end

section \<open>The outbox and the stream\<close>

text \<open>A run of the worker keeps what no call of it makes false.\<close>

lemma kept_claimBatch:
  assumes "env_stays (dn ev) E" "stays (dn ev) (pw_now w)"
  shows "keepsG (kept dn ev) (claimBatch w E)"
proof -
  have c: "keepsG (kept dn ev) (OutboxService_ClaimReady (worker_outbox w E (NewOutboxRepository E)) n by d)" for n "by" d
    unfolding OutboxService_ClaimReady_def worker_outbox_sel NewOutboxRepository_def OutboxRepository.simps
      OutboxRepo_ClaimReady_def claimableReadyQuery_def locked_query_def Let_def
    using assms by (auto intro!: keeping kept_stmtG kept_askG simp: env_stays_def)
  have "keepsG (kept dn ev) (Transactor_WithinTransaction E
      (\<lambda>repo. OutboxService_ClaimReady (worker_outbox w E repo) n by d))" for n "by" d
    unfolding Transactor_WithinTransaction_def by (rule kept_transaction [OF assms(1) c])
  note tx = this
  show ?thesis
  proof (rule keepsGI)
    fix s r t assume run: "claimBatch w E s = (r, t)"
    then obtain x where "Transactor_WithinTransaction E
        (\<lambda>repo. OutboxService_ClaimReady (worker_outbox w E repo) (pw_batchSize w) (pw_workerID w) (pw_processingTimeout w)) s = (x, t)"
      by (auto simp: claimBatch_def Let_def split: prod.splits)
    from keepsGD [OF tx this] show "kept dn ev s t" .
  qed
qed

lemma kept_RunOnce:
  assumes env: "env_stays (dn ev) E" "stays (dn ev) (pw_now w)"
    and pub: "\<And>ev'. keepsG (kept dn ev) (publish ev')"
    and w: "pw_transactor w = Some E" "pw_publisher w = Some publish"
  shows "keepsG (kept dn ev) (PublisherWorker_RunOnce w)"
proof -
  note fin = kept_finalize [of dn ev, OF env]
  have now: "keepsG (kept dn ev) (nowG w)" unfolding nowG_def by (rule kept_askG [of dn ev, OF env(2)])
  have finish: "keepsG (kept dn ev) (finish w a b c)" for a b c
    unfolding finish_def using now by (auto intro!: keeping)
  have one: "keepsG (kept dn ev) (publishEvent w E publish ev' res)" for ev' res
    unfolding publishEvent_def publishFailed_def publishDone_def Let_def
    using pub now fin by (auto intro!: keeping split: sum.splits)
  have "keepsG (kept dn ev) (publishEvents w E publish evs res)" for evs res
    using one by (induction evs arbitrary: res) (auto intro!: keeping split: option.splits)
  then show ?thesis
    unfolding PublisherWorker_RunOnce_def w option.case Let_def
    using now finish kept_claimBatch [of dn ev, OF env] by (auto intro!: keeping split: sum.splits)
qed

definition stream_ok :: "stdlib \<Rightarrow> string \<Rightarrow> ('w \<Rightarrow> (string \<times> (string \<rightharpoonup> any)) set) \<Rightarrow> 'w st \<Rightarrow> bool" where
  "stream_ok L name stream s \<longleftrightarrow> events_ok s \<and>
     (\<forall>e \<in> set (st_outbox_events s). oe_Status e = OutboxEventStatusPublished \<longrightarrow> (name, stream_values L e) \<in> stream (st_world s))"

lemma stream_values_published [simp]: "stream_values L (published tm e) = stream_values L e"
  by (simp add: stream_values_def published_def)

lemma worker_effect_stream_ok:
  assumes ok: "stream_ok L name stream s" and eff: "worker_effect w sel P F s t"
    and dn: "\<And>e. e \<in> set sel \<Longrightarrow> oe_ID e \<in> P \<Longrightarrow> (name, stream_values L e) \<in> stream (st_world t)"
    and kept: "\<And>x. x \<in> stream (st_world s) \<Longrightarrow> x \<in> stream (st_world t)"
  shows "stream_ok L name stream t"
proof -
  from eff obtain now "by" tm where sel: "set sel \<subseteq> set (st_outbox_events s)" and P: "P \<union> F \<subseteq> oe_ID ` set sel"
    and rows: "st_outbox_events t =
          map (\<lambda>e. if oe_ID e \<in> P then published (tm (oe_ID e)) e
                   else if oe_ID e \<in> F then retried (pw_maxAttempts w) (tm (oe_ID e)) e
                   else if oe_ID e \<in> oe_ID ` set sel then claimed now by e
                   else e) (st_outbox_events s)"
    unfolding worker_effect_def by blast
  have "map oe_ID (st_outbox_events t) = map oe_ID (st_outbox_events s)"
    by (simp add: rows published_def claimed_def)
  then have "events_ok t" using ok by (simp add: stream_ok_def events_ok_def)
  moreover have "(name, stream_values L e') \<in> stream (st_world t)"
    if e': "e' \<in> set (st_outbox_events t)" "oe_Status e' = OutboxEventStatusPublished" for e'
  proof -
    from e'(1) rows obtain e where e: "e \<in> set (st_outbox_events s)"
      and f: "e' = (if oe_ID e \<in> P then published (tm (oe_ID e)) e
                   else if oe_ID e \<in> F then retried (pw_maxAttempts w) (tm (oe_ID e)) e
                   else if oe_ID e \<in> oe_ID ` set sel then claimed now by e else e)" by auto
    show ?thesis
    proof (cases "oe_ID e \<in> P")
      case True
      with P obtain x where x: "x \<in> set sel" "oe_ID x = oe_ID e" by force
      moreover have "distinct (map oe_ID (st_outbox_events s))" using ok by (simp add: stream_ok_def events_ok_def)
      ultimately have "x = e" using e sel by (auto simp: distinct_map dest: inj_onD)
      with True f dn [OF x(1)] show ?thesis by simp
    next
      case False
      with f e'(2) have "e' = e"
        by (auto simp: retried_def dead_lettered_def publish_failed_def claimed_def OutboxEventStatus_defs split: if_splits)
      with ok e e'(2) kept show ?thesis by (auto simp: stream_ok_def)
    qed
  qed
  ultimately show ?thesis by (auto simp: stream_ok_def)
qed

text \<open>
  What the publisher relies on: Redis appends an entry when it answers an id, no call takes an entry
  away or raises the number of rounds left, and whatever runs while the loop waits keeps the promise.
\<close>

definition outbox_rely ::
    "stdlib \<Rightarrow> string \<Rightarrow> ('w \<Rightarrow> (string \<times> (string \<rightharpoonup> any)) set) \<Rightarrow> ('w \<Rightarrow> nat) \<Rightarrow> 'w env \<Rightarrow> 'w goredis \<Rightarrow>
     ('w st \<Rightarrow> bool \<times> 'w st) \<Rightarrow> ('w st \<Rightarrow> bool \<times> 'w st) \<Rightarrow> bool" where
  "outbox_rely L name stream left E c ctxErr wait \<longleftrightarrow>
     (\<forall>key values v i v'. gr_XAdd c key values v = (Inr i, v') \<longrightarrow> (key, values) \<in> stream v') \<and>
     (\<forall>x. quiet (\<lambda>v. x \<in> stream v) E c) \<and> (\<forall>n. quiet (\<lambda>v. left v \<le> n) E c) \<and>
     (\<forall>s b t. stream_ok L name stream s \<longrightarrow> ctxErr s = (b, t) \<longrightarrow>
        stream_ok L name stream t \<and> left (st_world t) \<le> left (st_world s)) \<and>
     (\<forall>s b t. stream_ok L name stream s \<longrightarrow> wait s = (b, t) \<longrightarrow>
        stream_ok L name stream t \<and> (\<not> b \<longrightarrow> left (st_world t) < left (st_world s)))"

lemma outbox_relyD:
  assumes rely: "outbox_rely L name stream left E c ctxErr wait"
  shows "\<forall>key values v i v'. gr_XAdd c key values v = (Inr i, v') \<longrightarrow> (key, values) \<in> stream v'"
    and "\<forall>x. quiet (\<lambda>v. x \<in> stream v) E c" and "\<forall>n. quiet (\<lambda>v. left v \<le> n) E c"
    and "stream_ok L name stream s \<Longrightarrow> ctxErr s = (b, t) \<Longrightarrow> stream_ok L name stream t \<and> left (st_world t) \<le> left (st_world s)"
    and "stream_ok L name stream s \<Longrightarrow> wait s = (b, t) \<Longrightarrow>
      stream_ok L name stream t \<and> (\<not> b \<longrightarrow> left (st_world t) < left (st_world s))"
proof -
  note h1 = rely [unfolded outbox_rely_def, THEN conjunct1] and h = rely [unfolded outbox_rely_def, THEN conjunct2]
  note h2 = h [THEN conjunct1] and h3 = h [THEN conjunct2, THEN conjunct1] and h4 = h [THEN conjunct2, THEN conjunct2]
  show "\<forall>key values v i v'. gr_XAdd c key values v = (Inr i, v') \<longrightarrow> (key, values) \<in> stream v'" by (rule h1)
  show "\<forall>x. quiet (\<lambda>v. x \<in> stream v) E c" by (rule h2)
  show "\<forall>n. quiet (\<lambda>v. left v \<le> n) E c" by (rule h3)
  show "stream_ok L name stream s \<Longrightarrow> ctxErr s = (b, t) \<Longrightarrow> stream_ok L name stream t \<and> left (st_world t) \<le> left (st_world s)"
    by (rule h4 [THEN conjunct1, THEN spec, THEN spec, THEN spec, THEN mp, THEN mp])
  show "stream_ok L name stream s \<Longrightarrow> wait s = (b, t) \<Longrightarrow>
      stream_ok L name stream t \<and> (\<not> b \<longrightarrow> left (st_world t) < left (st_world s))"
    by (rule h4 [THEN conjunct2, THEN spec, THEN spec, THEN spec, THEN mp, THEN mp])
qed

text \<open>A worker that publishes to the stream \<open>name\<close> of a Redis server.\<close>

definition redis_worker :: "stdlib \<Rightarrow> string \<Rightarrow> 'w env \<Rightarrow> 'w goredis \<Rightarrow> 'w PublisherWorker \<Rightarrow> bool" where
  "redis_worker L name E c w \<longleftrightarrow> 0 < pw_maxAttempts w \<and> pw_transactor w = Some E \<and> pw_now w = env_now E \<and>
     (\<exists>p cache. pw_publisher w = Some (\<lambda>ev. RedisStreamPublisher_Publish L p (Some ev)) \<and>
        sp_cache p = Some cache \<and> rd_cmd cache = Some c \<and> sp_streamName p = name)"

lemma startOutboxPublisher_redis:
  assumes "startOutboxPublisher cfg L E hostname (Some cache) = Inr (Some w)"
    and "OutboxPublisherType cfg = OutboxPublisherTypeRedisStream" "rd_cmd cache = Some c"
  shows "redis_worker L (OutboxRedisStreamName cfg) E c w"
proof -
  let ?p = "NewRedisStreamPublisher (Some cache) (OutboxRedisStreamName cfg)"
  have name: "OutboxRedisStreamName cfg \<noteq> ''''" by (simp add: OutboxRedisStreamName_def DefaultOutboxRedisStreamName_def)
  have attempts: "0 < OutboxPublishMaxAttempts cfg"
    by (simp add: OutboxPublishMaxAttempts_def DefaultOutboxPublishMaxAttempts_def)
  have "newOutboxPublisher cfg L (Some cache) = Inr (\<lambda>ev. RedisStreamPublisher_Publish L ?p (Some ev))"
    using assms(2) by (simp add: newOutboxPublisher_def Let_def OutboxPublisherTypeLog_def OutboxPublisherTypeRedisStream_def)
  with assms(1) have w: "w = NewPublisherWorker E hostname (Some E) (Some (\<lambda>ev. RedisStreamPublisher_Publish L ?p (Some ev)))
      [WithPublisherBatchSize (OutboxPublishBatchSize cfg), WithPublisherMaxAttempts (OutboxPublishMaxAttempts cfg),
       WithPublisherRetryBase (OutboxPublishRetryBase cfg), WithPublisherProcessingTimeout (OutboxProcessingTimeout cfg)]"
    unfolding startOutboxPublisher_def Let_def by (auto split: if_splits)
  have "pw_maxAttempts w = OutboxPublishMaxAttempts cfg" "pw_transactor w = Some E" "pw_now w = env_now E"
    "pw_publisher w = Some (\<lambda>ev. RedisStreamPublisher_Publish L ?p (Some ev))"
    unfolding w NewPublisherWorker_def using attempts
    by (simp_all add: WithPublisherBatchSize_def WithPublisherMaxAttempts_def WithPublisherRetryBase_def WithPublisherProcessingTimeout_def)
  moreover have "sp_cache ?p = Some cache" "sp_streamName ?p = OutboxRedisStreamName cfg"
    using name by (simp_all add: NewRedisStreamPublisher_def)
  ultimately show ?thesis unfolding redis_worker_def using attempts assms(3) by auto
qed

lemma RunOnce_stream_ok:
  assumes rely: "outbox_rely L name stream left E c ctxErr wait" and w: "redis_worker L name E c w"
    and ok: "stream_ok L name stream s" and run: "PublisherWorker_RunOnce w s = (r, t)"
  shows "stream_ok L name stream t \<and> left (st_world t) \<le> left (st_world s)"
proof -
  from w obtain p cache where pub: "pw_publisher w = Some (\<lambda>ev. RedisStreamPublisher_Publish L p (Some ev))"
    and p: "sp_cache p = Some cache" "rd_cmd cache = Some c" "sp_streamName p = name"
    and w': "0 < pw_maxAttempts w" "pw_transactor w = Some E" "pw_now w = env_now E"
    unfolding redis_worker_def by blast
  have xadd: "\<forall>key values v i v'. gr_XAdd c key values v = (Inr i, v') \<longrightarrow> (key, values) \<in> stream v'"
    and q: "\<forall>x. quiet (\<lambda>v. x \<in> stream v) E c" "\<forall>n. quiet (\<lambda>v. left v \<le> n) E c"
    by (rule outbox_relyD [OF rely])+
  have keeps: "D (st_world t)" if "quiet D E c" "D (st_world s)" for D
  proof -
    have "env_stays ((\<lambda>_. D) ev) E" "stays ((\<lambda>_. D) ev) (pw_now w)" "\<forall>key values. stays ((\<lambda>_. D) ev) (gr_XAdd c key values)" for ev :: OutboxEvent
      using that(1) by (simp_all add: quiet_def env_stays_def w')
    note d = this
    have "keepsG (kept (\<lambda>_. D) ev) (PublisherWorker_RunOnce w)" for ev
      by (rule kept_RunOnce [OF d(1,2) kept_redis_publish [OF p(1,2) d(3)] w'(2) pub])
    from keepsGD [OF this run] that(2) show ?thesis by (simp add: kept_def)
  qed
  have now: "\<forall>x. stays (\<lambda>v. x \<in> stream v) (pw_now w)" using q(1) by (simp add: quiet_def env_stays_def w')
  note deliver = redis_stream_delivers [OF p(1,2) xadd q(1) now, of L]
  have "events_ok s" using ok by (simp add: stream_ok_def)
  from event_publisher.RunOnce_outcome [OF deliver this w'(1,2) pub run]
  consider "same_tables s t"
    | sel P F where "worker_effect w sel P F s t"
        "\<forall>e \<in> set sel. oe_ID e \<in> P \<longrightarrow> (name, stream_values L e) \<in> stream (st_world t)"
    unfolding stream_values_claimed p(3) by blast
  then have "stream_ok L name stream t"
  proof cases
    case 1
    with ok keeps [OF q(1) [rule_format]] show ?thesis by (auto simp: stream_ok_def same_tables_iff events_ok_def)
  next
    case (2 sel P F)
    show ?thesis
      by (rule worker_effect_stream_ok [OF ok 2(1)]) (use 2(2) keeps [OF q(1) [rule_format]] in blast)+
  qed
  moreover have "left (st_world t) \<le> left (st_world s)" using keeps [OF q(2) [rule_format]] by blast
  ultimately show ?thesis by simp
qed

interpretation outbox_loop: publisher_body
  "\<lambda>s. outbox_rely L name stream left E c ctxErr wait \<and> redis_worker L name E c w \<and> stream_ok L name stream s"
  "\<lambda>s. left (st_world s)" "PublisherWorker_RunOnce w" ctxErr wait
  for L name and stream :: "'w \<Rightarrow> (string \<times> (string \<rightharpoonup> any)) set" and left E c w ctxErr wait
proof
  fix s t :: "'w st" and r
  assume "outbox_rely L name stream left E c ctxErr wait \<and> redis_worker L name E c w \<and> stream_ok L name stream s"
    "PublisherWorker_RunOnce w s = (r, t)"
  then show "(outbox_rely L name stream left E c ctxErr wait \<and> redis_worker L name E c w \<and> stream_ok L name stream t) \<and>
      left (st_world t) \<le> left (st_world s)" using RunOnce_stream_ok by blast
next
  fix s t :: "'w st" and b
  assume "outbox_rely L name stream left E c ctxErr wait \<and> redis_worker L name E c w \<and> stream_ok L name stream s"
    "ctxErr s = (b, t)"
  then show "(outbox_rely L name stream left E c ctxErr wait \<and> redis_worker L name E c w \<and> stream_ok L name stream t) \<and>
      left (st_world t) \<le> left (st_world s)" using outbox_relyD(4) by blast
next
  fix s t :: "'w st" and b
  assume a: "outbox_rely L name stream left E c ctxErr wait \<and> redis_worker L name E c w \<and> stream_ok L name stream s"
    and "wait s = (b, t)"
  with outbox_relyD(5) [of L name stream left E c ctxErr wait s b t]
  show "(outbox_rely L name stream left E c ctxErr wait \<and> redis_worker L name E c w \<and> stream_ok L name stream t) \<and>
      (\<not> b \<longrightarrow> left (st_world t) < left (st_world s))" by simp
qed

text \<open>What may run while the loop waits: an order adds its pending event.\<close>

lemma stream_ok_pending:
  assumes "stream_ok L name stream s" "events_ok t" "st_outbox_events t = st_outbox_events s @ [e]"
    and "oe_Status e = OutboxEventStatusPending" "\<And>x. x \<in> stream (st_world s) \<Longrightarrow> x \<in> stream (st_world t)"
  shows "stream_ok L name stream t"
  using assms by (auto simp: stream_ok_def OutboxEventStatus_defs)

section \<open>Property\<close>

text \<open>
  C35: over the whole life of the publisher that the server starts, an event that is marked as published
  is in the Redis stream: from any state that keeps this promise, with anything that keeps it running
  between the batches, the loop returns when its context ends, and the promise holds.
\<close>

theorem publisher_loop_delivers:
  assumes "startOutboxPublisher cfg L E hostname (Some cache) = Inr (Some w)"
    and "OutboxPublisherType cfg = OutboxPublisherTypeRedisStream" "rd_cmd cache = Some c"
    and "outbox_rely L (OutboxRedisStreamName cfg) stream left E c ctxErr wait"
    and "stream_ok L (OutboxRedisStreamName cfg) stream s"
  shows "\<exists>t. publisher_loop (PublisherWorker_RunOnce w) ctxErr wait s = Some t \<and>
    stream_ok L (OutboxRedisStreamName cfg) stream t"
  using outbox_loop.publisher_loop_returns [of L "OutboxRedisStreamName cfg" stream left E c ctxErr wait w s]
    startOutboxPublisher_redis [OF assms(1-3)] assms(4,5) by blast

section \<open>A concrete loop\<close>

text \<open>The outside world is the list of the entries; the context ends after the first batch.\<close>

definition stream_config :: Schema where
  "stream_config = demo_config\<lparr>cfg_OutboxPublisherType := ''redis_stream''\<rparr>"

definition demo_cache :: "demo_log redis" where
  "demo_cache = \<lparr>rd_cmd = Some demo_client, rd_client = Some demo_client\<rparr>"

definition demo_ctx_err :: "demo_log st \<Rightarrow> bool \<times> demo_log st" where
  "demo_ctx_err s = (False, s)"

definition demo_wait :: "demo_log st \<Rightarrow> bool \<times> demo_log st" where
  "demo_wait s = (True, s)"

definition demo_loop_worker :: "demo_log PublisherWorker" where
  "demo_loop_worker = NewPublisherWorker demo_env (Inr ''host'') (Some demo_env)
     (Some (\<lambda>ev. RedisStreamPublisher_Publish demo_lib (NewRedisStreamPublisher (Some demo_cache) ''stream:orders'') (Some ev)))
     [WithPublisherBatchSize 100, WithPublisherMaxAttempts 3, WithPublisherRetryBase 60000000000,
      WithPublisherProcessingTimeout 900000000000]"

lemma demo_started: "startOutboxPublisher stream_config demo_lib demo_env (Inr ''host'') (Some demo_cache) = Inr (Some demo_loop_worker)"
proof -
  have c: "OutboxPublisherEnabled stream_config" "OutboxPublisherType stream_config = ''redis_stream''"
    "OutboxRedisStreamName stream_config = ''stream:orders''" "OutboxPublishBatchSize stream_config = 100"
    "OutboxPublishMaxAttempts stream_config = 3" "OutboxPublishRetryBase stream_config = 60000000000"
    "OutboxProcessingTimeout stream_config = 900000000000" "0 < OutboxPublishInterval stream_config" by code_simp+
  show ?thesis
    unfolding startOutboxPublisher_def newOutboxPublisher_def Let_def c demo_loop_worker_def
    using c(1,8) by (simp add: OutboxPublisherTypeLog_def OutboxPublisherTypeRedisStream_def)
qed

lemma demo_rely: "outbox_rely demo_lib name set (\<lambda>_. 0) demo_env demo_client demo_ctx_err demo_wait"
  by (auto simp: outbox_rely_def demo_client_def demo_env_def demo_ctx_err_def demo_wait_def quiet_def env_stays_def stays_def)

theorem publisher_loop_delivers_witness:
  "\<exists>t. publisher_loop (PublisherWorker_RunOnce demo_loop_worker) demo_ctx_err demo_wait demo_outbox = Some t \<and>
     stream_ok demo_lib ''stream:orders'' set t"
proof -
  have t: "OutboxPublisherType stream_config = OutboxPublisherTypeRedisStream" "OutboxRedisStreamName stream_config = ''stream:orders''"
    by code_simp+
  have "rd_cmd demo_cache = Some demo_client" by (simp add: demo_cache_def)
  note c = this
  have "stream_ok demo_lib ''stream:orders'' set demo_outbox"
    by (simp add: stream_ok_def events_ok_def demo_outbox_def demo_event_def OutboxEventStatus_defs)
  from publisher_loop_delivers [OF demo_started t(1) c demo_rely this [folded t(2)]] show ?thesis by (simp add: t(2))
qed

end
