(* ===== verification/Delivery.thy ===== *)
theory Delivery
  imports OrderWorld Background
begin

text \<open>
  The way of an order into the Redis stream, through \<open>internal/order/service\<close>,
  \<open>internal/outbox/service\<close> and \<open>internal/outbox/repository\<close> together.

  \<^item> \<open>delivery_run\<close> interleaves order requests with any number of publisher workers, one transaction
    or one call to Redis at a time: a worker may stop for good, or lose its lease, at any point.
  \<^item> \<open>delivery_ok\<close> is the invariant: one event per order, and no event is marked before it is sent;
    \<open>stream_sound\<close> is its converse: an entry that appears in the stream is that of an event.
  \<^item> \<open>run_once_refines_steps\<close>: a whole \<open>RunOnce\<close> of the publisher worker is a sequence of these steps.
\<close>

section \<open>Orders and workers, interleaved\<close>

text \<open>
  What the trace remembers: an order that was placed, the copy of an event that a worker has claimed,
  and a copy that Redis has answered an id for.
\<close>

datatype delivery_event = OrderPlaced PlaceOrderReq Order | InHand OutboxEvent | Sent OutboxEvent

text \<open>No entry of a stream is lost, and none appears under \<open>name\<close>.\<close>

definition grows :: "('w \<Rightarrow> 'x set) \<Rightarrow> 'w st \<Rightarrow> 'w st \<Rightarrow> bool" where
  "grows stream s t \<longleftrightarrow> stream (st_world s) \<subseteq> stream (st_world t)"

definition nothing_new :: "string \<Rightarrow> ('w \<Rightarrow> (string \<times> 'v) set) \<Rightarrow> 'w st \<Rightarrow> 'w st \<Rightarrow> bool" where
  "nothing_new name stream s t \<longleftrightarrow> (\<forall>v. (name, v) \<in> stream (st_world t) \<longrightarrow> (name, v) \<in> stream (st_world s))"

text \<open>
  Redis appends the entry when it answers an id, and at most that one whatever it answers; neither a further
  \<open>XADD\<close> nor a read of the environment of the database takes an entry away, and the environment adds none.
\<close>

definition appends :: "('w \<Rightarrow> (string \<times> (string \<rightharpoonup> any)) set) \<Rightarrow> 'w env \<Rightarrow> 'w goredis \<Rightarrow> bool" where
  "appends stream E c \<longleftrightarrow>
     (\<forall>key values v i v'. gr_XAdd c key values v = (Inr i, v') \<longrightarrow> (key, values) \<in> stream v') \<and>
     (\<forall>key values v r v'. gr_XAdd c key values v = (r, v') \<longrightarrow> stream v' \<subseteq> insert (key, values) (stream v)) \<and>
     (\<forall>x. quiet (\<lambda>v. x \<in> stream v) E c \<and> env_keeps (\<lambda>v. x \<in> stream v) E \<and> env_keeps (\<lambda>v. x \<notin> stream v) E)"

inductive delivery_run ::
    "stdlib \<Rightarrow> string \<Rightarrow> 'w env \<Rightarrow> 'w goredis \<Rightarrow> (OrderCreatedPayload \<Rightarrow> goerr + string) \<Rightarrow>
     ('w \<Rightarrow> (string \<times> (string \<rightharpoonup> any)) set) \<Rightarrow> 'w st \<Rightarrow> delivery_event list \<Rightarrow> 'w st \<Rightarrow> bool"
  for L name E c marshal stream s where
  start: "delivery_run L name E c marshal stream s [] s"
| placed: "delivery_run L name E c marshal stream s tr t \<Longrightarrow>
    UnitOfWork_WithinTransaction E marshal (placeOrderTx req) t = (Inr (ord, b), t') \<Longrightarrow>
    delivery_run L name E c marshal stream s (OrderPlaced req ord # tr) t'"
| place_failed: "delivery_run L name E c marshal stream s tr t \<Longrightarrow>
    UnitOfWork_WithinTransaction E marshal (placeOrderTx req) t = (Inl e, t') \<Longrightarrow>
    delivery_run L name E c marshal stream s tr t'"
| cancelled: "delivery_run L name E c marshal stream s tr t \<Longrightarrow>
    OrderService_CancelOrder (NewOrderService E marshal validate) i user t = (r, t') \<Longrightarrow>
    delivery_run L name E c marshal stream s tr t'"
| claimed: "delivery_run L name E c marshal stream s tr t \<Longrightarrow> redis_worker L name E c w \<Longrightarrow>
    claimBatch w E t = (Inr (Inr events, n), t') \<Longrightarrow>
    delivery_run L name E c marshal stream s (map InHand events @ tr) t'"
| claim_failed: "delivery_run L name E c marshal stream s tr t \<Longrightarrow> redis_worker L name E c w \<Longrightarrow>
    claimBatch w E t = (Inr (Inl e, n), t') \<Longrightarrow>
    delivery_run L name E c marshal stream s tr t'"
| sent: "delivery_run L name E c marshal stream s tr t \<Longrightarrow> redis_worker L name E c w \<Longrightarrow>
    pw_publisher w = Some publish \<Longrightarrow> InHand ev \<in> set tr \<Longrightarrow> publish ev t = (Inr u, t') \<Longrightarrow>
    delivery_run L name E c marshal stream s (Sent ev # tr) t'"
| send_failed: "delivery_run L name E c marshal stream s tr t \<Longrightarrow> redis_worker L name E c w \<Longrightarrow>
    pw_publisher w = Some publish \<Longrightarrow> InHand ev \<in> set tr \<Longrightarrow> publish ev t = (Inl e, t') \<Longrightarrow>
    delivery_run L name E c marshal stream s tr t'"
| marked: "delivery_run L name E c marshal stream s tr t \<Longrightarrow> redis_worker L name E c w \<Longrightarrow>
    Sent ev \<in> set tr \<Longrightarrow> PublisherWorker_markPublished w E (oe_ID ev) t = (q, t') \<Longrightarrow>
    delivery_run L name E c marshal stream s tr t'"
| returned: "delivery_run L name E c marshal stream s tr t \<Longrightarrow> redis_worker L name E c w \<Longrightarrow>
    InHand ev \<in> set tr \<Longrightarrow> PublisherWorker_recordPublishFailure w E ev t = (q, t') \<Longrightarrow>
    delivery_run L name E c marshal stream s tr t'"
| others: "delivery_run L name E c marshal stream s tr t \<Longrightarrow> same_tables t t' \<Longrightarrow> grows stream t t' \<Longrightarrow>
    nothing_new name stream t t' \<Longrightarrow>
    delivery_run L name E c marshal stream s tr t'"

section \<open>The invariant\<close>

text \<open>What no step changes of an event.\<close>

definition same_event :: "OutboxEvent \<Rightarrow> OutboxEvent \<Rightarrow> bool" where
  "same_event x y \<longleftrightarrow> oe_ID x = oe_ID y \<and> oe_AggregateType x = oe_AggregateType y \<and>
     oe_AggregateID x = oe_AggregateID y \<and> oe_EventType x = oe_EventType y \<and> oe_Payload x = oe_Payload y \<and>
     oe_CreatedAt x = oe_CreatedAt y"

lemma same_event_refl [simp]: "same_event e e"
  by (simp add: same_event_def)

lemma same_event_steps [simp]:
  "same_event (published tm e) e" "same_event (claimed now b e) e" "same_event (failed_as m ev tm e) e"
  by (simp_all add: same_event_def published_def claimed_def failed_as_def publish_failed_def dead_lettered_def)

lemma same_event_values: "same_event x y \<Longrightarrow> stream_values L x = stream_values L y"
  by (simp add: same_event_def stream_values_def)

lemma stream_values_ids:
  assumes "stream_values L x = stream_values L y"
  shows "oe_ID x = oe_ID y" "oe_AggregateID x = oe_AggregateID y"
  using fun_cong [OF assms, of "''event_id''"] fun_cong [OF assms, of "''aggregate_id''"]
  by (simp_all add: stream_values_def)

text \<open>The event that an order has put into the outbox.\<close>

definition order_event :: "(OrderCreatedPayload \<Rightarrow> goerr + string) \<Rightarrow> Order \<Rightarrow> OutboxEvent \<Rightarrow> bool" where
  "order_event marshal ord e \<longleftrightarrow> oe_AggregateID e = o_ID ord \<and> oe_EventType e = OrderCreatedEventType \<and>
     (\<exists>bytes. marshal (buildOrderCreatedPayload ord) = Inr bytes \<and> (bytes \<noteq> '''' \<longrightarrow> oe_Payload e = bytes))"

lemma same_event_order: "same_event x y \<Longrightarrow> order_event marshal ord x = order_event marshal ord y"
  by (simp add: same_event_def order_event_def)

definition has_row :: "stdlib \<Rightarrow> OutboxEvent \<Rightarrow> 'w st \<Rightarrow> bool" where
  "has_row L ev t \<longleftrightarrow> (\<exists>e \<in> set (st_outbox_events t). stream_values L e = stream_values L ev)"

definition trace_delivered ::
    "(OrderCreatedPayload \<Rightarrow> goerr + string) \<Rightarrow> stdlib \<Rightarrow> string \<Rightarrow> ('w \<Rightarrow> (string \<times> (string \<rightharpoonup> any)) set) \<Rightarrow>
     delivery_event \<Rightarrow> 'w st \<Rightarrow> bool" where
  "trace_delivered marshal L name stream x t \<longleftrightarrow>
     (case x of
        OrderPlaced req ord \<Rightarrow> \<exists>e \<in> set (st_outbox_events t). order_event marshal ord e
      | InHand ev \<Rightarrow> has_row L ev t
      | Sent ev \<Rightarrow> has_row L ev t \<and> (name, stream_values L ev) \<in> stream (st_world t))"

definition shop_ok :: "stdlib \<Rightarrow> string \<Rightarrow> ('w \<Rightarrow> (string \<times> (string \<rightharpoonup> any)) set) \<Rightarrow> 'w st \<Rightarrow> bool" where
  "shop_ok L name stream t \<longleftrightarrow> inventory_ok t \<and> orders_ok t \<and> stream_ok L name stream t \<and>
     map oe_AggregateID (st_outbox_events t) = map o_ID (st_orders t)"

definition delivery_ok ::
    "(OrderCreatedPayload \<Rightarrow> goerr + string) \<Rightarrow> stdlib \<Rightarrow> string \<Rightarrow> ('w \<Rightarrow> (string \<times> (string \<rightharpoonup> any)) set) \<Rightarrow>
     delivery_event list \<Rightarrow> 'w st \<Rightarrow> bool" where
  "delivery_ok marshal L name stream tr t \<longleftrightarrow>
     shop_ok L name stream t \<and> (\<forall>x \<in> set tr. trace_delivered marshal L name stream x t)"

text \<open>The steps that only touch the rows of events.\<close>

lemma delivery_ok_rows:
  assumes ok: "delivery_ok marshal L name stream tr t" and same: "others_same t t'"
    and rows: "st_outbox_events t' = map f (st_outbox_events t)" and f: "\<And>e. same_event (f e) e"
    and pub: "\<And>e. e \<in> set (st_outbox_events t) \<Longrightarrow> oe_Status (f e) = OutboxEventStatusPublished \<Longrightarrow>
        oe_Status e = OutboxEventStatusPublished \<or> (name, stream_values L e) \<in> stream (st_world t)"
    and grow: "grows stream t t'"
  shows "delivery_ok marshal L name stream tr t'"
proof -
  have ids: "oe_ID (f e) = oe_ID e" "oe_AggregateID (f e) = oe_AggregateID e" for e
    using f [of e] by (simp_all add: same_event_def)
  have shop: "inventory_ok t" "orders_ok t" "stream_ok L name stream t"
    "map oe_AggregateID (st_outbox_events t) = map o_ID (st_orders t)"
    and tr: "\<And>x. x \<in> set tr \<Longrightarrow> trace_delivered marshal L name stream x t"
    using ok by (simp_all add: delivery_ok_def shop_ok_def)
  have "inventory_ok t'" "orders_ok t'"
    using shop(1,2) same by (simp_all add: others_same_iff inventory_ok_def orders_ok_def)
  moreover have "map oe_AggregateID (st_outbox_events t') = map o_ID (st_orders t')"
    using shop(4) same by (simp add: rows ids others_same_iff comp_def)
  moreover have "stream_ok L name stream t'"
    unfolding stream_ok_def
  proof (intro conjI ballI impI)
    show "events_ok t'" using shop(3) by (simp add: stream_ok_def events_ok_def rows ids comp_def)
    fix e' assume e': "e' \<in> set (st_outbox_events t')" "oe_Status e' = OutboxEventStatusPublished"
    then obtain e where e: "e \<in> set (st_outbox_events t)" "e' = f e" by (auto simp: rows)
    have "(name, stream_values L e) \<in> stream (st_world t)"
      using pub [OF e(1)] e e' shop(3) by (auto simp: stream_ok_def)
    then show "(name, stream_values L e') \<in> stream (st_world t')"
      using grow same_event_values [OF f, of L e] by (auto simp: e(2) grows_def)
  qed
  moreover have "trace_delivered marshal L name stream x t'" if "x \<in> set tr" for x
    using tr [OF that] grow same_event_values [OF f] same_event_order [OF f]
    by (auto simp: trace_delivered_def has_row_def rows grows_def split: delivery_event.splits)
  ultimately show ?thesis by (simp add: delivery_ok_def shop_ok_def)
qed

lemma delivery_ok_same:
  assumes "delivery_ok marshal L name stream tr t" "same_tables t t'" "grows stream t t'"
  shows "delivery_ok marshal L name stream tr t'"
  by (rule delivery_ok_rows [OF assms(1) _ _ _ _ assms(3), where f = "\<lambda>e. e"])
    (use assms(2) in \<open>simp_all add: others_same_iff same_tables_iff\<close>)

lemma delivery_ok_changed:
  assumes ok: "delivery_ok marshal L name stream tr t" and ch: "event_changed f i t t'" and f: "\<And>e. same_event (f e) e"
    and pub: "\<And>e. e \<in> set (st_outbox_events t) \<Longrightarrow> oe_ID e = i \<Longrightarrow> oe_Status (f e) = OutboxEventStatusPublished \<Longrightarrow>
        (name, stream_values L e) \<in> stream (st_world t)"
    and grow: "grows stream t t'"
  shows "delivery_ok marshal L name stream tr t'"
proof (rule delivery_ok_rows [OF ok _ _ _ _ grow])
  show "others_same t t'" "st_outbox_events t' = map (\<lambda>e. if oe_ID e = i then f e else e) (st_outbox_events t)"
    using ch by (simp_all add: event_changed_def)
  show "same_event (if oe_ID e = i then f e else e) e" for e using f by simp
qed (use pub in \<open>auto split: if_splits\<close>)

section \<open>Every step keeps it\<close>

lemma keptG:
  assumes "\<And>x. keepsG (kept (\<lambda>_ v. x \<in> stream v) ev0) m" "m t = (r, t')"
  shows "grows stream t t'"
  using keepsGD [OF assms(1) assms(2)] by (auto simp: grows_def kept_def)

lemma worker_grows:
  assumes a: "appends stream E c" and w: "redis_worker L name E c w"
  shows "claimBatch w E t = (x, t') \<Longrightarrow> grows stream t t'"
    and "PublisherWorker_markPublished w E i t = (q, t') \<Longrightarrow> grows stream t t'"
    and "PublisherWorker_recordPublishFailure w E ev t = (q, t') \<Longrightarrow> grows stream t t'"
    and "pw_publisher w = Some publish \<Longrightarrow> publish ev t = (q, t') \<Longrightarrow> grows stream t t'"
    and "nowG w t = (y, t') \<Longrightarrow> grows stream t t'"
proof -
  from w obtain p cache where p: "pw_publisher w = Some (\<lambda>ev. RedisStreamPublisher_Publish L p (Some ev))"
      "sp_cache p = Some cache" "rd_cmd cache = Some c" and now: "pw_now w = env_now E"
    unfolding redis_worker_def by blast
  have d: "env_stays ((\<lambda>_ v. x \<in> stream v) ev0) E" "stays ((\<lambda>_ v. x \<in> stream v) ev0) (pw_now w)"
    "\<forall>key values. stays ((\<lambda>_ v. x \<in> stream v) ev0) (gr_XAdd c key values)" for x and ev0 :: OutboxEvent
  proof -
    have "quiet (\<lambda>v. x \<in> stream v) E c" using a unfolding appends_def by blast
    then show "env_stays ((\<lambda>_ v. x \<in> stream v) ev0) E" "stays ((\<lambda>_ v. x \<in> stream v) ev0) (pw_now w)"
      "\<forall>key values. stays ((\<lambda>_ v. x \<in> stream v) ev0) (gr_XAdd c key values)"
      by (simp_all add: quiet_def env_stays_def now)
  qed
  show "claimBatch w E t = (x, t') \<Longrightarrow> grows stream t t'"
    by (rule keptG [OF kept_claimBatch [OF d(1,2)]])
  show "PublisherWorker_markPublished w E i t = (q, t') \<Longrightarrow> grows stream t t'"
    by (rule keptG [OF kept_finalize(1) [OF d(1,2)]])
  show "PublisherWorker_recordPublishFailure w E ev t = (q, t') \<Longrightarrow> grows stream t t'"
    by (rule keptG [OF kept_finalize(2) [OF d(1,2)]])
  show "pw_publisher w = Some publish \<Longrightarrow> publish ev t = (q, t') \<Longrightarrow> grows stream t t'"
    using keptG [OF kept_redis_publish [OF p(2,3) d(3)], of L "Some ev" t q t'] p(1) by auto
  show "nowG w t = (y, t') \<Longrightarrow> grows stream t t'"
    unfolding nowG_def by (rule keptG [OF kept_askG [OF d(2)]])
qed

lemma keptG_not:
  assumes "\<And>v. keepsG (kept (\<lambda>_ w. (name, v) \<notin> stream w) ev0) m" "m t = (r, t')"
  shows "nothing_new name stream t t'"
  using keepsGD [OF assms(1) assms(2)] by (auto simp: nothing_new_def kept_def)

lemma worker_adds_nothing:
  assumes a: "appends stream E c" and w: "redis_worker L name E c w"
  shows "claimBatch w E t = (x, t') \<Longrightarrow> nothing_new name stream t t'"
    and "PublisherWorker_markPublished w E i t = (q, t') \<Longrightarrow> nothing_new name stream t t'"
    and "PublisherWorker_recordPublishFailure w E ev t = (q, t') \<Longrightarrow> nothing_new name stream t t'"
    and "nowG w t = (y, t') \<Longrightarrow> nothing_new name stream t t'"
proof -
  have now: "pw_now w = env_now E" using w by (simp add: redis_worker_def)
  have d: "env_stays ((\<lambda>_ w. (name, v) \<notin> stream w) ev0) E" "stays ((\<lambda>_ w. (name, v) \<notin> stream w) ev0) (pw_now w)"
    for v and ev0 :: OutboxEvent
  proof -
    have "env_keeps (\<lambda>w. (name, v) \<notin> stream w) E" using a unfolding appends_def by blast
    then show "env_stays ((\<lambda>_ w. (name, v) \<notin> stream w) ev0) E" "stays ((\<lambda>_ w. (name, v) \<notin> stream w) ev0) (pw_now w)"
      by (simp_all add: env_keeps_def env_stays_def now)
  qed
  show "claimBatch w E t = (x, t') \<Longrightarrow> nothing_new name stream t t'" by (rule keptG_not [OF kept_claimBatch [OF d]])
  show "PublisherWorker_markPublished w E i t = (q, t') \<Longrightarrow> nothing_new name stream t t'"
    by (rule keptG_not [OF kept_finalize(1) [OF d]])
  show "PublisherWorker_recordPublishFailure w E ev t = (q, t') \<Longrightarrow> nothing_new name stream t t'"
    by (rule keptG_not [OF kept_finalize(2) [OF d]])
  show "nowG w t = (y, t') \<Longrightarrow> nothing_new name stream t t'"
    unfolding nowG_def by (rule keptG_not [OF kept_askG [OF d(2)]])
qed

lemma redis_worker_adds:
  assumes a: "appends stream E c" and w: "redis_worker L name E c w"
    and run: "pw_publisher w = Some publish" "publish ev t = (q, t')" and v: "(name, v) \<in> stream (st_world t')"
  shows "(name, v) \<in> stream (st_world t) \<or> v = stream_values L ev"
proof -
  from w run(1) obtain p cache where publish: "publish = (\<lambda>ev. RedisStreamPublisher_Publish L p (Some ev))"
    and p: "sp_cache p = Some cache" "rd_cmd cache = Some c" "sp_streamName p = name"
    unfolding redis_worker_def by auto
  have "RedisStreamPublisher_Publish L p (Some ev) t = (q, t')" using run(2) by (simp add: publish)
  then have "t' = t \<or> (\<exists>x. redis_XAdd cache name (stream_values L ev) t = (x, t'))"
    using p(1) by (auto simp: RedisStreamPublisher_Publish_def Let_def throwG_def tryG_def retG_def p(3)
        split: if_splits prod.splits sum.splits)
  then have "t' = t \<or> (\<exists>x. gr_XAdd c name (stream_values L ev) (st_world t) = (x, st_world t'))"
    using p(2) by (auto simp: redis_XAdd_def commandG_def cmdG_def split: prod.splits)
  then show ?thesis
  proof
    assume "\<exists>x. gr_XAdd c name (stream_values L ev) (st_world t) = (x, st_world t')"
    with a have "stream (st_world t') \<subseteq> insert (name, stream_values L ev) (stream (st_world t))"
      unfolding appends_def by blast
    with v show ?thesis by blast
  qed (use v in simp)
qed

lemma redis_worker_sends:
  assumes a: "appends stream E c" and w: "redis_worker L name E c w"
    and run: "pw_publisher w = Some publish" "publish ev t = (q, t')"
  shows "same_tables t t'" and "q = Inr u \<Longrightarrow> (name, stream_values L ev) \<in> stream (st_world t')"
proof -
  from w run(1) obtain p cache where publish: "publish = (\<lambda>ev. RedisStreamPublisher_Publish L p (Some ev))"
    and p: "sp_cache p = Some cache" "rd_cmd cache = Some c" "sp_streamName p = name"
    unfolding redis_worker_def by auto
  have run': "RedisStreamPublisher_Publish L p (Some ev) t = (q, t')" using run(2) by (simp add: publish)
  from keepsGD [OF RedisStreamPublisher_frame this] show "same_tables t t'" by (simp add: world_only_iff)
  assume "q = Inr u"
  with run' p(1) obtain i where "redis_XAdd cache name (stream_values L ev) t = (Inr i, t')"
    by (auto simp: RedisStreamPublisher_Publish_def Let_def gom p(3) split: if_splits sum.splits)
  from redis_XAdd_Inr [OF p(2) this] a show "(name, stream_values L ev) \<in> stream (st_world t')"
    unfolding appends_def by blast
qed

lemma order_grows:
  assumes "appends stream E c"
  shows "UnitOfWork_WithinTransaction E marshal (placeOrderTx req) s = (r, t) \<Longrightarrow> grows stream s t"
    and "OrderService_CancelOrder (NewOrderService E marshal validate) i u s = (q, t) \<Longrightarrow> grows stream s t"
proof -
  have k: "env_keeps (\<lambda>v. x \<in> stream v) E" for x using assms unfolding appends_def by blast
  show "UnitOfWork_WithinTransaction E marshal (placeOrderTx req) s = (r, t) \<Longrightarrow> grows stream s t"
    unfolding grows_def using orders_keep(1) [OF k] by blast
  show "OrderService_CancelOrder (NewOrderService E marshal validate) i u s = (q, t) \<Longrightarrow> grows stream s t"
    unfolding grows_def using orders_keep(2) [OF k] by blast
qed

lemma order_adds_nothing:
  assumes "appends stream E c"
  shows "UnitOfWork_WithinTransaction E marshal (placeOrderTx req) s = (r, t) \<Longrightarrow> nothing_new name stream s t"
    and "OrderService_CancelOrder (NewOrderService E marshal validate) i u s = (q, t) \<Longrightarrow> nothing_new name stream s t"
proof -
  have k: "env_keeps (\<lambda>v. x \<notin> stream v) E" for x using assms unfolding appends_def by blast
  show "UnitOfWork_WithinTransaction E marshal (placeOrderTx req) s = (r, t) \<Longrightarrow> nothing_new name stream s t"
    unfolding nothing_new_def using orders_keep(1) [OF k] by blast
  show "OrderService_CancelOrder (NewOrderService E marshal validate) i u s = (q, t) \<Longrightarrow> nothing_new name stream s t"
    unfolding nothing_new_def using orders_keep(2) [OF k] by blast
qed

lemma delivery_ok_placed:
  assumes ok: "delivery_ok marshal L name stream tr t" and pl: "order_placed marshal req t ord t'"
    and inv: "inventory_ok t'" and grow: "grows stream t t'"
  shows "delivery_ok marshal L name stream (OrderPlaced req ord # tr) t'"
proof -
  have shop: "orders_ok t" "stream_ok L name stream t" "map oe_AggregateID (st_outbox_events t) = map o_ID (st_orders t)"
    and tr: "\<And>x. x \<in> set tr \<Longrightarrow> trace_delivered marshal L name stream x t"
    using ok by (simp_all add: delivery_ok_def shop_ok_def)
  from pl obtain e where e: "st_outbox_events t' = st_outbox_events t @ [e]" "oe_ID e \<notin> oe_ID ` set (st_outbox_events t)"
      "oe_Status e = OutboxEventStatusPending" "order_event marshal ord e" and os: "st_orders t' = st_orders t @ [order_row ord]"
    unfolding order_placed_def order_event_def by blast
  have "events_ok t'" using e(1,2) shop(2) by (auto simp: stream_ok_def events_ok_def)
  from stream_ok_pending [OF shop(2) this e(1,3)] grow have "stream_ok L name stream t'" by (auto simp: grows_def)
  moreover have "map oe_AggregateID (st_outbox_events t') = map o_ID (st_orders t')"
    using shop(3) e(1,4) os by (simp add: order_event_def order_row_def)
  moreover have "trace_delivered marshal L name stream x t'" if "x \<in> set tr" for x
    using tr [OF that] grow by (auto simp: trace_delivered_def has_row_def e(1) grows_def split: delivery_event.splits)
  moreover have "trace_delivered marshal L name stream (OrderPlaced req ord) t'"
    using e(1,4) by (auto simp: trace_delivered_def)
  ultimately show ?thesis using inv placed_orders_ok [OF shop(1) pl] by (simp add: delivery_ok_def shop_ok_def)
qed

lemma delivery_ok_cancelled:
  assumes ok: "delivery_ok marshal L name stream tr t" and cn: "order_cancelled i user t ord t'"
    and inv: "inventory_ok t'" and grow: "grows stream t t'"
  shows "delivery_ok marshal L name stream tr t'"
proof -
  have shop: "orders_ok t" "stream_ok L name stream t" "map oe_AggregateID (st_outbox_events t) = map o_ID (st_orders t)"
    and tr: "\<And>x. x \<in> set tr \<Longrightarrow> trace_delivered marshal L name stream x t"
    using ok by (simp_all add: delivery_ok_def shop_ok_def)
  from cn obtain now where os: "st_orders t' = map (\<lambda>r. if o_ID r = i
        then order_row (r\<lparr>o_Status := OrderStatusCancelled, o_UpdatedAt := now\<rparr>) else r) (st_orders t)"
    and es: "st_outbox_events t' = st_outbox_events t" by (auto simp: order_cancelled_def)
  have "map o_ID (st_orders t') = map o_ID (st_orders t)" by (simp add: os order_row_def)
  moreover have "stream_ok L name stream t'" using shop(2) es grow by (auto simp: stream_ok_def events_ok_def grows_def)
  moreover have "trace_delivered marshal L name stream x t'" if "x \<in> set tr" for x
    using tr [OF that] grow by (auto simp: trace_delivered_def has_row_def es grows_def split: delivery_event.splits)
  ultimately show ?thesis using inv cancelled_orders_ok [OF shop(1) cn] shop(3) es by (simp add: delivery_ok_def shop_ok_def)
qed

lemma delivery_ok_claimed:
  assumes ok: "delivery_ok marshal L name stream tr t" and run: "claimBatch w E t = (Inr (Inr events, n), t')"
    and grow: "grows stream t t'"
  shows "delivery_ok marshal L name stream (map InHand events @ tr) t'"
proof -
  have "events_ok t" using ok by (simp add: delivery_ok_def shop_ok_def stream_ok_def)
  from claimBatch_result [OF this run] obtain now "by" sel where ev: "events = map (claimed now by) sel"
    and sel: "set sel \<subseteq> set (st_outbox_events t)" and same: "others_same t t'"
    and rows: "st_outbox_events t' = map (\<lambda>e. if oe_ID e \<in> oe_ID ` set sel then claimed now by e else e) (st_outbox_events t)"
    by auto
  have "delivery_ok marshal L name stream tr t'"
  proof (rule delivery_ok_rows [OF ok same rows _ _ grow])
    show "same_event (if oe_ID e \<in> oe_ID ` set sel then claimed now by e else e) e" for e by simp
  qed (auto simp: claimed_def OutboxEventStatus_defs split: if_splits)
  moreover have "trace_delivered marshal L name stream (InHand x) t'" if "x \<in> set events" for x
  proof -
    from that ev obtain e where e: "e \<in> set sel" "x = claimed now by e" by auto
    with sel have "claimed now by e \<in> set (st_outbox_events t')" by (auto simp: rows image_iff intro!: bexI [of _ e])
    then have "has_row L x t'" unfolding has_row_def e(2) by (rule bexI [rotated]) simp
    then show ?thesis by (simp add: trace_delivered_def)
  qed
  ultimately show ?thesis by (auto simp: delivery_ok_def)
qed

lemma delivery_ok_marked:
  assumes ok: "delivery_ok marshal L name stream tr t" and ev: "Sent ev \<in> set tr"
    and run: "PublisherWorker_markPublished w E (oe_ID ev) t = (q, t')" and grow: "grows stream t t'"
  shows "delivery_ok marshal L name stream tr t'"
proof (cases q)
  case (Inl e)
  with run show ?thesis using delivery_ok_same [OF ok _ grow] finalize_Inl(1) by blast
next
  case (Inr u)
  have evs: "events_ok t" and sent: "trace_delivered marshal L name stream (Sent ev) t"
    using ok ev by (simp_all add: delivery_ok_def shop_ok_def stream_ok_def)
  from markPublished_Inr [OF evs run [unfolded Inr]] obtain tm where ch: "event_changed (published tm) (oe_ID ev) t t'" by blast
  from sent obtain x where x: "x \<in> set (st_outbox_events t)" "stream_values L x = stream_values L ev"
      "(name, stream_values L x) \<in> stream (st_world t)" by (auto simp: trace_delivered_def has_row_def)
  show ?thesis
  proof (rule delivery_ok_changed [OF ok ch _ _ grow])
    show "same_event (published tm e) e" for e by simp
    show "(name, stream_values L e) \<in> stream (st_world t)" if "e \<in> set (st_outbox_events t)" "oe_ID e = oe_ID ev" for e
    proof -
      have "e = x" using evs that x(1) stream_values_ids(1) [OF x(2)]
        by (intro distinct_key_unique [of oe_ID "st_outbox_events t"]) (simp_all add: events_ok_def)
      then show ?thesis using x(3) by simp
    qed
  qed
qed

lemma delivery_ok_returned:
  assumes ok: "delivery_ok marshal L name stream tr t" and w: "0 < pw_maxAttempts w"
    and run: "PublisherWorker_recordPublishFailure w E ev t = (q, t')" and grow: "grows stream t t'"
  shows "delivery_ok marshal L name stream tr t'"
proof (cases q)
  case (Inl e)
  with run show ?thesis using delivery_ok_same [OF ok _ grow] finalize_Inl(2) by blast
next
  case (Inr u)
  have "events_ok t" using ok by (simp add: delivery_ok_def shop_ok_def stream_ok_def)
  from recordPublishFailure_steps [OF this w run [unfolded Inr]] obtain tm
    where ch: "event_changed (failed_as (pw_maxAttempts w) ev tm) (oe_ID ev) t t'" by blast
  show ?thesis
  proof (rule delivery_ok_changed [OF ok ch _ _ grow])
    show "same_event (failed_as (pw_maxAttempts w) ev tm e) e" for e by simp
  qed (simp add: failed_as_def publish_failed_def dead_lettered_def OutboxEventStatus_defs split: if_splits)
qed

text \<open>The orders, whatever they answer.\<close>

lemma delivery_ok_place:
  assumes a: "appends stream E c" and ok: "delivery_ok marshal L name stream tr t"
  shows "UnitOfWork_WithinTransaction E marshal (placeOrderTx req) t = (Inr (ord, b), t') \<Longrightarrow>
      delivery_ok marshal L name stream (OrderPlaced req ord # tr) t'"
    and "UnitOfWork_WithinTransaction E marshal (placeOrderTx req) t = (Inl e, t') \<Longrightarrow>
      delivery_ok marshal L name stream tr t'"
proof -
  from ok have inv: "inventory_ok t" by (simp add: delivery_ok_def shop_ok_def)
  note grow = order_grows(1) [OF a, of marshal req t]
  show "delivery_ok marshal L name stream (OrderPlaced req ord # tr) t'"
    if run: "UnitOfWork_WithinTransaction E marshal (placeOrderTx req) t = (Inr (ord, b), t')"
    using PlaceOrder_transact_Inr [OF inv run] grow [OF run] by (blast intro: delivery_ok_placed [OF ok])
  show "delivery_ok marshal L name stream tr t'"
    if run: "UnitOfWork_WithinTransaction E marshal (placeOrderTx req) t = (Inl e, t')"
    using PlaceOrder_transact_Inl [OF inv run] by (intro delivery_ok_same [OF ok _ grow [OF run]]) (simp add: world_only_iff)
qed

lemma delivery_ok_cancel:
  assumes a: "appends stream E c" and ok: "delivery_ok marshal L name stream tr t"
    and run: "OrderService_CancelOrder (NewOrderService E marshal validate) i user t = (r, t')"
  shows "delivery_ok marshal L name stream tr t'"
proof -
  from ok have "inventory_ok t" "orders_ok t" by (simp_all add: delivery_ok_def shop_ok_def)
  note res = CancelOrder_result [OF this run] and grow = order_grows(2) [OF a run]
  show ?thesis
  proof (cases r)
    case (Inl e)
    with res have "same_tables t t'" by simp
    from delivery_ok_same [OF ok this grow] show ?thesis .
  next
    case (Inr ord)
    with res have "order_cancelled i user t ord t'" "inventory_ok t'" by simp_all
    from delivery_ok_cancelled [OF ok this grow] show ?thesis .
  qed
qed

lemma delivery_ok_claim_failed:
  assumes ok: "delivery_ok marshal L name stream tr t" and run: "claimBatch w E t = (Inr (Inl e, n), t')"
    and grow: "grows stream t t'"
  shows "delivery_ok marshal L name stream tr t'"
proof -
  have "events_ok t" using ok by (simp add: delivery_ok_def shop_ok_def stream_ok_def)
  from claimBatch_result [OF this run] have "same_tables t t'" by simp
  from delivery_ok_same [OF ok this grow] show ?thesis .
qed

lemma delivery_ok_sent:
  assumes a: "appends stream E c" and ok: "delivery_ok marshal L name stream tr t" and w: "redis_worker L name E c w"
    and run: "pw_publisher w = Some publish" "publish ev t = (q, t')"
  shows "delivery_ok marshal L name stream tr t'"
    and "q = Inr u \<Longrightarrow> InHand ev \<in> set tr \<Longrightarrow> delivery_ok marshal L name stream (Sent ev # tr) t'"
proof -
  show ok': "delivery_ok marshal L name stream tr t'"
    by (rule delivery_ok_same [OF ok redis_worker_sends(1) [OF a w run] worker_grows(4) [OF a w run]])
  assume "q = Inr u" "InHand ev \<in> set tr"
  then have "has_row L ev t'" using ok' by (auto simp: delivery_ok_def trace_delivered_def)
  with ok' redis_worker_sends(2) [OF a w run \<open>q = Inr u\<close>]
  show "delivery_ok marshal L name stream (Sent ev # tr) t'" by (simp add: delivery_ok_def trace_delivered_def)
qed

lemma delivery_run_ok:
  assumes run: "delivery_run L name E c marshal stream s tr t" and a: "appends stream E c" and s: "shop_ok L name stream s"
  shows "delivery_ok marshal L name stream tr t"
  using run
proof (induction rule: delivery_run.induct)
  case start
  then show ?case using s by (simp add: delivery_ok_def)
next
  case (claimed tr t w events n t')
  from delivery_ok_claimed [OF claimed.IH claimed.hyps(3)] worker_grows(1) [OF a claimed.hyps(2,3)] show ?case .
next
  case (claim_failed tr t w e n t')
  from delivery_ok_claim_failed [OF claim_failed.IH claim_failed.hyps(3)] worker_grows(1) [OF a claim_failed.hyps(2,3)]
  show ?case .
next
  case (marked tr t w ev q t')
  from delivery_ok_marked [OF marked.IH marked.hyps(3,4) worker_grows(2) [OF a marked.hyps(2,4)]] show ?case .
next
  case (returned tr t w ev q t')
  have "0 < pw_maxAttempts w" using returned.hyps(2) by (simp add: redis_worker_def)
  from delivery_ok_returned [OF returned.IH this returned.hyps(4) worker_grows(3) [OF a returned.hyps(2,4)]] show ?case .
qed (blast intro: delivery_ok_place [OF a] delivery_ok_cancel [OF a] delivery_ok_sent [OF a] delivery_ok_same)+

section \<open>Nothing else is in the stream\<close>

text \<open>Every entry was there at the start or is the one of an event in the outbox.\<close>

definition stream_sound :: "stdlib \<Rightarrow> string \<Rightarrow> ('w \<Rightarrow> (string \<times> (string \<rightharpoonup> any)) set) \<Rightarrow> 'w st \<Rightarrow> 'w st \<Rightarrow> bool" where
  "stream_sound L name stream s t \<longleftrightarrow>
     (\<forall>v. (name, v) \<in> stream (st_world t) \<longrightarrow> (name, v) \<in> stream (st_world s) \<or> v \<in> stream_values L ` set (st_outbox_events t))"

lemma has_row_iff: "has_row L ev t \<longleftrightarrow> stream_values L ev \<in> stream_values L ` set (st_outbox_events t)"
  by (auto simp: has_row_def image_iff eq_commute [of "stream_values L ev"])

text \<open>A step that keeps the invariant of any trace keeps the rows.\<close>

lemma stream_sound_step:
  assumes sound: "stream_sound L name stream s t" and ok: "delivery_ok marshal L name stream tr t"
    and step: "\<And>tr0. delivery_ok marshal L name stream (tr0 @ tr) t \<Longrightarrow> delivery_ok marshal L name stream (new @ tr0 @ tr) t'"
    and entries: "nothing_new name stream t t' \<or> (\<exists>ev. InHand ev \<in> set tr \<and>
      (\<forall>v. (name, v) \<in> stream (st_world t') \<longrightarrow> (name, v) \<in> stream (st_world t) \<or> v = stream_values L ev))"
  shows "stream_sound L name stream s t'"
  unfolding stream_sound_def
proof (intro allI impI)
  fix v assume v: "(name, v) \<in> stream (st_world t')"
  have keep: "stream_values L e \<in> stream_values L ` set (st_outbox_events t')" if e: "has_row L e t" for e
  proof -
    from e ok have "delivery_ok marshal L name stream ([InHand e] @ tr) t"
      by (simp add: delivery_ok_def trace_delivered_def)
    from step [OF this] show ?thesis by (simp add: delivery_ok_def trace_delivered_def has_row_iff)
  qed
  from entries v consider "(name, v) \<in> stream (st_world t)" | ev where "InHand ev \<in> set tr" "v = stream_values L ev"
    by (auto simp: nothing_new_def)
  then show "(name, v) \<in> stream (st_world s) \<or> v \<in> stream_values L ` set (st_outbox_events t')"
  proof cases
    case 1
    with sound consider "(name, v) \<in> stream (st_world s)" | e where "e \<in> set (st_outbox_events t)" "v = stream_values L e"
      unfolding stream_sound_def by blast
    then show ?thesis
    proof cases
      case (2 e)
      then have "has_row L e t" by (auto simp: has_row_def)
      from keep [OF this] 2 show ?thesis by simp
    qed simp
  next
    case (2 ev)
    then have "has_row L ev t" using ok by (auto simp: delivery_ok_def trace_delivered_def)
    from keep [OF this] 2 show ?thesis by simp
  qed
qed

lemma delivery_run_sound:
  assumes run: "delivery_run L name E c marshal stream s tr t" and a: "appends stream E c" and s: "shop_ok L name stream s"
  shows "stream_sound L name stream s t"
  using run
proof (induction rule: delivery_run.induct)
  case start
  then show ?case by (simp add: stream_sound_def)
next
  case (placed tr t req ord b t')
  show ?case
    by (rule stream_sound_step [OF placed.IH delivery_run_ok [OF placed.hyps(1) a s], of "[OrderPlaced req ord]"])
      (use delivery_ok_place(1) [OF a _ placed.hyps(2)] order_adds_nothing(1) [OF a placed.hyps(2)] in simp_all)
next
  case (place_failed tr t req e t')
  show ?case
    by (rule stream_sound_step [OF place_failed.IH delivery_run_ok [OF place_failed.hyps(1) a s], of "[]"])
      (use delivery_ok_place(2) [OF a _ place_failed.hyps(2)] order_adds_nothing(1) [OF a place_failed.hyps(2)] in simp_all)
next
  case (cancelled tr t validate i user r t')
  show ?case
    by (rule stream_sound_step [OF cancelled.IH delivery_run_ok [OF cancelled.hyps(1) a s], of "[]"])
      (use delivery_ok_cancel [OF a _ cancelled.hyps(2)] order_adds_nothing(2) [OF a cancelled.hyps(2)] in simp_all)
next
  case (claimed tr t w events n t')
  note c = claimed.hyps(2,3)
  show ?case
    by (rule stream_sound_step [OF claimed.IH delivery_run_ok [OF claimed.hyps(1) a s], of "map InHand events"])
      (use delivery_ok_claimed [OF _ c(2) worker_grows(1) [OF a c]] worker_adds_nothing(1) [OF a c] in simp_all)
next
  case (claim_failed tr t w e n t')
  note c = claim_failed.hyps(2,3)
  show ?case
    by (rule stream_sound_step [OF claim_failed.IH delivery_run_ok [OF claim_failed.hyps(1) a s], of "[]"])
      (use delivery_ok_claim_failed [OF _ c(2) worker_grows(1) [OF a c]] worker_adds_nothing(1) [OF a c] in simp_all)
next
  case (sent tr t w publish ev u t')
  show ?case
    by (rule stream_sound_step [OF sent.IH delivery_run_ok [OF sent.hyps(1) a s], of "[]"])
      (use delivery_ok_sent(1) [OF a _ sent.hyps(2,3,5)] redis_worker_adds [OF a sent.hyps(2,3,5)] sent.hyps(4) in auto)
next
  case (send_failed tr t w publish ev e t')
  show ?case
    by (rule stream_sound_step [OF send_failed.IH delivery_run_ok [OF send_failed.hyps(1) a s], of "[]"])
      (use delivery_ok_sent(1) [OF a _ send_failed.hyps(2,3,5)] redis_worker_adds [OF a send_failed.hyps(2,3,5)]
        send_failed.hyps(4) in auto)
next
  case (marked tr t w ev q t')
  note c = marked.hyps(2,4)
  show ?case
    by (rule stream_sound_step [OF marked.IH delivery_run_ok [OF marked.hyps(1) a s], of "[]"])
      (use delivery_ok_marked [OF _ _ c(2) worker_grows(2) [OF a c]] worker_adds_nothing(2) [OF a c] marked.hyps(3) in simp_all)
next
  case (returned tr t w ev q t')
  note c = returned.hyps(2,4)
  have "0 < pw_maxAttempts w" using c(1) by (simp add: redis_worker_def)
  then show ?case
    by (intro stream_sound_step [OF returned.IH delivery_run_ok [OF returned.hyps(1) a s], of "[]"])
      (use delivery_ok_returned [OF _ _ c(2) worker_grows(3) [OF a c]] worker_adds_nothing(3) [OF a c] in simp_all)
next
  case (others tr t t')
  show ?case
    by (rule stream_sound_step [OF others.IH delivery_run_ok [OF others.hyps(1) a s], of "[]"])
      (use delivery_ok_same [OF _ others.hyps(2,3)] others.hyps(4) in simp_all)
qed

section \<open>A run of the worker is a sequence of steps\<close>

text \<open>Steps after a trace that has \<open>X\<close>, which they extend.\<close>

definition steps ::
    "(delivery_event list \<Rightarrow> 'w st \<Rightarrow> bool) \<Rightarrow> delivery_event set \<Rightarrow> 'w st \<Rightarrow> 'w st \<Rightarrow> bool" where
  "steps run X s t \<longleftrightarrow> (\<forall>tr. run tr s \<and> X \<subseteq> set tr \<longrightarrow> (\<exists>tr'. run (tr' @ tr) t))"

lemma reflp_steps: "reflp (steps run X)"
  by (auto simp: reflp_def steps_def intro: exI [of _ "[]"])

lemma transp_steps: "transp (steps run X)"
proof (rule transpI)
  fix s u t assume su: "steps run X s u" and ut: "steps run X u t"
  show "steps run X s t"
    unfolding steps_def
  proof (intro allI impI)
    fix tr assume tr: "run tr s \<and> X \<subseteq> set tr"
    with su obtain tr1 where tr1: "run (tr1 @ tr) u" unfolding steps_def by blast
    with tr have "run (tr1 @ tr) u \<and> X \<subseteq> set (tr1 @ tr)" by auto
    with ut obtain tr2 where "run (tr2 @ tr1 @ tr) t" unfolding steps_def by blast
    then show "\<exists>tr'. run (tr' @ tr) t" by (intro exI [of _ "tr2 @ tr1"]) simp
  qed
qed

lemmas stepping = keepsG_bind [OF transp_steps] keepsG_try [OF transp_steps] keepsG_pure [OF reflp_steps]

text \<open>
  What the steps of one worker must keep of a predicate on traces and states: the contract between the
  code of the worker and whatever runs beside it.
\<close>

locale worker_steps =
  fixes run :: "delivery_event list \<Rightarrow> 'w st \<Rightarrow> bool" and E :: "'w env" and w :: "'w PublisherWorker"
    and publish :: "'w EventPublisher"
  assumes built: "run tr s \<Longrightarrow> pw_transactor w = Some E \<and> pw_publisher w = Some publish"
    and now: "run tr s \<Longrightarrow> nowG w s = (r, t) \<Longrightarrow> run tr t"
    and counted: "run tr s \<Longrightarrow> run tr (s\<lparr>st_metrics := reg\<rparr>)"
    and claimed: "run tr s \<Longrightarrow> claimBatch w E s = (Inr (Inr events, n), t) \<Longrightarrow> run (map InHand events @ tr) t"
    and claim_failed: "run tr s \<Longrightarrow> claimBatch w E s = (Inr (Inl e, n), t) \<Longrightarrow> run tr t"
    and sent: "run tr s \<Longrightarrow> InHand ev \<in> set tr \<Longrightarrow> publish ev s = (Inr u, t) \<Longrightarrow> run (Sent ev # tr) t"
    and send_failed: "run tr s \<Longrightarrow> InHand ev \<in> set tr \<Longrightarrow> publish ev s = (Inl e, t) \<Longrightarrow> run tr t"
    and marked: "run tr s \<Longrightarrow> Sent ev \<in> set tr \<Longrightarrow> PublisherWorker_markPublished w E (oe_ID ev) s = (q, t) \<Longrightarrow> run tr t"
    and returned: "run tr s \<Longrightarrow> InHand ev \<in> set tr \<Longrightarrow> PublisherWorker_recordPublishFailure w E ev s = (q, t) \<Longrightarrow> run tr t"
begin

lemma steps_step: "(\<And>tr s r t. run tr s \<Longrightarrow> X \<subseteq> set tr \<Longrightarrow> m s = (r, t) \<Longrightarrow> run tr t) \<Longrightarrow> keepsG (steps run X) m"
  by (rule keepsGI) (auto simp: steps_def intro!: exI [of _ "[]"])

lemma steps_now: "keepsG (steps run X) (nowG w)"
  by (rule steps_step) (rule now)

lemma steps_metric: "keepsG (steps run X) (metricG f)"
  by (rule steps_step) (auto simp: metricG_def counted)

lemma steps_failed: "keepsG (steps run {InHand e}) (PublisherWorker_recordPublishFailure w E e)"
  by (rule steps_step) (auto intro: returned)

lemma steps_marked: "keepsG (steps run {Sent e}) (PublisherWorker_markPublished w E (oe_ID e))"
  by (rule steps_step) (auto intro: marked)

lemma steps_publishFailed: "keepsG (steps run {InHand e}) (publishFailed w E t0 e res)"
  unfolding publishFailed_def Let_def
  by (auto intro!: stepping steps_now steps_metric steps_failed split: sum.splits)

lemma steps_publishDone: "keepsG (steps run {Sent e}) (publishDone w E t0 e res)"
  unfolding publishDone_def by (auto intro!: stepping steps_now steps_metric steps_marked split: sum.splits)

lemma steps_send:
  "keepsG (steps run {InHand e}) (tryG (publish e) (\<lambda>r. case r of
       Inl err \<Rightarrow> publishFailed w E t0 e res
     | Inr _ \<Rightarrow> publishDone w E t0 e res))"
proof (rule keepsGI)
  fix s r t
  assume m: "tryG (publish e) (\<lambda>r. case r of
       Inl err \<Rightarrow> publishFailed w E t0 e res
     | Inr _ \<Rightarrow> publishDone w E t0 e res) s = (r, t)"
  obtain q u where q: "publish e s = (q, u)" by fastforce
  show "steps run {InHand e} s t"
    unfolding steps_def
  proof (intro allI impI)
    fix tr assume tr: "run tr s \<and> {InHand e} \<subseteq> set tr"
    show "\<exists>tr'. run (tr' @ tr) t"
    proof (cases q)
      case (Inl err)
      with tr q have u: "run tr u" by (auto intro: send_failed)
      from m q Inl have "publishFailed w E t0 e res u = (r, t)" by (simp add: tryG_def)
      from keepsGD [OF steps_publishFailed this] u tr show ?thesis unfolding steps_def by blast
    next
      case (Inr x)
      with tr q have u: "run (Sent e # tr) u" by (auto intro: sent)
      from m q Inr have "publishDone w E t0 e res u = (r, t)" by (simp add: tryG_def)
      from keepsGD [OF steps_publishDone this] u obtain tr' where "run (tr' @ Sent e # tr) t"
        unfolding steps_def by force
      then show ?thesis by (intro exI [of _ "tr' @ [Sent e]"]) simp
    qed
  qed
qed

lemma steps_publishEvent: "keepsG (steps run {InHand e}) (publishEvent w E publish e res)"
  unfolding publishEvent_def by (intro stepping steps_now steps_metric steps_send)

lemma publishEvents_run:
  assumes "publishEvents w E publish events res s = (r, t)" "run tr s" "InHand ` set events \<subseteq> set tr"
  shows "\<exists>tr'. run (tr' @ tr) t"
  using assms
proof (induction events arbitrary: res s tr)
  case Nil
  then show ?case by (auto simp: retG_def intro: exI [of _ "[]"])
next
  case (Cons e events)
  obtain q u where q: "publishEvent w E publish e res s = (q, u)" by fastforce
  from keepsGD [OF steps_publishEvent q] Cons.prems(2,3) obtain tr1 where tr1: "run (tr1 @ tr) u"
    unfolding steps_def by auto
  consider "t = u" | res' where "publishEvents w E publish events res' u = (r, t)"
    using Cons.prems(1) q by (auto simp: bindG_def retG_def split: sum.splits prod.splits option.splits)
  then show ?case
  proof cases
    case 1
    with tr1 show ?thesis by blast
  next
    case 2
    have "InHand ` set events \<subseteq> set (tr1 @ tr)" using Cons.prems(3) by auto
    from Cons.IH [OF 2 tr1 this] obtain tr2 where "run (tr2 @ tr1 @ tr) t" by blast
    then show ?thesis by (intro exI [of _ "tr2 @ tr1"]) simp
  qed
qed

lemma RunOnce_run:
  assumes "PublisherWorker_RunOnce w s = (r, t)" "run tr s"
  shows "\<exists>tr'. run (tr' @ tr) t"
proof -
  have finish: "keepsG (steps run X) (finish w a b err)" for X a b err
    unfolding finish_def by (intro stepping steps_now)
  have w: "pw_transactor w = Some E" "pw_publisher w = Some publish" using built [OF assms(2)] by simp_all
  define after where "after a fetched q = (case q of
       Inl err \<Rightarrow> bindG (finish w a (no_batch\<lparr>pr_Fetched := fetched\<rparr>) (Some err)) (\<lambda>out.
         bindG (metricG (RecordOutboxClaimFailure ''claim_error'')) (\<lambda>_. retG out))
     | Inr events \<Rightarrow> bindG (nowG w) (\<lambda>_.
         bindG (publishEvents w E publish events (no_batch\<lparr>pr_Fetched := fetched\<rparr>)) (\<lambda>(result1, err). finish w a result1 err)))"
    for a :: time and fetched and q :: "goerr + OutboxEvent list"
  have once: "PublisherWorker_RunOnce w = bindG (nowG w) (\<lambda>a. bindG (claimBatch w E) (\<lambda>(q, fetched). after a fetched q))"
    unfolding PublisherWorker_RunOnce_def w option.case Let_def after_def ..
  obtain a s1 where a: "nowG w s = (Inr a, s1)" by (cases "nowG w s") (auto simp: nowG_def gom)
  obtain q fetched s2 where q: "claimBatch w E s1 = (Inr (q, fetched), s2)"
    by (cases "claimBatch w E s1") (auto simp: claimBatch_def Let_def split: prod.splits)
  have rest: "after a fetched q s2 = (r, t)" using assms(1) by (simp add: once bindG_def a q)
  from keepsGD [OF steps_now [of "{}"] a] assms(2) obtain tr1 where tr1: "run (tr1 @ tr) s1"
    unfolding steps_def by auto
  show ?thesis
  proof (cases q)
    case (Inl err)
    with tr1 q have u: "run (tr1 @ tr) s2" by (blast intro: claim_failed)
    have "keepsG (steps run {}) (after a fetched q)"
      unfolding after_def Inl sum.case by (intro stepping finish steps_metric)
    from keepsGD [OF this rest] u obtain tr2 where "run (tr2 @ tr1 @ tr) t" unfolding steps_def by auto
    then show ?thesis by (intro exI [of _ "tr2 @ tr1"]) simp
  next
    case (Inr events)
    let ?tr = "map InHand events @ tr1 @ tr"
    from tr1 q Inr have u: "run ?tr s2" by (blast intro: claimed)
    have "keepsG (steps run (InHand ` set events)) (publishEvents w E publish events res)" for res
      by (rule keepsGI) (auto simp: steps_def dest: publishEvents_run)
    then have "keepsG (steps run (InHand ` set events)) (after a fetched q)"
      unfolding after_def Inr sum.case by (auto intro!: stepping finish steps_now)
    from keepsGD [OF this rest] u obtain tr2 where "run (tr2 @ ?tr) t" unfolding steps_def by fastforce
    then show ?thesis by (intro exI [of _ "tr2 @ map InHand events @ tr1"]) simp
  qed
qed

end

text \<open>The workers of the server keep a run.\<close>

interpretation redis_worker: worker_steps
    "\<lambda>tr t. redis_worker L name E c w \<and> pw_publisher w = Some publish \<and> appends stream E c \<and>
      delivery_run L name E c marshal stream s0 tr t" E w publish
  for L name E c marshal and stream :: "'w \<Rightarrow> (string \<times> (string \<rightharpoonup> any)) set" and s0 w publish
proof (unfold_locales, goal_cases)
  case (1 tr s) then show ?case by (simp add: redis_worker_def)
next
  case (2 tr s r t)
  have "same_tables s t" using keepsGD [OF askG_frame(1) 2(2) [unfolded nowG_def]] by (simp add: world_only_iff)
  with 2 worker_grows(5) worker_adds_nothing(4) show ?case by (blast intro: delivery_run.others)
next
  case (3 tr s reg)
  have "same_tables s (s\<lparr>st_metrics := reg\<rparr>)" "grows stream s (s\<lparr>st_metrics := reg\<rparr>)"
    "nothing_new name stream s (s\<lparr>st_metrics := reg\<rparr>)"
    by (simp_all add: same_tables_iff grows_def nothing_new_def)
  with 3 show ?case by (blast intro: delivery_run.others)
qed (blast intro: delivery_run.claimed delivery_run.claim_failed delivery_run.sent delivery_run.send_failed
      delivery_run.marked delivery_run.returned)+

section \<open>Properties\<close>

text \<open>
  C10: a run of the publisher worker is a sequence of single steps, the claim, then for each event a call
  to Redis and the transaction that finalizes it, so it may be interleaved with orders and with other workers
  as in \<open>delivery_run\<close>: from any reachable state \<open>RunOnce\<close> only reaches reachable states,
  and the trace goes on.
\<close>

theorem run_once_refines_steps:
  assumes "delivery_run L name E c marshal stream s tr t" "appends stream E c" "redis_worker L name E c w"
    and "PublisherWorker_RunOnce w t = (r, t')"
  shows "\<exists>tr'. delivery_run L name E c marshal stream s (tr' @ tr) t'"
proof -
  from assms(3) obtain publish where "pw_publisher w = Some publish" unfolding redis_worker_def by blast
  with redis_worker.RunOnce_run [OF assms(4), of L name E c publish stream marshal s tr] assms show ?thesis by blast
qed

text \<open>
  C9: an order and its event are one. Whatever order requests and publisher workers run, one
  transaction or one call to Redis at a time, and whatever fails: the outbox has exactly one event per
  order; the event of every order that was placed is there with the payload of the order, and if it is marked
  as published its entry is in the stream; every event that was sent has its entry in the stream; and the
  stream has gained no entry but those of events whose order exists, so nothing is announced for an order
  that was rolled back.
\<close>

theorem every_order_delivered:
  assumes "delivery_run L name E c marshal stream s tr t" "appends stream E c" "shop_ok L name stream s"
  shows "map oe_AggregateID (st_outbox_events t) = map o_ID (st_orders t) \<and> distinct (map o_ID (st_orders t)) \<and>
    (\<forall>req ord. OrderPlaced req ord \<in> set tr \<longrightarrow>
       (\<exists>e \<in> set (st_outbox_events t). order_event marshal ord e \<and>
          (oe_Status e = OutboxEventStatusPublished \<longrightarrow> (name, stream_values L e) \<in> stream (st_world t)))) \<and>
    (\<forall>ev. Sent ev \<in> set tr \<longrightarrow> (name, stream_values L ev) \<in> stream (st_world t)) \<and>
    (\<forall>v. (name, v) \<in> stream (st_world t) - stream (st_world s) \<longrightarrow>
       (\<exists>e \<in> set (st_outbox_events t). v = stream_values L e \<and> oe_AggregateID e \<in> o_ID ` set (st_orders t)))"
proof -
  note ok = delivery_run_ok [OF assms]
  then have ids: "map oe_AggregateID (st_outbox_events t) = map o_ID (st_orders t)" "distinct (map o_ID (st_orders t))"
    and st: "stream_ok L name stream t" by (simp_all add: delivery_ok_def shop_ok_def orders_ok_def)
  have "\<exists>e \<in> set (st_outbox_events t). order_event marshal ord e \<and>
      (oe_Status e = OutboxEventStatusPublished \<longrightarrow> (name, stream_values L e) \<in> stream (st_world t))"
    if "OrderPlaced req ord \<in> set tr" for req ord
  proof -
    from ok that have "trace_delivered marshal L name stream (OrderPlaced req ord) t" unfolding delivery_ok_def by blast
    then obtain e where "e \<in> set (st_outbox_events t)" "order_event marshal ord e" by (auto simp: trace_delivered_def)
    with st show ?thesis by (intro bexI [of _ e]) (simp_all add: stream_ok_def)
  qed
  moreover have "(name, stream_values L ev) \<in> stream (st_world t)" if "Sent ev \<in> set tr" for ev
    using ok that by (auto simp: delivery_ok_def trace_delivered_def)
  moreover have "\<exists>e \<in> set (st_outbox_events t). v = stream_values L e \<and> oe_AggregateID e \<in> o_ID ` set (st_orders t)"
    if new: "(name, v) \<in> stream (st_world t) - stream (st_world s)" for v
  proof -
    from new delivery_run_sound [OF assms] obtain e where e: "e \<in> set (st_outbox_events t)" "v = stream_values L e"
      by (auto simp: stream_sound_def)
    have "oe_AggregateID e \<in> o_ID ` set (st_orders t)"
      using imageI [OF e(1), of oe_AggregateID] arg_cong [OF ids(1), of set] by simp
    with e show ?thesis by blast
  qed
  ultimately show ?thesis using ids by blast
qed

section \<open>A concrete delivery\<close>

text \<open>The outside world is the list of the entries, and the shop has one product on stock.\<close>

definition log_shop :: "demo_log st" where
  "log_shop = demo_outbox\<lparr>st_outbox_events := [], st_products := [demo_product],
     st_inventories := [(new_inventory ''p1'' 10)\<lparr>inv_ID := ''i1''\<rparr>]\<rparr>"

definition log_uow :: "demo_log UnitOfWork" where
  "log_uow = transactionalUnitOfWork demo_env (\<lambda>_. Inr ''{}'')"

definition log_sold :: "demo_log st" where
  "log_sold = snd (forG [(''p1'', 4)] (\<lambda>(p, q). in_ConsumeStock (uow_Inventory log_uow) p q) log_shop)"

definition log_created :: "(goerr + Order) \<times> demo_log st" where
  "log_created = rp_CreateOrder (uow_Orders log_uow) demo_order demo_lines log_sold"

definition log_answer :: Order where
  "log_answer = with_demo_product (projr (fst log_created))"

definition log_pending :: "(goerr + OutboxEvent) \<times> demo_log st" where
  "log_pending = the (uow_Outbox log_uow) orderAggregateType (o_ID log_answer) OrderCreatedEventType
     (buildOrderCreatedPayload log_answer) (snd log_created)"

lemma log_placed:
  "UnitOfWork_WithinTransaction demo_env (\<lambda>_. Inr ''{}'') (placeOrderTx demo_request) log_shop =
     (Inr (log_answer, True), snd log_pending)"
proof -
  have "fst (forG [(''p1'', 4)] (\<lambda>(p, q). in_ConsumeStock (uow_Inventory log_uow) p q) log_shop) = Inr ()"
    by code_simp
  then have consumed: "forG [(''p1'', 4)] (\<lambda>(p, q). in_ConsumeStock (uow_Inventory log_uow) p q) log_shop = (Inr (), log_sold)"
    by (simp add: log_sold_def prod_eq_iff)
  have "\<not> isl (fst log_created)" by code_simp
  then have created: "rp_CreateOrder (uow_Orders log_uow) demo_order demo_lines log_sold =
      (Inr (projr (fst log_created)), snd log_created)"
    by (simp add: log_created_def prod_eq_iff sum.expand)
  have "\<not> isl (fst log_pending)" by code_simp
  moreover have "o_ID log_answer = o_ID (projr (fst log_created))" by (simp add: log_answer_def with_demo_product_def)
  ultimately have event: "the (uow_Outbox log_uow) orderAggregateType (o_ID (projr (fst log_created))) OrderCreatedEventType
      (buildOrderCreatedPayload (with_demo_product (projr (fst log_created)))) (snd log_created) =
      (Inr (projr (fst log_pending)), snd log_pending)"
    by (simp add: log_pending_def prod_eq_iff flip: log_answer_def)
  have product: "FindById demo_env (products_table demo_env) ''p1'' log_shop = (Inr demo_product, log_shop)"
    by (simp add: FindById_def stmtG_def askG_def queryG_def demo_env_def bindG_def first_def products_table_def
        log_shop_def demo_outbox_def demo_product_def)
  show ?thesis
    unfolding log_answer_def
    by (rule demo_places [OF product consumed [unfolded log_uow_def] created [unfolded log_uow_def] event [unfolded log_uow_def]])
      (simp add: stmtG_def bindG_def askG_def demo_env_def retG_def)
qed

definition demo_sender :: "demo_log EventPublisher" where
  "demo_sender ev = RedisStreamPublisher_Publish demo_lib
     (NewRedisStreamPublisher (Some \<lparr>rd_cmd = Some demo_client, rd_client = Some demo_client\<rparr>) ''stream:orders'') (Some ev)"

definition demo_order_worker :: "demo_log PublisherWorker" where
  "demo_order_worker = NewPublisherWorker demo_env (Inr ''host'') (Some demo_env) (Some demo_sender) []"

definition demo_claim :: "(goerr + (goerr + OutboxEvent list) \<times> int64) \<times> demo_log st" where
  "demo_claim = claimBatch demo_order_worker demo_env (snd log_pending)"

definition demo_in_hand :: OutboxEvent where
  "demo_in_hand = hd (projr (fst (projr (fst demo_claim))))"

definition demo_sent :: "(goerr + unit) \<times> demo_log st" where
  "demo_sent = demo_sender demo_in_hand (snd demo_claim)"

definition demo_marked :: "demo_log st" where
  "demo_marked = snd (PublisherWorker_markPublished demo_order_worker demo_env (oe_ID demo_in_hand) (snd demo_sent))"

lemma demo_claimed:
  "claimBatch demo_order_worker demo_env (snd log_pending) = (Inr (Inr [demo_in_hand], 1), snd demo_claim)"
proof -
  have "\<not> isl (fst demo_claim)" "\<not> isl (fst (projr (fst demo_claim)))" "snd (projr (fst demo_claim)) = 1"
    "length (projr (fst (projr (fst demo_claim)))) = 1" by code_simp+
  note c = this
  from c(4) have "projr (fst (projr (fst demo_claim))) = [demo_in_hand]"
    by (auto simp: demo_in_hand_def length_Suc_conv)
  with c(2) have "fst (projr (fst demo_claim)) = Inr [demo_in_hand]" by (metis sum.collapse(2))
  with c(3) have "projr (fst demo_claim) = (Inr [demo_in_hand], 1)" by (simp add: prod_eq_iff)
  with c(1) have "fst demo_claim = Inr (Inr [demo_in_hand], 1)" by (metis sum.collapse(2))
  then show ?thesis by (simp add: prod_eq_iff demo_claim_def)
qed

lemma demo_order_worker_ok: "redis_worker demo_lib ''stream:orders'' demo_env demo_client demo_order_worker"
  by (auto simp: redis_worker_def demo_order_worker_def NewPublisherWorker_def defaultPublisherMaxAttempts_def
      demo_sender_def [abs_def] NewRedisStreamPublisher_def)

lemma demo_appends: "appends set demo_env demo_client"
  by (auto simp: appends_def quiet_def env_keeps_def env_stays_def stays_def demo_client_def demo_env_def)

lemma log_shop_start: "shop_ok demo_lib ''stream:orders'' set log_shop"
  by (simp add: shop_ok_def inventory_ok_def orders_ok_def stream_ok_def events_ok_def log_shop_def demo_outbox_def
      new_inventory_def max_i64_def)

abbreviation demo_delivery_trace :: "delivery_event list" where
  "demo_delivery_trace \<equiv> [Sent demo_in_hand, InHand demo_in_hand, OrderPlaced demo_request log_answer]"

lemma demo_delivery: "delivery_run demo_lib ''stream:orders'' demo_env demo_client (\<lambda>_. Inr ''{}'') set log_shop
    demo_delivery_trace demo_marked"
proof -
  let ?run = "delivery_run demo_lib ''stream:orders'' demo_env demo_client (\<lambda>_. Inr ''{}'') set log_shop"
  from delivery_run.placed [OF delivery_run.start log_placed]
  have "?run [OrderPlaced demo_request log_answer] (snd log_pending)" .
  from delivery_run.claimed [OF this demo_order_worker_ok demo_claimed]
  have r: "?run [InHand demo_in_hand, OrderPlaced demo_request log_answer] (snd demo_claim)" by simp
  have "\<not> isl (fst demo_sent)" by code_simp
  then have "demo_sender demo_in_hand (snd demo_claim) = (Inr (), snd demo_sent)"
    by (cases "fst demo_sent") (simp_all add: demo_sent_def prod_eq_iff)
  note s = this
  have "pw_publisher demo_order_worker = Some demo_sender" by (simp add: demo_order_worker_def NewPublisherWorker_def)
  from delivery_run.sent [OF r demo_order_worker_ok this _ s] have "?run demo_delivery_trace (snd demo_sent)" by simp
  from delivery_run.marked [OF this demo_order_worker_ok, of demo_in_hand] show ?thesis
    by (simp add: demo_marked_def prod_eq_iff)
qed

theorem every_order_delivered_witness:
  "map oe_AggregateID (st_outbox_events demo_marked) = map o_ID (st_orders demo_marked) \<and>
   (\<exists>e \<in> set (st_outbox_events demo_marked). order_event (\<lambda>_. Inr ''{}'') log_answer e \<and>
      (''stream:orders'', stream_values demo_lib e) \<in> set (st_world demo_marked)) \<and>
   (''stream:orders'', stream_values demo_lib demo_in_hand) \<in> set (st_world demo_marked) \<and>
   (\<exists>e \<in> set (st_outbox_events demo_marked). stream_values demo_lib demo_in_hand = stream_values demo_lib e \<and>
      oe_AggregateID e \<in> o_ID ` set (st_orders demo_marked))"
proof -
  have "map oe_Status (st_outbox_events demo_marked) = [OutboxEventStatusPublished]" by code_simp
  then have published: "oe_Status e = OutboxEventStatusPublished" if "e \<in> set (st_outbox_events demo_marked)" for e
    using that by auto
  have empty: "st_world log_shop = []" by (simp add: log_shop_def demo_outbox_def)
  note delivered = every_order_delivered [OF demo_delivery demo_appends log_shop_start]
  then have sent: "(''stream:orders'', stream_values demo_lib demo_in_hand) \<in> set (st_world demo_marked)" by simp
  with delivered published empty show ?thesis by fastforce
qed

theorem run_once_refines_steps_witness:
  "\<exists>tr'. delivery_run demo_lib ''stream:orders'' demo_env demo_client (\<lambda>_. Inr ''{}'') set log_shop
     (tr' @ demo_delivery_trace) (snd (PublisherWorker_RunOnce demo_order_worker demo_marked))"
  by (rule run_once_refines_steps [OF demo_delivery demo_appends demo_order_worker_ok
        surjective_pairing])

end
