(* ===== verification/StockRun.thy ===== *)
theory StockRun
  imports Inventory
begin

text \<open>
  Runs of the operations of \<open>internal/inventory/service\<close>, by any number of clients, in any order. Every
  operation but \<open>SetStock\<close> changes the stock in one statement. \<open>SetStock\<close> reads a row, or creates it, and saves it
  later: \<open>stock_run\<close> takes these statements apart, so other calls come between them, and \<open>SetStock_is_steps\<close>
  shows that the operation is a sequence of such steps.
\<close>

section \<open>No operation takes a row away\<close>

definition keeps_rows :: "'w st \<Rightarrow> 'w st \<Rightarrow> bool" where
  "keeps_rows s t \<longleftrightarrow> inv_keys s \<subseteq> inv_keys t"

lemma keeps_rows_po [simp]: "reflp keeps_rows" "transp keeps_rows"
  by (auto simp: reflp_def transp_def keeps_rows_def)

lemma keeps_rows_world: "world_only s t \<Longrightarrow> keeps_rows s t"
  by (simp add: keeps_rows_def inv_keys_def world_only_iff same_tables_iff)

lemma world_keeps_rows: "keepsG world_only m \<Longrightarrow> keepsG keeps_rows m"
  by (auto simp: keepsG_def intro: keeps_rows_world)

lemmas keeping_rows = keepsG_if keepsG_case_option keepsG_case_sum keepsG_case_prod
  keepsG_bind [OF keeps_rows_po(2)] keepsG_try [OF keeps_rows_po(2)] keepsG_pure [OF keeps_rows_po(1)]

lemma updateG_keeps_rows:
  assumes f: "\<And>x. inv_key (f x) = inv_key x"
  shows "keepsG keeps_rows (updateG (inventories_table E) p (\<lambda>x. set_quantity d (f x)))"
proof (rule keepsGI)
  fix s r t assume run: "updateG (inventories_table E) p (\<lambda>x. set_quantity d (f x)) s = (r, t)"
  show "keeps_rows s t"
  proof (cases r)
    case (Inl e)
    with run show ?thesis by (auto simp: keeps_rows_def dest: updateG_Inl)
  next
    case (Inr upd)
    with run obtain rows where t: "t = s\<lparr>st_inventories := rows\<rparr>"
      and u: "list_all2 (updated_row (inventories_table E) p (\<lambda>x. set_quantity d (f x))) (st_inventories s) rows"
      by (auto elim!: updateG_Inr)
    have "list_all2 (\<lambda>x y. inv_key x = inv_key y) (st_inventories s) rows"
      using u by (rule list_all2_mono)
        (auto simp: updated_row_def set_quantity_def map_sum_def f split: if_splits sum.splits)
    then have "map inv_key (st_inventories s) = map inv_key rows" by (induction rule: list_all2_induct) simp_all
    from arg_cong [OF this, of set] show ?thesis by (simp add: keeps_rows_def inv_keys_def t)
  qed
qed

lemma insertG_keeps_rows: "keepsG keeps_rows (insertG (inventories_table E) r)"
  by (rule keepsGI) (auto simp: insertG_def keeps_rows_def inv_keys_def split: option.splits)

lemma upsertG_keeps_rows:
  assumes f: "\<And>x. inv_key (f x) = inv_key x"
  shows "keepsG keeps_rows (upsertG (inventories_table E) c (\<lambda>x. set_quantity d (f x)) r)"
proof -
  have "keepsG keeps_rows (bindG (insertG (inventories_table E) r) (\<lambda>_. retG [tb_stored (inventories_table E) r]))"
    by (intro keeping_rows insertG_keeps_rows)
  then have i: "keeps_rows s (snd (bindG (insertG (inventories_table E) r) (\<lambda>_. retG [tb_stored (inventories_table E) r]) s))" for s
    by (auto simp: keepsG_def)
  have u: "keeps_rows s (snd (updateG (inventories_table E) p (\<lambda>x. set_quantity d (f x)) s))" for s p
    using updateG_keeps_rows [of f E p d] f by (auto simp: keepsG_def)
  show ?thesis
    unfolding keepsG_def upsertG_def using i u reflpD [OF keeps_rows_po(1)] by (auto split: option.splits)
qed

lemma stmtG_keeps_rows: "keepsG keeps_rows m \<Longrightarrow> keepsG keeps_rows (stmtG E m)"
proof -
  have "keepsG keeps_rows (askG (env_fault E))" by (rule world_keeps_rows) simp
  then show "keepsG keeps_rows m \<Longrightarrow> keepsG keeps_rows (stmtG E m)" unfolding stmtG_def by (intro keeping_rows)
qed

lemma repository_keeps_rows:
  "keepsG keeps_rows (InventoryRepo_ConsumeStock E p q)" "keepsG keeps_rows (InventoryRepo_Restock E p q)"
  "keepsG keeps_rows (InventoryRepo_AdjustStock E p d)" "keepsG keeps_rows (InventoryRepo_Create E i)"
proof -
  have c: "keepsG keeps_rows (created_inventory E i)" for i by (rule world_keeps_rows) simp
  have a: "keepsG keeps_rows (askG (env_now E))" by (rule world_keeps_rows) simp
  show "keepsG keeps_rows (InventoryRepo_ConsumeStock E p q)"
    unfolding InventoryRepo_ConsumeStock_def
    by (intro keeping_rows stmtG_keeps_rows updateG_keeps_rows [where f = "\<lambda>x. x"] refl)
  show "keepsG keeps_rows (InventoryRepo_Restock E p q)"
    unfolding InventoryRepo_Restock_def
    by (intro keeping_rows c stmtG_keeps_rows upsertG_keeps_rows [where f = "\<lambda>x. x"] refl)
  show "keepsG keeps_rows (InventoryRepo_AdjustStock E p d)"
    unfolding InventoryRepo_AdjustStock_def
    by (intro keeping_rows c a stmtG_keeps_rows upsertG_keeps_rows updateG_keeps_rows) simp_all
  have h: "keepsG keeps_rows (Inventory_BeforeCreate E i)" by (rule world_keeps_rows) simp
  show "keepsG keeps_rows (InventoryRepo_Create E i)"
    unfolding InventoryRepo_Create_def Create_def Let_def
    by (simp, intro keeping_rows h a stmtG_keeps_rows insertG_keeps_rows)
qed

lemma service_keeps_rows:
  "keepsG keeps_rows (InventoryService_ConsumeStock (NewInventoryRepository E) p q)"
  "keepsG keeps_rows (InventoryService_Restock (NewInventoryRepository E) p q)"
  "keepsG keeps_rows (InventoryService_AdjustStock validate (NewInventoryRepository E) p req)"
proof -
  have g: "keepsG keeps_rows (getInventory (NewInventoryRepository E) p)"
    by (rule world_keeps_rows) (rule inventory_repo.getInventory_frame)
  note sel = NewInventoryRepository_def [THEN arg_cong [of _ _ ir_ConsumeStock]] NewInventoryRepository_def [THEN arg_cong [of _ _ ir_Restock]]
    NewInventoryRepository_def [THEN arg_cong [of _ _ ir_AdjustStock]]
  show "keepsG keeps_rows (InventoryService_ConsumeStock (NewInventoryRepository E) p q)"
    "keepsG keeps_rows (InventoryService_Restock (NewInventoryRepository E) p q)"
    "keepsG keeps_rows (InventoryService_AdjustStock validate (NewInventoryRepository E) p req)"
    unfolding InventoryService_ConsumeStock_def InventoryService_Restock_def InventoryService_AdjustStock_def sel
    by (auto intro!: keeping_rows g repository_keeps_rows)
qed

section \<open>Runs\<close>

text \<open>
  What the trace remembers: a change of the stock of a product, a new quantity, and a row that a
  \<open>SetStock\<close> has in hand.
\<close>

datatype stock_event = Changed string int64 | Replaced string int64 | Loaded Inventory

inductive stock_run :: "'w env \<Rightarrow> 'w st \<Rightarrow> stock_event list \<Rightarrow> 'w st \<Rightarrow> bool" for E s where
  start: "stock_run E s [] s"
| consume: "stock_run E s tr t \<Longrightarrow>
    InventoryService_ConsumeStock (NewInventoryRepository E) p q t = (Inr u, t') \<Longrightarrow>
    stock_run E s (Changed p (- q) # tr) t'"
| consume_failed: "stock_run E s tr t \<Longrightarrow>
    InventoryService_ConsumeStock (NewInventoryRepository E) p q t = (Inl e, t') \<Longrightarrow> stock_run E s tr t'"
| restock: "stock_run E s tr t \<Longrightarrow> q \<le> max_i64 \<Longrightarrow>
    InventoryService_Restock (NewInventoryRepository E) p q t = (Inr u, t') \<Longrightarrow>
    stock_run E s (Changed p q # tr) t'"
| restock_failed: "stock_run E s tr t \<Longrightarrow>
    InventoryService_Restock (NewInventoryRepository E) p q t = (Inl e, t') \<Longrightarrow> stock_run E s tr t'"
| adjust: "stock_run E s tr t \<Longrightarrow> ai_QuantityDelta req \<le> max_i64 \<Longrightarrow>
    InventoryService_AdjustStock validate (NewInventoryRepository E) p req t = (Inr i, t') \<Longrightarrow>
    stock_run E s (Changed p (ai_QuantityDelta req) # tr) t'"
| adjust_failed: "stock_run E s tr t \<Longrightarrow> ai_QuantityDelta req \<le> max_i64 \<Longrightarrow>
    InventoryService_AdjustStock validate (NewInventoryRepository E) p req t = (Inl e, t') \<Longrightarrow>
    stock_run E s tr t'"
| found: "stock_run E s tr t \<Longrightarrow> ir_GetByProductID (NewInventoryRepository E) p t = (Inr i, t') \<Longrightarrow>
    stock_run E s (Loaded i # tr) t'"
| not_found: "stock_run E s tr t \<Longrightarrow> ir_GetByProductID (NewInventoryRepository E) p t = (Inl e, t') \<Longrightarrow>
    stock_run E s tr t'"
| created: "stock_run E s tr t \<Longrightarrow> ir_Create (NewInventoryRepository E) (new_inventory p 0) t = (Inr i, t') \<Longrightarrow>
    stock_run E s (Loaded i # tr) t'"
| create_failed: "stock_run E s tr t \<Longrightarrow> ir_Create (NewInventoryRepository E) (new_inventory p 0) t = (Inl e, t') \<Longrightarrow>
    stock_run E s tr t'"
| saved: "stock_run E s tr t \<Longrightarrow> Loaded i \<in> set tr \<Longrightarrow> q \<le> max_i64 \<Longrightarrow>
    ir_Update (NewInventoryRepository E) (i\<lparr>inv_Quantity := q\<rparr>) t = (Inr j, t') \<Longrightarrow>
    stock_run E s (Replaced (inv_ProductID i) q # tr) t'"
| save_failed: "stock_run E s tr t \<Longrightarrow> Loaded i \<in> set tr \<Longrightarrow>
    ir_Update (NewInventoryRepository E) (i\<lparr>inv_Quantity := q\<rparr>) t = (Inl e, t') \<Longrightarrow>
    stock_run E s tr t'"
| world: "stock_run E s tr t \<Longrightarrow> stock_run E s tr (t\<lparr>st_world := w\<rparr>)"

text \<open>The stock of a product by the trace, which has the last event first.\<close>

fun replay :: "string \<Rightarrow> int64 \<Rightarrow> stock_event list \<Rightarrow> int64" where
  "replay p n [] = n"
| "replay p n (Changed k d # tr) = (if k = p then d else 0) + replay p n tr"
| "replay p n (Replaced k q # tr) = (if k = p then q else replay p n tr)"
| "replay p n (Loaded i # tr) = replay p n tr"

definition stock_inv :: "'w st \<Rightarrow> stock_event list \<Rightarrow> 'w st \<Rightarrow> bool" where
  "stock_inv s tr t \<longleftrightarrow> inventory_ok t \<and> inventory_only s t \<and> (\<forall>p. stock0 t p = replay p (stock0 s p) tr) \<and>
     (\<forall>i. Loaded i \<in> set tr \<longrightarrow> inv_key i \<in> inv_keys t)"

lemma stock_inv_added:
  assumes ok: "stock_inv s tr t" and add: "stock_added t t' p d" and rows: "keeps_rows t t'"
  shows "stock_inv s (Changed p d # tr) t'"
proof -
  have "stock0 t' q = (if q = p then d else 0) + stock0 t q" for q using add by (simp add: stock_added_def stock0_def)
  moreover have "inventory_only s t'"
    using ok add inventory_only_trans [of s t t'] by (simp add: stock_inv_def stock_added_def)
  ultimately show ?thesis using ok add rows by (auto simp: stock_inv_def stock_added_def keeps_rows_def)
qed

lemma stock_inv_same:
  assumes ok: "stock_inv s tr t" and w: "world_only t t'"
  shows "stock_inv s tr t'"
  using ok keeps_rows_world [OF w] world_only_stock [OF w] inventory_only_trans [OF _ world_only_inventory [OF w], of s]
  by (auto simp: stock_inv_def stock0_def keeps_rows_def)

lemma stock_inv_loaded:
  assumes "stock_inv s tr t" "inv_key i \<in> inv_keys t"
  shows "stock_inv s (Loaded i # tr) t"
  using assms by (auto simp: stock_inv_def)

lemma stock_inv_saved:
  assumes ok: "stock_inv s tr t" and i: "Loaded i \<in> set tr" and q: "q \<le> max_i64"
    and run: "ir_Update (NewInventoryRepository E) (i\<lparr>inv_Quantity := q\<rparr>) t = (Inr j, t')"
  shows "stock_inv s (Replaced (inv_ProductID i) q # tr) t'"
proof -
  have "inventory_ok t" "inv_key i \<in> inv_keys t" using ok i by (auto simp: stock_inv_def)
  from inventory_admin_repo.update_Inr [OF this q run]
  have t': "inventory_ok t'" "inventory_only t t'" "stock t' = (stock t)(inv_ProductID i \<mapsto> q)" "inv_keys t' = inv_keys t" by auto
  have "stock0 t' p = (if inv_ProductID i = p then q else stock0 t p)" for p by (simp add: stock0_def t'(3))
  with ok t' inventory_only_trans [OF _ t'(2), of s] show ?thesis by (auto simp: stock_inv_def)
qed

lemma create_no_row:
  assumes "ir_Create (NewInventoryRepository E) (new_inventory p 0) s = (Inr i, t)"
  shows "stock s p = None"
proof -
  from assms have "Create E (inventories_table E) (new_inventory p 0) s = (Inr i, t)"
    by (simp add: NewInventoryRepository_def InventoryRepo_Create_def)
  then obtain d now u where d: "Inventory_BeforeCreate E (new_inventory p 0) s = (Inr d, u)"
    and i: "i = tb_created (inventories_table E) now d" and v: "violation (inventories_table E) (st_inventories s) i = None"
    by (rule inventories.Create_Inr) simp
  have "inv_ProductID i = p" using Inventory_BeforeCreate_Inr [OF d] by (auto simp: i inventories_table_def new_inventory_def)
  moreover have "inv_ProductID x \<noteq> inv_ProductID i" if "x \<in> set (st_inventories s)" for x
    using violation_None_unique [OF v, of "''idx_inventory_product''" "\<lambda>x r. inv_ProductID x = inv_ProductID r" x] that
    by (simp add: inventories_table_def)
  ultimately show ?thesis by (auto simp: stock_None_iff)
qed

lemma stock_inv_created:
  assumes ok: "stock_inv s tr t" and run: "ir_Create (NewInventoryRepository E) (new_inventory p 0) t = (Inr i, t')"
  shows "stock_inv s (Loaded i # tr) t'"
proof -
  have t: "inventory_ok t" using ok by (simp add: stock_inv_def)
  from inventory_admin_repo.create_Inr [OF t create_no_row [OF run] run]
  have c: "stock_added t t' p 0" "i \<in> set (st_inventories t')" by auto
  have "keepsG keeps_rows (ir_Create (NewInventoryRepository E) (new_inventory p 0))"
    by (simp add: NewInventoryRepository_def repository_keeps_rows)
  from stock_inv_added [OF ok c(1) keepsGD [OF this run]] have "stock_inv s (Changed p 0 # tr) t'" .
  then have "stock_inv s tr t'" by (simp add: stock_inv_def)
  from stock_inv_loaded [OF this inv_keysI [OF c(2)]] show ?thesis .
qed

lemma stock_run_inv:
  assumes "stock_run E s tr t" "inventory_ok s"
  shows "stock_inv s tr t"
  using assms(1)
proof (induction rule: stock_run.induct)
  case start
  show ?case using assms(2) by (simp add: stock_inv_def)
next
  case (consume tr t p q u t')
  then have "stock_added t t' p (- q)" using inventory_repo.service_consume_Inr by (fastforce simp: stock_inv_def)
  from stock_inv_added [OF consume.IH this keepsGD [OF service_keeps_rows(1) consume.hyps(2)]] show ?case .
next
  case (restock tr t q p u t')
  then have "stock_added t t' p q" using inventory_repo.service_restock_Inr by (fastforce simp: stock_inv_def)
  from stock_inv_added [OF restock.IH this keepsGD [OF service_keeps_rows(2) restock.hyps(3)]] show ?case .
next
  case (adjust tr t req validate p i t')
  then have "stock_added t t' p (ai_QuantityDelta req)" using inventory_repo.service_adjust_Inr by (fastforce simp: stock_inv_def)
  from stock_inv_added [OF adjust.IH this keepsGD [OF service_keeps_rows(3) adjust.hyps(3)]] show ?case .
next
  case (consume_failed tr t p q e t')
  then have "world_only t t'" using inventory_repo.service_consume_Inl by (fastforce simp: stock_inv_def)
  from stock_inv_same [OF consume_failed.IH this] show ?case .
next
  case (restock_failed tr t p q e t')
  from stock_inv_same [OF restock_failed.IH inventory_repo.service_restock_Inl [OF restock_failed.hyps(2)]] show ?case .
next
  case (adjust_failed tr t req validate p e t')
  then have "inventory_ok t" by (simp add: stock_inv_def)
  from stock_inv_same [OF adjust_failed.IH inventory_repo.service_adjust_Inl [OF this adjust_failed.hyps(2,3)]] show ?case .
next
  case (found tr t p i t')
  have w: "world_only t t'" using keepsGD [OF inventory_repo.get_frame found.hyps(2)] .
  have "i \<in> set (st_inventories t)" using inventory_admin_repo.get_row [OF found.hyps(2)] by simp
  then have "inv_key i \<in> inv_keys t'" using keeps_rows_world [OF w] inv_keysI by (auto simp: keeps_rows_def)
  from stock_inv_loaded [OF stock_inv_same [OF found.IH w] this] show ?case .
next
  case (not_found tr t p e t')
  from stock_inv_same [OF not_found.IH keepsGD [OF inventory_repo.get_frame not_found.hyps(2)]] show ?case .
next
  case (created tr t p i t')
  from stock_inv_created [OF created.IH created.hyps(2)] show ?case .
next
  case (create_failed tr t p e t')
  from stock_inv_same [OF create_failed.IH inventory_admin_repo.create_Inl [OF create_failed.hyps(2)]] show ?case .
next
  case (saved tr t i q j t')
  from stock_inv_saved [OF saved.IH saved.hyps(2-4)] show ?case .
next
  case (save_failed tr t i q e t')
  then have "inventory_ok t" "inv_key i \<in> inv_keys t" by (auto simp: stock_inv_def)
  from stock_inv_same [OF save_failed.IH inventory_admin_repo.update_Inl [OF this save_failed.hyps(3)]] show ?case .
next
  case (world tr t w)
  from stock_inv_same [OF world.IH] show ?case by simp
qed

text \<open>A whole call of \<open>SetStock\<close> is a sequence of steps; when it succeeds, its last one replaces the stock.\<close>

lemma SetStock_is_steps:
  assumes run: "stock_run E s tr t" and q: "si_Quantity req \<le> max_i64"
    and set: "InventoryService_SetStock validate (NewInventoryRepository E) req t = (r, t')"
  shows "\<exists>tr'. stock_run E s (tr' @ tr) t' \<and>
    (\<forall>i. r = Inr i \<longrightarrow> (\<exists>j tr''. tr' = Replaced (inv_ProductID j) (si_Quantity req) # Loaded j # tr''))"
proof (cases "validate req")
  case (Some e)
  with set run show ?thesis by (intro exI [of _ "[]"]) (auto simp: InventoryService_SetStock_def bindG_def checkG_def)
next
  case None
  let ?repo = "NewInventoryRepository E"
  obtain x u where x: "getOrCreate ?repo (si_ProductID req) t = (x, u)" by fastforce
  have loaded: "(\<exists>e. x = Inl e \<and> stock_run E s tr u) \<or> (\<exists>i b. x = Inr (i, b) \<and> stock_run E s (Loaded i # tr) u)"
  proof -
    obtain y v where y: "ir_GetByProductID ?repo (si_ProductID req) t = (y, v)" by fastforce
    show ?thesis
    proof (cases y)
      case (Inr i)
      with x y have "x = Inr (i, False)" "u = v" by (auto simp: getOrCreate_def tryG_def retG_def)
      with stock_run.found [OF run] y Inr show ?thesis by blast
    next
      case (Inl e)
      with stock_run.not_found [OF run] y have v: "stock_run E s tr v" by blast
      obtain z w where z: "ir_Create ?repo (new_inventory (si_ProductID req) 0) v = (z, w)" by fastforce
      have xu: "(x, u) = (if errors_Is e ErrRecordNotFound then (map_sum id (\<lambda>i. (i, True)) z, w) else (Inl e, v))"
        using x y z Inl by (cases z) (auto simp: getOrCreate_def tryG_def bindG_def retG_def throwG_def split: if_splits)
      with v stock_run.created [OF v] stock_run.create_failed [OF v] z show ?thesis by (cases z) (auto split: if_splits)
    qed
  qed
  then show ?thesis
  proof (elim disjE exE conjE)
    fix e assume "x = Inl e" "stock_run E s tr u"
    moreover from this(1) have "r = Inl e" "t' = u" using set None x by (auto simp: InventoryService_SetStock_def bindG_def checkG_def)
    ultimately show ?thesis by (intro exI [of _ "[]"]) simp
  next
    fix i b assume i: "x = Inr (i, b)" "stock_run E s (Loaded i # tr) u"
    have y: "ir_Update ?repo (i\<lparr>inv_Quantity := si_Quantity req\<rparr>) u = (r, t')"
      using set None x i(1) by (auto simp: InventoryService_SetStock_def bindG_def checkG_def)
    show ?thesis
    proof (cases r)
      case (Inl e)
      from stock_run.save_failed [OF i(2) _ y [unfolded Inl]] Inl show ?thesis by (intro exI [of _ "[Loaded i]"]) simp
    next
      case (Inr j)
      from stock_run.saved [OF i(2) _ q y [unfolded Inr]] show ?thesis
        by (intro exI [of _ "[Replaced (inv_ProductID i) (si_Quantity req), Loaded i]"]) simp
    qed
  qed
qed

section \<open>Property\<close>

text \<open>
  C7: stock is accounted for and never goes below zero. After any run of the operations of the
  inventory, in any order, with the statements of \<open>SetStock\<close> apart and with statements failing at any
  point, the quantity of every product is the last quantity that was set for it, or the initial one, plus the
  changes of exactly the \<open>ConsumeStock\<close>, \<open>Restock\<close> and \<open>AdjustStock\<close> calls that succeeded since; it is between
  zero and the largest \<open>int64\<close>, and no other table has changed. A call of \<open>SetStock\<close> made then continues the run,
  and leaves the stock it was asked for if it succeeds.
\<close>

theorem stock_conserved:
  assumes "inventory_ok s" "stock_run E s tr t" "si_Quantity req \<le> max_i64"
    and "InventoryService_SetStock validate (NewInventoryRepository E) req t = (r, u)"
  shows "stock0 t p = replay p (stock0 s p) tr \<and> 0 \<le> stock0 t p \<and> stock0 t p \<le> max_i64 \<and> inventory_only s t \<and>
    (\<exists>new. stock_run E s (new @ tr) u) \<and> (isl r \<or> stock0 u (si_ProductID req) = si_Quantity req)"
proof -
  have inv: "stock_inv s tr t" by (rule stock_run_inv [OF assms(2,1)])
  then have "isl r \<or> stock0 u (si_ProductID req) = si_Quantity req"
    using inventory_admin_repo.service_set [OF _ assms(3,4)] by (cases r) (auto simp: stock_inv_def stock0_def)
  with inv stock0_nonneg [of t p] SetStock_is_steps [OF assms(2-4)] show ?thesis by (auto simp: stock_inv_def)
qed

text \<open>A \<open>SetStock\<close> to 8 reads the row, then 3 pieces are sold, then it saves, and 2 more are sold.\<close>

definition demo_row :: Inventory where
  "demo_row = (new_inventory ''p1'' 10)\<lparr>inv_ID := ''i1''\<rparr>"

definition demo_read :: "nat st" where
  "demo_read = snd (ir_GetByProductID (NewInventoryRepository calm) ''p1'' demo_stock)"

definition demo_stock_sold :: "nat st" where
  "demo_stock_sold = snd (InventoryService_ConsumeStock (NewInventoryRepository calm) ''p1'' 3 demo_read)"

definition demo_saved :: "(goerr + Inventory) \<times> nat st" where
  "demo_saved = ir_Update (NewInventoryRepository calm) (demo_row\<lparr>inv_Quantity := 8\<rparr>) demo_stock_sold"

definition demo_stock_end :: "nat st" where
  "demo_stock_end = snd (InventoryService_ConsumeStock (NewInventoryRepository calm) ''p1'' 2 (snd demo_saved))"

abbreviation demo_stock_trace :: "stock_event list" where
  "demo_stock_trace \<equiv> [Changed ''p1'' (- 2), Replaced ''p1'' 8, Changed ''p1'' (- 3), Loaded demo_row]"

lemma demo_stock_run: "stock_run calm demo_stock demo_stock_trace demo_stock_end"
proof -
  have r: "fst (ir_GetByProductID (NewInventoryRepository calm) ''p1'' demo_stock) = Inr demo_row"
    "fst (InventoryService_ConsumeStock (NewInventoryRepository calm) ''p1'' 3 demo_read) = Inr ()"
    "\<not> isl (fst demo_saved)"
    "fst (InventoryService_ConsumeStock (NewInventoryRepository calm) ''p1'' 2 (snd demo_saved)) = Inr ()"
    by code_simp+
  have "stock_run calm demo_stock [Loaded demo_row] demo_read"
    by (rule stock_run.found [OF stock_run.start]) (use r(1) in \<open>simp add: demo_read_def prod_eq_iff\<close>)
  then have s2: "stock_run calm demo_stock [Changed ''p1'' (- 3), Loaded demo_row] demo_stock_sold"
    by (rule stock_run.consume) (use r(2) in \<open>simp add: demo_stock_sold_def prod_eq_iff\<close>)
  have "stock_run calm demo_stock (Replaced (inv_ProductID demo_row) 8 # [Changed ''p1'' (- 3), Loaded demo_row]) (snd demo_saved)"
    by (rule stock_run.saved [OF s2, where j = "projr (fst demo_saved)"])
      (use r(3) in \<open>simp_all add: max_i64_def demo_saved_def prod_eq_iff\<close>)
  then have s3: "stock_run calm demo_stock [Replaced ''p1'' 8, Changed ''p1'' (- 3), Loaded demo_row] (snd demo_saved)"
    by (simp add: demo_row_def new_inventory_def)
  show ?thesis
    by (rule stock_run.consume [OF s3]) (use r(4) in \<open>simp add: demo_stock_end_def prod_eq_iff\<close>)
qed

definition demo_set :: SetInventoryReq where
  "demo_set = \<lparr>si_ProductID = ''p1'', si_Quantity = 20\<rparr>"

theorem stock_conserved_witness:
  "stock0 demo_stock_end ''p1'' = replay ''p1'' (stock0 demo_stock ''p1'') demo_stock_trace \<and>
   replay ''p1'' (stock0 demo_stock ''p1'') demo_stock_trace = 6 \<and>
   0 \<le> stock0 demo_stock_end ''p1'' \<and> stock0 demo_stock_end ''p1'' \<le> max_i64 \<and> inventory_only demo_stock demo_stock_end \<and>
   stock0 (snd (InventoryService_SetStock (\<lambda>_. None) (NewInventoryRepository calm) demo_set demo_stock_end)) ''p1'' = 20"
proof -
  let ?set = "InventoryService_SetStock (\<lambda>_. None) (NewInventoryRepository calm) demo_set demo_stock_end"
  have q: "si_Quantity demo_set \<le> max_i64" by (simp add: demo_set_def max_i64_def)
  have "\<not> isl (fst ?set)" by code_simp
  with stock_conserved [OF demo_stock_ok demo_stock_run q, of "\<lambda>_. None" "fst ?set" "snd ?set" "''p1''"]
  show ?thesis by (simp add: demo_set_def)
qed

end
