(* ===== verification/Http.thy ===== *)
theory Http
  imports Models
begin

text \<open>
  What the HTTP handlers use of Gin, and \<open>pkg/response\<close>: the context of a request with the
  answers written to it, the chain of handlers of a route, and the middlewares that carry no
  logic of the shop (\<open>pkg/middleware/metrics.go\<close>, \<open>body_limit.go\<close>). The lemmas show that a chain
  stops at the first handler that aborts.
\<close>

text \<open>A dynamic value: \<open>interface{}\<close> in the keys of a context and in the claims of a token.\<close>

datatype jvalue =
    JNull
  | JStr string
  | JBool bool
  | JNum float64
  | JUint64 "64 word"
  | JUint uint
  | JInt int64
  | JMap "string \<rightharpoonup> jvalue"

text \<open>A JSON body: null, \<open>data\<close> as it is, \<open>data\<close> as the result of \<open>pkg/response\<close>, an error of it.\<close>

datatype 'd body = NoBody | PlainBody 'd | ResultBody 'd | ErrorBody string "goerr option"

record 'd answer =
  an_status :: int64
  an_body :: "'d body"

text \<open>
  The context: headers and path parameters of the request, the keys that handlers set, what
  was written, and whether the chain is aborted.
\<close>

record 'd ginctx =
  gc_method :: string
  gc_path :: string
  gc_headers :: "string \<Rightarrow> string"
  gc_params :: "string \<Rightarrow> string"
  gc_keys :: "string \<rightharpoonup> jvalue"
  gc_written :: "'d answer list"
  gc_aborted :: bool

type_synonym ('w, 'd) handler = "'d ginctx \<Rightarrow> ('w st, 'd ginctx) gom"

definition StatusOK :: int64 where "StatusOK = 200"
definition StatusBadRequest :: int64 where "StatusBadRequest = 400"
definition StatusUnauthorized :: int64 where "StatusUnauthorized = 401"
definition StatusForbidden :: int64 where "StatusForbidden = 403"
definition StatusNotFound :: int64 where "StatusNotFound = 404"
definition StatusConflict :: int64 where "StatusConflict = 409"
definition StatusTooManyRequests :: int64 where "StatusTooManyRequests = 429"
definition StatusInternalServerError :: int64 where "StatusInternalServerError = 500"
definition StatusServiceUnavailable :: int64 where "StatusServiceUnavailable = 503"

lemmas status_defs = StatusOK_def StatusBadRequest_def StatusUnauthorized_def StatusForbidden_def StatusNotFound_def
  StatusConflict_def StatusTooManyRequests_def StatusInternalServerError_def
  StatusServiceUnavailable_def

definition ctx_JSON :: "'d ginctx \<Rightarrow> int64 \<Rightarrow> 'd body \<Rightarrow> 'd ginctx" where
  "ctx_JSON c status b = c\<lparr>gc_written := gc_written c @ [\<lparr>an_status = status, an_body = b\<rparr>]\<rparr>"

definition Abort :: "'d ginctx \<Rightarrow> 'd ginctx" where
  "Abort c = c\<lparr>gc_aborted := True\<rparr>"

definition SetKey :: "'d ginctx \<Rightarrow> string \<Rightarrow> jvalue \<Rightarrow> 'd ginctx" where
  "SetKey c key v = c\<lparr>gc_keys := (gc_keys c)(key \<mapsto> v)\<rparr>"

definition GetString :: "'d ginctx \<Rightarrow> string \<Rightarrow> string" where
  "GetString c key = (case gc_keys c key of Some (JStr s) \<Rightarrow> s | _ \<Rightarrow> '''')"

text \<open>\<open>c.Writer.Status()\<close>: the first status written, 200 before.\<close>

definition Writer_Status :: "'d ginctx \<Rightarrow> int64" where
  "Writer_Status c = (case gc_written c of [] \<Rightarrow> StatusOK | a # _ \<Rightarrow> an_status a)"

section \<open>Responses\<close>

text \<open>\<open>production\<close> says whether the configured environment is the production one.\<close>

definition Response_Error :: "bool \<Rightarrow> 'd ginctx \<Rightarrow> int64 \<Rightarrow> goerr \<Rightarrow> string \<Rightarrow> 'd ginctx" where
  "Response_Error production c status err message =
     ctx_JSON c status (ErrorBody message (if \<not> production \<and> status < 500 then Some err else None))"

definition Response_JSON :: "'d ginctx \<Rightarrow> int64 \<Rightarrow> 'd \<Rightarrow> 'd ginctx" where
  "Response_JSON c status data = ctx_JSON c status (ResultBody data)"

text \<open>A handler that ends with an answer.\<close>

definition failG :: "bool \<Rightarrow> 'd ginctx \<Rightarrow> int64 \<Rightarrow> goerr \<Rightarrow> string \<Rightarrow> ('w st, 'd ginctx) gom" where
  "failG production c status err message = retG (Response_Error production c status err message)"

definition okG :: "'d ginctx \<Rightarrow> 'd \<Rightarrow> ('w st, 'd ginctx) gom" where
  "okG c data = retG (Response_JSON c StatusOK data)"

section \<open>Chains\<close>

text \<open>
  The handlers of a route, in order. \<open>c.Next()\<close> as the last call of a middleware runs the rest of
  the chain, as returning does; \<open>c.Abort()\<close> keeps the rest from running.
\<close>

fun run_chain :: "('w, 'd) handler list \<Rightarrow> ('w, 'd) handler" where
  "run_chain [] c = retG c"
| "run_chain (h # hs) c = bindG (h c) (\<lambda>c1. if gc_aborted c1 then retG c1 else run_chain hs c1)"

definition HTTPMetrics :: "'w env \<Rightarrow> ('w, 'd) handler list \<Rightarrow> ('w, 'd) handler" where
  "HTTPMetrics E rest c =
     bindG (askG (env_now E)) (\<lambda>startedAt.
     bindG (run_chain rest c) (\<lambda>c1.
     bindG (askG (env_now E)) (\<lambda>now.
     let path = (if gc_path c = '''' then ''unmatched'' else gc_path c)
     in bindG (metricG (RecordHTTPStatus (gc_method c) path (Writer_Status c1) (now - startedAt))) (\<lambda>_. retG c1))))"

lemma ctx_JSON_sel [simp]:
  "gc_written (ctx_JSON c s b) = gc_written c @ [\<lparr>an_status = s, an_body = b\<rparr>]"
  "gc_keys (ctx_JSON c s b) = gc_keys c" "gc_aborted (ctx_JSON c s b) = gc_aborted c"
  "gc_headers (ctx_JSON c s b) = gc_headers c" "gc_params (ctx_JSON c s b) = gc_params c"
  by (simp_all add: ctx_JSON_def)

lemma SetKey_sel [simp]:
  "gc_keys (SetKey c k v) = (gc_keys c)(k \<mapsto> v)" "gc_written (SetKey c k v) = gc_written c"
  "gc_aborted (SetKey c k v) = gc_aborted c" "gc_headers (SetKey c k v) = gc_headers c"
  "gc_params (SetKey c k v) = gc_params c"
  by (simp_all add: SetKey_def)

lemma Abort_sel [simp]:
  "gc_aborted (Abort c)" "gc_written (Abort c) = gc_written c" "gc_keys (Abort c) = gc_keys c"
  by (simp_all add: Abort_def)

lemma run_chain_aborted:
  assumes "h c s = (Inr c1, t)" "gc_aborted c1"
  shows "run_chain (h # hs) c s = (Inr c1, t)"
  using assms by (simp add: bindG_def retG_def)

lemma run_chain_passed:
  assumes "h c s = (Inr c1, t)" "\<not> gc_aborted c1"
  shows "run_chain (h # hs) c s = run_chain hs c1 t"
  using assms by (simp add: bindG_def)

lemma failG_iff [gom]:
  "failG production c status err m s = (r, t) \<longleftrightarrow> r = Inr (Response_Error production c status err m) \<and> t = s"
  by (auto simp: failG_def gom)

lemma okG_iff [gom]: "okG c d s = (r, t) \<longleftrightarrow> r = Inr (Response_JSON c StatusOK d) \<and> t = s"
  by (auto simp: okG_def gom)

text \<open>Exactly one answer was added to the context.\<close>

definition answered :: "'d ginctx \<Rightarrow> 'd ginctx \<Rightarrow> bool" where
  "answered c c' \<longleftrightarrow> (\<exists>a. gc_written c' = gc_written c @ [a])"

lemma answered_Response [simp]: "answered c (Response_Error production c status err m)" "answered c (Response_JSON c status d)"
  by (simp_all add: answered_def Response_Error_def Response_JSON_def)

lemma answered_ctx_JSON [simp]: "answered c (ctx_JSON c status b)"
  by (simp add: answered_def)

end
