(* ===== verification/Auth.thy ===== *)
theory Auth
  imports Http Config
begin

text \<open>
  \<open>pkg/jtoken\<close> and the authentication of \<open>pkg/middleware\<close>: tokens, the Gin middlewares and the
  gRPC interceptor. The signing library is a parameter. The lemmas show that a token of one kind
  passes the middleware of its kind only, with the identity it was issued for.
\<close>

section \<open>Tokens\<close>

definition AccessTokenExpiredTime :: int64 where "AccessTokenExpiredTime = 5 * 60"
definition RefreshTokenExpiredTime :: int64 where "RefreshTokenExpiredTime = 30 * 24 * 3600"
definition AccessTokenType :: string where "AccessTokenType = ''x-access''"
definition RefreshTokenType :: string where "RefreshTokenType = ''x-refresh''"
definition TokenVersionClaim :: string where "TokenVersionClaim = ''token_version''"
definition bearerPrefix :: string where "bearerPrefix = ''Bearer ''"

type_synonym claims = "string \<rightharpoonup> jvalue"

text \<open>
  \<open>golang-jwt\<close>: signing claims with a key, and parsing a token given the accepted methods, the
  function that yields the key for a method, and the time in seconds. Parsing answers whether the
  token is valid, and its claims.
\<close>

record jwtlib =
  jwt_SignedString :: "string \<Rightarrow> claims \<Rightarrow> goerr + string"
  jwt_ParseWithClaims :: "string list \<Rightarrow> (string \<Rightarrow> goerr + string) \<Rightarrow> int64 \<Rightarrow> string \<Rightarrow> goerr + (bool \<times> claims)"

definition Unix :: "time \<Rightarrow> int64" where
  "Unix t = t div second_ns"

definition default_claim :: "claims \<Rightarrow> string \<Rightarrow> jvalue \<Rightarrow> claims" where
  "default_claim m key v = (if m key = None then m(key \<mapsto> v) else m)"

definition token_claims :: "claims \<Rightarrow> string \<Rightarrow> int64 \<Rightarrow> time \<Rightarrow> claims" where
  "token_claims payload tokenType lifetimeSeconds issuedAt =
     (let tokenPayload = (default_claim payload TokenVersionClaim (JUint64 0))(''type'' \<mapsto> JStr tokenType)
      in [''payload'' \<mapsto> JMap tokenPayload, ''iat'' \<mapsto> JInt (Unix issuedAt),
          ''exp'' \<mapsto> JInt (Unix (issuedAt + second_ns * lifetimeSeconds))])"

definition generateToken :: "'w env \<Rightarrow> jwtlib \<Rightarrow> Schema \<Rightarrow> claims \<Rightarrow> string \<Rightarrow> int64 \<Rightarrow> ('w st, string) gom" where
  "generateToken E J cfg payload tokenType lifetimeSeconds =
     bindG (askG (env_now E)) (\<lambda>issuedAt.
     case jwt_SignedString J (cfg_AuthSecret cfg) (token_claims payload tokenType lifetimeSeconds issuedAt) of
       Inl _ \<Rightarrow> retG ''''
     | Inr token \<Rightarrow> retG token)"

definition GenerateAccessToken :: "'w env \<Rightarrow> jwtlib \<Rightarrow> Schema \<Rightarrow> claims \<Rightarrow> ('w st, string) gom" where
  "GenerateAccessToken E J cfg payload = generateToken E J cfg payload AccessTokenType AccessTokenExpiredTime"

definition GenerateRefreshToken :: "'w env \<Rightarrow> jwtlib \<Rightarrow> Schema \<Rightarrow> claims \<Rightarrow> ('w st, string) gom" where
  "GenerateRefreshToken E J cfg payload = generateToken E J cfg payload RefreshTokenType RefreshTokenExpiredTime"

definition TrimPrefix :: "string \<Rightarrow> string \<Rightarrow> string" where
  "TrimPrefix s p = (if has_prefix p s then drop (length p) s else s)"

definition key_for :: "Schema \<Rightarrow> string \<Rightarrow> goerr + string" where
  "key_for cfg alg =
     (if alg \<noteq> ''HS256'' then Inl (ErrNew ''unexpected jwt signing method'') else Inr (cfg_AuthSecret cfg))"

definition ValidateToken :: "'w env \<Rightarrow> jwtlib \<Rightarrow> Schema \<Rightarrow> string \<Rightarrow> ('w st, claims) gom" where
  "ValidateToken E J cfg jwtToken =
     (let cleanJWT = TrimPrefix (TrimSpace jwtToken) bearerPrefix
      in bindG (askG (env_now E)) (\<lambda>now.
         bindG (liftG (jwt_ParseWithClaims J [''HS256''] (key_for cfg) (Unix now) cleanJWT)) (\<lambda>(valid, tokenData).
         if \<not> valid then throwG (ErrNew ''token has invalid claims'')
         else case tokenData ''payload'' of
                Some (JMap payload) \<Rightarrow> retG payload
              | _ \<Rightarrow> throwG (ErrNew ''invalid jwt payload''))))"

text \<open>\<open>x != y\<close> on \<open>float64\<close>.\<close>

definition fne :: "float64 \<Rightarrow> float64 \<Rightarrow> bool" where
  "fne x y \<longleftrightarrow> x = NaN \<or> y = NaN \<or> x \<noteq> y"

definition uint64_of_float :: "float64 \<Rightarrow> 64 word" where
  "uint64_of_float x = (case x of Fin q \<Rightarrow> word_of_int \<lfloor>q\<rfloor> | _ \<Rightarrow> 0)"

definition invalid_version :: goerr where "invalid_version = ErrNew ''invalid token_version claim''"

definition TokenVersion :: "claims \<Rightarrow> goerr + 64 word" where
  "TokenVersion payload =
     (case payload TokenVersionClaim of
        None \<Rightarrow> Inl (ErrNew ''missing token_version claim'')
      | Some v \<Rightarrow>
          (case v of
             JUint64 n \<Rightarrow> Inr n
           | JUint n \<Rightarrow> Inr n
           | JInt i \<Rightarrow> if i < 0 then Inl invalid_version else Inr (word_of_int i)
           | JNum x \<Rightarrow>
               if flt x (Fin 0) \<or> fge x (Fin (2 ^ 63)) \<or> fne (math_Trunc x) x then Inl invalid_version
               else Inr (uint64_of_float x)
           | _ \<Rightarrow> Inl invalid_version))"

section \<open>Gin\<close>

definition tokenVersionGinKey :: string where "tokenVersionGinKey = ''tokenVersion''"

definition reject :: "'d ginctx \<Rightarrow> ('w st, 'd ginctx) gom" where
  "reject c = retG (Abort (ctx_JSON c StatusUnauthorized NoBody))"

definition JWT :: "'w env \<Rightarrow> jwtlib \<Rightarrow> Schema \<Rightarrow> string \<Rightarrow> ('w, 'd) handler" where
  "JWT E J cfg tokenType c =
     (let token = gc_headers c ''Authorization''
      in if token = '''' then reject c
         else
           tryG (ValidateToken E J cfg token) (\<lambda>r. case r of
             Inl _ \<Rightarrow> reject c
           | Inr payload \<Rightarrow>
               if payload ''type'' \<noteq> Some (JStr tokenType) then reject c
               else (case payload ''id'' of
                       Some (JStr userID) \<Rightarrow>
                         if TrimSpace userID = '''' then reject c
                         else (case TokenVersion payload of
                                 Inl _ \<Rightarrow> reject c
                               | Inr tokenVersion \<Rightarrow>
                                   retG (SetKey (SetKey (SetKey c ''userId'' (JStr userID))
                                           ''role'' (case payload ''role'' of Some v \<Rightarrow> v | None \<Rightarrow> JNull))
                                         tokenVersionGinKey (JUint64 tokenVersion)))
                     | _ \<Rightarrow> reject c)))"

definition JWTAuth :: "'w env \<Rightarrow> jwtlib \<Rightarrow> Schema \<Rightarrow> ('w, 'd) handler" where
  "JWTAuth E J cfg = JWT E J cfg AccessTokenType"

definition JWTRefresh :: "'w env \<Rightarrow> jwtlib \<Rightarrow> Schema \<Rightarrow> ('w, 'd) handler" where
  "JWTRefresh E J cfg = JWT E J cfg RefreshTokenType"

definition RequireRole :: "bool \<Rightarrow> string \<Rightarrow> ('w, 'd) handler" where
  "RequireRole production role c =
     (if GetString c ''role'' \<noteq> role
      then retG (Abort (Response_Error production c StatusForbidden (ErrNew ''permission denied'') ''Permission denied''))
      else retG c)"

definition TokenVersionFromGinContext :: "'d ginctx \<Rightarrow> 64 word \<times> bool" where
  "TokenVersionFromGinContext c =
     (case gc_keys c tokenVersionGinKey of Some (JUint64 v) \<Rightarrow> (v, True) | _ \<Rightarrow> (0, False))"

section \<open>gRPC\<close>

text \<open>The values that the interceptor stores in the context of a call, and its metadata.\<close>

record grpcctx =
  gx_token :: "string list option"
  gx_userID :: "string option"
  gx_tokenVersion :: "64 word option"

definition ContextWithUserID :: "grpcctx \<Rightarrow> string \<Rightarrow> grpcctx" where
  "ContextWithUserID ctx userID = ctx\<lparr>gx_userID := Some userID\<rparr>"

definition UserIDFromContext :: "grpcctx \<Rightarrow> string" where
  "UserIDFromContext ctx = (case gx_userID ctx of Some u \<Rightarrow> u | None \<Rightarrow> '''')"

definition ContextWithTokenVersion :: "grpcctx \<Rightarrow> 64 word \<Rightarrow> grpcctx" where
  "ContextWithTokenVersion ctx v = ctx\<lparr>gx_tokenVersion := Some v\<rparr>"

definition TokenVersionFromContext :: "grpcctx \<Rightarrow> 64 word \<times> bool" where
  "TokenVersionFromContext ctx = (case gx_tokenVersion ctx of Some v \<Rightarrow> (v, True) | None \<Rightarrow> (0, False))"

record AuthInterceptor =
  ai_ignoredMethods :: "string set"
  ai_refreshTokenMethods :: "string set"

definition WithRefreshTokenMethods :: "string list \<Rightarrow> AuthInterceptor \<Rightarrow> AuthInterceptor" where
  "WithRefreshTokenMethods methods ai = ai\<lparr>ai_refreshTokenMethods := ai_refreshTokenMethods ai \<union> set methods\<rparr>"

definition NewAuthInterceptor :: "string list \<Rightarrow> (AuthInterceptor \<Rightarrow> AuthInterceptor) list \<Rightarrow> AuthInterceptor" where
  "NewAuthInterceptor ignoredMethods options =
     fold (\<lambda>option ai. option ai) options \<lparr>ai_ignoredMethods = set ignoredMethods, ai_refreshTokenMethods = {}\<rparr>"

definition expectedTokenType :: "AuthInterceptor \<Rightarrow> string \<Rightarrow> string" where
  "expectedTokenType ai m = (if m \<in> ai_refreshTokenMethods ai then RefreshTokenType else AccessTokenType)"

definition Unauthenticated :: "string \<Rightarrow> goerr" where
  "Unauthenticated message = ErrNew (''rpc error: code = Unauthenticated desc = '' @ message)"

definition authorize :: "'w env \<Rightarrow> jwtlib \<Rightarrow> Schema \<Rightarrow> grpcctx \<Rightarrow> string \<Rightarrow> ('w st, string \<times> 64 word) gom" where
  "authorize E J cfg ctx expected =
     (case gx_token ctx of
        Some (token # _) \<Rightarrow>
          tryG (ValidateToken E J cfg token) (\<lambda>r. case r of
            Inl _ \<Rightarrow> throwG (Unauthenticated ''unauthorized'')
          | Inr payload \<Rightarrow>
              (case (payload ''type'', payload ''id'') of
                 (Some (JStr tokenType), Some (JStr userID)) \<Rightarrow>
                   if tokenType \<noteq> expected \<or> TrimSpace userID = '''' then throwG (Unauthenticated ''unauthorized'')
                   else (case TokenVersion payload of
                           Inl _ \<Rightarrow> throwG (Unauthenticated ''unauthorized'')
                         | Inr v \<Rightarrow> retG (userID, v))
               | _ \<Rightarrow> throwG (Unauthenticated ''unauthorized'')))
      | _ \<Rightarrow> throwG (Unauthenticated ''missing token''))"

definition Unary ::
    "'w env \<Rightarrow> jwtlib \<Rightarrow> Schema \<Rightarrow> AuthInterceptor \<Rightarrow> string \<Rightarrow> (grpcctx \<Rightarrow> ('w st, 'a) gom) \<Rightarrow> grpcctx \<Rightarrow> ('w st, 'a) gom" where
  "Unary E J cfg ai fullMethod handler ctx =
     (if fullMethod \<in> ai_ignoredMethods ai then handler ctx
      else
        bindG (authorize E J cfg ctx (expectedTokenType ai fullMethod)) (\<lambda>(userID, tokenVersion).
        handler (ContextWithTokenVersion (ContextWithUserID ctx userID) tokenVersion)))"

section \<open>A token that was issued\<close>

text \<open>What \<open>encoding/json\<close> makes of a value that is written and read back: every number is a \<open>float64\<close>.\<close>

primrec json_value :: "jvalue \<Rightarrow> jvalue" where
  "json_value JNull = JNull"
| "json_value (JStr s) = JStr s"
| "json_value (JBool b) = JBool b"
| "json_value (JNum x) = JNum x"
| "json_value (JUint64 n) = JNum (round64 (of_int (uint n)))"
| "json_value (JUint n) = JNum (round64 (of_int (uint n)))"
| "json_value (JInt i) = JNum (round64 (of_int i))"
| "json_value (JMap m) = JMap (map_option json_value \<circ> m)"

definition json_claims :: "claims \<Rightarrow> claims" where
  "json_claims cl = map_option json_value \<circ> cl"

text \<open>
  What the library documents: a token that was signed with HS256 is parsed with the same key
  until it expires, to its claims; its text has no blanks around it and does not begin with the
  word of the header.
\<close>

definition jwt_laws :: "jwtlib \<Rightarrow> bool" where
  "jwt_laws J \<longleftrightarrow>
     (\<forall>key cl token e methods kf now.
        jwt_SignedString J key cl = Inr token \<and> cl ''exp'' = Some (JInt e) \<and> now < e \<and>
        ''HS256'' \<in> set methods \<and> kf ''HS256'' = Inr key \<longrightarrow>
        jwt_ParseWithClaims J methods kf now token = Inr (True, json_claims cl)) \<and>
     (\<forall>key cl token. jwt_SignedString J key cl = Inr token \<longrightarrow>
        token \<noteq> '''' \<and> TrimSpace token = token \<and> \<not> has_prefix bearerPrefix token)"

lemma TokenVersion_json:
  assumes "payload TokenVersionClaim = Some (JUint64 v)" "uint v < 2 ^ 53"
  shows "TokenVersion (json_claims payload) = Inr v"
proof -
  define n where "n = uint v"
  have n: "0 \<le> n" "n < 2 ^ 53" "word_of_int n = v" using assms(2) by (simp_all add: n_def)
  have x: "round64 (of_int n) = Fin (of_int n)" using n by (intro round64_of_int) simp
  have less: "(of_int n :: rat) < 2 ^ 63"
    using n(2) of_int_less_iff [of n "2 ^ 63", where 'a = rat] by simp
  show ?thesis using assms(1) n less
    by (simp add: TokenVersion_def json_claims_def x fge_def fne_def uint64_of_float_def flip: n_def)
qed

definition issued_payload :: "claims \<Rightarrow> string \<Rightarrow> claims" where
  "issued_payload payload tokenType = (default_claim payload TokenVersionClaim (JUint64 0))(''type'' \<mapsto> JStr tokenType)"

lemma TrimSpace_Bearer:
  assumes "TrimSpace token = token" "token \<noteq> ''''"
  shows "TrimSpace (bearerPrefix @ token) = bearerPrefix @ token"
proof -
  have e: "rev (dropWhile is_space (rev (dropWhile is_space token))) = token" using assms(1) by (simp add: TrimSpace_def)
  have r: "dropWhile is_space (rev (dropWhile is_space token)) = rev token" using e by (metis rev_rev_ident)
  with assms(2) have "\<not> is_space (hd (rev token))"
    using hd_dropWhile [of is_space "rev (dropWhile is_space token)"] by simp
  then have "dropWhile is_space (rev token) = rev token" using assms(2)
    by (simp add: dropWhile_eq_self_iff)
  then have "dropWhile is_space (rev (bearerPrefix @ token)) = rev (bearerPrefix @ token)" using assms(2)
    by (simp add: dropWhile_eq_self_iff hd_append)
  moreover have "dropWhile is_space (bearerPrefix @ token) = bearerPrefix @ token"
    by (simp add: bearerPrefix_def is_space_def)
  ultimately show ?thesis by (simp add: TrimSpace_def del: rev_append)
qed

lemma ValidateToken_issued:
  assumes laws: "jwt_laws J"
    and run: "generateToken E J cfg payload tokenType life s = (Inr token, t)" "token \<noteq> ''''"
    and header: "header \<in> {token, bearerPrefix @ token}"
    and fresh: "Unix (fst (env_now E (st_world u))) < Unix (fst (env_now E (st_world s)) + second_ns * life)"
  shows "ValidateToken E J cfg header u =
    (Inr (json_claims (issued_payload payload tokenType)), u\<lparr>st_world := snd (env_now E (st_world u))\<rparr>)"
proof -
  let ?cl = "token_claims payload tokenType life (fst (env_now E (st_world s)))"
  have sign: "jwt_SignedString J (cfg_AuthSecret cfg) ?cl = Inr token"
    using run by (auto simp: generateToken_def gom split: sum.splits)
  have exp: "?cl ''exp'' = Some (JInt (Unix (fst (env_now E (st_world s)) + second_ns * life)))"
    by (simp add: token_claims_def Let_def)
  have key: "key_for cfg ''HS256'' = Inr (cfg_AuthSecret cfg)" by (simp add: key_for_def)
  have parse: "jwt_ParseWithClaims J [''HS256''] (key_for cfg) (Unix (fst (env_now E (st_world u)))) token =
      Inr (True, json_claims ?cl)"
    using laws sign exp fresh key unfolding jwt_laws_def by fastforce
  have clean: "TrimSpace token = token" "\<not> has_prefix bearerPrefix token"
    using laws sign unfolding jwt_laws_def by blast+
  have "TrimPrefix (TrimSpace header) bearerPrefix = token"
    using header clean TrimSpace_Bearer [OF clean(1) run(2)] by (auto simp: TrimPrefix_def)
  moreover have "json_claims ?cl ''payload'' = Some (JMap (json_claims (issued_payload payload tokenType)))"
    by (simp add: token_claims_def json_claims_def issued_payload_def Let_def)
  ultimately show ?thesis by (auto simp: ValidateToken_def parse gom)
qed

definition identified :: "'d ginctx \<Rightarrow> string \<Rightarrow> string \<Rightarrow> 64 word \<Rightarrow> 'd ginctx" where
  "identified c userID role version =
     SetKey (SetKey (SetKey c ''userId'' (JStr userID)) ''role'' (JStr role)) tokenVersionGinKey (JUint64 version)"

text \<open>
  C22: an issued token passes the middleware of its kind, bare or after the word \<open>Bearer\<close>,
  until it expires, and sets the user, the role and the token version it was issued for (a
  version below 2 to the 53, which a \<open>float64\<close> holds exactly). The middleware of the other kind
  rejects it with status 401 and aborts. The interceptor of the gRPC server decides the same.
\<close>

theorem token_round_trip:
  assumes laws: "jwt_laws J"
    and payload: "payload ''id'' = Some (JStr userID)" "TrimSpace userID \<noteq> ''''" "payload ''role'' = Some (JStr role)"
      "payload TokenVersionClaim = Some (JUint64 version)" "uint version < 2 ^ 53"
    and run: "generateToken E J cfg payload tokenType life s = (Inr token, t)" "token \<noteq> ''''"
    and fresh: "Unix (fst (env_now E (st_world u))) < Unix (fst (env_now E (st_world s)) + second_ns * life)"
    and header: "gc_headers c ''Authorization'' \<in> {token, bearerPrefix @ token}" "gx_token ctx = Some [token]"
  shows "fst (JWT E J cfg expected c u) =
      Inr (if expected = tokenType then identified c userID role version
           else Abort (ctx_JSON c StatusUnauthorized NoBody)) \<and>
    fst (authorize E J cfg ctx expected u) =
      (if expected = tokenType then Inr (userID, version) else Inl (Unauthenticated ''unauthorized''))"
proof -
  let ?p = "issued_payload payload tokenType"
  let ?u = "u\<lparr>st_world := snd (env_now E (st_world u))\<rparr>"
  note valid = ValidateToken_issued [OF laws run _ fresh]
  have p: "?p ''id'' = Some (JStr userID)" "?p ''role'' = Some (JStr role)" "?p ''type'' = Some (JStr tokenType)"
    "?p TokenVersionClaim = Some (JUint64 version)"
    using payload by (simp_all add: issued_payload_def default_claim_def TokenVersionClaim_def)
  have j: "json_claims ?p ''id'' = Some (JStr userID)" "json_claims ?p ''role'' = Some (JStr role)"
    "json_claims ?p ''type'' = Some (JStr tokenType)"
    using p by (simp_all add: json_claims_def)
  note version = TokenVersion_json [of ?p, OF p(4) payload(5)]
  have ne: "gc_headers c ''Authorization'' \<noteq> ''''" using header(1) run(2) by auto
  have "fst (JWT E J cfg expected c u) =
      Inr (if expected = tokenType then identified c userID role version
           else Abort (ctx_JSON c StatusUnauthorized NoBody))"
    using ne valid [OF header(1)] j version payload(2)
    by (simp add: JWT_def Let_def tryG_def reject_def retG_def identified_def)
  moreover have "fst (authorize E J cfg ctx expected u) =
      (if expected = tokenType then Inr (userID, version) else Inl (Unauthenticated ''unauthorized''))"
    using header(2) valid [of token] j version payload(2)
    by (simp add: authorize_def tryG_def retG_def throwG_def)
  ultimately show ?thesis ..
qed

text \<open>A library that signs one token, for the witness.\<close>

definition demo_clock :: "unit env" where
  "demo_clock = \<lparr>env_fault = (\<lambda>w. (None, w)), env_locked = (\<lambda>w. (\<lambda>_. False, w)), env_now = (\<lambda>w. (7000000000, w)),
     env_date = (\<lambda>w. ((2025, 1, 2), w)), env_uuid = (\<lambda>w. (''id'', w)), env_rand = (\<lambda>w. (0, w)),
     env_bcrypt = (\<lambda>p w. (Inr p, w))\<rparr>"

definition demo_payload :: claims where
  "demo_payload = [''id'' \<mapsto> JStr ''u1'', ''role'' \<mapsto> JStr ''admin'', TokenVersionClaim \<mapsto> JUint64 3]"

definition demo_claims :: claims where
  "demo_claims = token_claims demo_payload AccessTokenType 300 7000000000"

definition demo_jwt :: jwtlib where
  "demo_jwt =
     \<lparr>jwt_SignedString = (\<lambda>key cl. if key = cfg_AuthSecret demo_config \<and> cl = demo_claims then Inr ''a.b.c'' else Inl (ErrNew ''sign'')),
      jwt_ParseWithClaims = (\<lambda>methods kf now token.
        if token = ''a.b.c'' \<and> ''HS256'' \<in> set methods \<and> kf ''HS256'' = Inr (cfg_AuthSecret demo_config) \<and> now < 307
        then Inr (True, json_claims demo_claims) else Inl (ErrNew ''token is unverifiable''))\<rparr>"

definition empty_state :: "unit st" where
  "empty_state = \<lparr>st_world = (), st_metrics = [], st_users = [], st_products = [], st_inventories = [],
     st_orders = [], st_order_lines = [], st_outbox_events = [], st_carts = [], st_cart_lines = []\<rparr>"

definition demo_ctx :: "string \<Rightarrow> unit ginctx" where
  "demo_ctx header = \<lparr>gc_method = ''GET'', gc_path = ''/'', gc_headers = (\<lambda>h. if h = ''Authorization'' then header else ''''),
     gc_params = (\<lambda>_. ''''), gc_keys = Map.empty, gc_written = [], gc_aborted = False\<rparr>"

definition demo_grpc :: grpcctx where
  "demo_grpc = \<lparr>gx_token = Some [''a.b.c''], gx_userID = None, gx_tokenVersion = None\<rparr>"

lemma demo_jwt_laws: "jwt_laws demo_jwt"
proof -
  have "demo_claims ''exp'' = Some (JInt 307)"
    by (simp add: demo_claims_def token_claims_def Let_def Unix_def second_ns_def)
  moreover have "TrimSpace ''a.b.c'' = ''a.b.c''" "\<not> has_prefix bearerPrefix ''a.b.c''" by code_simp+
  ultimately show ?thesis by (auto simp: jwt_laws_def demo_jwt_def split: if_splits)
qed

theorem token_round_trip_witness:
  "fst (JWT demo_clock demo_jwt demo_config AccessTokenType (demo_ctx ''Bearer a.b.c'') empty_state) =
     Inr (identified (demo_ctx ''Bearer a.b.c'') ''u1'' ''admin'' 3) \<and>
   fst (authorize demo_clock demo_jwt demo_config demo_grpc RefreshTokenType empty_state) =
     Inl (Unauthenticated ''unauthorized'')"
proof -
  have run: "generateToken demo_clock demo_jwt demo_config demo_payload AccessTokenType 300 empty_state = (Inr ''a.b.c'', empty_state)"
    by (simp add: generateToken_def gom demo_clock_def demo_jwt_def demo_claims_def empty_state_def)
  note r = token_round_trip [OF demo_jwt_laws _ _ _ _ _ run, where u = empty_state and c = "demo_ctx ''Bearer a.b.c''"
      and ctx = demo_grpc and userID = "''u1''" and role = "''admin''" and version = 3]
  have "TrimSpace ''u1'' \<noteq> ''''" by code_simp
  then have side: "demo_payload ''id'' = Some (JStr ''u1'')" "TrimSpace ''u1'' \<noteq> ''''" "demo_payload ''role'' = Some (JStr ''admin'')"
    "demo_payload TokenVersionClaim = Some (JUint64 3)" "uint (3 :: 64 word) < 2 ^ 53" "''a.b.c'' \<noteq> ''''"
    "Unix (fst (env_now demo_clock (st_world empty_state))) < Unix (fst (env_now demo_clock (st_world empty_state)) + second_ns * 300)"
    "gc_headers (demo_ctx ''Bearer a.b.c'') ''Authorization'' \<in> {''a.b.c'', bearerPrefix @ ''a.b.c''}"
    "gx_token demo_grpc = Some [''a.b.c'']"
    by (simp_all add: demo_payload_def TokenVersionClaim_def demo_clock_def Unix_def second_ns_def demo_ctx_def bearerPrefix_def demo_grpc_def)
  from r [OF side, of AccessTokenType] r [OF side, of RefreshTokenType] show ?thesis
    by (simp add: AccessTokenType_def RefreshTokenType_def)
qed

section \<open>Guards\<close>

lemma ValidateToken_frame [frames, simp]: "keepsG world_only (ValidateToken E J cfg h)"
  unfolding ValidateToken_def Let_def by (auto intro!: framing split: jvalue.splits option.splits)

text \<open>What the middleware lets pass, and what it does to the rest.\<close>

definition token_payload :: "'w env \<Rightarrow> jwtlib \<Rightarrow> Schema \<Rightarrow> string \<Rightarrow> 'd ginctx \<Rightarrow> 'w st \<Rightarrow> claims \<Rightarrow> bool" where
  "token_payload E J cfg tokenType c s payload \<longleftrightarrow>
     fst (ValidateToken E J cfg (gc_headers c ''Authorization'') s) = Inr payload \<and> payload ''type'' = Some (JStr tokenType)"

lemma JWT_cases:
  assumes "JWT E J cfg tokenType c s = (r, t)"
  obtains "r = Inr (Abort (ctx_JSON c StatusUnauthorized NoBody))" "world_only s t"
  | payload userID version where "token_payload E J cfg tokenType c s payload" "payload ''id'' = Some (JStr userID)"
      "TrimSpace userID \<noteq> ''''" "TokenVersion payload = Inr version" "world_only s t"
      "r = Inr (SetKey (SetKey (SetKey c ''userId'' (JStr userID)) ''role'' (case payload ''role'' of Some v \<Rightarrow> v | None \<Rightarrow> JNull))
             tokenVersionGinKey (JUint64 version))"
proof (cases "gc_headers c ''Authorization'' = ''''")
  case True
  with assms that(1) show ?thesis by (simp add: JWT_def reject_def retG_def)
next
  case False
  obtain x u where x: "ValidateToken E J cfg (gc_headers c ''Authorization'') s = (x, u)" by fastforce
  have w: "world_only s u" using keepsGD [OF ValidateToken_frame x] .
  note run = assms [unfolded JWT_def Let_def tryG_def x] False
  show ?thesis
  proof (cases "\<exists>payload userID version. x = Inr payload \<and> payload ''type'' = Some (JStr tokenType) \<and>
      payload ''id'' = Some (JStr userID) \<and> TrimSpace userID \<noteq> '''' \<and> TokenVersion payload = Inr version")
    case True
    then obtain payload userID version where p: "x = Inr payload" "payload ''type'' = Some (JStr tokenType)"
      "payload ''id'' = Some (JStr userID)" "TrimSpace userID \<noteq> ''''" "TokenVersion payload = Inr version" by blast
    show ?thesis
      by (rule that(2) [OF _ p(3-5)]) (use run p w in \<open>simp_all add: token_payload_def x retG_def\<close>)
  next
    case no: False
    have "r = Inr (Abort (ctx_JSON c StatusUnauthorized NoBody)) \<and> t = u"
      using run no by (cases x) (auto simp: x reject_def retG_def split: option.splits jvalue.splits sum.splits if_splits)
    with w show ?thesis by (intro that(1)) simp_all
  qed
qed

lemma GetString_role [simp]:
  "GetString (SetKey (SetKey (SetKey c ''userId'' a) ''role'' v) tokenVersionGinKey b) ''role'' = (case v of JStr x \<Rightarrow> x | _ \<Rightarrow> '''')"
  "GetString (SetKey (SetKey (SetKey c ''userId'' (JStr x)) ''role'' v) tokenVersionGinKey b) ''userId'' = x"
  by (simp_all add: GetString_def tokenVersionGinKey_def)

text \<open>
  A chain behind both guards: the handler runs only for a request whose token is a valid access
  token of an admin; every other request gets one answer, 401 or 403, and changes nothing.
\<close>

lemma admin_chain_cases:
  assumes run: "run_chain [JWTAuth E J cfg, RequireRole production ''admin'', h] c s = (r, t)" and c: "\<not> gc_aborted c"
  obtains c1 a where "r = Inr c1" "gc_written c1 = gc_written c @ [a]" "an_status a \<in> {StatusUnauthorized, StatusForbidden}" "world_only s t"
  | payload c1 u where "token_payload E J cfg AccessTokenType c s payload" "payload ''role'' = Some (JStr ''admin'')"
      "GetString c1 ''userId'' \<noteq> ''''" "world_only s u" "gc_written c1 = gc_written c" "gc_params c1 = gc_params c"
      "run_chain [h] c1 u = (r, t)" "c1 = c\<lparr>gc_keys := gc_keys c1\<rparr>"
proof -
  obtain x u where x: "JWTAuth E J cfg c s = (x, u)" by fastforce
  from x [unfolded JWTAuth_def] show ?thesis
  proof (cases rule: JWT_cases)
    case 1
    with run x have "r = x" "t = u" by (simp_all add: bindG_def retG_def)
    with 1 show ?thesis
      by (intro that(1) [of "Abort (ctx_JSON c StatusUnauthorized NoBody)" "\<lparr>an_status = StatusUnauthorized, an_body = NoBody\<rparr>"]) simp_all
  next
    case (2 payload userID version)
    let ?c = "SetKey (SetKey (SetKey c ''userId'' (JStr userID)) ''role'' (case payload ''role'' of Some v \<Rightarrow> v | None \<Rightarrow> JNull))
             tokenVersionGinKey (JUint64 version)"
    have rest: "run_chain [RequireRole production ''admin'', h] ?c u = (r, t)"
      using run x 2(6) c by (simp add: bindG_def)
    show ?thesis
    proof (cases "payload ''role'' = Some (JStr ''admin'')")
      case True
      with rest c have "run_chain [h] ?c u = (r, t)" by (simp add: bindG_def RequireRole_def retG_def)
      moreover have "?c = c\<lparr>gc_keys := gc_keys ?c\<rparr>" by (simp add: SetKey_def)
      ultimately show ?thesis using 2 True by (intro that(2) [of payload ?c u]) (auto simp: TrimSpace_def simp del: SetKey_sel(1))
    next
      case False
      then have "GetString ?c ''role'' \<noteq> ''admin''" by (auto split: option.splits jvalue.splits)
      with rest have "r = Inr (Abort (Response_Error production ?c StatusForbidden (ErrNew ''permission denied'') ''Permission denied''))" "t = u"
        by (simp_all add: bindG_def RequireRole_def retG_def del: GetString_role)
      with 2(5) show ?thesis
        by (intro that(1) [of "Abort (Response_Error production ?c StatusForbidden (ErrNew ''permission denied'') ''Permission denied'')"
              "\<lparr>an_status = StatusForbidden, an_body = ErrorBody ''Permission denied''
              (if \<not> production \<and> StatusForbidden < 500 then Some (ErrNew ''permission denied'') else None)\<rparr>"])
          (simp_all add: Response_Error_def)
    qed
  qed
qed

end
