(* ===== verification/User.thy ===== *)
theory User
  imports Auth Schema
begin

text \<open>
  \<open>internal/user\<close>: repository, service, and the HTTP and gRPC handlers. The lemmas show what
  registering and changing the password do to the table, that a change of the password revokes
  the refresh tokens issued before, and how a login that upgrades a hash can undo it.
\<close>

section \<open>Repository\<close>

record 'w IUserRepository =
  ur_Create :: "User \<Rightarrow> ('w st, User) gom"
  ur_Update :: "User \<Rightarrow> ('w st, User) gom"
  ur_GetUserByID :: "string \<Rightarrow> ('w st, User) gom"
  ur_GetUserByEmail :: "string \<Rightarrow> ('w st, User) gom"

definition UserRepo_Create :: "'w env \<Rightarrow> User \<Rightarrow> ('w st, User) gom" where
  "UserRepo_Create E user = Create E (users_table E) user"

definition UserRepo_Update :: "'w env \<Rightarrow> User \<Rightarrow> ('w st, User) gom" where
  "UserRepo_Update E user = Update E (users_table E) user"

definition UserRepo_GetUserByID :: "'w env \<Rightarrow> string \<Rightarrow> ('w st, User) gom" where
  "UserRepo_GetUserByID E i = FindById E (users_table E) i"

definition UserRepo_GetUserByEmail :: "'w env \<Rightarrow> string \<Rightarrow> ('w st, User) gom" where
  "UserRepo_GetUserByEmail E email = FindOne E (users_table E) [WithQuery [\<lambda>u. u_Email u = email]]"

definition NewUserRepository :: "'w env \<Rightarrow> 'w IUserRepository" where
  "NewUserRepository E =
     \<lparr>ur_Create = UserRepo_Create E, ur_Update = UserRepo_Update E, ur_GetUserByID = UserRepo_GetUserByID E,
      ur_GetUserByEmail = UserRepo_GetUserByEmail E\<rparr>"

section \<open>Service\<close>

record LoginReq =
  lq_Email :: string
  lq_Password :: string

record RegisterReq =
  rq_Email :: string
  rq_Password :: string

record ChangePasswordReq =
  cq_Password :: string
  cq_NewPassword :: string

text \<open>The validator, \<open>bcrypt\<close> and the token library as the service uses them.\<close>

record bcryptlib =
  bc_Compare :: "string \<Rightarrow> string \<Rightarrow> bool"
  bc_Cost :: "string \<Rightarrow> goerr + int64"

definition bcrypt_DefaultCost :: int64 where "bcrypt_DefaultCost = 10"

record 'w UserService =
  us_validateLogin :: "LoginReq \<Rightarrow> goerr option"
  us_validateRegister :: "RegisterReq \<Rightarrow> goerr option"
  us_validateChange :: "ChangePasswordReq \<Rightarrow> goerr option"
  us_repo :: "'w IUserRepository"
  us_env :: "'w env"
  us_bcrypt :: bcryptlib
  us_jwt :: jwtlib
  us_cfg :: Schema

definition tokenData :: "User \<Rightarrow> claims" where
  "tokenData user =
     [''id'' \<mapsto> JStr (u_ID user), ''role'' \<mapsto> JStr (u_Role user), TokenVersionClaim \<mapsto> JUint64 (u_TokenVersion user)]"

definition upgradePasswordHash :: "'w UserService \<Rightarrow> User \<Rightarrow> string \<Rightarrow> ('w st, User) gom" where
  "upgradePasswordHash s user password =
     bindG (liftG (bc_Cost (us_bcrypt s) (u_Password user))) (\<lambda>cost.
     if bcrypt_DefaultCost \<le> cost then retG user
     else
       bindG (HashAndSalt (us_env s) password) (\<lambda>hashedPassword.
       ur_Update (us_repo s) (user\<lparr>u_Password := hashedPassword\<rparr>)))"

definition UserService_Login :: "'w UserService \<Rightarrow> LoginReq \<Rightarrow> ('w st, User \<times> string \<times> string) gom" where
  "UserService_Login s req =
     bindG (checkG (us_validateLogin s req)) (\<lambda>_.
     bindG (ur_GetUserByEmail (us_repo s) (lq_Email req)) (\<lambda>user.
     if \<not> bc_Compare (us_bcrypt s) (u_Password user) (lq_Password req) then throwG (ErrNew ''wrong password'')
     else
       bindG (upgradePasswordHash s user (lq_Password req)) (\<lambda>user1.
       bindG (GenerateAccessToken (us_env s) (us_jwt s) (us_cfg s) (tokenData user1)) (\<lambda>accessToken.
       bindG (GenerateRefreshToken (us_env s) (us_jwt s) (us_cfg s) (tokenData user1)) (\<lambda>refreshToken.
       retG (user1, accessToken, refreshToken))))))"

definition new_user :: "RegisterReq \<Rightarrow> User" where
  "new_user req = \<lparr>u_ID = '''', u_CreatedAt = zero_time, u_UpdatedAt = zero_time, u_DeletedAt = None, u_Email = rq_Email req,
     u_Password = rq_Password req, u_Role = '''', u_TokenVersion = 0\<rparr>"

definition UserService_Register :: "'w UserService \<Rightarrow> RegisterReq \<Rightarrow> ('w st, User) gom" where
  "UserService_Register s req =
     bindG (checkG (us_validateRegister s req)) (\<lambda>_. ur_Create (us_repo s) (new_user req))"

definition UserService_GetUserByID :: "'w UserService \<Rightarrow> string \<Rightarrow> ('w st, User) gom" where
  "UserService_GetUserByID s i = ur_GetUserByID (us_repo s) i"

definition UserService_RefreshToken :: "'w UserService \<Rightarrow> string \<Rightarrow> 64 word \<Rightarrow> ('w st, string) gom" where
  "UserService_RefreshToken s userID tokenVersion =
     bindG (ur_GetUserByID (us_repo s) userID) (\<lambda>user.
     if u_TokenVersion user \<noteq> tokenVersion then throwG ErrRefreshTokenRevoked
     else GenerateAccessToken (us_env s) (us_jwt s) (us_cfg s) (tokenData user))"

definition UserService_ChangePassword :: "'w UserService \<Rightarrow> string \<Rightarrow> ChangePasswordReq \<Rightarrow> ('w st, unit) gom" where
  "UserService_ChangePassword s i req =
     bindG (checkG (us_validateChange s req)) (\<lambda>_.
     bindG (ur_GetUserByID (us_repo s) i) (\<lambda>user.
     if \<not> bc_Compare (us_bcrypt s) (u_Password user) (cq_Password req) then throwG (ErrNew ''wrong password'')
     else
       bindG (HashAndSalt (us_env s) (cq_NewPassword req)) (\<lambda>hashedPassword.
       bindG (ur_Update (us_repo s)
                (user\<lparr>u_Password := hashedPassword, u_TokenVersion := u_TokenVersion user + 1\<rparr>)) (\<lambda>_. retG ()))))"

definition NewUserService ::
    "'w env \<Rightarrow> bcryptlib \<Rightarrow> jwtlib \<Rightarrow> Schema \<Rightarrow> (LoginReq \<Rightarrow> goerr option) \<Rightarrow> (RegisterReq \<Rightarrow> goerr option) \<Rightarrow>
     (ChangePasswordReq \<Rightarrow> goerr option) \<Rightarrow> 'w UserService" where
  "NewUserService E B J cfg vl vr vc =
     \<lparr>us_validateLogin = vl, us_validateRegister = vr, us_validateChange = vc, us_repo = NewUserRepository E,
      us_env = E, us_bcrypt = B, us_jwt = J, us_cfg = cfg\<rparr>"

section \<open>HTTP handlers\<close>

record UserDto =
  ud_ID :: string
  ud_Email :: string
  ud_CreatedAt :: time
  ud_UpdatedAt :: time

datatype user_data =
    LoginRes UserDto string string
  | RegisterRes UserDto
  | UserRes UserDto
  | RefreshTokenRes string
  | NilRes

text \<open>\<open>utils.Copy\<close> from the row: the columns that the DTO names.\<close>

definition copyUser :: "User \<Rightarrow> UserDto" where
  "copyUser u = \<lparr>ud_ID = u_ID u, ud_Email = u_Email u, ud_CreatedAt = u_CreatedAt u, ud_UpdatedAt = u_UpdatedAt u\<rparr>"

text \<open>
  A handler with the service it calls and what \<open>ShouldBindJSON\<close> makes of the body. The binding
  reports an error for a missing body, which the test \<open>c.Request.Body == nil\<close> repeats.
\<close>

record 'w UserHandler =
  uh_service :: "'w UserService"
  uh_bindLogin :: "user_data ginctx \<Rightarrow> goerr + LoginReq"
  uh_bindRegister :: "user_data ginctx \<Rightarrow> goerr + RegisterReq"
  uh_bindChange :: "user_data ginctx \<Rightarrow> goerr + ChangePasswordReq"
  uh_production :: bool

definition unauthorized :: goerr where "unauthorized = ErrNew ''unauthorized''"

definition somethingWrong :: "bool \<Rightarrow> 'd ginctx \<Rightarrow> goerr \<Rightarrow> ('w st, 'd ginctx) gom" where
  "somethingWrong production c err = failG production c StatusInternalServerError err ''Something went wrong''"

definition UserHandler_Login :: "'w UserHandler \<Rightarrow> ('w, user_data) handler" where
  "UserHandler_Login h c =
     (case uh_bindLogin h c of
        Inl err \<Rightarrow> failG (uh_production h) c StatusBadRequest err ''Invalid parameters''
      | Inr req \<Rightarrow>
          tryG (UserService_Login (uh_service h) req) (\<lambda>r. case r of
            Inl err \<Rightarrow> somethingWrong (uh_production h) c err
          | Inr (user, accessToken, refreshToken) \<Rightarrow> okG c (LoginRes (copyUser user) accessToken refreshToken)))"

definition UserHandler_Register :: "'w UserHandler \<Rightarrow> ('w, user_data) handler" where
  "UserHandler_Register h c =
     (case uh_bindRegister h c of
        Inl err \<Rightarrow> failG (uh_production h) c StatusBadRequest err ''Invalid parameters''
      | Inr req \<Rightarrow>
          tryG (UserService_Register (uh_service h) req) (\<lambda>r. case r of
            Inl err \<Rightarrow> somethingWrong (uh_production h) c err
          | Inr user \<Rightarrow> okG c (RegisterRes (copyUser user))))"

definition UserHandler_GetMe :: "'w UserHandler \<Rightarrow> ('w, user_data) handler" where
  "UserHandler_GetMe h c =
     (let userID = GetString c ''userId''
      in if userID = '''' then failG (uh_production h) c StatusUnauthorized unauthorized ''Unauthorized''
         else
           tryG (UserService_GetUserByID (uh_service h) userID) (\<lambda>r. case r of
             Inl err \<Rightarrow> somethingWrong (uh_production h) c err
           | Inr user \<Rightarrow> okG c (UserRes (copyUser user))))"

definition UserHandler_RefreshToken :: "'w UserHandler \<Rightarrow> ('w, user_data) handler" where
  "UserHandler_RefreshToken h c =
     (let userID = GetString c ''userId''; (tokenVersion, ok) = TokenVersionFromGinContext c
      in if userID = '''' then failG (uh_production h) c StatusUnauthorized unauthorized ''Unauthorized''
         else if \<not> ok then failG (uh_production h) c StatusUnauthorized unauthorized ''Unauthorized''
         else
           tryG (UserService_RefreshToken (uh_service h) userID tokenVersion) (\<lambda>r. case r of
             Inl err \<Rightarrow>
               if errors_Is err ErrRefreshTokenRevoked
               then failG (uh_production h) c StatusUnauthorized err ''Unauthorized''
               else somethingWrong (uh_production h) c err
           | Inr accessToken \<Rightarrow> okG c (RefreshTokenRes accessToken)))"

definition UserHandler_ChangePassword :: "'w UserHandler \<Rightarrow> ('w, user_data) handler" where
  "UserHandler_ChangePassword h c =
     (case uh_bindChange h c of
        Inl err \<Rightarrow> failG (uh_production h) c StatusBadRequest err ''Invalid parameters''
      | Inr req \<Rightarrow>
          tryG (UserService_ChangePassword (uh_service h) (GetString c ''userId'') req) (\<lambda>r. case r of
            Inl err \<Rightarrow> somethingWrong (uh_production h) c err
          | Inr _ \<Rightarrow> okG c NilRes))"

definition User_Routes ::
    "'w env \<Rightarrow> jwtlib \<Rightarrow> Schema \<Rightarrow> 'w UserHandler \<Rightarrow> ((string \<times> string) \<times> ('w, user_data) handler list) list" where
  "User_Routes E J cfg h =
     [((''POST'', ''/auth/register''), [UserHandler_Register h]),
      ((''POST'', ''/auth/login''), [UserHandler_Login h]),
      ((''POST'', ''/auth/refresh''), [JWTRefresh E J cfg, UserHandler_RefreshToken h]),
      ((''GET'', ''/auth/me''), [JWTAuth E J cfg, UserHandler_GetMe h]),
      ((''PUT'', ''/auth/change-password''), [JWTAuth E J cfg, UserHandler_ChangePassword h])]"

section \<open>gRPC handlers\<close>

definition UserGrpc_Login :: "'w UserService \<Rightarrow> grpcctx \<Rightarrow> LoginReq \<Rightarrow> ('w st, user_data) gom" where
  "UserGrpc_Login s ctx req =
     bindG (UserService_Login s req) (\<lambda>(user, accessToken, refreshToken).
     retG (LoginRes (copyUser user) accessToken refreshToken))"

definition UserGrpc_Register :: "'w UserService \<Rightarrow> grpcctx \<Rightarrow> RegisterReq \<Rightarrow> ('w st, user_data) gom" where
  "UserGrpc_Register s ctx req = bindG (UserService_Register s req) (\<lambda>user. retG (RegisterRes (copyUser user)))"

definition UserGrpc_GetMe :: "'w UserService \<Rightarrow> grpcctx \<Rightarrow> ('w st, user_data) gom" where
  "UserGrpc_GetMe s ctx =
     (let userID = UserIDFromContext ctx
      in if userID = '''' then throwG unauthorized
         else bindG (UserService_GetUserByID s userID) (\<lambda>user. retG (UserRes (copyUser user))))"

definition UserGrpc_RefreshToken :: "'w UserService \<Rightarrow> grpcctx \<Rightarrow> ('w st, user_data) gom" where
  "UserGrpc_RefreshToken s ctx =
     (let userID = UserIDFromContext ctx; (tokenVersion, ok) = TokenVersionFromContext ctx
      in if userID = '''' \<or> \<not> ok then throwG unauthorized
         else
           tryG (UserService_RefreshToken s userID tokenVersion) (\<lambda>r. case r of
             Inl err \<Rightarrow>
               if errors_Is err ErrRefreshTokenRevoked then throwG (Unauthenticated ''unauthorized'') else throwG err
           | Inr accessToken \<Rightarrow> retG (RefreshTokenRes accessToken)))"

definition UserGrpc_ChangePassword :: "'w UserService \<Rightarrow> grpcctx \<Rightarrow> ChangePasswordReq \<Rightarrow> ('w st, user_data) gom" where
  "UserGrpc_ChangePassword s ctx req =
     (let userID = UserIDFromContext ctx
      in if userID = '''' then throwG unauthorized
         else bindG (UserService_ChangePassword s userID req) (\<lambda>_. retG NilRes))"

section \<open>What the operations do to the table\<close>

definition only_users :: "'w st \<Rightarrow> 'w st \<Rightarrow> bool" where
  "only_users s t \<longleftrightarrow> same_tables (s\<lparr>st_users := []\<rparr>) (t\<lparr>st_users := []\<rparr>)"

lemmas user_service_sel = NewUserService_def NewUserRepository_def

lemma UserRepo_reads_frame [frames, simp]:
  "keepsG world_only (UserRepo_GetUserByID E i)" "keepsG world_only (UserRepo_GetUserByEmail E em)"
  by (simp_all add: UserRepo_GetUserByID_def UserRepo_GetUserByEmail_def)

lemma UserRepo_GetUserByID_Inr:
  assumes "UserRepo_GetUserByID E i s = (Inr u, t)"
  shows "world_only s t" "u \<in> set (st_users s)" "u_ID u = i"
  using users.FindById_Inr [OF assms [unfolded UserRepo_GetUserByID_def]] by (simp_all add: users_table_def)

lemma UserRepo_Update_existing:
  assumes "UserRepo_Update E d s = (res, t)" "r0 \<in> set (st_users s)" "u_ID r0 = u_ID d"
  shows "case res of
      Inl e \<Rightarrow> world_only s t
    | Inr row \<Rightarrow> \<exists>now. row = d\<lparr>u_UpdatedAt := now\<rparr> \<and> only_users s t \<and> st_metrics t = st_metrics s \<and>
        st_users t = map (\<lambda>r. if u_ID r = u_ID d then row else r) (st_users s)"
proof -
  have "r0 \<in> set (tb_rows (users_table E) s)" "tb_key (users_table E) r0 = tb_key (users_table E) d"
    using assms(2,3) by (simp_all add: users_table_def)
  from users.Update_existing [OF assms(1) [unfolded UserRepo_Update_def] this] show ?thesis
    by (cases res) (auto simp: users_table_def world_only_iff same_tables_iff same_metrics_def only_users_def)
qed

lemma UserService_ChangePassword_run:
  assumes svc: "svc = NewUserService E B J cfg vl vr vc" and run: "UserService_ChangePassword svc i req s = (r, t)"
  shows "case r of
      Inl e \<Rightarrow> world_only s t
    | Inr _ \<Rightarrow> \<exists>u now h w. u \<in> set (st_users s) \<and> u_ID u = i \<and> bc_Compare B (u_Password u) (cq_Password req) \<and>
        fst (env_bcrypt E (cq_NewPassword req) w) = Inr h \<and> only_users s t \<and>
        st_users t = map (\<lambda>x. if u_ID x = i
          then u\<lparr>u_Password := h, u_TokenVersion := u_TokenVersion u + 1, u_UpdatedAt := now\<rparr> else x) (st_users s)"
proof (cases "vc req")
  case None
  obtain g a where g: "UserRepo_GetUserByID E i s = (g, a)" by fastforce
  have sa: "world_only s a" using keepsGD [OF UserRepo_reads_frame(1) g] .
  note run' = run [unfolded UserService_ChangePassword_def]
  show ?thesis
  proof (cases g)
    case (Inl e)
    with run' g None sa show ?thesis by (auto simp: svc user_service_sel bindG_def checkG_def)
  next
    case (Inr u)
    note u = UserRepo_GetUserByID_Inr [OF g [unfolded Inr]]
    obtain q b where q: "HashAndSalt E (cq_NewPassword req) a = (q, b)" by fastforce
    have ab: "world_only a b" using keepsGD [OF HashAndSalt_frame q] .
    have sb: "world_only s b" using sa ab by (rule world_only_trans)
    show ?thesis
    proof (cases "bc_Compare B (u_Password u) (cq_Password req) \<and> \<not> isl q")
      case False
      with run' g None Inr q sa sb show ?thesis
        by (auto simp: svc user_service_sel bindG_def checkG_def throwG_def isl_def split: if_splits sum.splits)
    next
      case True
      then obtain h where h: "q = Inr h" by (cases q) auto
      let ?d = "u\<lparr>u_Password := h, u_TokenVersion := u_TokenVersion u + 1\<rparr>"
      obtain x y where x: "UserRepo_Update E ?d b = (x, y)" by fastforce
      have r: "r = (case x of Inl e \<Rightarrow> Inl e | Inr _ \<Rightarrow> Inr ())" "t = y"
        using run' g None Inr q h x True by (auto simp: svc user_service_sel bindG_def checkG_def retG_def split: sum.splits)
      have bc: "\<exists>w. fst (env_bcrypt E (cq_NewPassword req) w) = Inr h"
        using q h by (auto simp: HashAndSalt_def gom)
      have rows: "st_users b = st_users s" using sb by (simp add: world_only_iff same_tables_iff)
      with u(2) have "u \<in> set (st_users b)" by simp
      from UserRepo_Update_existing [OF x this] u(3) rows sb
      have "case x of Inl e \<Rightarrow> world_only s t
        | Inr row \<Rightarrow> \<exists>now. row = ?d\<lparr>u_UpdatedAt := now\<rparr> \<and> only_users s t \<and>
            st_users t = map (\<lambda>r. if u_ID r = i then row else r) (st_users s)"
        by (auto simp: r(2) only_users_def world_only_iff same_tables_iff same_metrics_def split: sum.splits)
      with r(1) u True bc show ?thesis by (cases x) auto
    qed
  qed
qed (use run in \<open>auto simp: svc user_service_sel UserService_ChangePassword_def bindG_def checkG_def\<close>)

lemma generateToken_frame [frames, simp]: "keepsG world_only (generateToken E J cfg payload tokenType life)"
  unfolding generateToken_def by (auto intro!: framing split: sum.splits)

lemma UserRepo_GetUserByEmail_Inr:
  assumes "UserRepo_GetUserByEmail E email s = (Inr u, t)"
  shows "world_only s t" "u \<in> set (st_users s)" "u_Email u = email"
  using users.FindOne_result [OF assms [unfolded UserRepo_GetUserByEmail_def]]
    keepsGD [OF UserRepo_reads_frame(2) assms]
  by (auto simp: option_defs users_table_def matches_def)

lemma upgradePasswordHash_run:
  assumes svc: "svc = NewUserService E B J cfg vl vr vc" and u: "u \<in> set (st_users s)"
    and run: "upgradePasswordHash svc u password s = (r, t)"
  shows "(case r of Inl _ \<Rightarrow> True | Inr user \<Rightarrow> u_Email user = u_Email u) \<and>
    (same_tables s t \<or>
     (\<exists>h now w. fst (env_bcrypt E password w) = Inr h \<and> only_users s t \<and>
        st_users t = map (\<lambda>x. if u_ID x = u_ID u then u\<lparr>u_Password := h, u_UpdatedAt := now\<rparr> else x) (st_users s)))"
proof (cases "\<exists>cost. bc_Cost B (u_Password u) = Inr cost \<and> cost < bcrypt_DefaultCost")
  case False
  with run show ?thesis
    by (auto simp: upgradePasswordHash_def svc user_service_sel bindG_def liftG_def retG_def split: sum.splits if_splits)
next
  case True
  obtain q a where q: "HashAndSalt E password s = (q, a)" by fastforce
  have sa: "world_only s a" using keepsGD [OF HashAndSalt_frame q] .
  have run': "(case q of Inl e \<Rightarrow> (Inl e, a) | Inr h \<Rightarrow> UserRepo_Update E (u\<lparr>u_Password := h\<rparr>) a) = (r, t)"
    using run True q by (auto simp: upgradePasswordHash_def svc user_service_sel bindG_def liftG_def split: sum.splits)
  show ?thesis
  proof (cases q)
    case (Inl e)
    with run' sa show ?thesis by (auto simp: world_only_iff)
  next
    case (Inr h)
    have rows: "st_users a = st_users s" using sa by (simp add: world_only_iff same_tables_iff)
    from run' Inr have x: "UserRepo_Update E (u\<lparr>u_Password := h\<rparr>) a = (r, t)" by simp
    have "\<exists>w. fst (env_bcrypt E password w) = Inr h" using q Inr by (auto simp: HashAndSalt_def gom)
    with UserRepo_Update_existing [OF x, of u] u rows sa show ?thesis
      by (cases r) (auto simp: only_users_def world_only_iff same_tables_iff same_metrics_def)
  qed
qed

lemma UserService_Login_run:
  assumes svc: "svc = NewUserService E B J cfg vl vr vc" and run: "UserService_Login svc req s = (r, t)"
  shows "(case r of Inl _ \<Rightarrow> True | Inr (user, _, _) \<Rightarrow> u_Email user = lq_Email req) \<and>
    (same_tables s t \<or>
     (\<exists>u h now w. u \<in> set (st_users s) \<and> u_Email u = lq_Email req \<and> bc_Compare B (u_Password u) (lq_Password req) \<and>
        fst (env_bcrypt E (lq_Password req) w) = Inr h \<and> only_users s t \<and>
        st_users t = map (\<lambda>x. if u_ID x = u_ID u then u\<lparr>u_Password := h, u_UpdatedAt := now\<rparr> else x) (st_users s)))"
proof (cases "vl req")
  case None
  obtain g a where g: "UserRepo_GetUserByEmail E (lq_Email req) s = (g, a)" by fastforce
  have sa: "same_tables s a" using keepsGD [OF UserRepo_reads_frame(2) g] by (simp add: world_only_iff)
  show ?thesis
  proof (cases "\<exists>u. g = Inr u \<and> bc_Compare B (u_Password u) (lq_Password req)")
    case False
    with run g None sa show ?thesis
      by (auto simp: UserService_Login_def svc user_service_sel bindG_def checkG_def throwG_def split: sum.splits if_splits)
  next
    case True
    then obtain u where u: "g = Inr u" "bc_Compare B (u_Password u) (lq_Password req)" by blast
    note f = UserRepo_GetUserByEmail_Inr [OF g [unfolded u(1)]]
    obtain q b where q: "upgradePasswordHash svc u (lq_Password req) a = (q, b)" by fastforce
    have "u \<in> set (st_users a)" using f(2) sa by (simp add: same_tables_iff)
    note up = upgradePasswordHash_run [OF svc this q]
    define tokens where "tokens user = bindG (GenerateAccessToken E J cfg (tokenData user)) (\<lambda>accessToken.
       bindG (GenerateRefreshToken E J cfg (tokenData user)) (\<lambda>refreshToken. retG (user, accessToken, refreshToken)))"
      for user :: User
    have frame: "keepsG world_only (tokens user)" for user
      unfolding tokens_def GenerateAccessToken_def GenerateRefreshToken_def by (auto intro!: framing)
    have rest: "(case q of Inl e \<Rightarrow> (Inl e, b) | Inr user \<Rightarrow> tokens user b) = (r, t)"
      using run g None u q
      by (auto simp: UserService_Login_def svc user_service_sel bindG_def checkG_def tokens_def split: sum.splits)
    have bt: "same_tables b t" using rest keepsGD [OF frame] by (cases q) (auto simp: world_only_iff same_tables_iff)
    have "case r of Inl _ \<Rightarrow> True | Inr (user, _, _) \<Rightarrow> u_Email user = lq_Email req"
      using rest up f(3) by (cases q) (auto simp: tokens_def gom split: sum.splits)
    moreover from up have "same_tables a b \<or> (\<exists>h now w. fst (env_bcrypt E (lq_Password req) w) = Inr h \<and> only_users a b \<and>
        st_users b = map (\<lambda>x. if u_ID x = u_ID u then u\<lparr>u_Password := h, u_UpdatedAt := now\<rparr> else x) (st_users a))" by simp
    ultimately show ?thesis
    proof (elim disjE exE conjE)
      assume "same_tables a b"
      with sa bt have "same_tables s t" by (simp add: same_tables_iff)
      then show ?thesis using \<open>case r of Inl _ \<Rightarrow> True | Inr (user, _, _) \<Rightarrow> u_Email user = lq_Email req\<close> by simp
    next
      fix h now w
      assume h: "fst (env_bcrypt E (lq_Password req) w) = Inr h" "only_users a b"
        "st_users b = map (\<lambda>x. if u_ID x = u_ID u then u\<lparr>u_Password := h, u_UpdatedAt := now\<rparr> else x) (st_users a)"
      with sa bt have "only_users s t" "st_users t = map (\<lambda>x. if u_ID x = u_ID u then u\<lparr>u_Password := h, u_UpdatedAt := now\<rparr> else x) (st_users s)"
        by (simp_all add: only_users_def same_tables_iff)
      with h(1) f(2,3) u(2) \<open>case r of Inl _ \<Rightarrow> True | Inr (user, _, _) \<Rightarrow> u_Email user = lq_Email req\<close>
      show ?thesis by (intro conjI disjI2 exI [of _ u] exI [of _ h] exI [of _ now] exI [of _ w]) simp_all
    qed
  qed
qed (use run in \<open>auto simp: svc user_service_sel UserService_Login_def bindG_def checkG_def\<close>)

lemma distinct_ID_unique:
  "distinct (map u_ID us) \<Longrightarrow> x \<in> set us \<Longrightarrow> y \<in> set us \<Longrightarrow> u_ID x = u_ID y \<Longrightarrow> x = y"
  by (rule distinct_key_unique)

lemma map_if_mem: "x \<in> set (map (\<lambda>y. if P y then z else y) xs) \<Longrightarrow> x = z \<or> x \<in> set xs \<and> \<not> P x"
  by (auto split: if_splits)

text \<open>
  C24: changing the password revokes the refresh tokens issued before. A change that succeeds
  was made with the old password, stores the hash of the new one and the next token version in
  the caller's row, and changes nothing else; from then on a refresh with the version of an
  earlier token is answered with an error. A change that fails leaves every table as it was.
\<close>

theorem change_password_revokes_tokens:
  assumes svc: "svc = NewUserService E B J cfg vl vr vc"
    and run: "UserService_ChangePassword svc i req s = (r, t)"
  shows "(\<exists>e. r = Inl e \<and> same_tables s t) \<or>
    (\<exists>u h now w. u \<in> set (st_users s) \<and> u_ID u = i \<and> bc_Compare B (u_Password u) (cq_Password req) \<and>
       fst (env_bcrypt E (cq_NewPassword req) w) = Inr h \<and> only_users s t \<and>
       st_users t = map (\<lambda>x. if u_ID x = i
         then u\<lparr>u_Password := h, u_TokenVersion := u_TokenVersion u + 1, u_UpdatedAt := now\<rparr> else x) (st_users s) \<and>
       (\<forall>t'. st_users t' = st_users t \<longrightarrow> isl (fst (UserService_RefreshToken svc i (u_TokenVersion u) t'))))"
proof (cases r)
  case (Inl e)
  with UserService_ChangePassword_run [OF svc run] show ?thesis by (auto simp: world_only_iff)
next
  case (Inr x)
  with UserService_ChangePassword_run [OF svc run] obtain u now h w where
    u: "u \<in> set (st_users s)" "u_ID u = i" "bc_Compare B (u_Password u) (cq_Password req)"
      "fst (env_bcrypt E (cq_NewPassword req) w) = Inr h" "only_users s t" and
    rows: "st_users t = map (\<lambda>x. if u_ID x = i
      then u\<lparr>u_Password := h, u_TokenVersion := u_TokenVersion u + 1, u_UpdatedAt := now\<rparr> else x) (st_users s)" by auto
  have "isl (fst (UserService_RefreshToken svc i (u_TokenVersion u) t'))" if "st_users t' = st_users t" for t'
  proof (cases "UserRepo_GetUserByID E i t'")
    case (Pair g a)
    show ?thesis
    proof (cases g)
      case (Inr y)
      note y = UserRepo_GetUserByID_Inr [OF Pair [unfolded Inr]]
      from y(2) that rows y(3) have "u_TokenVersion y = u_TokenVersion u + 1" by (auto split: if_splits)
      then show ?thesis using Pair Inr by (simp add: UserService_RefreshToken_def svc user_service_sel bindG_def throwG_def)
    qed (use Pair in \<open>simp add: UserService_RefreshToken_def svc user_service_sel bindG_def\<close>)
  qed
  with u rows show ?thesis by blast
qed

text \<open>
  A login that upgrades the hash can undo a change of the password. The login reads the
  row, and another request changes the password; then the upgrade writes the whole row back as it
  was read. The row again holds a hash of the old password and the old token version, so the
  refresh tokens that the change had revoked are valid again.
\<close>

theorem login_upgrade_undoes_password_change:
  assumes svc: "svc = NewUserService E B J cfg vl vr vc"
    and old: "old \<in> set (st_users s)" "u_ID old = i" "bc_Cost B (u_Password old) = Inr cost" "cost < bcrypt_DefaultCost"
    and change: "UserService_ChangePassword svc i req s = (Inr u, t)"
    and upgrade: "upgradePasswordHash svc old password t = (Inr user, t')"
  shows "\<exists>row \<in> set (st_users t'). u_ID row = i \<and> u_TokenVersion row = u_TokenVersion old \<and>
    (\<exists>w. fst (env_bcrypt E password w) = Inr (u_Password row))"
proof -
  from UserService_ChangePassword_run [OF svc change] obtain v where
    rows: "\<exists>f. st_users t = map (\<lambda>x. if u_ID x = i then v else x) (st_users s)" "u_ID v = i" by fastforce
  from upgrade old(3,4) obtain h a where h: "HashAndSalt E password t = (Inr h, a)"
    and up: "UserRepo_Update E (old\<lparr>u_Password := h\<rparr>) a = (Inr user, t')"
    by (auto simp: upgradePasswordHash_def svc user_service_sel gom)
  have a: "st_users a = st_users t"
    using keepsGD [OF HashAndSalt_frame h] by (simp add: world_only_iff same_tables_iff)
  from h have w: "\<exists>w. fst (env_bcrypt E password w) = Inr h" by (auto simp: HashAndSalt_def gom)
  have "v \<in> set (st_users a)" using a rows old(1,2) by (auto intro!: image_eqI [of _ _ old])
  from UserRepo_Update_existing [OF up this] rows(2) old(2) obtain now where
    row: "user = old\<lparr>u_Password := h, u_UpdatedAt := now\<rparr>" and
    rows': "st_users t' = map (\<lambda>r. if u_ID r = i then user else r) (st_users a)" by auto
  have "user \<in> set (st_users t')"
    using rows' \<open>v \<in> set (st_users a)\<close> rows(2) by (auto intro!: image_eqI [of _ _ v])
  with row old(2) w show ?thesis by (intro bexI [of _ user]) auto
qed

lemma UserService_Register_run:
  assumes svc: "svc = NewUserService E B J cfg vl vr vc"
    and run: "UserService_Register svc req s = (r, t)"
  shows "case r of
      Inl e \<Rightarrow> same_tables s t
    | Inr u \<Rightarrow> st_users t = st_users s @ [u] \<and> only_users s t \<and> u_Email u = rq_Email req \<and> u_Role u = UserRoleCustomer \<and>
        u_TokenVersion u = 0 \<and> (\<exists>w. fst (env_bcrypt E (rq_Password req) w) = Inr (u_Password u)) \<and>
        (\<forall>x \<in> set (st_users s). u_ID x \<noteq> u_ID u \<and> u_Email x \<noteq> u_Email u)"
proof (cases "vr req")
  case None
  with run have c: "Create E (users_table E) (new_user req) s = (r, t)"
    by (simp add: UserService_Register_def svc user_service_sel UserRepo_Create_def bindG_def checkG_def)
  show ?thesis
  proof (cases r)
    case (Inl e)
    with users.Create_Inl [OF c [unfolded Inl]] show ?thesis by (auto simp: world_only_iff)
  next
    case (Inr u)
    obtain d now v where
      raw: "tb_before_create (users_table E) (new_user req) s = (Inr d, v)" "u = tb_created (users_table E) now d" and
      ok: "violation (users_table E) (tb_rows (users_table E) s) u = None" and
      raw': "world_only (tb_put (users_table E) (tb_rows (users_table E) s @ [tb_stored (users_table E) u]) s) t"
      using c unfolding Inr by (rule users.Create_Inr)
    have d: "User_BeforeCreate E (new_user req) s = (Inr d, v)"
        "u = d\<lparr>u_CreatedAt := or_now now (u_CreatedAt d), u_UpdatedAt := or_now now (u_UpdatedAt d)\<rparr>"
      and t: "world_only (s\<lparr>st_users := st_users s @ [u]\<rparr>) t"
      using raw raw' by (simp_all add: users_table_def)
    from d(1) have dd: "u_Email d = rq_Email req" "u_Role d = UserRoleCustomer" "u_TokenVersion d = 0"
      "\<exists>w. fst (env_bcrypt E (rq_Password req) w) = Inr (u_Password d)"
      by (auto simp: User_BeforeCreate_def HashAndSalt_def gom new_user_def)
    have "u_ID x \<noteq> u_ID u \<and> u_Email x \<noteq> u_Email u" if "x \<in> set (st_users s)" for x
      using violation_None_unique [OF ok] that by (fastforce simp: users_table_def)
    with dd d(2) t Inr show ?thesis by (auto simp: world_only_iff same_tables_iff only_users_def)
  qed
qed (use run in \<open>auto simp: svc user_service_sel UserService_Register_def bindG_def checkG_def\<close>)

text \<open>
  C34: whoever registers becomes a customer. The new row has the e-mail address of the request,
  which no other row has, a fresh id, a hash of the password made by \<open>bcrypt\<close>, the role
  \<open>customer\<close> and token version 0; nothing else changes, and a registration that fails changes
  nothing.
\<close>

theorem register_creates_customer:
  assumes svc: "svc = NewUserService E B J cfg vl vr vc"
    and run: "UserService_Register svc req s = (r, t)"
  shows "case r of
      Inl e \<Rightarrow> same_tables s t
    | Inr u \<Rightarrow> st_users t = st_users s @ [u] \<and> only_users s t \<and> u_Email u = rq_Email req \<and> u_Role u = UserRoleCustomer \<and>
        u_TokenVersion u = 0 \<and> (\<exists>w. fst (env_bcrypt E (rq_Password req) w) = Inr (u_Password u)) \<and>
        (\<forall>x \<in> set (st_users s). u_ID x \<noteq> u_ID u \<and> u_Email x \<noteq> u_Email u)"
  by (rule UserService_Register_run [OF svc run])

text \<open>
  C33: only the holder of an access token changes a password, and only his own: a request to
  the route that changes a table carries a valid access token, and at most the row of the user
  that the token names differs afterwards. Every request gets one answer.
\<close>

theorem password_route_guarded:
  assumes h: "uh_service h = NewUserService E B J cfg vl vr vc" and c: "\<not> gc_aborted c"
    and run: "run_chain [JWTAuth E J cfg, UserHandler_ChangePassword h] c s = (r, t)"
  shows "(\<exists>c1. r = Inr c1 \<and> answered c c1) \<and>
    (same_tables s t \<or>
     (\<exists>payload userID x. token_payload E J cfg AccessTokenType c s payload \<and> payload ''id'' = Some (JStr userID) \<and>
        only_users s t \<and> st_users t = map (\<lambda>y. if u_ID y = userID then x else y) (st_users s)))"
proof -
  obtain x a where x: "JWTAuth E J cfg c s = (x, a)" by fastforce
  from x [unfolded JWTAuth_def] show ?thesis
  proof (cases rule: JWT_cases)
    case 1
    with run x have "r = x" "t = a" by (simp_all add: bindG_def retG_def)
    with 1 show ?thesis by (auto simp: answered_def world_only_iff)
  next
    case (2 payload userID version)
    let ?c = "SetKey (SetKey (SetKey c ''userId'' (JStr userID)) ''role'' (case payload ''role'' of Some v \<Rightarrow> v | None \<Rightarrow> JNull))
             tokenVersionGinKey (JUint64 version)"
    obtain y b where y: "UserHandler_ChangePassword h ?c a = (y, b)" by fastforce
    have "run_chain [UserHandler_ChangePassword h] ?c a = (r, t)" using run x 2(6) c by (simp add: bindG_def)
    then have r: "r = y" "t = b" using y by (auto simp: bindG_def retG_def split: sum.splits if_splits)
    have st: "st_users a = st_users s" "same_tables s a" using 2(5) by (simp_all add: world_only_iff same_tables_iff)
    show ?thesis
    proof (cases "uh_bindChange h ?c")
      case (Inl e)
      with y have "y = Inr (Response_Error (uh_production h) ?c StatusBadRequest e ''Invalid parameters'')" "b = a"
        by (simp_all add: UserHandler_ChangePassword_def gom)
      with r st(2) show ?thesis by (simp add: answered_def Response_Error_def)
    next
      case (Inr req)
      obtain q d where q: "UserService_ChangePassword (NewUserService E B J cfg vl vr vc) userID req a = (q, d)" by fastforce
      have yq: "y = Inr (case q of Inl err \<Rightarrow> Response_Error (uh_production h) ?c StatusInternalServerError err ''Something went wrong''
          | Inr _ \<Rightarrow> Response_JSON ?c StatusOK NilRes)" "b = d"
        using y Inr q by (auto simp: UserHandler_ChangePassword_def h tryG_def somethingWrong_def gom split: sum.splits)
      then have "answered c (projr r)" by (auto simp: r(1) answered_def Response_Error_def Response_JSON_def split: sum.splits)
      moreover have "same_tables s t \<or> (\<exists>z. only_users s t \<and> st_users t = map (\<lambda>y. if u_ID y = userID then z else y) (st_users s))"
        using UserService_ChangePassword_run [OF refl q] st r(2) yq(2)
        by (auto simp: world_only_iff same_tables_iff only_users_def split: sum.splits)
      ultimately show ?thesis using 2(1,2) r(1) yq(1) by auto
    qed
  qed
qed

section \<open>Concrete runs\<close>

definition demo_bcrypt :: bcryptlib where
  "demo_bcrypt = \<lparr>bc_Compare = (\<lambda>h p. h = ''hash:'' @ p \<or> h = ''weak:'' @ p),
     bc_Cost = (\<lambda>h. Inr (if has_prefix ''weak:'' h then 4 else 10))\<rparr>"

definition open_jwt :: jwtlib where
  "open_jwt = \<lparr>jwt_SignedString = (\<lambda>_ _. Inr ''a.b.c''),
     jwt_ParseWithClaims = (\<lambda>_ _ _ _. Inr (True, [''payload'' \<mapsto> JMap
       [''id'' \<mapsto> JStr ''u1'', ''role'' \<mapsto> JStr ''customer'', ''type'' \<mapsto> JStr AccessTokenType, TokenVersionClaim \<mapsto> JUint64 7]]))\<rparr>"

definition demo_users :: "nat UserService" where
  "demo_users = NewUserService calm demo_bcrypt open_jwt demo_config (\<lambda>_. None) (\<lambda>_. None) (\<lambda>_. None)"

definition demo_user :: User where
  "demo_user = \<lparr>u_ID = ''u1'', u_CreatedAt = 0, u_UpdatedAt = 0, u_DeletedAt = None, u_Email = ''a@b'', u_Password = ''weak:old'',
     u_Role = UserRoleCustomer, u_TokenVersion = 7\<rparr>"

definition demo_state :: "nat st" where
  "demo_state = empty_st\<lparr>st_users := [demo_user]\<rparr>"

definition demo_change :: ChangePasswordReq where
  "demo_change = \<lparr>cq_Password = ''old'', cq_NewPassword = ''new''\<rparr>"

lemma demo_change_run: "fst (UserService_ChangePassword demo_users ''u1'' demo_change demo_state) = Inr ()"
  by code_simp

theorem change_password_revokes_tokens_witness:
  "isl (fst (UserService_RefreshToken demo_users ''u1'' 7 (snd (UserService_ChangePassword demo_users ''u1'' demo_change demo_state))))"
proof -
  let ?t = "snd (UserService_ChangePassword demo_users ''u1'' demo_change demo_state)"
  have "UserService_ChangePassword demo_users ''u1'' demo_change demo_state = (Inr (), ?t)"
    using demo_change_run by (simp add: prod_eq_iff)
  from change_password_revokes_tokens [OF demo_users_def this] show ?thesis
    by (auto simp: demo_state_def demo_user_def)
qed

theorem login_upgrade_undoes_password_change_witness:
  "let t = snd (UserService_ChangePassword demo_users ''u1'' demo_change demo_state);
       t' = snd (upgradePasswordHash demo_users demo_user ''old'' t)
   in \<exists>row \<in> set (st_users t'). u_ID row = ''u1'' \<and> u_TokenVersion row = 7 \<and> u_Password row = ''hash:old''"
proof -
  let ?t = "snd (UserService_ChangePassword demo_users ''u1'' demo_change demo_state)"
  let ?t' = "snd (upgradePasswordHash demo_users demo_user ''old'' ?t)"
  have change: "UserService_ChangePassword demo_users ''u1'' demo_change demo_state = (Inr (), ?t)"
    using demo_change_run by (simp add: prod_eq_iff)
  have "\<exists>u. fst (upgradePasswordHash demo_users demo_user ''old'' ?t) = Inr u"
    by (rule exI [of _ "demo_user\<lparr>u_Password := ''hash:old'', u_UpdatedAt := 2\<rparr>"]) code_simp
  then obtain u where up: "upgradePasswordHash demo_users demo_user ''old'' ?t = (Inr u, ?t')" by (metis prod.collapse)
  have "demo_user \<in> set (st_users demo_state)" "u_ID demo_user = ''u1''" "bc_Cost demo_bcrypt (u_Password demo_user) = Inr 4"
    "4 < bcrypt_DefaultCost"
    by (simp_all add: demo_state_def demo_user_def demo_bcrypt_def has_prefix_def bcrypt_DefaultCost_def)
  from login_upgrade_undoes_password_change [OF demo_users_def this change up] show ?thesis
    by (auto simp: demo_user_def calm_def)
qed

theorem register_creates_customer_witness:
  "\<exists>u. fst (UserService_Register demo_users \<lparr>rq_Email = ''c@d'', rq_Password = ''pw''\<rparr> demo_state) = Inr u \<and>
     u_Role u = UserRoleCustomer \<and> u_Password u = ''hash:pw''"
proof -
  have "isl (fst (UserService_Register demo_users \<lparr>rq_Email = ''c@d'', rq_Password = ''pw''\<rparr> demo_state)) = False" by code_simp
  then obtain u t where run: "UserService_Register demo_users \<lparr>rq_Email = ''c@d'', rq_Password = ''pw''\<rparr> demo_state = (Inr u, t)"
    by (metis isl_def prod.collapse sum.collapse(2) sum.disc(2))
  from register_creates_customer [OF demo_users_def run] run show ?thesis by (auto simp: calm_def)
qed

definition demo_handler :: "nat UserHandler" where
  "demo_handler = \<lparr>uh_service = demo_users, uh_bindLogin = (\<lambda>_. Inl (ErrNew ''bind'')), uh_bindRegister = (\<lambda>_. Inl (ErrNew ''bind'')),
     uh_bindChange = (\<lambda>_. Inr demo_change), uh_production = False\<rparr>"

definition demo_http_request :: "user_data ginctx" where
  "demo_http_request = \<lparr>gc_method = ''PUT'', gc_path = ''/auth/change-password'', gc_headers = (\<lambda>_. ''Bearer a.b.c''),
     gc_params = (\<lambda>_. ''''), gc_keys = Map.empty, gc_written = [], gc_aborted = False\<rparr>"

theorem password_route_guarded_witness:
  "\<exists>c1. fst (run_chain [JWTAuth calm open_jwt demo_config, UserHandler_ChangePassword demo_handler] demo_http_request demo_state) = Inr c1 \<and>
     answered demo_http_request c1"
proof -
  have "uh_service demo_handler = NewUserService calm demo_bcrypt open_jwt demo_config (\<lambda>_. None) (\<lambda>_. None) (\<lambda>_. None)" "\<not> gc_aborted demo_http_request"
    by (simp_all add: demo_handler_def demo_users_def demo_http_request_def)
  moreover obtain r t where run:
    "run_chain [JWTAuth calm open_jwt demo_config, UserHandler_ChangePassword demo_handler] demo_http_request demo_state = (r, t)" by fastforce
  ultimately show ?thesis using password_route_guarded [OF _ _ run] unfolding run by auto
qed

end
