(* ===== verification/ProductCache.thy ===== *)
theory ProductCache
  imports Product
begin

text \<open>
  The cache of product details (\<open>internal/product/port/http\<close>), between the database and Redis. A handler makes its
  calls one after the other, outside any transaction, so the calls of other requests come between them.

  \<^item> \<open>product_flow\<close> interleaves the single calls of any number of requests; a \<open>SET\<close> or a \<open>DEL\<close> may fail.
  \<^item> \<open>product_requests_are_steps\<close>: the handlers are sequences of these calls.
  \<^item> \<open>flow_ok\<close> is the invariant: where a cached detail comes from, and when it may be out of date.
\<close>

section \<open>The cache of product details\<close>

text \<open>
  The keys of the server: \<open>kv\<close> reads them off the outside world. Values can expire at any time; the
  commands change the keys they name, each of them may fail, and nothing else writes to the server.
\<close>

definition shrinks :: "('w \<Rightarrow> string \<rightharpoonup> string) \<Rightarrow> 'w \<Rightarrow> 'w \<Rightarrow> bool" where
  "shrinks kv w w' \<longleftrightarrow> (\<forall>k v. kv w' k = Some v \<longrightarrow> kv w k = Some v)"

definition kv_laws :: "'w env \<Rightarrow> 'w goredis \<Rightarrow> ('w \<Rightarrow> string \<rightharpoonup> string) \<Rightarrow> bool" where
  "kv_laws E c kv \<longleftrightarrow>
     (\<forall>w. shrinks kv w (snd (env_fault E w)) \<and> shrinks kv w (snd (env_now E w)) \<and> shrinks kv w (snd (env_uuid E w)) \<and>
          shrinks kv w (snd (env_date E w)) \<and> shrinks kv w (snd (env_rand E w))) \<and>
     (\<forall>k w. shrinks kv w (snd (gr_Get c k w)) \<and> (\<forall>v. fst (gr_Get c k w) = Inr v \<longrightarrow> kv w k = Some v)) \<and>
     (\<forall>k v d w k' v'. kv (snd (gr_Set c k v d w)) k' = Some v' \<longrightarrow> k' = k \<and> v' = v \<or> kv w k' = Some v') \<and>
     (\<forall>x ks w r w'. gr_Del c x ks w = (r, w') \<longrightarrow> shrinks kv w w' \<and> (r = Inr () \<longrightarrow> (\<forall>k \<in> set ks. kv w' k = None))) \<and>
     (\<forall>k ms w k' v. kv (snd (gr_Run c (incrementWithExpirationScript c k ms) w)) k' = Some v \<longrightarrow> k' = k \<or> kv w k' = Some v)"

definition st_shrinks :: "('w \<Rightarrow> string \<rightharpoonup> string) \<Rightarrow> 'w st \<Rightarrow> 'w st \<Rightarrow> bool" where
  "st_shrinks kv s t \<longleftrightarrow> shrinks kv (st_world s) (st_world t)"

lemma st_shrinks_po [simp]: "reflp (st_shrinks kv)" "transp (st_shrinks kv)"
  by (auto simp: reflp_def transp_def st_shrinks_def shrinks_def)

lemma st_shrinks_same [simp]: "st_shrinks kv s (s\<lparr>st_products := x\<rparr>)" "st_shrinks kv s s"
  by (simp_all add: st_shrinks_def shrinks_def)

lemma st_shrinks_trans: "st_shrinks kv s t \<Longrightarrow> st_shrinks kv t u \<Longrightarrow> st_shrinks kv s u"
  by (auto simp: st_shrinks_def shrinks_def)

lemmas shrinking = keepsG_if keepsG_case_option keepsG_case_sum keepsG_case_prod
  keepsG_bind [OF st_shrinks_po(2)] keepsG_try [OF st_shrinks_po(2)]

lemma shrinks_ask:
  assumes "kv_laws E c kv"
  shows "keepsG (st_shrinks kv) (askG (env_fault E))" "keepsG (st_shrinks kv) (askG (env_now E))"
    "keepsG (st_shrinks kv) (askG (env_uuid E))" "keepsG (st_shrinks kv) (askG (GenerateCode E p))"
proof -
  show "keepsG (st_shrinks kv) (askG (env_fault E))" "keepsG (st_shrinks kv) (askG (env_now E))" "keepsG (st_shrinks kv) (askG (env_uuid E))"
    using assms by (auto intro!: keepsGI simp: gom st_shrinks_def kv_laws_def)
  have rand: "shrinks kv w (snd (Intn E n w))" for n w
    using assms by (simp add: Intn_def kv_laws_def split: prod.splits) (metis snd_conv)
  have str: "shrinks kv w (snd (stringWithCharset E n w))" for n w
  proof (induction n arbitrary: w)
    case (Suc n)
    obtain i w1 where i: "Intn E (length Charset) w = (i, w1)" by fastforce
    obtain b w2 where b: "stringWithCharset E n w1 = (b, w2)" by fastforce
    have "shrinks kv w w1" "shrinks kv w1 w2" using rand [of w "length Charset"] Suc [of w1] i b by simp_all
    then show ?case using i b by (simp add: shrinks_def)
  qed (simp add: shrinks_def)
  have "shrinks kv w (snd (GenerateCode E p w))" for w
  proof -
    obtain d w1 where d: "env_date E w = (d, w1)" by fastforce
    have "shrinks kv w w1" using assms d by (simp add: kv_laws_def) (metis snd_conv)
    with str [of w1 RandLength] d show ?thesis
      by (auto simp: GenerateCode_def Let_def shrinks_def split: prod.splits)
  qed
  then show "keepsG (st_shrinks kv) (askG (GenerateCode E p))" by (auto intro!: keepsGI simp: gom st_shrinks_def)
qed

lemma shrinks_statements:
  assumes "kv_laws E c kv"
  shows "keepsG (st_shrinks kv) (stmtG E (queryG f))"
    "keepsG (st_shrinks kv) (stmtG E (insertG (products_table E) r))"
    "keepsG (st_shrinks kv) (stmtG E (updateG (products_table E) p g))"
    "keepsG (st_shrinks kv) (stmtG E (upsertG (products_table E) c' g r))"
proof -
  have q: "keepsG (st_shrinks kv) (queryG f)" by (auto intro!: keepsGI simp: gom)
  have i: "keepsG (st_shrinks kv) (insertG (products_table E) r)"
    by (auto intro!: keepsGI simp: insertG_def products_table_def split: option.splits)
  have u: "keepsG (st_shrinks kv) (updateG (products_table E) p g)" for p
    by (auto intro!: keepsGI simp: updateG_def products_table_def Let_def split: sum.splits)
  have "keepsG (st_shrinks kv) (bindG (insertG (products_table E) r) (\<lambda>_. retG [tb_stored (products_table E) r]))"
    by (intro shrinking i keepsG_pure) simp
  with u have ups: "keepsG (st_shrinks kv) (upsertG (products_table E) c' g r)"
    unfolding keepsG_def upsertG_def by (auto split: option.splits)
  show "keepsG (st_shrinks kv) (stmtG E (queryG f))" "keepsG (st_shrinks kv) (stmtG E (insertG (products_table E) r))"
    "keepsG (st_shrinks kv) (stmtG E (updateG (products_table E) p g))"
    "keepsG (st_shrinks kv) (stmtG E (upsertG (products_table E) c' g r))"
    unfolding stmtG_def using q i u ups shrinks_ask(1) [OF assms] by (auto intro!: shrinking)
qed

lemma shrinks_repository:
  assumes "kv_laws E c kv"
  shows "keepsG (st_shrinks kv) (ProductRepo_GetProductByID E i)" "keepsG (st_shrinks kv) (ProductRepo_ListProducts E req)"
    "keepsG (st_shrinks kv) (ProductRepo_Create E p)" "keepsG (st_shrinks kv) (ProductRepo_Update E p)"
proof -
  have hook: "keepsG (st_shrinks kv) (Product_BeforeCreate E d)" for d
    unfolding Product_BeforeCreate_def using shrinks_ask [OF assms] by (auto intro!: shrinking)
  have create: "keepsG (st_shrinks kv) (Create E (products_table E) d)" for d
    unfolding Create_def Let_def using shrinks_ask [OF assms] shrinks_statements [OF assms] hook
    by (auto intro!: shrinking simp: products_table_def [THEN arg_cong [of _ _ tb_before_create]])
  have pre: "keepsG (st_shrinks kv) (preloadG E (products_table E) names rs)" for names rs
    by (induction names arbitrary: rs) (use shrinks_statements(1) [OF assms] in \<open>auto intro!: shrinking\<close>)
  show "keepsG (st_shrinks kv) (ProductRepo_GetProductByID E i)"
    unfolding ProductRepo_GetProductByID_def FindById_def by (rule shrinks_statements(1) [OF assms])
  show "keepsG (st_shrinks kv) (ProductRepo_ListProducts E req)"
    unfolding ProductRepo_ListProducts_def Count_def Find_def Let_def
    using pre by (auto intro!: shrinking shrinks_statements(1) [OF assms])
  show "keepsG (st_shrinks kv) (ProductRepo_Create E p)" unfolding ProductRepo_Create_def by (rule create)
  show "keepsG (st_shrinks kv) (ProductRepo_Update E p)"
    unfolding ProductRepo_Update_def Update_def Let_def
    using shrinks_ask(2) [OF assms] shrinks_statements(3,4) [OF assms] by (auto intro!: shrinking)
qed

definition writes :: "('w \<Rightarrow> string \<rightharpoonup> string) \<Rightarrow> (string \<Rightarrow> string \<Rightarrow> bool) \<Rightarrow> 'w st \<Rightarrow> 'w st \<Rightarrow> bool" where
  "writes kv P s t \<longleftrightarrow> (\<forall>k b. kv (st_world t) k = Some b \<longrightarrow> P k b \<or> kv (st_world s) k = Some b)"

lemma writes_shrinks: "st_shrinks kv s t \<Longrightarrow> writes kv P s t"
  by (auto simp: writes_def st_shrinks_def shrinks_def)

lemma writes_trans: "writes kv P s t \<Longrightarrow> writes kv P t u \<Longrightarrow> writes kv P s u"
  unfolding writes_def by blast

lemma writes_None:
  assumes "writes kv P s t" "kv (st_world s) k = None" "\<And>b. \<not> P k b"
  shows "kv (st_world t) k = None"
proof (rule ccontr)
  assume "kv (st_world t) k \<noteq> None"
  then obtain b where "kv (st_world t) k = Some b" by blast
  with assms(1) have "P k b \<or> kv (st_world s) k = Some b" unfolding writes_def by blast
  with assms(2,3) show False by simp
qed

text \<open>A handler whose cache is reachable, and whose values survive being written and read.\<close>

definition cache_up :: "'w env \<Rightarrow> 'w ProductHandler \<Rightarrow> ('w \<Rightarrow> string \<rightharpoonup> string) \<Rightarrow> bool" where
  "cache_up E h kv \<longleftrightarrow>
     (\<exists>r c. ph_cache h = Some r \<and> rd_cmd r = Some c \<and> kv_laws E c kv) \<and>
     (\<forall>d d'. ph_unmarshalProduct h (bData (ph_marshal h) (ProductRes d)) = Inr d' \<longrightarrow> d' = d)"

definition coherent :: "'w ProductHandler \<Rightarrow> ('w \<Rightarrow> string \<rightharpoonup> string) \<Rightarrow> 'w st \<Rightarrow> bool" where
  "coherent h kv s \<longleftrightarrow>
     (\<forall>i b d. kv (st_world s) (productDetailCacheKey i) = Some b \<and> ph_unmarshalProduct h b = Inr d \<longrightarrow>
        (\<exists>p \<in> set (st_products s). p_ID p = i \<and> d = copyProduct p))"

lemma detail_keys [simp]:
  "productDetailCacheKey i = productDetailCacheKey j \<longleftrightarrow> i = j"
  "productDetailCacheKey i \<noteq> productListCacheVersionKey" "productDetailCacheKey i \<noteq> productListCacheKey sha v req"
  "productListCacheVersionKey \<noteq> productDetailCacheKey i" "productListCacheKey sha v req \<noteq> productDetailCacheKey i"
  by (simp_all add: productDetailCacheKey_def productListCacheVersionKey_def productListCacheKey_def)

lemma cachedG_run:
  assumes up: "cache_up E h kv" and run: "cachedG (ph_cache h) um key s = (x, t)"
  obtains hit where "x = Inr hit" "st_shrinks kv s t" "\<forall>v. hit = Some v \<longrightarrow> (\<exists>b. kv (st_world s) key = Some b \<and> um b = Inr v)"
proof -
  from up obtain r c where r: "ph_cache h = Some r" "rd_cmd r = Some c" "kv_laws E c kv" unfolding cache_up_def by blast
  obtain g w where g: "gr_Get c key (st_world s) = (g, w)" by fastforce
  have law: "shrinks kv (st_world s) w" "\<And>v. g = Inr v \<Longrightarrow> kv (st_world s) key = Some v"
    using r(3) g unfolding kv_laws_def by (metis fst_conv snd_conv)+
  have "t = s\<lparr>st_world := w\<rparr>" "x = Inr (case g of Inl _ \<Rightarrow> None | Inr b \<Rightarrow> (case um b of Inl _ \<Rightarrow> None | Inr v \<Rightarrow> Some v))"
    using run r(1,2) g
    by (auto simp: cachedG_def redis_Get_def tryG_def bindG_def commandG_def cmdG_def retG_def liftG_def split: sum.splits)
  with law show ?thesis
    by (intro that [of "case g of Inl _ \<Rightarrow> None | Inr b \<Rightarrow> (case um b of Inl _ \<Rightarrow> None | Inr v \<Rightarrow> Some v)"])
      (auto simp: st_shrinks_def split: sum.splits)
qed

lemma cacheG_writes:
  assumes up: "cache_up E h kv" and run: "cacheG h key v s = (x, t)"
  shows "writes kv (\<lambda>k b. k = key \<and> b = bData (ph_marshal h) v) s t" "world_only s t"
proof -
  from up obtain r c where r: "ph_cache h = Some r" "rd_cmd r = Some c" "kv_laws E c kv" unfolding cache_up_def by blast
  obtain g w where g: "gr_Set c key (bData (ph_marshal h) v) ProductCachingTime (st_world s) = (g, w)" by fastforce
  have "t = s\<lparr>st_world := w\<rparr>"
    using run r(1,2) g by (auto simp: cacheG_def redis_SetWithExpiration_def tryG_def commandG_def cmdG_def retG_def)
  moreover have "kv w k = Some b \<longrightarrow> k = key \<and> b = bData (ph_marshal h) v \<or> kv (st_world s) k = Some b" for k b
    using r(3) g unfolding kv_laws_def by (metis snd_conv)
  ultimately show "writes kv (\<lambda>k b. k = key \<and> b = bData (ph_marshal h) v) s t" "world_only s t"
    by (auto simp: writes_def)
qed

lemma invalidate_writes:
  assumes up: "cache_up E h kv"
  shows "invalidateProductLists h s = (x, t) \<Longrightarrow> writes kv (\<lambda>k b. k = productListCacheVersionKey) s t"
proof -
  from up obtain r c where r: "ph_cache h = Some r" "rd_cmd r = Some c" "kv_laws E c kv" unfolding cache_up_def by blast
  have lists: "writes kv (\<lambda>k b. k = productListCacheVersionKey) s t" if "invalidateProductLists h s = (x, t)" for s x t
  proof -
    let ?m = "incrementWithExpirationScript c productListCacheVersionKey (Milliseconds 0)"
    have "t = s\<lparr>st_world := snd (gr_Run c ?m (st_world s))\<rparr>"
      using that r(1,2) by (auto simp: invalidateProductLists_def redis_IncrementWithExpiration_def gom)
    moreover have "kv (snd (gr_Run c ?m w)) k = Some v \<longrightarrow> k = productListCacheVersionKey \<or> kv w k = Some v" for w k v
      using r(3) unfolding kv_laws_def by blast
    ultimately show ?thesis by (simp add: writes_def)
  qed
  then show "invalidateProductLists h s = (x, t) \<Longrightarrow> writes kv (\<lambda>k b. k = productListCacheVersionKey) s t" .
qed

lemma remove_shrinks:
  assumes up: "cache_up E h kv" and r: "ph_cache h = Some r" and run: "redis_Remove r [k] s = (x, t)"
  shows "st_shrinks kv s t" "x = Inr () \<Longrightarrow> kv (st_world t) k = None"
proof -
  from up r obtain c where c: "rd_cmd r = Some c" "kv_laws E c kv" unfolding cache_up_def by auto
  from run c(1) have d: "gr_Del c (WithTimeout Timeout) [k] (st_world s) = (x, st_world t)"
    by (auto simp: redis_Remove_def commandG_def cmdG_def split: prod.splits)
  have law: "gr_Del c y ks w = (q, w') \<Longrightarrow> shrinks kv w w' \<and> (q = Inr () \<longrightarrow> (\<forall>k \<in> set ks. kv w' k = None))" for y ks w q w'
    using c(2) unfolding kv_laws_def by blast
  from law [OF d] show "st_shrinks kv s t" "x = Inr () \<Longrightarrow> kv (st_world t) k = None"
    by (simp_all add: st_shrinks_def)
qed

lemma writes_mono: "writes kv P s t \<Longrightarrow> (\<And>k b. P k b \<Longrightarrow> Q k b) \<Longrightarrow> writes kv Q s t"
  unfolding writes_def by blast

text \<open>What a handler does beside its service: keys that are no product details.\<close>

abbreviation other_keys :: "('w \<Rightarrow> string \<rightharpoonup> string) \<Rightarrow> 'w st \<Rightarrow> 'w st \<Rightarrow> bool" where
  "other_keys kv \<equiv> writes kv (\<lambda>k b. \<forall>i. k \<noteq> productDetailCacheKey i)"

lemma other_keys_po [simp]: "reflp (other_keys kv)" "transp (other_keys kv)"
  by (auto simp: reflp_def writes_def intro!: transpI intro: writes_trans)

lemmas other_keeping = keepsG_if keepsG_case_option keepsG_case_sum keepsG_case_prod
  keepsG_bind [OF other_keys_po(2)] keepsG_try [OF other_keys_po(2)]

lemma shrinks_other: "keepsG (st_shrinks kv) m \<Longrightarrow> keepsG (other_keys kv) m"
  by (auto simp: keepsG_def intro: writes_shrinks)

lemma other_answers [simp]:
  "keepsG (other_keys kv) (okG c d)" "keepsG (other_keys kv) (failG production c status e m)"
  "keepsG (other_keys kv) (somethingWrong production c e)" "keepsG (other_keys kv) (productError production c' e)"
  by (auto simp: okG_def failG_def somethingWrong_def productError_def)

lemma other_cachedG:
  assumes up: "cache_up E h kv"
  shows "keepsG (other_keys kv) (cachedG (ph_cache h) um k)"
  by (rule keepsGI) (auto elim!: cachedG_run [OF up] intro: writes_shrinks)

lemma other_cache:
  assumes up: "cache_up E h kv"
  shows "keepsG (other_keys kv) (invalidateProductLists h)"
    "keepsG (other_keys kv) (cacheG h (productListCacheKey sha v req) d)" "keepsG (other_keys kv) (productListCacheVersion h)"
proof -
  show "keepsG (other_keys kv) (invalidateProductLists h)"
    by (rule keepsGI) (auto dest!: invalidate_writes [OF up] elim!: writes_mono)

  show "keepsG (other_keys kv) (cacheG h (productListCacheKey sha v req) d)"
    by (rule keepsGI) (auto dest!: cacheG_writes(1) [OF up] elim!: writes_mono)
  have "keepsG (other_keys kv) (redis_Get r um k)" if "ph_cache h = Some r" for r k and um :: "string \<Rightarrow> goerr + int64"
  proof (rule keepsGI)
    fix s x t assume "redis_Get r um k s = (x, t)"
    then have "cachedG (ph_cache h) um k s = (Inr (case x of Inl _ \<Rightarrow> None | Inr v \<Rightarrow> Some v), t)"
      using that by (auto simp: cachedG_def tryG_def retG_def split: sum.splits)
    from keepsGD [OF other_cachedG [OF up] this] show "other_keys kv s t" .
  qed
  then show "keepsG (other_keys kv) (productListCacheVersion h)"
    unfolding productListCacheVersion_def by (auto intro!: other_keeping)
qed

lemma other_repository:
  assumes up: "cache_up E h kv"
  shows "keepsG (other_keys kv) (ProductRepo_GetProductByID E i)" "keepsG (other_keys kv) (ProductRepo_Update E p)"
    "keepsG (other_keys kv) (ProductRepo_Create E p)" "keepsG (other_keys kv) (ProductRepo_ListProducts E req)"
proof -
  from up obtain e where laws: "kv_laws E e kv" unfolding cache_up_def by blast
  note repo = shrinks_repository [OF laws, THEN shrinks_other]
  show "keepsG (other_keys kv) (ProductRepo_GetProductByID E i)" "keepsG (other_keys kv) (ProductRepo_Update E p)"
    "keepsG (other_keys kv) (ProductRepo_Create E p)" "keepsG (other_keys kv) (ProductRepo_ListProducts E req)"
    by (rule repo)+
qed

lemma other_requests:
  assumes up: "cache_up E h kv" and svc: "ph_service h = NewProductService E vc vu"
  shows "keepsG (other_keys kv) (ProductHandler_ListProducts h c)" "keepsG (other_keys kv) (ProductHandler_CreateProduct h c)"
    "keepsG (other_keys kv) (ProductService_Update (ph_service h) i req)"
proof -
  from up obtain e where laws: "kv_laws E e kv" unfolding cache_up_def by blast
  note repo = shrinks_repository [OF laws, THEN shrinks_other] and cache = other_cache [OF up] other_cachedG [OF up]
  show "keepsG (other_keys kv) (ProductHandler_ListProducts h c)"
    unfolding ProductHandler_ListProducts_def ProductService_ListProducts_def svc product_service_sel Let_def
    by (auto intro!: other_keeping cache repo)
  show "keepsG (other_keys kv) (ProductHandler_CreateProduct h c)"
    unfolding ProductHandler_CreateProduct_def ProductService_Create_def svc product_service_sel Let_def
    by (auto intro!: other_keeping cache repo)
  show "keepsG (other_keys kv) (ProductService_Update (ph_service h) i req)"
    unfolding ProductService_Update_def svc product_service_sel Let_def
    by (auto intro!: other_keeping repo)
qed

section \<open>The calls of all requests, interleaved\<close>

text \<open>
  What the trace remembers: the row that request \<open>n\<close> has read, an update of a row, a deletion of the cached
  detail that succeeded or failed, and that request \<open>n\<close> has written the detail it read to the cache.
\<close>

datatype product_event =
  Selected nat string Product | Updated string | Deleted string | NotDeleted string | Stored nat string

definition readers :: "product_event list \<Rightarrow> nat set" where
  "readers tr = {n. \<exists>i p. Selected n i p \<in> set tr}"

inductive product_flow ::
    "'w env \<Rightarrow> 'w ProductHandler \<Rightarrow> ('w \<Rightarrow> string \<rightharpoonup> string) \<Rightarrow> 'w st \<Rightarrow> product_event list \<Rightarrow> 'w st \<Rightarrow> bool"
  for E h kv s where
  start: "product_flow E h kv s [] s"
| looked_up: "product_flow E h kv s tr t \<Longrightarrow>
    cachedG (ph_cache h) (ph_unmarshalProduct h) (productDetailCacheKey i) t = (r, t') \<Longrightarrow> product_flow E h kv s tr t'"
| selected: "product_flow E h kv s tr t \<Longrightarrow> n \<notin> readers tr \<Longrightarrow>
    ProductRepo_GetProductByID E i t = (Inr p, t') \<Longrightarrow> product_flow E h kv s (Selected n i p # tr) t'"
| not_selected: "product_flow E h kv s tr t \<Longrightarrow>
    ProductRepo_GetProductByID E i t = (Inl e, t') \<Longrightarrow> product_flow E h kv s tr t'"
| stored: "product_flow E h kv s tr t \<Longrightarrow> Selected n i p \<in> set tr \<Longrightarrow>
    cacheG h (productDetailCacheKey i) (ProductRes (copyProduct p)) t = (r, t') \<Longrightarrow>
    product_flow E h kv s (Stored n i # tr) t'"
| updated: "product_flow E h kv s tr t \<Longrightarrow> Selected n i p \<in> set tr \<Longrightarrow>
    ProductRepo_Update E (merge_product p req) t = (Inr row, t') \<Longrightarrow> product_flow E h kv s (Updated i # tr) t'"
| update_failed: "product_flow E h kv s tr t \<Longrightarrow> Selected n i p \<in> set tr \<Longrightarrow>
    ProductRepo_Update E (merge_product p req) t = (Inl e, t') \<Longrightarrow> product_flow E h kv s tr t'"
| deleted: "product_flow E h kv s tr t \<Longrightarrow> ph_cache h = Some cache \<Longrightarrow>
    redis_Remove cache [productDetailCacheKey i] t = (Inr u, t') \<Longrightarrow> product_flow E h kv s (Deleted i # tr) t'"
| delete_failed: "product_flow E h kv s tr t \<Longrightarrow> ph_cache h = Some cache \<Longrightarrow>
    redis_Remove cache [productDetailCacheKey i] t = (Inl e, t') \<Longrightarrow> product_flow E h kv s (NotDeleted i # tr) t'"
| created: "product_flow E h kv s tr t \<Longrightarrow> ProductRepo_Create E d t = (r, t') \<Longrightarrow> product_flow E h kv s tr t'"
| others: "product_flow E h kv s tr t \<Longrightarrow> st_products t' = st_products t \<Longrightarrow> other_keys kv t t' \<Longrightarrow>
    product_flow E h kv s tr t'"

text \<open>The product was updated, and no deletion of its cached detail has succeeded since.\<close>

fun undeleted :: "string \<Rightarrow> product_event list \<Rightarrow> bool" where
  "undeleted i [] \<longleftrightarrow> False"
| "undeleted i (Updated j # tr) \<longleftrightarrow> j = i \<or> undeleted i tr"
| "undeleted i (Deleted j # tr) \<longleftrightarrow> j \<noteq> i \<and> undeleted i tr"
| "undeleted i (NotDeleted j # tr) \<longleftrightarrow> undeleted i tr"
| "undeleted i (Selected n j p # tr) \<longleftrightarrow> undeleted i tr"
| "undeleted i (Stored n j # tr) \<longleftrightarrow> undeleted i tr"

text \<open>The product was updated since request \<open>n\<close> has read it.\<close>

fun changed_since :: "nat \<Rightarrow> string \<Rightarrow> product_event list \<Rightarrow> bool" where
  "changed_since n i [] \<longleftrightarrow> False"
| "changed_since n i (Updated j # tr) \<longleftrightarrow> j = i \<or> changed_since n i tr"
| "changed_since n i (Deleted j # tr) \<longleftrightarrow> changed_since n i tr"
| "changed_since n i (NotDeleted j # tr) \<longleftrightarrow> changed_since n i tr"
| "changed_since n i (Selected m j p # tr) \<longleftrightarrow> m \<noteq> n \<and> changed_since n i tr"
| "changed_since n i (Stored m j # tr) \<longleftrightarrow> changed_since n i tr"

text \<open>A request has cached what it had read before an update, and no deletion has succeeded since.\<close>

fun overtaken :: "string \<Rightarrow> product_event list \<Rightarrow> bool" where
  "overtaken i [] \<longleftrightarrow> False"
| "overtaken i (Updated j # tr) \<longleftrightarrow> overtaken i tr"
| "overtaken i (Deleted j # tr) \<longleftrightarrow> j \<noteq> i \<and> overtaken i tr"
| "overtaken i (NotDeleted j # tr) \<longleftrightarrow> overtaken i tr"
| "overtaken i (Selected n j p # tr) \<longleftrightarrow> overtaken i tr"
| "overtaken i (Stored n j # tr) \<longleftrightarrow> j = i \<and> changed_since n i tr \<or> overtaken i tr"

section \<open>The invariant\<close>

definition detail_of :: "string \<Rightarrow> ProductDto \<Rightarrow> 'w st \<Rightarrow> bool" where
  "detail_of i d t \<longleftrightarrow> (\<exists>p \<in> set (st_products t). p_ID p = i \<and> d = copyProduct p)"

definition detail_cached :: "'w ProductHandler \<Rightarrow> ('w \<Rightarrow> string \<rightharpoonup> string) \<Rightarrow> 'w st \<Rightarrow> string \<Rightarrow> ProductDto \<Rightarrow> bool" where
  "detail_cached h kv t i d \<longleftrightarrow>
     (\<exists>b. kv (st_world t) (productDetailCacheKey i) = Some b \<and> ph_unmarshalProduct h b = Inr d)"

definition detail_ok :: "'w st \<Rightarrow> product_event list \<Rightarrow> 'w st \<Rightarrow> string \<Rightarrow> ProductDto \<Rightarrow> bool" where
  "detail_ok s tr t i d \<longleftrightarrow>
     (detail_of i d s \<or> (\<exists>n p. Selected n i p \<in> set tr \<and> d = copyProduct p)) \<and>
     (detail_of i d t \<or> undeleted i tr \<or> overtaken i tr)"

definition row_read :: "nat \<Rightarrow> string \<Rightarrow> Product \<Rightarrow> product_event list \<Rightarrow> 'w st \<Rightarrow> bool" where
  "row_read n i p tr t \<longleftrightarrow> p_ID p = i \<and> i \<in> p_ID ` set (st_products t) \<and>
     (p \<in> set (st_products t) \<or> changed_since n i tr)"

definition flow_ok :: "'w ProductHandler \<Rightarrow> ('w \<Rightarrow> string \<rightharpoonup> string) \<Rightarrow> 'w st \<Rightarrow> product_event list \<Rightarrow> 'w st \<Rightarrow> bool" where
  "flow_ok h kv s tr t \<longleftrightarrow>
     (\<forall>i d. detail_cached h kv t i d \<longrightarrow> detail_ok s tr t i d) \<and>
     (\<forall>n i p. Selected n i p \<in> set tr \<longrightarrow> row_read n i p tr t)"

lemma flow_okD:
  assumes "flow_ok h kv s tr t"
  shows "detail_cached h kv t i d \<Longrightarrow> detail_ok s tr t i d" "Selected n i p \<in> set tr \<Longrightarrow> row_read n i p tr t"
  using assms by (simp_all add: flow_ok_def)

lemma detail_of_mono: "set (st_products t) \<subseteq> set (st_products t') \<Longrightarrow> detail_of i d t \<Longrightarrow> detail_of i d t'"
  by (auto simp: detail_of_def)

lemma cached_writes:
  "writes kv P t t' \<Longrightarrow> detail_cached h kv t' i d \<Longrightarrow>
     detail_cached h kv t i d \<or> (\<exists>b. P (productDetailCacheKey i) b \<and> ph_unmarshalProduct h b = Inr d)"
  unfolding writes_def detail_cached_def by blast

text \<open>A call that leaves the rows and the cached details, which may expire.\<close>

lemma flow_ok_quiet:
  assumes ok: "flow_ok h kv s tr t" and rows: "set (st_products t) \<subseteq> set (st_products t')" and w: "other_keys kv t t'"
  shows "flow_ok h kv s tr t'"
  unfolding flow_ok_def
proof (intro conjI allI impI)
  fix i d assume "detail_cached h kv t' i d"
  from cached_writes [OF w this] have "detail_cached h kv t i d" by simp
  from flow_okD(1) [OF ok this] show "detail_ok s tr t' i d"
    using detail_of_mono [OF rows] unfolding detail_ok_def by blast
next
  fix n i p assume "Selected n i p \<in> set tr"
  from flow_okD(2) [OF ok this] rows show "row_read n i p tr t'" unfolding row_read_def by blast
qed

lemma flow_ok_selected:
  assumes ok: "flow_ok h kv s tr t" and n: "n \<notin> readers tr" and p: "p \<in> set (st_products t)" "p_ID p = i"
  shows "flow_ok h kv s (Selected n i p # tr) t"
  unfolding flow_ok_def
proof (intro conjI allI impI)
  fix j d assume "detail_cached h kv t j d"
  from flow_okD(1) [OF ok this] show "detail_ok s (Selected n i p # tr) t j d" by (auto simp: detail_ok_def)
next
  fix m j q assume q: "Selected m j q \<in> set (Selected n i p # tr)"
  show "row_read m j q (Selected n i p # tr) t"
  proof (cases "Selected m j q \<in> set tr")
    case True
    with n have "m \<noteq> n" by (auto simp: readers_def)
    with flow_okD(2) [OF ok True] show ?thesis by (simp add: row_read_def)
  next
    case False
    with q p show ?thesis by (auto simp: row_read_def)
  qed
qed

lemma flow_ok_stored:
  assumes ok: "flow_ok h kv s tr t" and sel: "Selected n i p \<in> set tr" and rows: "st_products t' = st_products t"
    and w: "writes kv (\<lambda>k b. k = productDetailCacheKey i \<and> b = bData (ph_marshal h) (ProductRes (copyProduct p))) t t'"
    and codec: "\<And>d d'. ph_unmarshalProduct h (bData (ph_marshal h) (ProductRes d)) = Inr d' \<Longrightarrow> d' = d"
  shows "flow_ok h kv s (Stored n i # tr) t'"
  unfolding flow_ok_def
proof (intro conjI allI impI)
  fix j d assume "detail_cached h kv t' j d"
  from cached_writes [OF w this] show "detail_ok s (Stored n i # tr) t' j d"
  proof
    assume "detail_cached h kv t j d"
    from flow_okD(1) [OF ok this] rows show ?thesis by (auto simp: detail_ok_def detail_of_def)
  next
    assume "\<exists>b. (productDetailCacheKey j = productDetailCacheKey i \<and>
        b = bData (ph_marshal h) (ProductRes (copyProduct p))) \<and> ph_unmarshalProduct h b = Inr d"
    then have j: "j = i" "d = copyProduct p" using codec by auto
    from flow_okD(2) [OF ok sel] rows have "detail_of i d t' \<or> changed_since n i tr"
      by (auto simp: row_read_def detail_of_def j)
    with j sel show ?thesis by (auto simp: detail_ok_def)
  qed
next
  fix m j q assume "Selected m j q \<in> set (Stored n i # tr)"
  then have "Selected m j q \<in> set tr" by simp
  from flow_okD(2) [OF ok this] rows show "row_read m j q (Stored n i # tr) t'" by (simp add: row_read_def)
qed

lemma flow_ok_updated:
  assumes ok: "flow_ok h kv s tr t" and rows: "st_products t' = map (\<lambda>x. if p_ID x = i then row else x) (st_products t)"
    and row: "p_ID row = i" and w: "other_keys kv t t'"
  shows "flow_ok h kv s (Updated i # tr) t'"
  unfolding flow_ok_def
proof (intro conjI allI impI)
  fix j d assume "detail_cached h kv t' j d"
  from cached_writes [OF w this] have "detail_cached h kv t j d" by simp
  note d = flow_okD(1) [OF ok this]
  show "detail_ok s (Updated i # tr) t' j d"
  proof (cases "j = i")
    case False
    then have "detail_of j d t \<Longrightarrow> detail_of j d t'" by (auto simp: detail_of_def rows)
    with d show ?thesis by (auto simp: detail_ok_def)
  qed (use d in \<open>auto simp: detail_ok_def\<close>)
next
  fix n j p assume "Selected n j p \<in> set (Updated i # tr)"
  then have "Selected n j p \<in> set tr" by simp
  note p = flow_okD(2) [OF ok this]
  have "map p_ID (st_products t') = map p_ID (st_products t)" using row by (auto simp: rows)
  from arg_cong [OF this, of set] have "p_ID ` set (st_products t') = p_ID ` set (st_products t)" by simp
  with p show "row_read n j p (Updated i # tr) t'" by (auto simp: row_read_def rows)
qed

lemma flow_ok_deleted:
  assumes ok: "flow_ok h kv s tr t" and rows: "st_products t' = st_products t" and w: "st_shrinks kv t t'"
    and gone: "kv (st_world t') (productDetailCacheKey i) = None"
  shows "flow_ok h kv s (Deleted i # tr) t'"
  unfolding flow_ok_def
proof (intro conjI allI impI)
  fix j d assume c: "detail_cached h kv t' j d"
  then have "j \<noteq> i" using gone by (auto simp: detail_cached_def)
  moreover have "detail_cached h kv t j d"
    using cached_writes [OF writes_shrinks [OF w, of "\<lambda>_ _. False"] c] by simp
  from flow_okD(1) [OF ok this] have "detail_ok s tr t j d" .
  ultimately show "detail_ok s (Deleted i # tr) t' j d" using rows by (auto simp: detail_ok_def detail_of_def)
next
  fix n j p assume "Selected n j p \<in> set (Deleted i # tr)"
  then have "Selected n j p \<in> set tr" by simp
  from flow_okD(2) [OF ok this] rows show "row_read n j p (Deleted i # tr) t'" by (simp add: row_read_def)
qed

lemma flow_ok_not_deleted: "flow_ok h kv s tr t \<Longrightarrow> flow_ok h kv s (NotDeleted i # tr) t"
  by (auto simp: flow_ok_def detail_ok_def row_read_def)

lemma same_products: "world_only t t' \<Longrightarrow> st_products t' = st_products t"
  by (simp add: world_only_iff same_tables_iff)

lemma ProductRepo_Create_rows:
  "ProductRepo_Create E d t = (r, t') \<Longrightarrow> set (st_products t) \<subseteq> set (st_products t')"
proof (cases r)
  case (Inl e)
  assume "ProductRepo_Create E d t = (r, t')"
  with Inl have "world_only t t'" using products.Create_Inl unfolding ProductRepo_Create_def by blast
  then show ?thesis by (simp add: same_products)
next
  case (Inr p)
  assume run: "ProductRepo_Create E d t = (r, t')"
  obtain x now v where "world_only (tb_put (products_table E) (tb_rows (products_table E) t @ [tb_stored (products_table E) p]) t) t'"
    using run unfolding Inr ProductRepo_Create_def by (rule products.Create_Inr)
  from same_products [OF this] show ?thesis by (auto simp: products_table_def)
qed

lemma product_flow_ok:
  assumes up: "cache_up E h kv" and co: "coherent h kv s" and flow: "product_flow E h kv s tr t"
  shows "flow_ok h kv s tr t"
  using flow
proof (induction rule: product_flow.induct)
  case start
  show ?case using co by (auto simp: flow_ok_def coherent_def detail_cached_def detail_ok_def detail_of_def)
next
  case (looked_up tr t i r t')
  from keepsGD [OF cache_frames(1) looked_up.hyps(2)] keepsGD [OF other_cachedG [OF up] looked_up.hyps(2)] show ?case
    by (intro flow_ok_quiet [OF looked_up.IH]) (simp_all add: same_products)
next
  case (selected tr t n i p t')
  note g = ProductRepo_GetProductByID_Inr [OF selected.hyps(3)]
  have "flow_ok h kv s tr t'"
    using g(1) keepsGD [OF other_repository(1) [OF up] selected.hyps(3)]
    by (intro flow_ok_quiet [OF selected.IH]) (simp_all add: same_products)
  from flow_ok_selected [OF this selected.hyps(2)] g show ?case by (simp add: same_products)
next
  case (not_selected tr t i e t')
  from keepsGD [OF ProductRepo_reads_frame(1) not_selected.hyps(2)] keepsGD [OF other_repository(1) [OF up] not_selected.hyps(2)]
  show ?case by (intro flow_ok_quiet [OF not_selected.IH]) (simp_all add: same_products)
next
  case (stored tr t n i p r t')
  from up have "\<And>d d'. ph_unmarshalProduct h (bData (ph_marshal h) (ProductRes d)) = Inr d' \<Longrightarrow> d' = d"
    by (simp add: cache_up_def)
  from flow_ok_stored [OF stored.IH stored.hyps(2) _ cacheG_writes(1) [OF up stored.hyps(3)] this]
  show ?case using cacheG_writes(2) [OF up stored.hyps(3)] by (simp add: same_products)
next
  case (updated tr t n i p req row t')
  from flow_okD(2) [OF updated.IH updated.hyps(2)] obtain r0 where
    r0: "r0 \<in> set (st_products t)" "p_ID r0 = p_ID (merge_product p req)" "p_ID (merge_product p req) = i"
    by (auto simp: row_read_def merge_product_def)
  from ProductRepo_Update_existing [OF updated.hyps(3) r0(1,2)] r0(3) obtain now
    where "row = (merge_product p req)\<lparr>p_UpdatedAt := now\<rparr>"
      "st_products t' = map (\<lambda>x. if p_ID x = i then row else x) (st_products t)" by auto
  with flow_ok_updated [OF updated.IH, of t' i row] keepsGD [OF other_repository(2) [OF up] updated.hyps(3)] r0(3)
  show ?case by simp
next
  case (update_failed tr t n i p req e t')
  from flow_okD(2) [OF update_failed.IH update_failed.hyps(2)] obtain r0 where
    r0: "r0 \<in> set (st_products t)" "p_ID r0 = p_ID (merge_product p req)"
    by (auto simp: row_read_def merge_product_def)
  from ProductRepo_Update_existing [OF update_failed.hyps(3) r0] have "world_only t t'" by simp
  with keepsGD [OF other_repository(2) [OF up] update_failed.hyps(3)] show ?case
    by (intro flow_ok_quiet [OF update_failed.IH]) (simp_all add: same_products)
next
  case (deleted tr t cache i u t')
  from keepsGD [OF redis_frames(9) deleted.hyps(3)] remove_shrinks [OF up deleted.hyps(2,3)] show ?case
    by (intro flow_ok_deleted [OF deleted.IH]) (simp_all add: same_products)
next
  case (delete_failed tr t cache i e t')
  from keepsGD [OF redis_frames(9) delete_failed.hyps(3)] remove_shrinks(1) [OF up delete_failed.hyps(2,3)]
  have "flow_ok h kv s tr t'"
    by (intro flow_ok_quiet [OF delete_failed.IH]) (simp_all add: same_products writes_shrinks)
  then show ?case by (rule flow_ok_not_deleted)
next
  case (created tr t d r t')
  from ProductRepo_Create_rows [OF created.hyps(2)] keepsGD [OF other_repository(3) [OF up] created.hyps(2)] show ?case
    by (rule flow_ok_quiet [OF created.IH])
next
  case (others tr t t')
  then show ?case by (intro flow_ok_quiet [OF others.IH]) simp_all
qed

section \<open>The handlers are sequences of these calls\<close>

lemma fresh_reader: "\<exists>n. n \<notin> readers tr"
proof -
  have "readers tr \<subseteq> (\<lambda>e. case e of Selected n _ _ \<Rightarrow> n | _ \<Rightarrow> 0) ` set tr"
    by (force simp: readers_def image_iff)
  then have "finite (readers tr)" by (rule finite_subset) simp
  then show ?thesis using ex_new_if_finite infinite_UNIV_nat by blast
qed

lemma ProductService_Update_steps:
  assumes flow: "product_flow E h kv s tr t" and svc: "svc = NewProductService E vc vu"
    and run: "ProductService_Update svc i req t = (x, u)"
  shows "(\<exists>e tr'. x = Inl e \<and> product_flow E h kv s (tr' @ tr) u) \<or>
    (\<exists>n p row. x = Inr row \<and> product_flow E h kv s (Updated i # Selected n i p # tr) u)"
proof (cases "vu req = None \<and> (up_Price req = Fin 0 \<or> \<not> isl (ToMinorUnits (up_Price req)))")
  case False
  with run have "\<exists>e. x = Inl e" "u = t"
    by (auto simp: svc product_service_sel ProductService_Update_def bindG_def checkG_def liftG_def retG_def isl_def
        split: option.splits sum.splits if_splits)
  with flow show ?thesis by (intro disjI1) (auto intro!: exI [of _ "[]"])
next
  case True
  obtain g a where g: "ProductRepo_GetProductByID E i t = (g, a)" by fastforce
  have rest: "(case g of Inl e \<Rightarrow> (Inl e, a) | Inr p0 \<Rightarrow> ProductRepo_Update E (merge_product p0 req) a) = (x, u)"
  proof -
    obtain y where "(if up_Price req \<noteq> Fin 0 then liftG (ToMinorUnits (up_Price req)) else retG 0) t = (Inr y, t)"
      using True by (cases "ToMinorUnits (up_Price req)"; cases "up_Price req = Fin 0") (auto simp: liftG_def retG_def)
    with run True g show ?thesis
      by (simp add: svc product_service_sel ProductService_Update_def bindG_def checkG_def split: sum.splits)
  qed
  obtain n where n: "n \<notin> readers tr" using fresh_reader by blast
  show ?thesis
  proof (cases g)
    case (Inl e)
    with rest product_flow.not_selected [OF flow g [unfolded Inl]] show ?thesis
      by (intro disjI1) (auto intro!: exI [of _ "[]"])
  next
    case (Inr p0)
    note sel = product_flow.selected [OF flow n g [unfolded Inr]]
    have w: "ProductRepo_Update E (merge_product p0 req) a = (x, u)" using rest Inr by simp
    show ?thesis
    proof (cases x)
      case (Inl e)
      have "product_flow E h kv s ([Selected n i p0] @ tr) u"
        using product_flow.update_failed [where n = n and i = i, OF sel _ w [unfolded Inl]] by simp
      with Inl show ?thesis by blast
    next
      case row: (Inr row)
      have "product_flow E h kv s (Updated i # Selected n i p0 # tr) u"
        using product_flow.updated [where n = n and i = i, OF sel _ w [unfolded row]] by simp
      with row show ?thesis by blast
    qed
  qed
qed

text \<open>What a request adds to the trace when it is answered with 200, and what it answers.\<close>

definition detail_answer ::
    "'w ProductHandler \<Rightarrow> ('w \<Rightarrow> string \<rightharpoonup> string) \<Rightarrow> 'w st \<Rightarrow> string \<Rightarrow> product_data answer \<Rightarrow> product_event list \<Rightarrow> bool" where
  "detail_answer h kv t i a new \<longleftrightarrow> an_status a = StatusOK \<longrightarrow>
     (\<exists>d. an_body a = ResultBody (ProductRes d) \<and>
        (new = [] \<and> detail_cached h kv t i d \<or>
         (\<exists>n p. new = [Stored n i, Selected n i p] \<and> d = copyProduct p)))"

definition update_answer :: "string \<Rightarrow> product_data answer \<Rightarrow> product_event list \<Rightarrow> bool" where
  "update_answer i a new \<longleftrightarrow> an_status a = StatusOK \<longrightarrow>
     (\<exists>n p. new = [Deleted i, Updated i, Selected n i p] \<or> new = [NotDeleted i, Updated i, Selected n i p])"

lemma GetProductByID_steps:
  assumes up: "cache_up E h kv" and svc: "ph_service h = NewProductService E vc vu" and flow: "product_flow E h kv s tr t"
    and run: "ProductHandler_GetProductByID h c t = (r, t')"
  shows "\<exists>new c1 a. product_flow E h kv s (new @ tr) t' \<and> r = Inr c1 \<and> gc_written c1 = gc_written c @ [a] \<and>
    detail_answer h kv t (gc_params c ''id'') a new"
proof -
  let ?i = "gc_params c ''id''"
  let ?k = "productDetailCacheKey ?i"
  obtain x u where x: "cachedG (ph_cache h) (ph_unmarshalProduct h) ?k t = (x, u)" by fastforce
  from cachedG_run [OF up x] obtain hit where hit: "x = Inr hit"
    "\<forall>v. hit = Some v \<longrightarrow> (\<exists>b. kv (st_world t) ?k = Some b \<and> ph_unmarshalProduct h b = Inr v)" .
  note fu = product_flow.looked_up [OF flow x]
  note run' = run [unfolded ProductHandler_GetProductByID_def Let_def]
  show ?thesis
  proof (cases hit)
    case (Some d)
    with run' x hit(1) have "r = Inr (Response_JSON c StatusOK (ProductRes d))" "t' = u"
      by (auto simp: bindG_def okG_def retG_def)
    moreover from hit(2) Some have "detail_cached h kv t ?i d" by (simp add: detail_cached_def)
    ultimately show ?thesis using fu
      by (intro exI [of _ "[]"]) (auto simp: Response_JSON_def detail_answer_def)
  next
    case None
    obtain g v where g: "ProductRepo_GetProductByID E ?i u = (g, v)" by fastforce
    show ?thesis
    proof (cases g)
      case (Inl err)
      with run' x hit(1) None g have "r = Inr (Response_Error (ph_production h) c StatusNotFound err ''Not found'')" "t' = v"
        by (auto simp: bindG_def tryG_def ProductService_GetProductByID_def svc product_service_sel failG_def retG_def)
      with product_flow.not_selected [OF fu g [unfolded Inl]] show ?thesis
        by (intro exI [of _ "[]"]) (auto simp: Response_Error_def detail_answer_def status_defs)
    next
      case (Inr p)
      obtain n where n: "n \<notin> readers tr" using fresh_reader by blast
      note sel = product_flow.selected [OF fu n g [unfolded Inr]]
      obtain q w where q: "cacheG h ?k (ProductRes (copyProduct p)) v = (q, w)" by fastforce
      have q1: "q = Inr ()" using q by (auto simp: cacheG_def tryG_def retG_def split: option.splits prod.splits)
      have r: "r = Inr (Response_JSON c StatusOK (ProductRes (copyProduct p)))" "t' = w"
        using run' x hit(1) None g Inr q q1
        by (auto simp: bindG_def tryG_def ProductService_GetProductByID_def svc product_service_sel okG_def retG_def Let_def)
      from product_flow.stored [OF sel _ q] r show ?thesis
        by (intro exI [of _ "[Stored n ?i, Selected n ?i p]"]) (auto simp: Response_JSON_def detail_answer_def)
    qed
  qed
qed

lemma invalidateProductLists_step:
  assumes up: "cache_up E h kv" and flow: "product_flow E h kv s tr t" and run: "invalidateProductLists h t = (r, t')"
  shows "r = Inr () \<and> product_flow E h kv s tr t'"
  using run keepsGD [OF other_cache(1) [OF up] run] keepsGD [OF cache_frames(3) run]
  by (auto simp: invalidateProductLists_def gom same_products intro!: product_flow.others [OF flow] split: option.splits)

lemma UpdateProduct_steps:
  assumes up: "cache_up E h kv" and svc: "ph_service h = NewProductService E vc vu" and flow: "product_flow E h kv s tr t"
    and run: "ProductHandler_UpdateProduct h c t = (r, t')"
  shows "\<exists>new c1 a. product_flow E h kv s (new @ tr) t' \<and> r = Inr c1 \<and> gc_written c1 = gc_written c @ [a] \<and>
    update_answer (gc_params c ''id'') a new"
proof (cases "ph_bindUpdate h c")
  case (Inl e)
  with run flow show ?thesis
    by (intro exI [of _ "[]"]) (auto simp: ProductHandler_UpdateProduct_def Let_def gom Response_Error_def update_answer_def status_defs)
next
  case (Inr req)
  let ?i = "gc_params c ''id''"
  obtain x u where x: "ProductService_Update (ph_service h) ?i req t = (x, u)" by fastforce
  from ProductService_Update_steps [OF flow svc x] show ?thesis
  proof (elim disjE exE conjE)
    fix e tr' assume e: "x = Inl e" "product_flow E h kv s (tr' @ tr) u"
    obtain status m where "r = Inr (Response_Error (ph_production h) c status e m)" "status \<noteq> StatusOK" "t' = u"
      using run Inr x e(1)
      by (auto simp: ProductHandler_UpdateProduct_def Let_def tryG_def productError_def somethingWrong_def failG_def retG_def
          status_defs split: if_splits)
    with e(2) show ?thesis by (intro exI [of _ tr']) (auto simp: Response_Error_def update_answer_def)
  next
    fix n p row assume row: "x = Inr row" "product_flow E h kv s (Updated ?i # Selected n ?i p # tr) u"
    from up obtain cache where cache: "ph_cache h = Some cache" unfolding cache_up_def by blast
    obtain y v where y: "redis_Remove cache [productDetailCacheKey ?i] u = (y, v)" by fastforce
    obtain z w where z: "invalidateProductLists h v = (z, w)" by fastforce
    obtain ev where ev: "ev = Deleted ?i \<or> ev = NotDeleted ?i"
      and f: "product_flow E h kv s (ev # Updated ?i # Selected n ?i p # tr) v"
    proof (cases y)
      case (Inl e)
      from that [OF _ product_flow.delete_failed [OF row(2) cache y [unfolded Inl]]] show thesis by simp
    next
      case (Inr unit)
      from that [OF _ product_flow.deleted [OF row(2) cache y [unfolded Inr]]] show thesis by simp
    qed
    from invalidateProductLists_step [OF up f z] have w: "z = Inr ()" "product_flow E h kv s (ev # Updated ?i # Selected n ?i p # tr) w"
      by simp_all
    have "r = Inr (Response_JSON c StatusOK (ProductRes (copyProduct row)))" "t' = w"
      using run Inr x row(1) cache y z w(1)
      by (auto simp: ProductHandler_UpdateProduct_def Let_def tryG_def bindG_def okG_def retG_def invalidateProduct_def)
    with w(2) ev show ?thesis
      by (intro exI [of _ "[ev, Updated ?i, Selected n ?i p]"]) (auto simp: Response_JSON_def update_answer_def)
  qed
qed

lemma CreateProduct_steps:
  assumes up: "cache_up E h kv" and svc: "ph_service h = NewProductService E vc vu" and flow: "product_flow E h kv s tr t"
    and run: "ProductHandler_CreateProduct h c t = (r, t')"
  shows "product_flow E h kv s tr t' \<and> (\<exists>c1 a. r = Inr c1 \<and> gc_written c1 = gc_written c @ [a])"
proof (cases "ph_bindCreate h c")
  case (Inl e)
  with run flow show ?thesis by (auto simp: ProductHandler_CreateProduct_def gom Response_Error_def)
next
  case (Inr req)
  obtain x u where x: "ProductService_Create (ph_service h) req t = (x, u)" by fastforce
  have fu: "product_flow E h kv s tr u"
  proof (cases "vc req = None \<and> \<not> isl (ToMinorUnits (cp_Price req))")
    case False
    with x have "u = t"
      by (auto simp: svc product_service_sel ProductService_Create_def bindG_def checkG_def liftG_def isl_def split: option.splits sum.splits)
    with flow show ?thesis by simp
  next
    case True
    then obtain m where "ToMinorUnits (cp_Price req) = Inr m" by (cases "ToMinorUnits (cp_Price req)") auto
    with x True have "ProductRepo_Create E (new_product req) t = (x, u)"
      by (simp add: svc product_service_sel ProductService_Create_def bindG_def checkG_def liftG_def)
    with flow show ?thesis by (rule product_flow.created)
  qed
  show ?thesis
  proof (cases x)
    case (Inl e)
    with run Inr x fu \<open>ph_bindCreate h c = _\<close> show ?thesis
      by (auto simp: ProductHandler_CreateProduct_def tryG_def productError_def somethingWrong_def failG_def retG_def
          Response_Error_def split: if_splits)
  next
    case row: (Inr p)
    obtain y v where y: "invalidateProductLists h u = (y, v)" by fastforce
    from invalidateProductLists_step [OF up fu y] run Inr x row y show ?thesis
      by (auto simp: ProductHandler_CreateProduct_def tryG_def bindG_def okG_def retG_def Response_JSON_def)
  qed
qed

lemma ListProducts_steps:
  assumes up: "cache_up E h kv" and svc: "ph_service h = NewProductService E vc vu" and flow: "product_flow E h kv s tr t"
    and run: "ProductHandler_ListProducts h c t = (r, t')"
  shows "product_flow E h kv s tr t' \<and> (\<exists>c1 a. r = Inr c1 \<and> gc_written c1 = gc_written c @ [a])"
proof -
  have "product_flow E h kv s tr t'"
    using keepsGD [OF other_requests(1) [OF up svc] run] keepsGD [OF product_reads_frame(2) [OF svc] run]
    by (intro product_flow.others [OF flow]) (simp_all add: same_products)
  moreover have "\<exists>c1 a. r = Inr c1 \<and> gc_written c1 = gc_written c @ [a]"
  proof (cases "ph_bindList h c")
    case (Inl e)
    with run show ?thesis by (auto simp: ProductHandler_ListProducts_def failG_def retG_def Response_Error_def)
  next
    case (Inr req)
    have "\<exists>v u. productListCacheVersion h t = (Inr v, u)"
      by (auto simp: productListCacheVersion_def tryG_def retG_def split: option.split prod.split sum.split)
    then obtain v u where v: "productListCacheVersion h t = (Inr v, u)" by blast
    let ?k = "productListCacheKey (ph_sha256 h) v req"
    obtain x u' where x: "cachedG (ph_cache h) (ph_unmarshalList h) ?k u = (x, u')" by fastforce
    from cachedG_run [OF up x] obtain hit where hit: "x = Inr hit" .
    obtain y w where y: "ProductService_ListProducts (ph_service h) req u' = (y, w)" by fastforce
    have c: "\<exists>w'. cacheG h ?k d w = (Inr (), w')" for d
      by (cases "ph_cache h") (auto simp: cacheG_def tryG_def retG_def split: prod.splits)
    note run' = run [unfolded ProductHandler_ListProducts_def Inr sum.case bindG_def v prod.case Let_def x hit]
    show ?thesis
    proof (cases hit)
      case (Some z)
      with run' show ?thesis by (cases z) (auto simp: okG_def retG_def Response_JSON_def)
    next
      case None
      show ?thesis
      proof (cases y)
        case (Inl e)
        with run' None y show ?thesis
          by (auto simp: tryG_def somethingWrong_def failG_def retG_def Response_Error_def)
      next
        case pq: (Inr z)
        obtain ps pg where z: "z = (ps, pg)" by fastforce
        obtain w' where "cacheG h ?k (ListProductRes (map copyProduct ps) pg) w = (Inr (), w')" using c by blast
        with run' None y pq z show ?thesis
          by (auto simp: tryG_def okG_def retG_def bindG_def Response_JSON_def)
      qed
    qed
  qed
  ultimately show ?thesis by blast
qed

section \<open>Properties\<close>

text \<open>
  C30: the handlers of the products are sequences of the single calls of \<open>product_flow\<close>, so they may be
  interleaved as it says, and each request is answered once. A detail answered with 200 was in the cache, or
  it is the row that the request has read and then tried to cache. An update answered with 200 has read the row,
  updated it and then sent the deletion of the cached detail, in this order.
\<close>

theorem product_requests_are_steps:
  assumes "cache_up E h kv" "ph_service h = NewProductService E vc vu" "product_flow E h kv s tr t"
    and "f = ProductHandler_GetProductByID h \<and> P = detail_answer h kv t (gc_params c ''id'') \<or>
      f = ProductHandler_UpdateProduct h \<and> P = update_answer (gc_params c ''id'') \<or>
      (f = ProductHandler_ListProducts h \<or> f = ProductHandler_CreateProduct h) \<and> P = (\<lambda>a new. new = [])"
    and "f c t = (r, t')"
  shows "\<exists>new c1 a. product_flow E h kv s (new @ tr) t' \<and> r = Inr c1 \<and> gc_written c1 = gc_written c @ [a] \<and> P a new"
  using assms(4)
proof (elim disjE conjE)
  assume "f = ProductHandler_GetProductByID h" "P = detail_answer h kv t (gc_params c ''id'')"
  with GetProductByID_steps [OF assms(1-3)] assms(5) show ?thesis by simp
next
  assume "f = ProductHandler_UpdateProduct h" "P = update_answer (gc_params c ''id'')"
  with UpdateProduct_steps [OF assms(1-3)] assms(5) show ?thesis by simp
next
  assume "f = ProductHandler_ListProducts h" "P = (\<lambda>a new. new = [])"
  with ListProducts_steps [OF assms(1-3)] assms(5) show ?thesis by fastforce
next
  assume "f = ProductHandler_CreateProduct h" "P = (\<lambda>a new. new = [])"
  with CreateProduct_steps [OF assms(1-3)] assms(5) show ?thesis by fastforce
qed

text \<open>
  C32: where a cached product detail comes from, and when it may be out of date. However the calls of any
  number of requests interleave, and whatever call to Redis or to the database fails: the detail that a request finds
  in the cache is that of the product it asks for, as the database had it at the start or as a request has
  read it since; and it is the row as it is now, unless an update of the product has not been followed by a
  successful deletion of the key, or a request that had read the row before an update has cached it since
  the last deletion.
\<close>

theorem product_detail_current:
  assumes "cache_up E h kv" "coherent h kv s" "product_flow E h kv s tr t"
    and "cachedG (ph_cache h) (ph_unmarshalProduct h) (productDetailCacheKey i) t = (Inr (Some d), u)"
  shows "(detail_of i d s \<or> (\<exists>n p. Selected n i p \<in> set tr \<and> d = copyProduct p)) \<and>
    (detail_of i d t \<or> undeleted i tr \<or> overtaken i tr)"
proof -
  from cachedG_run [OF assms(1,4)] have "detail_cached h kv t i d" by (auto simp: detail_cached_def)
  from flow_okD(1) [OF product_flow_ok [OF assms(1-3)] this] show ?thesis by (simp add: detail_ok_def)
qed

section \<open>Concrete runs\<close>

definition kv_change :: UpdateProductReq where
  "kv_change = \<lparr>up_Name = ''chai'', up_Description = '''', up_Price = Fin 0\<rparr>"

definition kv_admin :: "kv_world ProductHandler" where
  "kv_admin = kv_handler\<lparr>ph_bindUpdate := (\<lambda>_. Inr kv_change)\<rparr>"

lemma kv_up: "cache_up kv_env kv_admin (\<lambda>w. w)"
proof -
  have "kv_laws kv_env kv_client (\<lambda>w. w)"
    by (auto simp: kv_laws_def kv_env_def kv_client_def shrinks_def incrementWithExpirationScript_def bindG_def retG_def
        restrict_map_def split: if_splits option.splits)
  then show ?thesis by (auto simp: cache_up_def kv_admin_def kv_handler_def bData_def split: if_splits)
qed


lemma kv_admin_service: "ph_service kv_admin = NewProductService kv_env (\<lambda>_. None) (\<lambda>_. None)"
  by (simp add: kv_admin_def kv_handler_def)

lemma kv_selected: "ProductRepo_GetProductByID kv_env ''p1'' kv_state = (Inr kv_product, kv_state)"
  by (simp add: ProductRepo_GetProductByID_def FindById_def stmtG_def askG_def queryG_def kv_env_def bindG_def first_def
      products_table_def kv_state_def kv_product_def)

abbreviation kv_key :: string where
  "kv_key \<equiv> productDetailCacheKey ''p1''"

lemma kv_stored: "cacheG kv_admin kv_key (ProductRes (copyProduct kv_product)) t = (Inr (), t\<lparr>st_world := (st_world t)(kv_key \<mapsto> ''tea'')\<rparr>)"
  by (simp add: cacheG_def kv_admin_def kv_handler_def redis_SetWithExpiration_def commandG_def cmdG_def tryG_def retG_def
      kv_client_def bData_def)

lemma kv_found: "st_world t kv_key = Some ''tea'' \<Longrightarrow>
    cachedG (ph_cache kv_admin) (ph_unmarshalProduct kv_admin) kv_key t = (Inr (Some (copyProduct kv_product)), t)"
  by (simp add: cachedG_def kv_admin_def kv_handler_def redis_Get_def commandG_def cmdG_def tryG_def retG_def bindG_def liftG_def
      kv_client_def)

definition kv_row :: Product where
  "kv_row = (merge_product kv_product kv_change)\<lparr>p_UpdatedAt := 7\<rparr>"

lemma kv_updated: "ProductRepo_Update kv_env (merge_product kv_product kv_change) kv_state =
    (Inr kv_row, kv_state\<lparr>st_products := [kv_row]\<rparr>)"
  by (simp add: ProductRepo_Update_def Update_def Let_def stmtG_def askG_def bindG_def retG_def kv_env_def updateG_def products_table_def
      violation_def kv_state_def kv_product_def kv_row_def kv_change_def merge_product_def)

text \<open>
  The answer to a \<open>PUT\<close> does not settle the cache: a \<open>GET\<close> that has missed the cache and read the row before
  the update writes it after the deletion, and from then on the old detail is answered until it expires.
\<close>

definition kv_stale :: "kv_world st" where
  "kv_stale = kv_state\<lparr>st_products := [kv_row], st_world := [kv_key \<mapsto> ''tea'']\<rparr>"

abbreviation kv_stale_trace :: "product_event list" where
  "kv_stale_trace \<equiv> [Stored 0 ''p1'', Deleted ''p1'', Updated ''p1'', Selected 1 ''p1'' kv_product, Selected 0 ''p1'' kv_product]"

lemma kv_stale_flow: "product_flow kv_env kv_admin (\<lambda>w. w) kv_state kv_stale_trace kv_stale"
proof -
  let ?flow = "product_flow kv_env kv_admin (\<lambda>w. w) kv_state" and ?s = "kv_state\<lparr>st_products := [kv_row]\<rparr>"
  have "?flow [Selected 0 ''p1'' kv_product] kv_state"
    by (rule product_flow.selected [OF product_flow.start _ kv_selected]) (simp add: readers_def)
  then have "?flow [Selected 1 ''p1'' kv_product, Selected 0 ''p1'' kv_product] kv_state"
    by (rule product_flow.selected [OF _ _ kv_selected]) (simp add: readers_def)
  from product_flow.updated [OF this _ kv_updated, of 1 "''p1''"]
  have f: "?flow [Updated ''p1'', Selected 1 ''p1'' kv_product, Selected 0 ''p1'' kv_product] ?s" by simp
  have "redis_Remove \<lparr>rd_cmd = Some kv_client, rd_client = Some kv_client\<rparr> [kv_key] ?s = (Inr (), ?s)"
    by (simp add: redis_Remove_def commandG_def cmdG_def kv_client_def kv_state_def)
  from product_flow.deleted [OF f _ this] have
    "?flow [Deleted ''p1'', Updated ''p1'', Selected 1 ''p1'' kv_product, Selected 0 ''p1'' kv_product] ?s"
    by (simp add: kv_admin_def kv_handler_def)
  from product_flow.stored [OF this _ kv_stored, of 0] show ?thesis
    by (simp add: kv_stale_def kv_state_def)
qed

theorem detail_overtaken_by_update:
  "product_flow kv_env kv_admin (\<lambda>w. w) kv_state kv_stale_trace kv_stale \<and>
   cachedG (ph_cache kv_admin) (ph_unmarshalProduct kv_admin) kv_key kv_stale = (Inr (Some (copyProduct kv_product)), kv_stale) \<and>
   map p_Name (st_products kv_stale) = [''chai''] \<and> pd_Name (copyProduct kv_product) = ''tea''"
  using kv_stale_flow kv_found [of kv_stale]
  by (simp add: kv_stale_def kv_row_def merge_product_def kv_change_def copyProduct_def kv_product_def)

theorem product_detail_current_witness:
  "(detail_of ''p1'' (copyProduct kv_product) kv_state \<or>
     (\<exists>n p. Selected n ''p1'' p \<in> set kv_stale_trace \<and> copyProduct kv_product = copyProduct p)) \<and>
   (detail_of ''p1'' (copyProduct kv_product) kv_stale \<or> undeleted ''p1'' kv_stale_trace \<or> overtaken ''p1'' kv_stale_trace) \<and>
   \<not> undeleted ''p1'' kv_stale_trace \<and> overtaken ''p1'' kv_stale_trace"
proof -
  have "coherent kv_admin (\<lambda>w. w) kv_state" by (simp add: coherent_def kv_state_def)
  note current = product_detail_current [OF kv_up this kv_stale_flow kv_found]
  then show ?thesis by (simp add: kv_stale_def)
qed

lemma kv_request_answered:
  "\<exists>t. ProductHandler_UpdateProduct kv_admin kv_request kv_state =
     (Inr (Response_JSON kv_request StatusOK (ProductRes (copyProduct kv_row))), t)"
  using kv_selected kv_updated
  by (simp add: ProductHandler_UpdateProduct_def Let_def kv_admin_def kv_handler_def kv_request_def tryG_def bindG_def
      ProductService_Update_def product_service_sel checkG_def retG_def okG_def invalidateProduct_def redis_Remove_def
      commandG_def cmdG_def kv_client_def invalidateProductLists_def redis_IncrementWithExpiration_def
      incrementWithExpirationScript_def kv_change_def throwG_def askG_def)

theorem product_requests_are_steps_witness:
  "\<exists>new c1 a t. ProductHandler_UpdateProduct kv_admin kv_request kv_state = (Inr c1, t) \<and> gc_written c1 = [a] \<and>
     an_status a = StatusOK \<and> product_flow kv_env kv_admin (\<lambda>w. w) kv_state (new @ []) t \<and> update_answer ''p1'' a new"
proof -
  obtain t where run: "ProductHandler_UpdateProduct kv_admin kv_request kv_state =
     (Inr (Response_JSON kv_request StatusOK (ProductRes (copyProduct kv_row))), t)" using kv_request_answered by blast
  have "product_flow kv_env kv_admin (\<lambda>w. w) kv_state [] kv_state" by (rule product_flow.start)
  from product_requests_are_steps [where f = "ProductHandler_UpdateProduct kv_admin" and P = "update_answer (gc_params kv_request ''id'')",
      OF kv_up kv_admin_service this _ run] obtain new c1 a where
    "product_flow kv_env kv_admin (\<lambda>w. w) kv_state (new @ []) t" "gc_written c1 = gc_written kv_request @ [a]"
    "Response_JSON kv_request StatusOK (ProductRes (copyProduct kv_row)) = c1"
    "update_answer (gc_params kv_request ''id'') a new" by auto
  with run show ?thesis by (auto simp: Response_JSON_def kv_request_def)
qed

end
