(* ===== verification/Cart.thy ===== *)
theory Cart
  imports Auth Schema
begin

text \<open>
  \<open>internal/cart\<close>: repository, service and gRPC handlers.

  \<^item> A cart is one row of \<open>carts\<close> per user and a row of \<open>cart_lines\<close> per product in it. Every
    operation of the repository is one transaction that makes sure of the row of the user, locks
    it, changes the lines and reads the cart again.
  \<^item> The abstract cart of a user is a map from products to quantities (\<open>cart_view\<close>); the
    operations on it are \<open>cart_spec\<close>. The locale \<open>cart_store\<close> is the contract of the repository in
    these terms, and the service is proved to refine \<open>cart_spec\<close> over any run.
  \<^item> The row lock \<open>FOR UPDATE\<close> serializes the transactions on a cart, so an operation is one step.
\<close>

section \<open>Repository\<close>

text \<open>\<open>INSERT ... ON CONFLICT (cols) DO NOTHING\<close>, with what gorm fills in before.\<close>

definition insertIgnoreG :: "('w, 'r) table \<Rightarrow> ('r \<Rightarrow> 'r \<Rightarrow> bool) \<Rightarrow> 'r \<Rightarrow> ('w st, unit) gom" where
  "insertIgnoreG tb conflict r s =
     (case tb_check tb r of
        Some constraint \<Rightarrow> (Inl (PgError ''23514'' constraint), s)
      | None \<Rightarrow> if \<exists>x \<in> set (tb_rows tb s). conflict x r then (Inr (), s) else insertG tb r s)"

definition CreateIgnore :: "'w env \<Rightarrow> ('w, 'r) table \<Rightarrow> ('r \<Rightarrow> 'r \<Rightarrow> bool) \<Rightarrow> 'r \<Rightarrow> ('w st, unit) gom" where
  "CreateIgnore E tb conflict doc =
     bindG (tb_before_create tb doc) (\<lambda>d.
     bindG (askG (env_now E)) (\<lambda>now. stmtG E (insertIgnoreG tb conflict (tb_created tb now d))))"

text \<open>\<open>fmt.Errorf("message: %w", err)\<close> on an error.\<close>

definition wrapG :: "string \<Rightarrow> ('s, 'a) gom \<Rightarrow> ('s, 'a) gom" where
  "wrapG m act = tryG act (\<lambda>r. case r of Inl err \<Rightarrow> throwG (Wrapf m err) | Inr x \<Rightarrow> retG x)"

text \<open>The driver refuses a \<open>uint\<close> that a \<open>BIGINT\<close> column cannot hold.\<close>

definition bigint :: "uint \<Rightarrow> ('s, unit) gom" where
  "bigint n = (if uint n \<le> max_i64 then retG () else throwG (DriverErr ''value out of range for bigint''))"

definition new_cart :: "string \<Rightarrow> Cart" where
  "new_cart userID = \<lparr>cart_ID = '''', cart_CreatedAt = zero_time, cart_UpdatedAt = zero_time, cart_DeletedAt = None,
     cart_UserID = userID, cart_User = None, cart_Lines = []\<rparr>"

text \<open>\<open>First\<close> with a condition is the statement of \<open>FindOne\<close>: ordered by the primary key, one row.\<close>

definition getOrCreateLockedCart :: "'w env \<Rightarrow> string \<Rightarrow> ('w st, Cart) gom" where
  "getOrCreateLockedCart E userID =
     bindG (wrapG ''ensure cart''
              (CreateIgnore E (carts_table E) (\<lambda>x r. cart_UserID x = cart_UserID r) (new_cart userID))) (\<lambda>_.
     wrapG ''lock cart'' (FindOne E (carts_table E) [WithQuery [\<lambda>r. cart_UserID r = userID]]))"

definition loadCart :: "'w env \<Rightarrow> string \<Rightarrow> ('w st, Cart) gom" where
  "loadCart E userID =
     wrapG ''load cart''
       (FindOne E (carts_table E) [WithQuery [\<lambda>r. cart_UserID r = userID], WithPreload [''User'', ''Lines.Product'']])"

definition withLockedCart :: "'w env \<Rightarrow> string \<Rightarrow> (Cart \<Rightarrow> ('w st, unit) gom) option \<Rightarrow> ('w st, Cart) gom" where
  "withLockedCart E userID mutate =
     WithTransactionContext E
       (bindG (getOrCreateLockedCart E userID) (\<lambda>cart.
        bindG (case mutate of None \<Rightarrow> retG () | Some f \<Rightarrow> f cart) (\<lambda>_.
        loadCart E userID)))"

definition CartRepo_GetOrCreateCart :: "'w env \<Rightarrow> string \<Rightarrow> ('w st, Cart) gom" where
  "CartRepo_GetOrCreateCart E userID = withLockedCart E userID None"

definition CartRepo_AddProduct :: "'w env \<Rightarrow> string \<Rightarrow> string \<Rightarrow> uint \<Rightarrow> ('w st, Cart) gom" where
  "CartRepo_AddProduct E userID productID quantity =
     withLockedCart E userID (Some (\<lambda>cart.
       wrapG ''add cart product''
         (bindG (bigint quantity) (\<lambda>_.
          CreateIgnore E (cart_lines_table E) (\<lambda>x r. cl_CartID x = cl_CartID r \<and> cl_ProductID x = cl_ProductID r)
            \<lparr>cl_CartID = cart_ID cart, cl_ProductID = productID, cl_Product = None, cl_Quantity = quantity\<rparr>))))"

definition CartRepo_RemoveProduct :: "'w env \<Rightarrow> string \<Rightarrow> string \<Rightarrow> ('w st, Cart) gom" where
  "CartRepo_RemoveProduct E userID productID =
     withLockedCart E userID (Some (\<lambda>cart.
       wrapG ''remove cart product''
         (stmtG E (deleteG (cart_lines_table E)
            (\<lambda>r. cl_CartID r = cart_ID cart \<and> cl_ProductID r = productID)))))"

definition CartRepo_GetCartByUserID :: "'w env \<Rightarrow> string \<Rightarrow> ('w st, Cart) gom" where
  "CartRepo_GetCartByUserID E userID =
     tryG (FindOne E (carts_table E) [WithQuery [\<lambda>r. cart_UserID r = userID], WithPreload [''User'', ''Lines.Product'']])
       (\<lambda>r. case r of
          Inl err \<Rightarrow>
            if errors_Is err ErrRecordNotFound then throwG ErrCartNotFound
            else throwG (Wrapf ''get cart by user ID'' err)
        | Inr cart \<Rightarrow> retG cart)"

text \<open>The interface of \<open>service/ports.go\<close>.\<close>

record 'w CartRepository =
  cr_GetOrCreateCart :: "string \<Rightarrow> ('w st, Cart) gom"
  cr_AddProduct :: "string \<Rightarrow> string \<Rightarrow> uint \<Rightarrow> ('w st, Cart) gom"
  cr_RemoveProduct :: "string \<Rightarrow> string \<Rightarrow> ('w st, Cart) gom"

definition NewCartRepository :: "'w env \<Rightarrow> 'w CartRepository" where
  "NewCartRepository E =
     \<lparr>cr_GetOrCreateCart = CartRepo_GetOrCreateCart E, cr_AddProduct = CartRepo_AddProduct E,
      cr_RemoveProduct = CartRepo_RemoveProduct E\<rparr>"

section \<open>Service\<close>

record CartLineReq =
  cq_ProductID :: string
  cq_Quantity :: uint

record AddProductReq =
  aq_UserID :: string
  aq_Line :: "CartLineReq option"

record RemoveProductReq =
  rv_UserID :: string
  rv_ProductID :: string

record 'w CartService =
  cs_validateAdd :: "AddProductReq \<Rightarrow> goerr option"
  cs_validateRemove :: "RemoveProductReq \<Rightarrow> goerr option"
  cs_repo :: "'w CartRepository"

definition CartService_GetCartByUserID :: "'w CartService \<Rightarrow> string \<Rightarrow> ('w st, Cart) gom" where
  "CartService_GetCartByUserID p userID = cr_GetOrCreateCart (cs_repo p) userID"

text \<open>The line is required; a request without one that the validator let pass would be a panic.\<close>

definition CartService_AddProduct :: "'w CartService \<Rightarrow> AddProductReq \<Rightarrow> ('w st, Cart) gom" where
  "CartService_AddProduct p req =
     bindG (checkG (cs_validateAdd p req)) (\<lambda>_.
     case aq_Line req of
       None \<Rightarrow> throwG (ErrNew ''panic: nil line'')
     | Some line \<Rightarrow> cr_AddProduct (cs_repo p) (aq_UserID req) (cq_ProductID line) (cq_Quantity line))"

definition CartService_RemoveProduct :: "'w CartService \<Rightarrow> RemoveProductReq \<Rightarrow> ('w st, Cart) gom" where
  "CartService_RemoveProduct p req =
     bindG (checkG (cs_validateRemove p req)) (\<lambda>_. cr_RemoveProduct (cs_repo p) (rv_UserID req) (rv_ProductID req))"

definition NewCartService ::
    "(AddProductReq \<Rightarrow> goerr option) \<Rightarrow> (RemoveProductReq \<Rightarrow> goerr option) \<Rightarrow> 'w CartRepository \<Rightarrow> 'w CartService" where
  "NewCartService va vr repo = \<lparr>cs_validateAdd = va, cs_validateRemove = vr, cs_repo = repo\<rparr>"

section \<open>gRPC handlers\<close>

text \<open>
  The messages: \<open>quantity\<close> is 32 bits wide and prices are \<open>float32\<close>, to which the parameter
  \<open>single\<close> of the copy decodes a JSON number.
\<close>

record ProductInfo =
  pi_ID :: string
  pi_Code :: string
  pi_Name :: string
  pi_Description :: string
  pi_Price :: float64

record CartLineInfo =
  li_Product :: "ProductInfo option"
  li_Quantity :: "32 word"

record CartInfo =
  ci_ID :: string
  ci_User :: "(string \<times> string) option"
  ci_Lines :: "CartLineInfo list"

definition copyCart :: "(float64 \<Rightarrow> float64) \<Rightarrow> Cart \<Rightarrow> CartInfo" where
  "copyCart single cart =
     \<lparr>ci_ID = cart_ID cart, ci_User = map_option (\<lambda>u. (u_ID u, u_Email u)) (cart_User cart),
      ci_Lines = map (\<lambda>l. \<lparr>li_Product = map_option (\<lambda>p. \<lparr>pi_ID = p_ID p, pi_Code = p_Code p, pi_Name = p_Name p,
                               pi_Description = p_Description p, pi_Price = single (p_Price p)\<rparr>) (cl_Product l),
                           li_Quantity = (if uint (cl_Quantity l) < 2 ^ 32 then ucast (cl_Quantity l) else 0)\<rparr>)
                      (cart_Lines cart)\<rparr>"

record 'w CartHandler =
  ch_service :: "'w CartService"
  ch_single :: "float64 \<Rightarrow> float64"

definition NewCartHandler :: "'w CartService \<Rightarrow> (float64 \<Rightarrow> float64) \<Rightarrow> 'w CartHandler" where
  "NewCartHandler service single = \<lparr>ch_service = service, ch_single = single\<rparr>"

definition CartHandler_AddProduct :: "'w CartHandler \<Rightarrow> string \<Rightarrow> 32 word \<Rightarrow> grpcctx \<Rightarrow> ('w st, CartInfo) gom" where
  "CartHandler_AddProduct h productId quantity ctx =
     (let userID = UserIDFromContext ctx
      in if userID = '''' then throwG (ErrNew ''unauthorized'')
         else
           bindG (CartService_AddProduct (ch_service h)
                    \<lparr>aq_UserID = userID, aq_Line = Some \<lparr>cq_ProductID = productId, cq_Quantity = ucast quantity\<rparr>\<rparr>)
             (\<lambda>cart. retG (copyCart (ch_single h) cart)))"

definition CartHandler_RemoveProduct :: "'w CartHandler \<Rightarrow> string \<Rightarrow> grpcctx \<Rightarrow> ('w st, CartInfo) gom" where
  "CartHandler_RemoveProduct h productId ctx =
     (let userID = UserIDFromContext ctx
      in if userID = '''' then throwG (ErrNew ''unauthorized'')
         else
           bindG (CartService_RemoveProduct (ch_service h) \<lparr>rv_UserID = userID, rv_ProductID = productId\<rparr>)
             (\<lambda>cart. retG (copyCart (ch_single h) cart)))"

definition CartHandler_GetCart :: "'w CartHandler \<Rightarrow> grpcctx \<Rightarrow> ('w st, CartInfo) gom" where
  "CartHandler_GetCart h ctx =
     (let userID = UserIDFromContext ctx
      in if userID = '''' then throwG (ErrNew ''unauthorized'')
         else
           bindG (CartService_GetCartByUserID (ch_service h) userID)
             (\<lambda>cart. retG (copyCart (ch_single h) cart)))"

section \<open>The abstract cart\<close>

text \<open>What a user has in the cart: a map from products to quantities, and the operations on it.\<close>

datatype cart_op = GetOp | AddOp string uint | RemoveOp string

fun cart_spec :: "cart_op \<Rightarrow> (string \<rightharpoonup> uint) \<Rightarrow> (string \<rightharpoonup> uint)" where
  "cart_spec GetOp m = m"
| "cart_spec (AddOp p q) m = (if m p = None then m(p \<mapsto> q) else m)"
| "cart_spec (RemoveOp p) m = m(p := None)"

definition lines_map :: "CartLine list \<Rightarrow> string \<Rightarrow> string \<rightharpoonup> uint" where
  "lines_map ls cid p = map_option cl_Quantity (find (\<lambda>l. cl_CartID l = cid \<and> cl_ProductID l = p) ls)"

definition cart_view :: "'w st \<Rightarrow> string \<Rightarrow> string \<rightharpoonup> uint" where
  "cart_view s u =
     (case find (\<lambda>c. cart_UserID c = u) (st_carts s) of
        None \<Rightarrow> Map.empty
      | Some c \<Rightarrow> lines_map (st_cart_lines s) (cart_ID c))"

definition cart_shown :: "Cart \<Rightarrow> string \<rightharpoonup> uint" where
  "cart_shown c p = map_option cl_Quantity (find (\<lambda>l. cl_ProductID l = p) (cart_Lines c))"

text \<open>
  The tables of the carts are well-formed: a cart per user, a line per cart and product, every
  line in a cart that exists, with a quantity that the column holds.
\<close>

definition cart_ok :: "'w st \<Rightarrow> bool" where
  "cart_ok s \<longleftrightarrow>
     distinct (map cart_ID (st_carts s)) \<and> distinct (map cart_UserID (st_carts s)) \<and>
     distinct (map (\<lambda>l. (cl_CartID l, cl_ProductID l)) (st_cart_lines s)) \<and>
     (\<forall>l \<in> set (st_cart_lines s). cl_CartID l \<in> cart_ID ` set (st_carts s) \<and>
        0 < uint (cl_Quantity l) \<and> uint (cl_Quantity l) \<le> max_i64)"

definition only_carts :: "'w st \<Rightarrow> 'w st \<Rightarrow> bool" where
  "only_carts s t \<longleftrightarrow> same_tables (s\<lparr>st_carts := [], st_cart_lines := []\<rparr>) (t\<lparr>st_carts := [], st_cart_lines := []\<rparr>)"

text \<open>What a call of the repository does: the contract of the operations.\<close>

definition cart_step :: "('w st \<Rightarrow> bool) \<Rightarrow> ('w st \<Rightarrow> string \<Rightarrow> string \<rightharpoonup> uint) \<Rightarrow>
    'w st \<Rightarrow> string \<Rightarrow> cart_op \<Rightarrow> goerr + Cart \<Rightarrow> 'w st \<Rightarrow> bool" where
  "cart_step ok view s u opn r t \<longleftrightarrow>
     ok t \<and> only_carts s t \<and>
     (case r of
        Inl _ \<Rightarrow> same_tables s t
      | Inr c \<Rightarrow> view t = (view s)(u := cart_spec opn (view s u)) \<and> cart_UserID c = u \<and> cart_shown c = view t u)"

lemma only_carts_refl [simp]: "only_carts s s"
  by (simp add: only_carts_def)

lemma only_carts_trans: "only_carts s t \<Longrightarrow> only_carts t u \<Longrightarrow> only_carts s u"
  unfolding only_carts_def by (rule same_tables_trans)

lemma world_only_carts:
  assumes "world_only s t"
  shows "st_carts t = st_carts s" "st_cart_lines t = st_cart_lines s" "only_carts s t"
  using assms by (simp_all add: world_only_iff same_tables_iff only_carts_def)

lemma cart_cong:
  assumes "st_carts t = st_carts s" "st_cart_lines t = st_cart_lines s"
  shows "cart_ok t = cart_ok s" "cart_view t = cart_view s"
  by (simp add: cart_ok_def assms, intro ext) (unfold cart_view_def assms, rule refl)

lemma find_filter_other: "(\<And>x. p x \<Longrightarrow> q x) \<Longrightarrow> find p (filter q xs) = find p xs"
  by (induction xs) auto

lemma lines_map_snoc:
  "lines_map (ls @ [l]) cid p =
     (case lines_map ls cid p of
        None \<Rightarrow> if cl_CartID l = cid \<and> cl_ProductID l = p then Some (cl_Quantity l) else None
      | Some q \<Rightarrow> Some q)"
  by (auto simp: lines_map_def find_append split: option.splits)

lemma lines_map_remove:
  "lines_map (filter (\<lambda>l. \<not> (cl_CartID l = c \<and> cl_ProductID l = q)) ls) cid p =
     (if cid = c \<and> p = q then None else lines_map ls cid p)"
proof (cases "cid = c \<and> p = q")
  case False
  then have "find (\<lambda>l. cl_CartID l = cid \<and> cl_ProductID l = p) (filter (\<lambda>l. \<not> (cl_CartID l = c \<and> cl_ProductID l = q)) ls) =
      find (\<lambda>l. cl_CartID l = cid \<and> cl_ProductID l = p) ls" by (intro find_filter_other) auto
  with False show ?thesis by (auto simp: lines_map_def)
qed (auto simp: lines_map_def find_None_iff_all)

lemma lines_map_None: "lines_map ls cid p = None \<longleftrightarrow> (\<forall>l \<in> set ls. \<not> (cl_CartID l = cid \<and> cl_ProductID l = p))"
  by (simp add: lines_map_def find_None_iff_all)

lemma cart_view_member:
  assumes "cart_ok s" "c \<in> set (st_carts s)"
  shows "cart_view s (cart_UserID c) = lines_map (st_cart_lines s) (cart_ID c)"
  using find_distinct_key [of cart_UserID "st_carts s" c] assms by (simp add: cart_view_def cart_ok_def)

lemma cart_view_absent: "\<forall>c \<in> set (st_carts s). cart_UserID c \<noteq> u \<Longrightarrow> cart_view s u = Map.empty"
  using find_None_iff_all [of "\<lambda>c. cart_UserID c = u" "st_carts s"] by (simp add: cart_view_def)

section \<open>What the statements do\<close>

context table
begin

lemma CreateIgnore_run:
  assumes "CreateIgnore E tb conflict doc s = (r, t)"
  obtains (failed) e where "r = Inl e" "world_only s t"
  | (ignored) x d now u where "r = Inr ()" "world_only s t" "tb_before_create tb doc s = (Inr d, u)"
      "x \<in> set (tb_rows tb s)" "conflict x (tb_created tb now d)" "tb_check tb (tb_created tb now d) = None"
  | (inserted) d now u where "r = Inr ()" "tb_before_create tb doc s = (Inr d, u)"
      "\<forall>x \<in> set (tb_rows tb s). \<not> conflict x (tb_created tb now d)" "violation tb (tb_rows tb s) (tb_created tb now d) = None"
      "world_only (tb_put tb (tb_rows tb s @ [tb_stored tb (tb_created tb now d)]) s) t"
proof (cases "tb_before_create tb doc s")
  case (Pair h u)
  have su: "world_only s u" using keepsGD [OF hook_frame Pair] .
  show ?thesis
  proof (cases h)
    case (Inl e)
    with assms Pair have "r = Inl e" "u = t" by (auto simp: CreateIgnore_def bindG_def)
    with su failed show ?thesis by blast
  next
    case (Inr d)
    let ?now = "fst (env_now E (st_world u))" and ?v = "u\<lparr>st_world := snd (env_now E (st_world u))\<rparr>"
    let ?row = "tb_created tb ?now d"
    have run: "stmtG E (insertIgnoreG tb conflict ?row) ?v = (r, t)"
      using assms Pair Inr by (auto simp: CreateIgnore_def bindG_def askG_def split: prod.splits)
    have sv: "world_only s ?v" using su world_only_world by (rule world_only_trans)
    have frame: "world_only s w" if "world_only ?v w" for w using sv that by (rule world_only_trans)
    consider "\<exists>e. r = Inl e \<and> world_only ?v t"
      | v where "world_only ?v v" "insertIgnoreG tb conflict ?row v = (Inr (), t)" "r = Inr ()"
    proof (cases r)
      case (Inl e)
      from run [unfolded Inl] have "world_only ?v t"
        by (elim stmtG_Inl) (auto simp: insertIgnoreG_def insertG_Inl split: option.splits if_splits)
      with Inl that(1) show ?thesis by blast
    next
      case (Inr x)
      from run [unfolded Inr] show ?thesis using Inr that(2) by (elim stmtG_Inr) simp
    qed
    then show ?thesis
    proof cases
      case 1
      with failed frame show ?thesis by blast
    next
      case (2 v)
      have rows: "tb_rows tb v = tb_rows tb s" using rows_cong [OF frame [OF 2(1)]] .
      show ?thesis
      proof (cases "\<exists>x \<in> set (tb_rows tb s). conflict x ?row")
        case True
        then obtain x where x: "x \<in> set (tb_rows tb s)" "conflict x ?row" by blast
        with 2(2) rows have "t = v" "tb_check tb ?row = None"
          by (auto simp: insertIgnoreG_def split: option.splits dest: if_P split: if_split_asm)
        with ignored [OF 2(3) _ Pair [unfolded Inr] x] frame 2(1) show ?thesis by blast
      next
        case False
        with 2(2) rows have "insertG tb ?row v = (Inr (), t)" by (auto simp: insertIgnoreG_def split: option.splits)
        then have i: "violation tb (tb_rows tb s) ?row = None" "t = tb_put tb (tb_rows tb s @ [tb_stored tb ?row]) v"
          by (simp_all add: insertG_Inr rows)
        have "world_only (tb_put tb (tb_rows tb s @ [tb_stored tb ?row]) s) t"
          unfolding i(2) using frame [OF 2(1)] by (rule put_cong)
        with inserted [OF 2(3) Pair [unfolded Inr] _ i(1)] False show ?thesis by blast
      qed
    qed
  qed
qed

end

lemma wrapG_Inr [gom]: "wrapG m act s = (Inr x, t) \<longleftrightarrow> act s = (Inr x, t)"
  by (auto simp: wrapG_def tryG_def throwG_def retG_def split: prod.splits sum.splits)

lemma wrapG_Inl [gom]: "wrapG m act s = (Inl e, t) \<longleftrightarrow> (\<exists>d. e = Wrapf m d \<and> act s = (Inl d, t))"
  by (auto simp: wrapG_def tryG_def throwG_def retG_def split: prod.splits sum.splits)

lemma carts_sel:
  "tb_rows (carts_table E) = st_carts" "tb_put (carts_table E) rs s = s\<lparr>st_carts := rs\<rparr>"
  "tb_rows (cart_lines_table E) = st_cart_lines" "tb_put (cart_lines_table E) ls s = s\<lparr>st_cart_lines := ls\<rparr>"
  by (simp_all add: carts_table_def cart_lines_table_def)

lemma put_carts:
  assumes "world_only (s\<lparr>st_carts := cs\<rparr>) t"
  shows "st_carts t = cs" "st_cart_lines t = st_cart_lines s" "only_carts s t"
  using assms by (simp_all add: world_only_iff same_tables_iff only_carts_def)

lemma put_cart_lines:
  assumes "world_only (s\<lparr>st_cart_lines := ls\<rparr>) t"
  shows "st_carts t = st_carts s" "st_cart_lines t = ls" "only_carts s t"
  using assms by (simp_all add: world_only_iff same_tables_iff only_carts_def)

lemma find_cart_result:
  assumes "FindOne E (carts_table E) opts s = (Inr c, t)"
    and "getOption opts = \<lparr>fo_query = [\<lambda>r. cart_UserID r = u], fo_order = \<lparr>obc_Column = ''id'', obc_Desc = False\<rparr>,
      fo_offset = 0, fo_limit = 1000, fo_preloads = names\<rparr>"
  shows "world_only s t \<and> (\<exists>c0 \<in> set (st_carts s). cart_UserID c0 = u \<and> c = preload_row (carts_table E) names s c0)"
proof -
  have "world_only s t" using keepsGD [OF reads_frame(2) assms(1)] .
  with carts.FindOne_result [OF assms(1), of "\<lambda>r. SStr (cart_ID r)"] assms(2) show ?thesis
    by (auto simp: matches_def carts_table_def)
qed

text \<open>A new cart is empty: no line names its id.\<close>

lemma new_cart_view:
  assumes ok: "cart_ok s" and new: "cart_UserID c = u" "\<forall>x \<in> set (st_carts s). cart_UserID x \<noteq> u \<and> cart_ID x \<noteq> cart_ID c"
    and t: "st_carts t = st_carts s @ [c]" "st_cart_lines t = st_cart_lines s"
  shows "cart_ok t" "cart_view t = cart_view s"
proof -
  show "cart_ok t" using ok new t by (auto simp: cart_ok_def)
  have "lines_map (st_cart_lines s) (cart_ID c) = Map.empty"
    using ok new(2) by (auto simp: cart_ok_def fun_eq_iff lines_map_None)
  moreover have "find (\<lambda>x. cart_UserID x = u) (st_carts s) = None"
    using new(2) by (simp add: find_None_iff_all)
  ultimately have "cart_view t v = cart_view s v" for v
    using new(1) by (cases "find (\<lambda>x. cart_UserID x = v) (st_carts s)") (auto simp: cart_view_def t find_append)
  then show "cart_view t = cart_view s" by blast
qed

lemma getOrCreateLockedCart_run:
  assumes run: "getOrCreateLockedCart E u s = (Inr c, t)" and ok: "cart_ok s"
  shows "cart_ok t \<and> only_carts s t \<and> st_cart_lines t = st_cart_lines s \<and> cart_view t = cart_view s \<and>
    c \<in> set (st_carts t) \<and> cart_UserID c = u"
proof -
  let ?clash = "\<lambda>x r. cart_UserID x = cart_UserID (r :: Cart)"
  from run obtain a where new: "CreateIgnore E (carts_table E) ?clash (new_cart u) s = (Inr (), a)"
    and lock: "FindOne E (carts_table E) [WithQuery [\<lambda>r. cart_UserID r = u]] a = (Inr c, t)"
    by (auto simp: getOrCreateLockedCart_def gom)
  have at: "world_only a t" "c \<in> set (st_carts a)" "cart_UserID c = u"
    using find_cart_result [OF lock, of u "[]"] by (auto simp: option_defs)
  have "cart_ok a \<and> only_carts s a \<and> st_cart_lines a = st_cart_lines s \<and> cart_view a = cart_view s"
    using new
  proof (cases rule: carts.CreateIgnore_run)
    case (ignored x d now v)
    note w = world_only_carts [OF ignored(2)]
    then show ?thesis using ok cart_cong [OF w(1,2)] by simp
  next
    case (inserted d now v)
    let ?r = "tb_created (carts_table E) now d"
    have "cart_UserID d = u" using inserted(2) by (auto simp: carts_table_def Cart_BeforeCreate_def new_cart_def gom)
    then have r: "cart_UserID (tb_stored (carts_table E) ?r) = u" "cart_UserID ?r = u"
      "cart_ID (tb_stored (carts_table E) ?r) = cart_ID ?r" by (simp_all add: carts_table_def)
    have clash: "\<forall>x \<in> set (st_carts s). cart_UserID x \<noteq> u \<and> cart_ID x \<noteq> cart_ID ?r"
      using violation_None_unique [OF inserted(4), of "''carts_pkey''" "\<lambda>x r. cart_ID x = cart_ID r"] inserted(3) r(2)
      by (simp add: carts_sel) (simp add: carts_table_def)
    note w = put_carts [OF inserted(5) [unfolded carts_sel]]
    from new_cart_view [OF ok r(1) _ w(1,2)] clash w(2,3) r(3) show ?thesis by simp
  qed simp_all
  moreover note w = world_only_carts [OF at(1)]
  ultimately show ?thesis using at(2,3) cart_cong [OF w(1,2)] only_carts_trans [of s a t] by simp
qed

lemma loadCart_run:
  assumes run: "loadCart E u s = (Inr c, t)" and ok: "cart_ok s"
  shows "world_only s t \<and> cart_UserID c = u \<and> cart_shown c = cart_view s u"
proof -
  from run have f: "FindOne E (carts_table E) [WithQuery [\<lambda>r. cart_UserID r = u], WithPreload [''User'', ''Lines.Product'']] s = (Inr c, t)"
    by (simp add: loadCart_def gom)
  obtain c0 where c0: "world_only s t" "c0 \<in> set (st_carts s)" "cart_UserID c0 = u"
    "c = preload_row (carts_table E) [''User'', ''Lines.Product''] s c0"
    using find_cart_result [OF f, of u "[''User'', ''Lines.Product'']"] by (auto simp: option_defs)
  let ?f = "\<lambda>l. l\<lparr>cl_Product := find (\<lambda>p. p_ID p = cl_ProductID l) (st_products s)\<rparr>"
  have c: "cart_UserID c = u" "cart_Lines c = map ?f (filter (\<lambda>l. cl_CartID l = cart_ID c0) (st_cart_lines s))"
    using c0(3) by (simp_all add: c0(4) preload_row_def carts_table_def cart_preload_def)
  have "map_option cl_Quantity (find (\<lambda>l. cl_ProductID l = p) (map ?f (filter (\<lambda>l. cl_CartID l = k) ls))) = lines_map ls k p" for p k ls
    by (induction ls) (auto simp: lines_map_def)
  then have "cart_shown c = lines_map (st_cart_lines s) (cart_ID c0)" by (simp add: cart_shown_def c(2) fun_eq_iff)
  with cart_view_member [OF ok c0(2)] c0(1,3) c(1) show ?thesis by simp
qed

section \<open>The operations\<close>

text \<open>
  A transaction on the cart of a user: what its change does to the lines decides the step. The
  change sees the cart of the user.
\<close>

lemma withLockedCart_step:
  assumes run: "withLockedCart E u mutate s = (r, t)" and ok: "cart_ok s"
    and change: "\<And>c a x b. cart_ok a \<Longrightarrow> c \<in> set (st_carts a) \<Longrightarrow> cart_UserID c = u \<Longrightarrow>
      (case mutate of None \<Rightarrow> retG () | Some f \<Rightarrow> f c) a = (Inr x, b) \<Longrightarrow>
      cart_ok b \<and> only_carts a b \<and> cart_view b = (cart_view a)(u := cart_spec opn (cart_view a u))"
  shows "cart_step cart_ok cart_view s u opn r t"
proof (cases r)
  case (Inl e)
  with run have "same_tables s t" unfolding withLockedCart_def by (auto dest: Transaction_Inl)
  then have "same_tables s t" "st_carts t = st_carts s" "st_cart_lines t = st_cart_lines s" "only_carts s t"
    by (simp_all add: same_tables_iff only_carts_def)
  with Inl ok cart_cong [of t s] show ?thesis by (simp add: cart_step_def)
next
  case (Inr c')
  from run [unfolded Inr withLockedCart_def] obtain s1 t1 where s1: "world_only s s1" and t1: "world_only t1 t"
    and body: "bindG (getOrCreateLockedCart E u) (\<lambda>cart. bindG (case mutate of None \<Rightarrow> retG () | Some f \<Rightarrow> f cart)
      (\<lambda>_. loadCart E u)) s1 = (Inr c', t1)" by (rule Transaction_Inr)
  from body obtain c a x b where c: "getOrCreateLockedCart E u s1 = (Inr c, a)"
    and x: "(case mutate of None \<Rightarrow> retG () | Some f \<Rightarrow> f c) a = (Inr x, b)" and l: "loadCart E u b = (Inr c', t1)"
    by (auto simp: bindG_Inr_iff)
  note w = world_only_carts [OF s1]
  have a: "cart_ok a" "only_carts s1 a" "cart_view a = cart_view s" "c \<in> set (st_carts a)" "cart_UserID c = u"
    using getOrCreateLockedCart_run [OF c] ok cart_cong [OF w(1,2)] by simp_all
  have b: "cart_ok b" "only_carts a b" "cart_view b = (cart_view s)(u := cart_spec opn (cart_view s u))"
    using change [OF a(1,4,5) x] a(3) by simp_all
  have t: "world_only b t" "cart_UserID c' = u" "cart_shown c' = cart_view b u"
    using loadCart_run [OF l b(1)] t1 world_only_trans by blast+
  note v = world_only_carts [OF t(1)]
  have "only_carts s t" using w(3) a(2) b(2) v(3) only_carts_trans by blast
  with Inr b t cart_cong [OF v(1,2)] show ?thesis by (simp add: cart_step_def)
qed

text \<open>Adding a line to the cart \<open>c\<close> of the user, or removing it, leaves the other carts alone.\<close>

lemma cart_view_change:
  assumes ok: "cart_ok a" and c: "c \<in> set (st_carts a)" "cart_UserID c = u" and carts: "st_carts b = st_carts a"
    and okb: "cart_ok b" and lines: "\<And>k p. lines_map (st_cart_lines b) k p = (if k = cart_ID c then m p else lines_map (st_cart_lines a) k p)"
  shows "cart_view b = (cart_view a)(u := m)"
proof
  fix v
  show "cart_view b v = ((cart_view a)(u := m)) v"
  proof (cases "\<exists>d \<in> set (st_carts a). cart_UserID d = v")
    case True
    then obtain d where d: "d \<in> set (st_carts a)" "cart_UserID d = v" by blast
    have "cart_ID d = cart_ID c \<longleftrightarrow> d = c" "cart_UserID d = cart_UserID c \<longleftrightarrow> d = c"
      using ok c(1) d(1) distinct_key_unique [of cart_ID "st_carts a" d c] distinct_key_unique [of cart_UserID "st_carts a" d c]
      by (auto simp: cart_ok_def)
    with cart_view_member [OF ok d(1)] cart_view_member [OF okb, of d] d c carts lines
    show ?thesis by (auto simp: fun_eq_iff)
  next
    case False
    then have "v \<noteq> u" "cart_view a v = Map.empty" "cart_view b v = Map.empty"
      using c carts by (auto intro!: cart_view_absent)
    then show ?thesis by simp
  qed
qed

lemma GetOrCreate_step:
  assumes "CartRepo_GetOrCreateCart E u s = (r, t)" "cart_ok s"
  shows "cart_step cart_ok cart_view s u GetOp r t"
  using assms(1) [unfolded CartRepo_GetOrCreateCart_def] assms(2)
  by (rule withLockedCart_step) (auto simp: gom)

lemma AddProduct_step:
  assumes "CartRepo_AddProduct E u p q s = (r, t)" "cart_ok s"
  shows "cart_step cart_ok cart_view s u (AddOp p q) r t"
  using assms(1) [unfolded CartRepo_AddProduct_def] assms(2)
proof (rule withLockedCart_step)
  fix c a x b assume ok: "cart_ok a" and c: "c \<in> set (st_carts a)" "cart_UserID c = u"
    and run: "(case Some (\<lambda>cart. wrapG ''add cart product'' (bindG (bigint q) (\<lambda>_.
        CreateIgnore E (cart_lines_table E) (\<lambda>x r. cl_CartID x = cl_CartID r \<and> cl_ProductID x = cl_ProductID r)
          \<lparr>cl_CartID = cart_ID cart, cl_ProductID = p, cl_Product = None, cl_Quantity = q\<rparr>))) of
      None \<Rightarrow> retG () | Some f \<Rightarrow> f c) a = (Inr x, b)"
  let ?l = "\<lparr>cl_CartID = cart_ID c, cl_ProductID = p, cl_Product = None, cl_Quantity = q\<rparr>"
  let ?P = "cart_ok b \<and> only_carts a b \<and> cart_view b = (cart_view a)(u := cart_spec (AddOp p q) (cart_view a u))"
  from run have q: "uint q \<le> max_i64" and
    add: "CreateIgnore E (cart_lines_table E) (\<lambda>x r. cl_CartID x = cl_CartID r \<and> cl_ProductID x = cl_ProductID r) ?l a = (Inr x, b)"
    by (auto simp: gom bigint_def split: if_splits)
  have va: "cart_view a u = lines_map (st_cart_lines a) (cart_ID c)" using cart_view_member [OF ok c(1)] c(2) by simp
  show ?P using add
  proof (cases rule: cart_lines.CreateIgnore_run)
    case (ignored y d now v)
    then have "y \<in> set (st_cart_lines a)" "cl_CartID y = cart_ID c" "cl_ProductID y = p"
      by (auto simp: cart_lines_table_def gom)
    then have "lines_map (st_cart_lines a) (cart_ID c) p \<noteq> None" by (auto simp: lines_map_None)
    with va have "cart_spec (AddOp p q) (cart_view a u) = cart_view a u" by auto
    moreover note w = world_only_carts [OF ignored(2)]
    ultimately show ?thesis using ok cart_cong [OF w(1,2)] w(3) by simp
  next
    case (inserted d now v)
    have d: "d = ?l" "tb_created (cart_lines_table E) now ?l = ?l" "tb_stored (cart_lines_table E) ?l = ?l"
      using inserted(2) by (simp_all add: cart_lines_table_def gom)
    note w = put_cart_lines [OF inserted(5) [unfolded carts_sel d]]
    have new: "\<forall>y \<in> set (st_cart_lines a). \<not> (cl_CartID y = cart_ID c \<and> cl_ProductID y = p)"
      using inserted(3) by (simp add: d carts_sel)
    have "0 < uint q" using violation_None_check [OF inserted(4)]
      by (auto simp: d cart_lines_table_def word_gt_0 uint_0_iff order_less_le split: if_splits)
    with ok c(1) new w(1,2) q have okb: "cart_ok b" by (auto simp: cart_ok_def)
    have none: "lines_map (st_cart_lines a) (cart_ID c) p = None" using new by (simp add: lines_map_None)
    have "cart_view b = (cart_view a)(u := (cart_view a u)(p \<mapsto> q))"
      using okb by (rule cart_view_change [OF ok c w(1)]) (use none in \<open>auto simp: w(2) lines_map_snoc va split: option.splits\<close>)
    with none va okb w(3) show ?thesis by simp
  qed simp_all
qed

lemma RemoveProduct_step:
  assumes "CartRepo_RemoveProduct E u p s = (r, t)" "cart_ok s"
  shows "cart_step cart_ok cart_view s u (RemoveOp p) r t"
  using assms(1) [unfolded CartRepo_RemoveProduct_def] assms(2)
proof (rule withLockedCart_step)
  fix c a x b assume ok: "cart_ok a" and c: "c \<in> set (st_carts a)" "cart_UserID c = u"
    and run: "(case Some (\<lambda>cart. wrapG ''remove cart product'' (stmtG E (deleteG (cart_lines_table E)
            (\<lambda>r. cl_CartID r = cart_ID cart \<and> cl_ProductID r = p)))) of
      None \<Rightarrow> retG () | Some f \<Rightarrow> f c) a = (Inr x, b)"
  let ?keep = "\<lambda>l. \<not> (cl_CartID l = cart_ID c \<and> cl_ProductID l = p)"
  from run have "stmtG E (deleteG (cart_lines_table E) (\<lambda>r. cl_CartID r = cart_ID c \<and> cl_ProductID r = p)) a = (Inr x, b)"
    by (simp add: gom)
  then obtain a' where a': "world_only a a'" "b = a'\<lparr>st_cart_lines := filter ?keep (st_cart_lines a')\<rparr>"
    by (elim stmtG_Inr) (auto simp: deleteG_def carts_sel)
  note w = world_only_carts [OF a'(1)]
  have b: "st_carts b = st_carts a" "st_cart_lines b = filter ?keep (st_cart_lines a)" "only_carts a b"
    using w by (simp_all add: a'(2) only_carts_def same_tables_iff)
  have va: "cart_view a u = lines_map (st_cart_lines a) (cart_ID c)" using cart_view_member [OF ok c(1)] c(2) by simp
  have okb: "cart_ok b" using ok b(1,2) by (auto simp: cart_ok_def distinct_map inj_on_def)
  have "cart_view b = (cart_view a)(u := (cart_view a u)(p := None))"
    using okb by (rule cart_view_change [OF ok c b(1)]) (auto simp: b(2) lines_map_remove [simplified] va)
  with okb b(3) show "cart_ok b \<and> only_carts a b \<and> cart_view b = (cart_view a)(u := cart_spec (RemoveOp p) (cart_view a u))"
    by simp
qed

section \<open>The service refines the abstract carts\<close>

text \<open>The calls of the service, and any sequence of them among steps that leave the carts alone.\<close>

definition cart_call :: "'w CartService \<Rightarrow> string \<Rightarrow> cart_op \<Rightarrow> ('w st, Cart) gom" where
  "cart_call p u opn =
     (case opn of
        GetOp \<Rightarrow> CartService_GetCartByUserID p u
      | AddOp productID quantity \<Rightarrow>
          CartService_AddProduct p \<lparr>aq_UserID = u, aq_Line = Some \<lparr>cq_ProductID = productID, cq_Quantity = quantity\<rparr>\<rparr>
      | RemoveOp productID \<Rightarrow> CartService_RemoveProduct p \<lparr>rv_UserID = u, rv_ProductID = productID\<rparr>)"

type_synonym cart_trace = "(string \<times> cart_op \<times> (goerr + Cart)) list"

inductive cart_run :: "'w CartService \<Rightarrow> 'w st \<Rightarrow> cart_trace \<Rightarrow> 'w st \<Rightarrow> bool" for p where
  start: "cart_run p s [] s"
| call: "cart_run p s tr t \<Longrightarrow> cart_call p u opn t = (r, t') \<Longrightarrow> cart_run p s (tr @ [(u, opn, r)]) t'"
| other: "cart_run p s tr t \<Longrightarrow> st_carts t' = st_carts t \<Longrightarrow> st_cart_lines t' = st_cart_lines t \<Longrightarrow> cart_run p s tr t'"

text \<open>
  The abstract machine on the maps of all users: an answered call applies its operation to the
  map of its user and answers that map; a failed call does nothing.
\<close>

fun cart_machine :: "(string \<Rightarrow> string \<rightharpoonup> uint) \<Rightarrow> cart_trace \<Rightarrow> (string \<Rightarrow> string \<rightharpoonup> uint) \<Rightarrow> bool" where
  "cart_machine m [] m' \<longleftrightarrow> m' = m"
| "cart_machine m ((u, opn, Inl e) # tr) m' \<longleftrightarrow> cart_machine m tr m'"
| "cart_machine m ((u, opn, Inr c) # tr) m' \<longleftrightarrow>
     cart_UserID c = u \<and> cart_shown c = cart_spec opn (m u) \<and> cart_machine (m(u := cart_spec opn (m u))) tr m'"

lemma cart_machine_append:
  "cart_machine m (tr @ tr') m'' \<longleftrightarrow> (\<exists>m'. cart_machine m tr m' \<and> cart_machine m' tr' m'')"
proof (induction tr arbitrary: m)
  case (Cons e tr)
  obtain u opn r where e: "e = (u, opn, r)" by (cases e)
  show ?case by (cases r) (simp_all add: e Cons.IH del: fun_upd_apply)
qed simp

locale cart_store =
  fixes repo :: "'w CartRepository" and ok :: "'w st \<Rightarrow> bool" and view :: "'w st \<Rightarrow> string \<Rightarrow> string \<rightharpoonup> uint"
  assumes get: "cr_GetOrCreateCart repo u s = (r, t) \<Longrightarrow> ok s \<Longrightarrow> cart_step ok view s u GetOp r t"
    and add: "cr_AddProduct repo u p q s = (r, t) \<Longrightarrow> ok s \<Longrightarrow> cart_step ok view s u (AddOp p q) r t"
    and remove: "cr_RemoveProduct repo u p s = (r, t) \<Longrightarrow> ok s \<Longrightarrow> cart_step ok view s u (RemoveOp p) r t"
    and local: "st_carts t = st_carts s \<Longrightarrow> st_cart_lines t = st_cart_lines s \<Longrightarrow> ok t = ok s \<and> view t = view s"
begin

lemma refused: "ok s \<Longrightarrow> cart_step ok view s u opn (Inl e) s"
  by (simp add: cart_step_def)

lemma call_step:
  assumes "cs_repo p = repo" "ok s" "cart_call p u opn s = (r, t)"
  shows "cart_step ok view s u opn r t"
proof (cases opn)
  case GetOp
  with assms get show ?thesis by (simp add: cart_call_def CartService_GetCartByUserID_def)
next
  case (AddOp productID q)
  then have "(\<exists>e. r = Inl e \<and> t = s) \<or> cr_AddProduct repo u productID q s = (r, t)"
    using assms by (auto simp: cart_call_def CartService_AddProduct_def bindG_def checkG_def split: option.splits)
  with AddOp add refused assms(2) show ?thesis by blast
next
  case (RemoveOp productID)
  then have "(\<exists>e. r = Inl e \<and> t = s) \<or> cr_RemoveProduct repo u productID s = (r, t)"
    using assms by (auto simp: cart_call_def CartService_RemoveProduct_def bindG_def checkG_def split: option.splits)
  with RemoveOp remove refused assms(2) show ?thesis by blast
qed

lemma step_machine:
  assumes "cart_step ok view s u opn r t"
  shows "ok t" "cart_machine (view s) [(u, opn, r)] (view t)"
proof -
  show "ok t" using assms by (simp add: cart_step_def)
  show "cart_machine (view s) [(u, opn, r)] (view t)"
  proof (cases r)
    case (Inl e)
    with assms have "st_carts t = st_carts s" "st_cart_lines t = st_cart_lines s"
      by (simp_all add: cart_step_def same_tables_iff)
    with local have "view t = view s" by blast
    with Inl show ?thesis by simp
  qed (use assms in \<open>auto simp: cart_step_def\<close>)
qed

lemma run_refines:
  assumes "cart_run p s tr t" "cs_repo p = repo" "ok s"
  shows "ok t \<and> cart_machine (view s) tr (view t)"
  using assms(1,3)
proof induction
  case (call s tr t u opn r t')
  then have "cart_step ok view t u opn r t'" using call_step assms(2) by blast
  with call.IH [OF call.prems] step_machine show ?case by (auto simp: cart_machine_append)
next
  case (other s tr t t')
  with local show ?case by metis
qed simp

end

interpretation cart_repo: cart_store "NewCartRepository E" cart_ok cart_view for E :: "'w env"
proof (unfold_locales, goal_cases)
  case (4 t s)
  then show ?case using cart_cong by blast
qed (simp_all add: NewCartRepository_def GetOrCreate_step AddProduct_step RemoveProduct_step)

text \<open>
  C25: the carts refine maps from products to quantities. Over any run of the service, with any
  steps of other components in between, every call that answers has applied its operation to the
  map of its user and answers exactly that map: \<open>AddProduct\<close> puts a product that is not there and
  keeps the quantity of one that is, \<open>RemoveProduct\<close> deletes it, and a call that fails does nothing.
\<close>

theorem cart_service_refines_maps:
  assumes "cart_run (NewCartService va vr (NewCartRepository E)) s tr t" "cart_ok s"
  shows "cart_machine (cart_view s) tr (cart_view t)"
  using cart_repo.run_refines [OF assms(1) _ assms(2)] by (simp add: NewCartService_def)

section \<open>Calls over gRPC\<close>

text \<open>A handler is a call of the service for the user of the context.\<close>

lemma CartHandler_calls:
  assumes "UserIDFromContext ctx = u" "u \<noteq> ''''"
  shows "CartHandler_GetCart h ctx = bindG (cart_call (ch_service h) u GetOp) (\<lambda>cart. retG (copyCart (ch_single h) cart))"
    and "CartHandler_AddProduct h p q ctx =
      bindG (cart_call (ch_service h) u (AddOp p (ucast q))) (\<lambda>cart. retG (copyCart (ch_single h) cart))"
    and "CartHandler_RemoveProduct h p ctx =
      bindG (cart_call (ch_service h) u (RemoveOp p)) (\<lambda>cart. retG (copyCart (ch_single h) cart))"
  using assms by (simp_all add: CartHandler_GetCart_def CartHandler_AddProduct_def CartHandler_RemoveProduct_def cart_call_def)

text \<open>The answer of a call is the cart of the caller, and no other cart changes.\<close>

lemma cart_call_answer:
  assumes "cs_repo p = NewCartRepository E" "cart_ok s"
    and "bindG (cart_call p u opn) (\<lambda>cart. retG (copyCart single cart)) s = (r, t)"
  shows "cart_ok t \<and> (case r of
      Inl e \<Rightarrow> same_tables s t
    | Inr info \<Rightarrow> \<exists>c. info = copyCart single c \<and> cart_UserID c = u \<and> cart_shown c = cart_view t u \<and> only_carts s t \<and>
        cart_view t = (cart_view s)(u := cart_spec opn (cart_view s u)))"
proof -
  obtain x a where x: "cart_call p u opn s = (x, a)" by fastforce
  have "cart_step cart_ok cart_view s u opn x a" by (rule cart_repo.call_step [OF assms(1,2) x])
  with assms(3) x show ?thesis
    by (cases x) (auto simp: bindG_def retG_def cart_step_def)
qed

section \<open>Concrete runs\<close>

definition demo_carts :: "nat CartService" where
  "demo_carts = NewCartService (\<lambda>_. None) (\<lambda>_. None) (NewCartRepository calm)"

definition demo_trace :: "cart_trace \<times> nat st" where
  "demo_trace =
     (let (a, s1) = cart_call demo_carts ''ann'' (AddOp ''pen'' 2) empty_st;
          (b, s2) = cart_call demo_carts ''ann'' (AddOp ''pen'' 5) s1;
          (c, s3) = cart_call demo_carts ''bob'' (RemoveOp ''pen'') s2
      in ([(''ann'', AddOp ''pen'' 2, a), (''ann'', AddOp ''pen'' 5, b), (''bob'', RemoveOp ''pen'', c)], s3))"

lemma demo_cart_run: "cart_run demo_carts empty_st (fst demo_trace) (snd demo_trace)"
proof -
  obtain a s1 where 1: "cart_call demo_carts ''ann'' (AddOp ''pen'' 2) empty_st = (a, s1)" by fastforce
  obtain b s2 where 2: "cart_call demo_carts ''ann'' (AddOp ''pen'' 5) s1 = (b, s2)" by fastforce
  obtain c s3 where 3: "cart_call demo_carts ''bob'' (RemoveOp ''pen'') s2 = (c, s3)" by fastforce
  note run = cart_run.call [OF cart_run.call [OF cart_run.call [OF cart_run.start 1] 2] 3]
  then show ?thesis by (simp add: demo_trace_def 1 2 3)
qed

lemma empty_st_cart_ok: "cart_ok empty_st"
  by (simp add: cart_ok_def empty_st_def)

text \<open>Adding a product twice keeps the first quantity.\<close>

theorem cart_service_refines_maps_witness:
  "cart_machine (\<lambda>_. Map.empty) (fst demo_trace) (cart_view (snd demo_trace)) \<and>
   cart_view (snd demo_trace) ''ann'' ''pen'' = Some 2 \<and> list_all (\<lambda>(_, _, r). \<not> isl r) (fst demo_trace)"
proof -
  have "cart_view empty_st = (\<lambda>_. Map.empty)" by (intro ext) (simp add: cart_view_def empty_st_def)
  moreover have "cart_machine (cart_view empty_st) (fst demo_trace) (cart_view (snd demo_trace))"
    by (rule cart_service_refines_maps [OF demo_cart_run [unfolded demo_carts_def] empty_st_cart_ok])
  moreover have "cart_view (snd demo_trace) ''ann'' ''pen'' = Some 2" by code_simp
  moreover have "list_all (\<lambda>(_, _, r). \<not> isl r) (fst demo_trace)" by code_simp
  ultimately show ?thesis by simp
qed

end
