(* ===== verification/OrderHandler.thy ===== *)
theory OrderHandler
  imports CancelOrder Redis User "HOL-Library.Multiset"
begin

text \<open>
  \<open>internal/order/port/http\<close>: the handlers of the orders, with the rate limit and the idempotency
  records that they keep in Redis.

  \<^item> A handler gets the interface \<open>orderService\<close> (a record of operations) and an optional cache.
    A helper that may answer returns the context beside its results.
  \<^item> The locale \<open>order_service\<close> is what the handlers rely on: an order is placed, replayed, or
    nothing has changed. It is interpreted on the service of the code.
  \<^item> \<open>encoding/json\<close>, the digest and the binding of requests are parameters of the handler.
\<close>

section \<open>Answers\<close>

record OrderProductDto =
  opd_ID :: string
  opd_Code :: string
  opd_Name :: string
  opd_Price :: float64

record OrderLineDto =
  old_Product :: OrderProductDto
  old_Quantity :: uint
  old_Price :: float64

record OrderDto =
  od_ID :: string
  od_Code :: string
  od_Lines :: "OrderLineDto list"
  od_TotalPrice :: float64
  od_Status :: string

datatype order_data = OrderRes OrderDto | ListOrderRes "OrderDto list" Pagination

text \<open>\<open>utils.Copy\<close>; a line without its product has the zero product.\<close>

definition copyOrderProduct :: "Product option \<Rightarrow> OrderProductDto" where
  "copyOrderProduct p =
     (case p of
        None \<Rightarrow> \<lparr>opd_ID = '''', opd_Code = '''', opd_Name = '''', opd_Price = Fin 0\<rparr>
      | Some p \<Rightarrow> \<lparr>opd_ID = p_ID p, opd_Code = p_Code p, opd_Name = p_Name p, opd_Price = p_Price p\<rparr>)"

definition copyOrder :: "Order \<Rightarrow> OrderDto" where
  "copyOrder ord =
     \<lparr>od_ID = o_ID ord, od_Code = o_Code ord,
      od_Lines = map (\<lambda>l. \<lparr>old_Product = copyOrderProduct (ol_Product l), old_Quantity = ol_Quantity l,
                            old_Price = ol_Price l\<rparr>) (o_Lines ord),
      od_TotalPrice = o_TotalPrice ord, od_Status = o_Status ord\<rparr>"

section \<open>The handler\<close>

definition idempotencyHeader :: string where "idempotencyHeader = ''Idempotency-Key''"
definition idempotencyStatusProcessing :: string where "idempotencyStatusProcessing = ''processing''"
definition idempotencyStatusSucceeded :: string where "idempotencyStatusSucceeded = ''succeeded''"

record 'w orderService =
  os_PlaceOrder :: "PlaceOrderReq \<Rightarrow> ('w st, Order) gom"
  os_GetOrderByID :: "string \<Rightarrow> string \<Rightarrow> ('w st, Order) gom"
  os_GetMyOrders :: "ListOrderReq \<Rightarrow> ('w st, Order list \<times> Pagination) gom"
  os_CancelOrder :: "string \<Rightarrow> string \<Rightarrow> ('w st, Order) gom"

record idempotencyRecord =
  ir_Status :: string
  ir_OrderID :: string
  ir_Fingerprint :: string

record 'w OrderHandler =
  oh_service :: "'w orderService"
  oh_cache :: "'w redis option"
  oh_idempotencyTTL :: duration
  oh_rateLimitLimit :: int64
  oh_rateLimitWindow :: duration
  oh_clock :: "'w \<Rightarrow> time \<times> 'w"
  oh_bindPlace :: "order_data ginctx \<Rightarrow> goerr + PlaceOrderReq"
  oh_bindList :: "order_data ginctx \<Rightarrow> goerr + ListOrderReq"
  oh_marshalRecord :: "idempotencyRecord \<Rightarrow> goerr + string"
  oh_unmarshalRecord :: "string \<Rightarrow> goerr + idempotencyRecord"
  oh_marshalLines :: "PlaceOrderLineReq list \<Rightarrow> goerr + string"
  oh_sha256hex :: "string \<Rightarrow> string"
  oh_production :: bool

type_synonym 'w OrderHandlerOption = "'w OrderHandler \<Rightarrow> 'w OrderHandler"

definition WithOrderCache :: "'w redis \<Rightarrow> 'w OrderHandlerOption" where
  "WithOrderCache cache h = h\<lparr>oh_cache := Some cache\<rparr>"

definition WithOrderIdempotencyTTL :: "duration \<Rightarrow> 'w OrderHandlerOption" where
  "WithOrderIdempotencyTTL ttl h = h\<lparr>oh_idempotencyTTL := ttl\<rparr>"

definition WithOrderRateLimit :: "int64 \<Rightarrow> duration \<Rightarrow> 'w OrderHandlerOption" where
  "WithOrderRateLimit limit duration h = h\<lparr>oh_rateLimitLimit := limit, oh_rateLimitWindow := duration\<rparr>"

text \<open>The parameters come with the handler \<open>lib\<close>; the fields of the struct are set here.\<close>

definition NewOrderHandler :: "Schema \<Rightarrow> 'w OrderHandler \<Rightarrow> 'w orderService \<Rightarrow> 'w OrderHandlerOption list \<Rightarrow> 'w OrderHandler" where
  "NewOrderHandler cfg lib service opts =
     fold (\<lambda>opt handler. opt handler) opts
       (lib\<lparr>oh_service := service, oh_cache := None, oh_idempotencyTTL := OrderIdempotencyTTL cfg,
            oh_rateLimitLimit := OrderRateLimitLimit cfg, oh_rateLimitWindow := OrderRateLimitWindow cfg\<rparr>)"

section \<open>Keys, fingerprints, metrics\<close>

definition orderIdempotencyKeyHash :: "'w OrderHandler \<Rightarrow> string \<Rightarrow> string" where
  "orderIdempotencyKeyHash a idempotencyKey = oh_sha256hex a idempotencyKey"

definition orderIdempotencyRedisKey :: "'w OrderHandler \<Rightarrow> string \<Rightarrow> string \<Rightarrow> string" where
  "orderIdempotencyRedisKey a userID idempotencyKey =
     ''idempotency:orders:'' @ userID @ '':'' @ orderIdempotencyKeyHash a idempotencyKey"

definition orderRateLimitRedisKey :: "string \<Rightarrow> string" where
  "orderRateLimitRedisKey userID = ''rate-limit:orders:'' @ userID"

text \<open>\<open>sort.Slice\<close> by product and then quantity; lines that are equal in both are the same.\<close>

definition canonical :: "PlaceOrderLineReq list \<Rightarrow> PlaceOrderLineReq list" where
  "canonical lines = sort_key (\<lambda>l. (pl_ProductID l, pl_Quantity l)) lines"

definition orderRequestFingerprint :: "'w OrderHandler \<Rightarrow> PlaceOrderLineReq list \<Rightarrow> string" where
  "orderRequestFingerprint a lines = oh_sha256hex a (bData (oh_marshalLines a) (canonical lines))"

definition recordOrderPlaceMetric :: "'w OrderHandler \<Rightarrow> string \<Rightarrow> string \<Rightarrow> time \<Rightarrow> ('w st, unit) gom" where
  "recordOrderPlaceMetric a result reason startedAt =
     bindG (askG (oh_clock a)) (\<lambda>now. metricG (RecordOrderPlace result reason (now - startedAt)))"

definition recordHandledIdempotencyMetric :: "'w OrderHandler \<Rightarrow> string \<Rightarrow> time \<Rightarrow> ('w st, unit) gom" where
  "recordHandledIdempotencyMetric a reason startedAt =
     (if reason = ''duplicate_replay'' then recordOrderPlaceMetric a ''duplicate'' reason startedAt
      else if reason \<in> {''duplicate_in_flight'', ''duplicate_lookup_failed'', ''duplicate_order_lookup_failed''}
      then recordOrderPlaceMetric a ''failure'' reason startedAt
      else recordOrderPlaceMetric a ''failure'' ''idempotency_error'' startedAt)"

definition orderPlacementErrorResponse :: "goerr \<Rightarrow> int64 \<times> string" where
  "orderPlacementErrorResponse err =
     (if errors_Is err ErrInvalidOrderQuantity then (StatusBadRequest, ''Invalid quantity'')
      else if errors_Is err ErrInvalidOrderAmount then (StatusBadRequest, ''Invalid order amount'')
      else if errors_Is err ErrIdempotencyConflict then (StatusConflict, ''Idempotency key conflict'')
      else if errors_Is err ErrInsufficientStock then (StatusConflict, ''Insufficient stock'')
      else (StatusInternalServerError, ''Something went wrong''))"

definition orderPlacementMetricReason :: "goerr \<Rightarrow> string" where
  "orderPlacementMetricReason err =
     (if errors_Is err ErrInvalidOrderQuantity then ''invalid_quantity''
      else if errors_Is err ErrInvalidOrderAmount then ''invalid_amount''
      else if errors_Is err ErrIdempotencyConflict then ''idempotency_conflict''
      else if errors_Is err ErrInsufficientStock then ''insufficient_stock''
      else ''internal_failure'')"

section \<open>Rate limit and idempotency records\<close>

definition allowOrderPlacement :: "'w OrderHandler \<Rightarrow> order_data ginctx \<Rightarrow> string \<Rightarrow> ('w st, order_data ginctx \<times> bool) gom" where
  "allowOrderPlacement a c userID =
     (case oh_cache a of
        None \<Rightarrow> retG (c, True)
      | Some cache \<Rightarrow>
          if oh_rateLimitLimit a \<le> 0 then retG (c, True)
          else
            tryG (redis_IncrementWithExpiration cache (orderRateLimitRedisKey userID) (oh_rateLimitWindow a)) (\<lambda>r. case r of
              Inl _ \<Rightarrow> retG (c, True)
            | Inr n \<Rightarrow>
                if n \<le> oh_rateLimitLimit a then retG (c, True)
                else
                  bindG (metricG (RecordOrderRateLimited ''rate_limited'')) (\<lambda>_.
                  bindG (failG (oh_production a) c StatusTooManyRequests (ErrNew ''rate limited'') ''Too many requests'') (\<lambda>c1.
                  retG (c1, False)))))"

text \<open>An answer that repeats or refuses a request whose record is already there.\<close>

definition duplicateG :: "'w OrderHandler \<Rightarrow> order_data ginctx \<Rightarrow> goerr \<Rightarrow> string \<Rightarrow> string \<Rightarrow> ('w st, order_data ginctx) gom" where
  "duplicateG a c err message reason =
     bindG (failG (oh_production a) c StatusConflict err message) (\<lambda>c1.
     bindG (metricG (RecordOrderIdempotencyDuplicate reason)) (\<lambda>_. retG c1))"

text \<open>A record is there: what it says decides the answer.\<close>

definition answerRecorded ::
    "'w OrderHandler \<Rightarrow> 'w redis \<Rightarrow> order_data ginctx \<Rightarrow> string \<Rightarrow> string \<Rightarrow> string \<Rightarrow>
     ('w st, order_data ginctx \<times> string \<times> bool \<times> bool \<times> string) gom" where
  "answerRecorded a cache c userID cacheKey fingerprint =
      tryG (redis_Get cache (oh_unmarshalRecord a) cacheKey) (\<lambda>r. case r of
        Inl err \<Rightarrow>
          bindG (duplicateG a c err ''Duplicate request'' ''lookup_failed'') (\<lambda>c1.
          retG (c1, cacheKey, False, True, ''duplicate_lookup_failed''))
      | Inr record \<Rightarrow>
          if ir_Fingerprint record \<noteq> fingerprint then
            bindG (duplicateG a c ErrIdempotencyConflict ''Idempotency key conflict'' ''fingerprint_mismatch'') (\<lambda>c1.
            retG (c1, cacheKey, False, True, ''duplicate_fingerprint_mismatch''))
          else if ir_Status record \<noteq> idempotencyStatusSucceeded \<or> ir_OrderID record = '''' then
            bindG (duplicateG a c (ErrNew ''duplicate request in progress'') ''Duplicate request in progress'' ''in_flight'') (\<lambda>c1.
            retG (c1, cacheKey, False, True, ''duplicate_in_flight''))
          else
            tryG (os_GetOrderByID (oh_service a) (ir_OrderID record) userID) (\<lambda>r. case r of
              Inl err \<Rightarrow>
                bindG (duplicateG a c err ''Duplicate request'' ''order_lookup_failed'') (\<lambda>c1.
                retG (c1, cacheKey, False, True, ''duplicate_order_lookup_failed''))
            | Inr ord \<Rightarrow>
                bindG (okG c (OrderRes (copyOrder ord))) (\<lambda>c1.
                bindG (metricG (RecordOrderIdempotencyDuplicate ''replay'')) (\<lambda>_.
                retG (c1, cacheKey, False, True, ''duplicate_replay'')))))"

definition beginIdempotentOrder ::
    "'w OrderHandler \<Rightarrow> order_data ginctx \<Rightarrow> string \<Rightarrow> string \<Rightarrow> string \<Rightarrow>
     ('w st, order_data ginctx \<times> string \<times> bool \<times> bool \<times> string) gom" where
  "beginIdempotentOrder a c userID idempotencyKey fingerprint =
     (case oh_cache a of
        None \<Rightarrow> retG (c, '''', False, False, '''')
      | Some cache \<Rightarrow>
          if idempotencyKey = '''' then retG (c, '''', False, False, '''')
          else
            (let cacheKey = orderIdempotencyRedisKey a userID idempotencyKey in
             tryG (redis_SetNXWithExpiration cache (oh_marshalRecord a) cacheKey
                     \<lparr>ir_Status = idempotencyStatusProcessing, ir_OrderID = '''', ir_Fingerprint = fingerprint\<rparr>
                     (oh_idempotencyTTL a)) (\<lambda>r. case r of
               Inl err \<Rightarrow>
                 bindG (somethingWrong (oh_production a) c err) (\<lambda>c1.
                 retG (c1, cacheKey, False, True, ''idempotency_start_failed''))
             | Inr acquired \<Rightarrow>
                 if acquired then retG (c, cacheKey, True, False, '''')
                 else answerRecorded a cache c userID cacheKey fingerprint)))"

definition completeIdempotentOrder :: "'w OrderHandler \<Rightarrow> string \<Rightarrow> string \<Rightarrow> string \<Rightarrow> ('w st, unit) gom" where
  "completeIdempotentOrder a cacheKey orderID fingerprint =
     (case oh_cache a of
        None \<Rightarrow> retG ()
      | Some cache \<Rightarrow>
          if cacheKey = '''' \<or> orderID = '''' then retG ()
          else
            tryG (redis_SetWithExpiration cache (oh_marshalRecord a) cacheKey
                    \<lparr>ir_Status = idempotencyStatusSucceeded, ir_OrderID = orderID, ir_Fingerprint = fingerprint\<rparr>
                    (oh_idempotencyTTL a)) (\<lambda>_. retG ()))"

definition releaseIdempotencyOnFailure :: "'w OrderHandler \<Rightarrow> string \<Rightarrow> ('w st, unit) gom" where
  "releaseIdempotencyOnFailure a cacheKey =
     (case oh_cache a of
        None \<Rightarrow> retG ()
      | Some cache \<Rightarrow>
          if cacheKey = '''' then retG () else tryG (redis_Remove cache [cacheKey]) (\<lambda>_. retG ()))"

section \<open>The routes\<close>

text \<open>The request is handed to the service, and its answer to the client.\<close>

definition serveOrder ::
    "'w OrderHandler \<Rightarrow> order_data ginctx \<Rightarrow> time \<Rightarrow> PlaceOrderReq \<Rightarrow> string \<Rightarrow> string \<Rightarrow> ('w st, order_data ginctx) gom" where
  "serveOrder a c startedAt req cacheKey fingerprint =
     tryG (os_PlaceOrder (oh_service a) req) (\<lambda>r. case r of
       Inl err \<Rightarrow>
         bindG (releaseIdempotencyOnFailure a cacheKey) (\<lambda>_.
         let (status, message) = orderPlacementErrorResponse err; reason = orderPlacementMetricReason err in
         bindG (if reason = ''insufficient_stock'' then metricG RecordInventoryInsufficientStock else retG ()) (\<lambda>_.
         bindG (recordOrderPlaceMetric a ''failure'' reason startedAt) (\<lambda>_.
         failG (oh_production a) c status err message)))
     | Inr ord \<Rightarrow>
         bindG (completeIdempotentOrder a cacheKey (o_ID ord) fingerprint) (\<lambda>_.
         bindG (if o_IdempotencyReplay ord
                then bindG (metricG (RecordOrderIdempotencyDuplicate ''durable_replay'')) (\<lambda>_.
                     recordOrderPlaceMetric a ''duplicate'' ''durable_replay'' startedAt)
                else recordOrderPlaceMetric a ''success'' ''created'' startedAt) (\<lambda>_.
         okG c (OrderRes (copyOrder ord)))))"

text \<open>The body of \<open>PlaceOrder\<close> after it has read the clock.\<close>

definition placeOrderFrom :: "'w OrderHandler \<Rightarrow> time \<Rightarrow> ('w, order_data) handler" where
  "placeOrderFrom a startedAt c =
     (case oh_bindPlace a c of
        Inl err \<Rightarrow>
          bindG (recordOrderPlaceMetric a ''failure'' ''invalid_request'' startedAt) (\<lambda>_.
          failG (oh_production a) c StatusBadRequest err ''Invalid parameters'')
      | Inr req0 \<Rightarrow>
          (let req = req0\<lparr>po_UserID := GetString c ''userId''\<rparr> in
           if po_UserID req = '''' then
             bindG (recordOrderPlaceMetric a ''failure'' ''unauthorized'' startedAt) (\<lambda>_.
             failG (oh_production a) c StatusUnauthorized unauthorized ''Unauthorized'')
           else
             bindG (allowOrderPlacement a c (po_UserID req)) (\<lambda>(c1, allowed).
             if \<not> allowed then bindG (recordOrderPlaceMetric a ''failure'' ''rate_limited'' startedAt) (\<lambda>_. retG c1)
             else
               (let idempotencyKey = TrimSpace (gc_headers c idempotencyHeader);
                    req1 = (if idempotencyKey \<noteq> ''''
                            then req\<lparr>po_IdempotencyKeyHash := orderIdempotencyKeyHash a idempotencyKey,
                                     po_IdempotencyFingerprint := orderRequestFingerprint a (po_Lines req)\<rparr>
                            else req);
                    fingerprint = (if idempotencyKey \<noteq> '''' then po_IdempotencyFingerprint req1 else '''')
                in
                bindG (beginIdempotentOrder a c1 (po_UserID req) idempotencyKey fingerprint)
                  (\<lambda>(c2, cacheKey, acquired, handled, handledReason).
                if handled then bindG (recordHandledIdempotencyMetric a handledReason startedAt) (\<lambda>_. retG c2)
                else if cacheKey \<noteq> '''' \<and> \<not> acquired then
                  bindG (recordOrderPlaceMetric a ''failure'' ''duplicate_request'' startedAt) (\<lambda>_.
                  failG (oh_production a) c2 StatusConflict (ErrNew ''duplicate request'') ''Duplicate request'')
                else serveOrder a c2 startedAt req1 cacheKey fingerprint)))))"

definition OrderHandler_PlaceOrder :: "'w OrderHandler \<Rightarrow> ('w, order_data) handler" where
  "OrderHandler_PlaceOrder a c = bindG (askG (oh_clock a)) (\<lambda>startedAt. placeOrderFrom a startedAt c)"

definition OrderHandler_GetOrders :: "'w OrderHandler \<Rightarrow> ('w, order_data) handler" where
  "OrderHandler_GetOrders a c =
     (case oh_bindList a c of
        Inl err \<Rightarrow> failG (oh_production a) c StatusBadRequest err ''Invalid parameters''
      | Inr req0 \<Rightarrow>
          (let req = req0\<lparr>lo_UserID := GetString c ''userId''\<rparr> in
           if lo_UserID req = '''' then failG (oh_production a) c StatusUnauthorized unauthorized ''Unauthorized''
           else
             tryG (os_GetMyOrders (oh_service a) req) (\<lambda>r. case r of
               Inl err \<Rightarrow> somethingWrong (oh_production a) c err
             | Inr (orders, pagination) \<Rightarrow> okG c (ListOrderRes (map copyOrder orders) pagination))))"

text \<open>The checks that \<open>GetOrderByID\<close> and \<open>CancelOrder\<close> begin with.\<close>

definition withOrderID ::
    "'w OrderHandler \<Rightarrow> order_data ginctx \<Rightarrow> (string \<Rightarrow> string \<Rightarrow> ('w st, order_data ginctx) gom) \<Rightarrow> ('w st, order_data ginctx) gom" where
  "withOrderID a c f =
     (let userID = GetString c ''userId'' in
      if userID = '''' then failG (oh_production a) c StatusUnauthorized unauthorized ''Unauthorized''
      else
        (let orderID = gc_params c ''id'' in
         if orderID = '''' then failG (oh_production a) c StatusBadRequest (ErrNew ''bad request'') ''Miss Order ID''
         else f userID orderID))"

definition OrderHandler_GetOrderByID :: "'w OrderHandler \<Rightarrow> ('w, order_data) handler" where
  "OrderHandler_GetOrderByID a c =
     withOrderID a c (\<lambda>userId orderId.
       tryG (os_GetOrderByID (oh_service a) orderId userId) (\<lambda>r. case r of
         Inl err \<Rightarrow>
           if errors_Is err ErrPermissionDenied
           then failG (oh_production a) c StatusForbidden err ''Permission denied''
           else failG (oh_production a) c StatusNotFound err ''Not found''
       | Inr ord \<Rightarrow> okG c (OrderRes (copyOrder ord))))"

definition OrderHandler_CancelOrder :: "'w OrderHandler \<Rightarrow> ('w, order_data) handler" where
  "OrderHandler_CancelOrder a c =
     withOrderID a c (\<lambda>userID orderID.
       tryG (os_CancelOrder (oh_service a) orderID userID) (\<lambda>r. case r of
         Inl err \<Rightarrow>
           if errors_Is err ErrPermissionDenied
           then failG (oh_production a) c StatusForbidden err ''Permission denied''
           else if errors_Is err ErrInvalidOrderState
           then failG (oh_production a) c StatusConflict err ''Invalid order state''
           else somethingWrong (oh_production a) c err
       | Inr ord \<Rightarrow> okG c (OrderRes (copyOrder ord))))"

definition Order_Routes ::
    "'w env \<Rightarrow> jwtlib \<Rightarrow> Schema \<Rightarrow> 'w OrderHandler \<Rightarrow> 'w orderService \<Rightarrow> 'w redis option list \<Rightarrow>
     ((string \<times> string) \<times> ('w, order_data) handler list) list" where
  "Order_Routes E J cfg lib orderService caches =
     (let opts = (case caches of Some cache # _ \<Rightarrow> [WithOrderCache cache] | _ \<Rightarrow> []);
          orderHandler = NewOrderHandler cfg lib orderService opts; authMiddleware = JWTAuth E J cfg
      in [((''POST'', ''/orders''), [authMiddleware, OrderHandler_PlaceOrder orderHandler]),
          ((''GET'', ''/orders/:id''), [authMiddleware, OrderHandler_GetOrderByID orderHandler]),
          ((''GET'', ''/orders''), [authMiddleware, OrderHandler_GetOrders orderHandler]),
          ((''PUT'', ''/orders/:id/cancel''), [authMiddleware, OrderHandler_CancelOrder orderHandler])])"

text \<open>The service as the interface of the handlers.\<close>

definition service_of :: "'w OrderService \<Rightarrow> 'w orderService" where
  "service_of svc =
     \<lparr>os_PlaceOrder = OrderService_PlaceOrder svc, os_GetOrderByID = OrderService_GetOrderByID svc,
      os_GetMyOrders = OrderService_GetMyOrders svc, os_CancelOrder = OrderService_CancelOrder svc\<rparr>"

section \<open>What a request does\<close>

locale order_service =
  fixes svc :: "'w orderService" and marshal :: "OrderCreatedPayload \<Rightarrow> goerr + string"
  assumes place: "os_PlaceOrder svc req s = (r, t) \<Longrightarrow> inventory_ok s \<Longrightarrow> place_result marshal req s r t"
    and reads: "keepsG world_only (os_GetOrderByID svc i u)" "keepsG world_only (os_GetMyOrders svc lreq)"
    and owner: "os_GetOrderByID svc i u s = (Inr ord, t) \<Longrightarrow>
      o_ID ord = i \<and> o_UserID ord = u \<and> u \<noteq> '''' \<and> order_row ord \<in> order_row ` set (st_orders s)"
    and cancel: "os_CancelOrder svc i u s = (r, t) \<Longrightarrow> inventory_ok s \<Longrightarrow> orders_ok s \<Longrightarrow>
      (case r of Inl e \<Rightarrow> same_tables s t | Inr ord \<Rightarrow> order_cancelled i u s ord t \<and> inventory_ok t)"

interpretation order_api: order_service "service_of (NewOrderService E marshal validate)" marshal
  for E :: "'w env" and marshal validate
  by unfold_locales
    (simp_all add: service_of_def PlaceOrder_result order_reads_frame GetOrderByID_Inr CancelOrder_result)

text \<open>The state after a recording.\<close>

definition order_metric :: "'w OrderHandler \<Rightarrow> string \<Rightarrow> string \<Rightarrow> time \<Rightarrow> 'w st \<Rightarrow> 'w st" where
  "order_metric a result reason startedAt s =
     s\<lparr>st_world := snd (oh_clock a (st_world s)),
       st_metrics := RecordOrderPlace result reason (fst (oh_clock a (st_world s)) - startedAt) (st_metrics s)\<rparr>"

lemma recordOrderPlaceMetric_step:
  "recordOrderPlaceMetric a result reason startedAt = (\<lambda>s. (Inr (), order_metric a result reason startedAt s))"
  by (simp add: fun_eq_iff recordOrderPlaceMetric_def order_metric_def bindG_def askG_def metricG_def split: prod.split)

lemma order_metric_rows [simp]:
  "st_users (order_metric a result reason d t) = st_users t"
  "st_products (order_metric a result reason d t) = st_products t"
  "st_inventories (order_metric a result reason d t) = st_inventories t"
  "st_orders (order_metric a result reason d t) = st_orders t"
  "st_order_lines (order_metric a result reason d t) = st_order_lines t"
  "st_outbox_events (order_metric a result reason d t) = st_outbox_events t"
  "st_carts (order_metric a result reason d t) = st_carts t"
  "st_cart_lines (order_metric a result reason d t) = st_cart_lines t"
  by (simp_all add: order_metric_def)

lemma order_metric_tables [simp]: "same_tables s (order_metric a result reason d t) = same_tables s t"
  by (simp add: same_tables_iff)

text \<open>How many requests were counted, and how many of them as failures.\<close>

definition counts :: "int \<Rightarrow> int \<Rightarrow> registry \<Rightarrow> registry \<Rightarrow> bool" where
  "counts n m a b \<longleftrightarrow>
     family_total ''order_place_total'' b = family_total ''order_place_total'' a + n \<and>
     family_total ''order_place_failed_total'' b = family_total ''order_place_failed_total'' a + m"

lemma counts_place [simp]:
  "counts n m a (RecordOrderPlace result reason d b) \<longleftrightarrow> counts (n - 1) (m - (if result = ''failure'' then 1 else 0)) a b"
  by (auto simp: counts_def RecordOrderPlace_families)

lemma counts_metric [simp]:
  "counts n m a (st_metrics (order_metric h result reason startedAt s)) \<longleftrightarrow>
     counts (n - 1) (m - (if result = ''failure'' then 1 else 0)) a (st_metrics s)"
  by (simp add: order_metric_def)

lemma counts_other [simp]:
  "counts n m a (RecordOrderIdempotencyDuplicate x b) = counts n m a b"
  "counts n m a (RecordOrderRateLimited x b) = counts n m a b"
  "counts n m a (RecordInventoryInsufficientStock b) = counts n m a b"
  "counts n m a (RecordOutboxEventCreated y b) = counts n m a b"
  "counts 0 0 a a"
  by (simp_all add: counts_def RecordOrderIdempotencyDuplicate_def RecordOrderRateLimited_def
      RecordInventoryInsufficientStock_def RecordOutboxEventCreated_def inc_def)

text \<open>
  An answer to a request of the user to place the lines: the order, which was placed now, or which
  the user had placed before; or an error, and then no table has changed.
\<close>

definition served ::
    "(OrderCreatedPayload \<Rightarrow> goerr + string) \<Rightarrow> string \<Rightarrow> PlaceOrderLineReq list \<Rightarrow> 'w st \<Rightarrow> order_data answer \<Rightarrow> 'w st \<Rightarrow> bool" where
  "served marshal user lines s ans t \<longleftrightarrow>
     (if an_status ans = StatusOK then
        \<exists>ord. an_body ans = ResultBody (OrderRes (copyOrder ord)) \<and> o_UserID ord = user \<and> user \<noteq> '''' \<and>
          (same_tables s t \<and> order_row ord \<in> order_row ` set (st_orders s) \<or>
           inventory_ok t \<and> (\<exists>req. po_UserID req = user \<and> po_Lines req = lines \<and> order_placed marshal req s ord t))
      else same_tables s t)"

lemma order_placed_tables:
  assumes "same_tables s u" "same_tables v t" "order_placed marshal req u ord v"
  shows "order_placed marshal req s ord t"
proof -
  have "line_total u = line_total s" using assms(1) by (simp add: fun_eq_iff line_total_def same_tables_iff)
  moreover have "stock u p = stock s p" "stock v p = stock t p" for p
    using assms(1,2) by (simp_all add: stock_def same_tables_iff)
  ultimately show ?thesis using assms by (simp add: order_placed_def same_tables_iff stock0_def)
qed

lemma inventory_ok_tables: "same_tables s t \<Longrightarrow> inventory_ok t = inventory_ok s"
  by (simp add: inventory_ok_def same_tables_iff)

lemma served_tables:
  assumes "same_tables s u" "same_tables v t" "served marshal user lines u ans v"
  shows "served marshal user lines s ans t"
proof -
  have "same_tables s t" if "same_tables u v" using assms(1,2) that same_tables_trans by blast
  moreover have "st_orders u = st_orders s" using assms(1) by (simp add: same_tables_iff)
  ultimately show ?thesis
    using assms(3) order_placed_tables [OF assms(1,2)] inventory_ok_tables [OF assms(2)]
    unfolding served_def by (auto split: if_splits) blast+
qed

lemma error_status: "fst (orderPlacementErrorResponse err) \<noteq> StatusOK"
  by (simp add: orderPlacementErrorResponse_def status_defs)

lemma idempotency_frames [frames, simp]:
  "keepsG world_only (completeIdempotentOrder a k i f)" "keepsG world_only (releaseIdempotencyOnFailure a k)"
  unfolding completeIdempotentOrder_def releaseIdempotencyOnFailure_def by (auto intro!: framing)

lemma allowOrderPlacement_run:
  assumes "allowOrderPlacement a c user s = (r, t)"
  obtains "r = Inr (c, True)" "world_only s t"
  | cache n where "oh_cache a = Some cache" "0 < oh_rateLimitLimit a"
      "fst (redis_IncrementWithExpiration cache (orderRateLimitRedisKey user) (oh_rateLimitWindow a) s) = Inr n" "oh_rateLimitLimit a < n"
      "r = Inr (Response_Error (oh_production a) c StatusTooManyRequests (ErrNew ''rate limited'') ''Too many requests'', False)"
      "same_tables s t" "st_metrics t = RecordOrderRateLimited ''rate_limited'' (st_metrics s)"
proof (cases "oh_cache a = None \<or> oh_rateLimitLimit a \<le> 0")
  case True
  with assms have "r = Inr (c, True)" "t = s" by (auto simp: allowOrderPlacement_def retG_def split: option.splits)
  with that(1) show ?thesis by simp
next
  case False
  then obtain cache where cache: "oh_cache a = Some cache" "0 < oh_rateLimitLimit a" by auto
  obtain q u where q: "redis_IncrementWithExpiration cache (orderRateLimitRedisKey user) (oh_rateLimitWindow a) s = (q, u)" by fastforce
  have su: "world_only s u" using keepsGD [OF redis_frames(8) q] .
  show ?thesis
  proof (cases "\<exists>n. q = Inr n \<and> oh_rateLimitLimit a < n")
    case True
    then obtain n where n: "q = Inr n" "oh_rateLimitLimit a < n" by blast
    with assms cache q su that(2) [OF cache, of n] show ?thesis
      by (auto simp: allowOrderPlacement_def tryG_def bindG_def metricG_def failG_def retG_def world_only_iff same_metrics_def
          same_tables_iff)
  next
    case no: False
    with assms cache q have "r = Inr (c, True)" "t = u"
      by (auto simp: allowOrderPlacement_def tryG_def retG_def split: sum.splits)
    with su that(1) show ?thesis by simp
  qed
qed

text \<open>
  The record of the request: without one, or with a new one, the request goes on; otherwise it is
  answered here, and the reason says whether by the stored order.
\<close>

definition handled_answer ::
    "(OrderCreatedPayload \<Rightarrow> goerr + string) \<Rightarrow> PlaceOrderLineReq list \<Rightarrow> string \<Rightarrow> string \<Rightarrow> order_data ginctx \<Rightarrow> order_data ginctx \<Rightarrow> 'w st \<Rightarrow> 'w st \<Rightarrow> bool" where
  "handled_answer marshal lines user reason c c1 s t \<longleftrightarrow>
     same_tables s t \<and> counts 0 0 (st_metrics s) (st_metrics t) \<and>
     (\<exists>ans. gc_written c1 = gc_written c @ [ans] \<and> served marshal user lines s ans t \<and>
        an_status ans \<noteq> StatusTooManyRequests \<and> (an_status ans = StatusOK \<longleftrightarrow> reason = ''duplicate_replay''))"

context order_service
begin

lemma failed_answer:
  assumes "world_only s u" "status \<noteq> StatusOK" "status \<noteq> StatusTooManyRequests" "reason \<noteq> ''duplicate_replay''"
    "t = u \<or> t = u\<lparr>st_metrics := RecordOrderIdempotencyDuplicate x (st_metrics u)\<rparr>"
  shows "handled_answer marshal lines user reason c (Response_Error (oh_production a) c status err m) s t"
  using assms
  by (auto simp: handled_answer_def served_def Response_Error_def world_only_iff same_metrics_def same_tables_iff)

lemma answerRecorded_run:
  assumes run: "answerRecorded a cache c user k fp s = (r, t)" and svc: "oh_service a = svc"
  shows "\<exists>c1 reason. r = Inr (c1, k, False, True, reason) \<and> handled_answer marshal lines user reason c c1 s t"
proof -
  obtain g v where g: "redis_Get cache (oh_unmarshalRecord a) k s = (g, v)" by fastforce
  have sv: "world_only s v" using keepsGD [OF redis_frames(3) g] .
  have dup: ?thesis
    if "\<exists>err m x reason. r = Inr (Response_Error (oh_production a) c StatusConflict err m, k, False, True, reason) \<and>
        t = w\<lparr>st_metrics := RecordOrderIdempotencyDuplicate x (st_metrics w)\<rparr> \<and> reason \<noteq> ''duplicate_replay''" "world_only s w"
    for w
    using that(1) failed_answer [OF that(2), of StatusConflict] by (fastforce simp: status_defs)
  note step = run [unfolded answerRecorded_def tryG_def g prod.case]
  consider err where "g = Inl err" | rec where "g = Inr rec" "ir_Fingerprint rec \<noteq> fp"
    | rec where "g = Inr rec" "ir_Fingerprint rec = fp" "ir_Status rec \<noteq> idempotencyStatusSucceeded \<or> ir_OrderID rec = ''''"
    | rec where "g = Inr rec" "ir_Fingerprint rec = fp" "\<not> (ir_Status rec \<noteq> idempotencyStatusSucceeded \<or> ir_OrderID rec = '''')"
    by (cases g) blast+
  then show ?thesis
  proof cases
    case (4 rec)
    obtain o1 w where o1: "os_GetOrderByID svc (ir_OrderID rec) user v = (o1, w)" by fastforce
    have vw: "world_only v w" using keepsGD [OF reads(1) o1] .
    then have sw: "world_only s w" using sv world_only_trans by blast
    show ?thesis
    proof (cases o1)
      case (Inl err)
      with step 4 o1 svc sw show ?thesis
        by (intro dup [of w]) (auto simp: duplicateG_def failG_def bindG_def metricG_def retG_def)
    next
      case (Inr ord)
      let ?c1 = "Response_JSON c StatusOK (OrderRes (copyOrder ord))"
      from step 4 o1 svc Inr have r: "r = Inr (?c1, k, False, True, ''duplicate_replay'')"
        "t = w\<lparr>st_metrics := RecordOrderIdempotencyDuplicate ''replay'' (st_metrics w)\<rparr>"
        by (auto simp: okG_def bindG_def metricG_def retG_def)
      have "o_UserID ord = user" "user \<noteq> ''''" "order_row ord \<in> order_row ` set (st_orders s)"
        using owner [OF o1 [unfolded Inr]] sv by (auto simp: world_only_iff same_tables_iff)
      with sw r(2) have "handled_answer marshal lines user ''duplicate_replay'' c ?c1 s t"
        by (auto simp: handled_answer_def served_def Response_JSON_def world_only_iff same_metrics_def same_tables_iff status_defs)
      with r(1) show ?thesis by blast
    qed
  qed (use step sv in \<open>(intro dup [of v]; auto simp: duplicateG_def failG_def bindG_def metricG_def retG_def)+\<close>)
qed

lemma begin_run:
  assumes run: "beginIdempotentOrder a c user key fp s = (r, t)" and svc: "oh_service a = svc"
  obtains k acquired reason where "r = Inr (c, k, acquired, False, reason)" "k = '''' \<or> acquired" "world_only s t"
  | c1 k acquired reason where "r = Inr (c1, k, acquired, True, reason)" "handled_answer marshal lines user reason c c1 s t"
proof (cases "oh_cache a = None \<or> key = ''''")
  case True
  with run have "r = Inr (c, '''', False, False, '''')" "t = s"
    by (auto simp: beginIdempotentOrder_def retG_def split: option.splits)
  with that(1) [of "''''" False "''''"] show ?thesis by simp
next
  case False
  then obtain cache where cache: "oh_cache a = Some cache" "key \<noteq> ''''" by auto
  let ?k = "orderIdempotencyRedisKey a user key"
  let ?rec = "\<lparr>ir_Status = idempotencyStatusProcessing, ir_OrderID = '''', ir_Fingerprint = fp\<rparr>"
  obtain q u where q: "redis_SetNXWithExpiration cache (oh_marshalRecord a) ?k ?rec (oh_idempotencyTTL a) s = (q, u)" by fastforce
  have su: "world_only s u" using keepsGD [OF redis_frames(7) q] .
  consider err where "q = Inl err" | "q = Inr True" | "q = Inr False" by (cases q) auto
  then show ?thesis
  proof cases
    case (1 err)
    let ?c1 = "Response_Error (oh_production a) c StatusInternalServerError err ''Something went wrong''"
    have "r = Inr (?c1, ?k, False, True, ''idempotency_start_failed'')" "t = u"
      using run q cache 1
      by (auto simp: beginIdempotentOrder_def tryG_def somethingWrong_def failG_def bindG_def retG_def Let_def)
    moreover have "handled_answer marshal lines user ''idempotency_start_failed'' c ?c1 s u"
      using su by (intro failed_answer [of s u]) (simp_all add: status_defs)
    ultimately show ?thesis using that(2) by blast
  next
    case 2
    with run q cache have "r = Inr (c, ?k, True, False, '''')" "t = u"
      by (auto simp: beginIdempotentOrder_def tryG_def retG_def Let_def)
    with that(1) su show ?thesis by simp
  next
    case 3
    with run q cache have "answerRecorded a cache c user ?k fp u = (r, t)"
      by (auto simp: beginIdempotentOrder_def tryG_def Let_def)
    from answerRecorded_run [OF this svc, of lines] obtain c1 reason where
      c1: "r = Inr (c1, ?k, False, True, reason)" "handled_answer marshal lines user reason c c1 u t" by blast
    have "handled_answer marshal lines user reason c c1 s t"
      using c1(2) su served_tables [of s u t t]
      by (auto simp: handled_answer_def world_only_iff same_metrics_def intro: same_tables_trans)
    with c1(1) that(2) show ?thesis by blast
  qed
qed

end

context order_service
begin

lemma serveOrder_run:
  assumes run: "serveOrder a c st req k fp s = (r, t)" and svc: "oh_service a = svc" and ok: "inventory_ok s" and user: "po_UserID req \<noteq> ''''"
  obtains c1 ans where "r = Inr c1" "gc_written c1 = gc_written c @ [ans]" "served marshal (po_UserID req) (po_Lines req) s ans t"
    "an_status ans \<noteq> StatusTooManyRequests"
    "counts 1 (if an_status ans = StatusOK then 0 else 1) (st_metrics s) (st_metrics t)"
proof -
  obtain q u where q: "os_PlaceOrder svc req s = (q, u)" by fastforce
  have p: "place_result marshal req s q u" using place [OF q ok] .
  show ?thesis
  proof (cases q)
    case (Inl err)
    obtain e v where v: "releaseIdempotencyOnFailure a k u = (e, v)" by fastforce
    have e: "e = Inr ()"
      using v by (auto simp: releaseIdempotencyOnFailure_def tryG_def retG_def split: option.splits if_splits prod.splits)
    obtain status m where sm: "orderPlacementErrorResponse err = (status, m)" by fastforce
    have st: "status \<noteq> StatusOK" "status \<noteq> StatusTooManyRequests"
      using sm by (auto simp: orderPlacementErrorResponse_def status_defs split: if_splits)
    have uv: "world_only u v" using keepsGD [OF idempotency_frames(2) v] .
    let ?c = "Response_Error (oh_production a) c status err m"
    have "r = Inr ?c" "\<exists>g. t = order_metric a ''failure'' g st v \<or>
        t = order_metric a ''failure'' g st (v\<lparr>st_metrics := RecordInventoryInsufficientStock (st_metrics v)\<rparr>)"
      using run by (auto simp: serveOrder_def svc tryG_def q Inl v e sm bindG_def recordOrderPlaceMetric_step metricG_def retG_def
          failG_def Let_def split: if_splits)
    moreover have "same_tables s u" "st_metrics u = st_metrics s" using p Inl by (simp_all add: place_result_def)
    ultimately have "same_tables s t" "counts 1 1 (st_metrics s) (st_metrics t)"
      using uv by (auto simp: world_only_iff same_metrics_def same_tables_iff)
    with st \<open>r = Inr ?c\<close> show ?thesis
      by (intro that) (auto simp: Response_Error_def served_def)
  next
    case (Inr ord)
    obtain e v where v: "completeIdempotentOrder a k (o_ID ord) fp u = (e, v)" by fastforce
    have e: "e = Inr ()"
      using v by (auto simp: completeIdempotentOrder_def tryG_def retG_def split: option.splits if_splits prod.splits)
    have uv: "world_only u v" using keepsGD [OF idempotency_frames(1) v] .
    let ?c = "Response_JSON c StatusOK (OrderRes (copyOrder ord))"
    have r: "r = Inr ?c" and m: "\<exists>x y. t = order_metric a ''duplicate'' x st (v\<lparr>st_metrics := RecordOrderIdempotencyDuplicate y (st_metrics v)\<rparr>) \<or>
        t = order_metric a ''success'' x st v"
      using run by (auto simp: serveOrder_def svc tryG_def q Inr v e bindG_def recordOrderPlaceMetric_step metricG_def retG_def
          okG_def split: if_splits)
    have ut: "same_tables u t" using m uv by (auto simp: world_only_iff same_tables_iff)
    have "counts 0 0 (st_metrics s) (st_metrics u)" using p Inr by (auto simp: place_result_def order_replayed_def)
    then have "counts 1 0 (st_metrics s) (st_metrics t)"
      using m uv by (auto simp: world_only_iff same_metrics_def)
    moreover have "served marshal (po_UserID req) (po_Lines req) s \<lparr>an_status = StatusOK, an_body = ResultBody (OrderRes (copyOrder ord))\<rparr> u"
    proof -
      have "o_UserID ord = po_UserID req" using p Inr by (auto simp: place_result_def order_replayed_def order_placed_def)
      moreover have "same_tables s u \<and> order_row ord \<in> order_row ` set (st_orders s) \<or>
          inventory_ok u \<and> order_placed marshal req s ord u"
        using p Inr by (auto simp: place_result_def order_replayed_def)
      ultimately show ?thesis using user unfolding served_def by (auto intro!: exI [of _ ord])
    qed
    from served_tables [OF same_tables_refl ut this] have
      "served marshal (po_UserID req) (po_Lines req) s \<lparr>an_status = StatusOK, an_body = ResultBody (OrderRes (copyOrder ord))\<rparr> t" .
    ultimately show ?thesis using r
      by (intro that [of ?c "\<lparr>an_status = StatusOK, an_body = ResultBody (OrderRes (copyOrder ord))\<rparr>"])
        (auto simp: Response_JSON_def status_defs)
  qed
qed

text \<open>What a request to place an order amounts to: the limit that was hit, or the answer to its lines.\<close>

lemma placeOrderFrom_request:
  assumes run: "placeOrderFrom a st c s = (r, t)" and svc: "oh_service a = svc" and ok: "inventory_ok s"
  obtains (answered) c1 ans lines where "r = Inr c1" "gc_written c1 = gc_written c @ [ans]"
      "\<forall>req. oh_bindPlace a c = Inr req \<longrightarrow> lines = po_Lines req"
      "served marshal (GetString c ''userId'') lines s ans t" "an_status ans \<noteq> StatusTooManyRequests"
      "counts 1 (if an_status ans = StatusOK then 0 else 1) (st_metrics s) (st_metrics t)"
      "isl (oh_bindPlace a c) \<or> GetString c ''userId'' = '''' \<or>
        (\<exists>u. allowOrderPlacement a c (GetString c ''userId'') s = (Inr (c, True), u))"
  | (limited) c1 ans u where "r = Inr c1" "gc_written c1 = gc_written c @ [ans]" "an_status ans = StatusTooManyRequests"
      "same_tables s t" "counts 1 1 (st_metrics s) (st_metrics t)" "\<not> isl (oh_bindPlace a c)" "GetString c ''userId'' \<noteq> ''''"
      "allowOrderPlacement a c (GetString c ''userId'') s = (Inr (c1, False), u)"
proof -
  let ?user = "GetString c ''userId''"
  have refuse: thesis
    if "r = Inr (Response_Error (oh_production a) c status err m)" "status \<in> {StatusBadRequest, StatusUnauthorized}"
      "t = order_metric a ''failure'' x st s" "isl (oh_bindPlace a c) \<or> ?user = ''''" for status err m x
    using that by (intro answered [of "Response_Error (oh_production a) c status err m" _ "case oh_bindPlace a c of Inr req \<Rightarrow> po_Lines req | _ \<Rightarrow> []"])
      (auto simp: Response_Error_def served_def status_defs)
  show ?thesis
  proof (cases "oh_bindPlace a c")
    case (Inl err)
    with run refuse show ?thesis
      by (auto simp: placeOrderFrom_def recordOrderPlaceMetric_step bindG_def metricG_def failG_def retG_def)
  next
    case (Inr req)
    show ?thesis
    proof (cases "?user = ''''")
      case True
      with run refuse Inr show ?thesis
        by (auto simp: placeOrderFrom_def recordOrderPlaceMetric_step bindG_def metricG_def failG_def retG_def)
    next
      case user: False
      obtain q u where q: "allowOrderPlacement a c ?user s = (q, u)" by fastforce
      from q show ?thesis
      proof (cases rule: allowOrderPlacement_run)
        case (2 cache n)
        let ?c1 = "Response_Error (oh_production a) c StatusTooManyRequests (ErrNew ''rate limited'') ''Too many requests''"
        have "r = Inr ?c1" "t = order_metric a ''failure'' ''rate_limited'' st u"
          using run Inr user q 2(5)
          by (simp_all add: placeOrderFrom_def Let_def bindG_def [where m = "allowOrderPlacement a c (GetString c ''userId'')"]
              recordOrderPlaceMetric_step, simp_all add: bindG_def metricG_def retG_def)
        with 2 Inr user q show ?thesis
          by (intro limited [of ?c1 _ u]) (auto simp: Response_Error_def same_tables_iff)
      next
        case 1
        let ?key = "TrimSpace (gc_headers c idempotencyHeader)"
        let ?req = "if ?key \<noteq> '''' then req\<lparr>po_UserID := ?user, po_IdempotencyKeyHash := orderIdempotencyKeyHash a ?key,
            po_IdempotencyFingerprint := orderRequestFingerprint a (po_Lines req)\<rparr> else req\<lparr>po_UserID := ?user\<rparr>"
        let ?fp = "if ?key \<noteq> '''' then orderRequestFingerprint a (po_Lines req) else ''''"
        obtain b v where b: "beginIdempotentOrder a c ?user ?key ?fp u = (b, v)" by fastforce
        have lines: "po_UserID ?req = ?user" "po_Lines ?req = po_Lines req" by simp_all
        have su: "same_tables s u" "st_metrics u = st_metrics s" using 1(2) by (simp_all add: world_only_iff same_metrics_def)
        from b svc show ?thesis
        proof (cases rule: begin_run [where lines = "po_Lines req"])
          case b1: (1 k acquired reason)
          have sv: "same_tables s v" "st_metrics v = st_metrics s" using su b1(3) same_tables_trans
            by (auto simp: world_only_iff same_metrics_def)
          then have okv: "inventory_ok v" using ok inventory_ok_tables by blast
          have "serveOrder a c st ?req k ?fp v = (r, t)"
            using run Inr user q 1(1) b b1(1,2) by (auto simp: placeOrderFrom_def bindG_def Let_def)
          from serveOrder_run [OF this svc okv, unfolded lines, OF user]
          obtain c1 ans where "r = Inr c1" "gc_written c1 = gc_written c @ [ans]" "served marshal ?user (po_Lines req) v ans t"
            "an_status ans \<noteq> StatusTooManyRequests"
            "counts 1 (if an_status ans = StatusOK then 0 else 1) (st_metrics v) (st_metrics t)" by blast
          with Inr q 1(1) sv served_tables [OF sv(1) same_tables_refl] show ?thesis
            by (intro answered [of c1 ans "po_Lines req"]) auto
        next
          case b2: (2 c1 k acquired reason)
          have "r = Inr c1 \<and> (\<exists>res x. t = order_metric a res x st v \<and>
              (res = ''failure'' \<longleftrightarrow> reason \<noteq> ''duplicate_replay''))"
            using run Inr user q 1(1) b b2(1)
            by (auto simp: placeOrderFrom_def bindG_def Let_def recordHandledIdempotencyMetric_def
                recordOrderPlaceMetric_step metricG_def retG_def split: if_splits)
          then obtain res x where r: "r = Inr c1" "t = order_metric a res x st v"
            "res = ''failure'' \<longleftrightarrow> reason \<noteq> ''duplicate_replay''" by blast
          from b2(2) obtain ans where ans: "gc_written c1 = gc_written c @ [ans]" "served marshal ?user (po_Lines req) u ans v"
            "an_status ans \<noteq> StatusTooManyRequests" "an_status ans = StatusOK \<longleftrightarrow> reason = ''duplicate_replay''"
            "counts 0 0 (st_metrics u) (st_metrics v)" by (auto simp: handled_answer_def)
          have "same_tables v t" using r(2) by simp
          from served_tables [OF su(1) this ans(2)] r ans Inr q 1(1) su(2) show ?thesis
            by (intro answered [of c1 ans "po_Lines req"]) auto
        qed
      qed
    qed
  qed
qed

text \<open>The state once the clock is read.\<close>

lemma PlaceOrder_request:
  assumes run: "OrderHandler_PlaceOrder a c s = (r, t)" and svc: "oh_service a = svc" and ok: "inventory_ok s"
    and u: "u = s\<lparr>st_world := snd (oh_clock a (st_world s))\<rparr>"
  obtains (answered) c1 ans lines where "r = Inr c1" "gc_written c1 = gc_written c @ [ans]"
      "\<forall>req. oh_bindPlace a c = Inr req \<longrightarrow> lines = po_Lines req"
      "served marshal (GetString c ''userId'') lines s ans t" "an_status ans \<noteq> StatusTooManyRequests"
      "counts 1 (if an_status ans = StatusOK then 0 else 1) (st_metrics s) (st_metrics t)"
      "isl (oh_bindPlace a c) \<or> GetString c ''userId'' = '''' \<or>
        (\<exists>v. allowOrderPlacement a c (GetString c ''userId'') u = (Inr (c, True), v))"
  | (limited) c1 ans v where "r = Inr c1" "gc_written c1 = gc_written c @ [ans]" "an_status ans = StatusTooManyRequests"
      "same_tables s t" "counts 1 1 (st_metrics s) (st_metrics t)" "\<not> isl (oh_bindPlace a c)" "GetString c ''userId'' \<noteq> ''''"
      "allowOrderPlacement a c (GetString c ''userId'') u = (Inr (c1, False), v)"
proof -
  have f: "placeOrderFrom a (fst (oh_clock a (st_world s))) c u = (r, t)"
    using run by (cases "oh_clock a (st_world s)") (simp add: OrderHandler_PlaceOrder_def u bindG_def askG_def)
  have su: "same_tables s u" "st_metrics u = st_metrics s" by (simp_all add: u same_tables_iff)
  then have "inventory_ok u" using ok inventory_ok_tables by blast
  from f svc this show thesis
  proof (cases rule: placeOrderFrom_request)
    case (answered c1 ans lines)
    with su served_tables [OF su(1) same_tables_refl] show ?thesis by (intro that(1)) auto
  next
    case (limited c1 ans v)
    with su show ?thesis by (intro that(2)) (auto intro: same_tables_trans)
  qed
qed

end

section \<open>Properties\<close>

text \<open>
  C26: every request to place an order gets exactly one answer. Status 200 comes with an order of
  the authenticated user: the lines of the request were placed just now, with all that a placed
  order means, or no table has changed and the order had been placed before. With any other
  status no table has changed. Every request is counted once, and as a failure exactly when it is
  not answered with 200.
\<close>

theorem place_order_request_answered:
  assumes "oh_service a = service_of (NewOrderService E marshal validate)" "inventory_ok s"
    and "OrderHandler_PlaceOrder a c s = (r, t)"
  shows "\<exists>c1 ans lines. r = Inr c1 \<and> gc_written c1 = gc_written c @ [ans] \<and>
    (\<forall>req. oh_bindPlace a c = Inr req \<longrightarrow> lines = po_Lines req) \<and>
    served marshal (GetString c ''userId'') lines s ans t \<and>
    counts 1 (if an_status ans = StatusOK then 0 else 1) (st_metrics s) (st_metrics t)"
  using assms(3,1,2) refl
proof (cases rule: order_api.PlaceOrder_request [where marshal = marshal])
  case (answered c1 ans lines)
  then show ?thesis by blast
next
  case (limited c1 ans u)
  then have "served marshal (GetString c ''userId'') lines s ans t" for lines by (simp add: served_def status_defs)
  with limited show ?thesis
    by (intro exI [of _ c1] exI [of _ ans] exI [of _ "case oh_bindPlace a c of Inr req \<Rightarrow> po_Lines req | _ \<Rightarrow> []"])
      (auto simp: status_defs)
qed

text \<open>
  C27: the rate limit refuses a request exactly when the counter of the user is above the limit: a
  bound request of a user is answered with 429 if and only if Redis counts more requests than
  allowed, and then no table changes. When Redis does not answer, the request goes on.
\<close>

theorem order_rate_limit:
  assumes "oh_service a = service_of (NewOrderService E marshal validate)" "inventory_ok s"
    and cache: "oh_cache a = Some cache" "0 < oh_rateLimitLimit a"
    and req: "oh_bindPlace a c = Inr req" "GetString c ''userId'' \<noteq> ''''"
    and run: "OrderHandler_PlaceOrder a c s = (r, t)"
  shows "\<exists>c1 ans. r = Inr c1 \<and> gc_written c1 = gc_written c @ [ans] \<and>
    (an_status ans = StatusTooManyRequests \<longleftrightarrow>
       (\<exists>n. fst (redis_IncrementWithExpiration cache (orderRateLimitRedisKey (GetString c ''userId'')) (oh_rateLimitWindow a)
                  (s\<lparr>st_world := snd (oh_clock a (st_world s))\<rparr>)) = Inr n \<and>
            oh_rateLimitLimit a < n)) \<and>
    (an_status ans = StatusTooManyRequests \<longrightarrow> same_tables s t)"
proof -
  let ?user = "GetString c ''userId''"
  let ?s = "s\<lparr>st_world := snd (oh_clock a (st_world s))\<rparr>"
  obtain q u where q: "redis_IncrementWithExpiration cache (orderRateLimitRedisKey ?user) (oh_rateLimitWindow a) ?s = (q, u)" by fastforce
  have over: "(\<exists>d v. allowOrderPlacement a c ?user ?s = (Inr (d, b), v)) \<longleftrightarrow> b = (\<not> (\<exists>n. q = Inr n \<and> oh_rateLimitLimit a < n))" for b
    using cache q by (auto simp: allowOrderPlacement_def tryG_def bindG_def metricG_def failG_def retG_def split: sum.splits)
  from run assms(1,2) refl [of ?s] show ?thesis
  proof (cases rule: order_api.PlaceOrder_request [where marshal = marshal])
    case (answered c1 ans lines)
    with req over [of True] q show ?thesis by auto
  next
    case (limited c1 ans v)
    with over [of False] q show ?thesis by auto
  qed
qed

lemma canonical_mset: "canonical ls = canonical ls' \<longleftrightarrow> mset ls = mset ls'"
proof
  assume "canonical ls = canonical ls'"
  then have "mset (canonical ls) = mset (canonical ls')" by (rule arg_cong)
  then show "mset ls = mset ls'" by (simp add: canonical_def)
next
  let ?f = "\<lambda>l :: PlaceOrderLineReq. (pl_ProductID l, pl_Quantity l)"
  assume "mset ls = mset ls'"
  then have "image_mset ?f (mset (canonical ls)) = image_mset ?f (mset (canonical ls'))" by (simp add: canonical_def)
  then have m: "mset (map ?f (canonical ls)) = mset (map ?f (canonical ls'))" by simp
  have sorted: "sorted (map ?f (canonical xs))" for xs by (simp add: canonical_def)
  have eq: "map ?f (canonical ls) = map ?f (canonical ls')"
    using properties_for_sort [OF m sorted] properties_for_sort [OF refl sorted [of ls']] by (rule trans [OF sym])
  have "inj ?f" by (rule injI, rule PlaceOrderLineReq.equality) simp_all
  from inj_map_eq_map [OF this] eq show "canonical ls = canonical ls'" by (rule iffD1)
qed

text \<open>
  C28: the fingerprint of a request does not depend on the order of its lines, and on nothing else:
  two lists of lines have the same fingerprint if and only if they hold the same lines, as long as
  the encoding and the digest tell the two sorted lists apart.
\<close>

theorem fingerprint_up_to_order:
  assumes json: "bData (oh_marshalLines a) (canonical ls) = bData (oh_marshalLines a) (canonical ls') \<Longrightarrow> canonical ls = canonical ls'"
    and sha: "oh_sha256hex a (bData (oh_marshalLines a) (canonical ls)) = oh_sha256hex a (bData (oh_marshalLines a) (canonical ls')) \<Longrightarrow>
      bData (oh_marshalLines a) (canonical ls) = bData (oh_marshalLines a) (canonical ls')"
  shows "orderRequestFingerprint a ls = orderRequestFingerprint a ls' \<longleftrightarrow> mset ls = mset ls'"
proof
  assume "orderRequestFingerprint a ls = orderRequestFingerprint a ls'"
  with sha have "bData (oh_marshalLines a) (canonical ls) = bData (oh_marshalLines a) (canonical ls')"
    by (simp add: orderRequestFingerprint_def)
  from json [OF this] show "mset ls = mset ls'" by (simp add: canonical_mset)
next
  assume "mset ls = mset ls'"
  then have "canonical ls = canonical ls'" by (simp add: canonical_mset)
  then show "orderRequestFingerprint a ls = orderRequestFingerprint a ls'" by (simp add: orderRequestFingerprint_def)
qed

section \<open>Concrete requests\<close>

definition demo_json_lines :: "PlaceOrderLineReq list \<Rightarrow> goerr + string" where
  "demo_json_lines ls = Inr (concat (map (\<lambda>l. pl_ProductID l @ '':'' @ show_int (uint (pl_Quantity l)) @ '';'') ls))"

definition demo_lib :: "PlaceOrderReq \<Rightarrow> 'w orderService \<Rightarrow> 'w OrderHandler" where
  "demo_lib req svc = \<lparr>oh_service = svc, oh_cache = None, oh_idempotencyTTL = 0, oh_rateLimitLimit = 0, oh_rateLimitWindow = 0,
     oh_clock = (\<lambda>w. (0, w)),
     oh_bindPlace = (\<lambda>_. Inr req), oh_bindList = (\<lambda>_. Inl (ErrNew ''query'')), oh_marshalRecord = (\<lambda>r. Inr (ir_OrderID r)),
     oh_unmarshalRecord = (\<lambda>_. Inl (ErrNew ''json'')), oh_marshalLines = demo_json_lines, oh_sha256hex = (\<lambda>x. x), oh_production = True\<rparr>"

definition demo_order_ctx :: "order_data ginctx" where
  "demo_order_ctx = \<lparr>gc_method = ''POST'', gc_path = ''/orders'', gc_headers = (\<lambda>_. ''''), gc_params = (\<lambda>_. ''''),
     gc_keys = Map.empty(''userId'' \<mapsto> JStr ''u1''), gc_written = [], gc_aborted = False\<rparr>"

definition demo_order_handler :: "nat OrderHandler" where
  "demo_order_handler = NewOrderHandler demo_config (demo_lib demo_request (service_of demo_service)) (service_of demo_service) []"

lemma demo_order_request:
  "OrderHandler_PlaceOrder demo_order_handler demo_order_ctx demo_shop =
     (Inr (Response_JSON demo_order_ctx StatusOK (OrderRes (copyOrder demo_answer))),
      order_metric demo_order_handler ''success'' ''created'' 0 demo_placed)"
proof -
  have "\<not> o_IdempotencyReplay demo_answer" by code_simp
  moreover have u: "demo_request\<lparr>po_UserID := ''u1''\<rparr> = demo_request" "po_UserID demo_request = ''u1''"
    by (simp_all add: demo_request_def)
  ultimately show ?thesis
    using demo_run
    by (simp add: u OrderHandler_PlaceOrder_def demo_order_handler_def NewOrderHandler_def demo_lib_def demo_order_ctx_def GetString_def
        allowOrderPlacement_def beginIdempotentOrder_def serveOrder_def completeIdempotentOrder_def service_of_def
        placeOrderFrom_def bindG_def tryG_def retG_def askG_def metricG_def recordOrderPlaceMetric_step okG_def TrimSpace_def Let_def)
qed

theorem place_order_request_answered_witness:
  "\<exists>ans ord. gc_written (projr (fst (OrderHandler_PlaceOrder demo_order_handler demo_order_ctx demo_shop))) = [ans] \<and>
     an_status ans = 200 \<and> an_body ans = ResultBody (OrderRes (copyOrder ord)) \<and> o_UserID ord = ''u1''"
proof -
  have "oh_service demo_order_handler = service_of (NewOrderService calm (\<lambda>_. Inr ''{}'') (\<lambda>_. None))"
    by (simp add: demo_order_handler_def NewOrderHandler_def demo_lib_def demo_service_def)
  moreover have c: "gc_written demo_order_ctx = []" "GetString demo_order_ctx ''userId'' = ''u1''"
    by (simp_all add: demo_order_ctx_def GetString_def)
  ultimately show ?thesis
    using place_order_request_answered [OF _ demo_shop_ok demo_order_request]
    by (fastforce simp: demo_order_request Response_JSON_def served_def StatusOK_def)
qed

definition limit_env :: "demo_server env" where
  "limit_env = \<lparr>env_fault = Pair None, env_locked = Pair (\<lambda>_. False), env_now = Pair 0, env_date = Pair (2025, 1, 2),
     env_uuid = Pair ''id'', env_rand = Pair 0, env_bcrypt = (\<lambda>p. Pair (Inr p))\<rparr>"

definition limit_handler :: "int64 \<Rightarrow> demo_server OrderHandler" where
  "limit_handler limit =
     (let svc = service_of (NewOrderService limit_env (\<lambda>_. Inr '''') (\<lambda>_. None))
      in NewOrderHandler demo_config (demo_lib demo_request svc) svc
           [WithOrderCache \<lparr>rd_cmd = Some demo_redis, rd_client = Some demo_redis\<rparr>, WithOrderRateLimit limit 60000000000])"

text \<open>The fifth request of the minute: refused with a limit of four.\<close>

theorem order_rate_limit_witness:
  "map an_status (gc_written (projr (fst (OrderHandler_PlaceOrder (limit_handler 4) demo_order_ctx demo_counter_st)))) = [429]"
proof -
  let ?cache = "\<lparr>rd_cmd = Some demo_redis, rd_client = Some demo_redis\<rparr>"
  obtain r t where run: "OrderHandler_PlaceOrder (limit_handler 4) demo_order_ctx demo_counter_st = (r, t)" by fastforce
  have h: "oh_service (limit_handler 4) = service_of (NewOrderService limit_env (\<lambda>_. Inr '''') (\<lambda>_. None))"
    "oh_cache (limit_handler 4) = Some ?cache" "oh_rateLimitLimit (limit_handler 4) = 4" "oh_rateLimitWindow (limit_handler 4) = 60000000000"
    "oh_clock (limit_handler 4) = (\<lambda>w. (0, w))"
    "oh_bindPlace (limit_handler 4) demo_order_ctx = Inr demo_request"
    by (simp_all add: limit_handler_def Let_def NewOrderHandler_def WithOrderCache_def WithOrderRateLimit_def demo_lib_def)
  have user: "GetString demo_order_ctx ''userId'' = ''u1''" by (simp add: GetString_def demo_order_ctx_def)
  have count: "fst (redis_IncrementWithExpiration ?cache (orderRateLimitRedisKey ''u1'') 60000000000 demo_counter_st) = Inr 5"
    by (simp add: redis_IncrementWithExpiration_def cmdG_def demo_redis_def demo_counter_st_def
        incrementWithExpirationScript_def bindG_def retG_def Milliseconds_def)
  have "inventory_ok demo_counter_st" by (simp add: inventory_ok_def demo_counter_st_def)
  moreover have "gc_written demo_order_ctx = []" by (simp add: demo_order_ctx_def)
  ultimately show ?thesis
    using order_rate_limit [OF h(1) _ h(2) _ h(6) _ run] count by (auto simp: h user run StatusTooManyRequests_def)
qed

theorem fingerprint_up_to_order_witness:
  "orderRequestFingerprint demo_order_handler
     [\<lparr>pl_ProductID = ''p2'', pl_Quantity = 1\<rparr>, \<lparr>pl_ProductID = ''p1'', pl_Quantity = 3\<rparr>] =
   orderRequestFingerprint demo_order_handler
     [\<lparr>pl_ProductID = ''p1'', pl_Quantity = 3\<rparr>, \<lparr>pl_ProductID = ''p2'', pl_Quantity = 1\<rparr>]"
proof -
  let ?a = "\<lparr>pl_ProductID = ''p2'', pl_Quantity = 1\<rparr>" and ?b = "\<lparr>pl_ProductID = ''p1'', pl_Quantity = 3\<rparr>"
  have "canonical [?a, ?b] = canonical [?b, ?a]" by (simp add: canonical_mset)
  then show ?thesis using fingerprint_up_to_order [of demo_order_handler "[?a, ?b]" "[?b, ?a]"] by (simp add: add_mset_commute)
qed

end
