(* ===== verification/Startup.thy ===== *)
theory Startup
  imports Config Schema Redis
begin

text \<open>
  How the process comes up: \<open>LoadConfig\<close> of \<open>pkg/config\<close>, the connection pool and the readiness checks of
  \<open>pkg/dbs\<close>, \<open>New\<close> of \<open>pkg/redis\<close>, and what \<open>cmd/api\<close> makes of them.

  \<^item> \<open>sql_pool\<close> is the pool of \<open>database/sql\<close>, whose setters clamp what they get.
  \<^item> \<open>gorm_db\<close> holds what the readiness checks ask the database: a ping, the count of tables in the
    catalogue and the row of \<open>schema_migrations\<close>.
  \<^item> The lemmas show that a validated configuration is accepted unchanged and that the checks
    see what the catalogue holds.
\<close>

section \<open>Connection pool\<close>

record dbs_Config =
  db_URI :: string
  db_MaxOpenConns :: int64
  db_MaxIdleConns :: int64
  db_ConnMaxLifetime :: duration
  db_ConnMaxIdleTime :: duration

text \<open>The settings of \<open>sql.DB\<close>: no limit is 0, the default is two idle connections, and none is negative.\<close>

record sql_pool =
  sp_maxOpen :: int64
  sp_maxIdle :: int64
  sp_maxLifetime :: duration
  sp_maxIdleTime :: duration

definition new_pool :: sql_pool where
  "new_pool = \<lparr>sp_maxOpen = 0, sp_maxIdle = 0, sp_maxLifetime = 0, sp_maxIdleTime = 0\<rparr>"

definition idle_limit :: "sql_pool \<Rightarrow> int64" where
  "idle_limit p = (if sp_maxIdle p = 0 then 2 else max 0 (sp_maxIdle p))"

definition SetMaxIdleConns :: "int64 \<Rightarrow> sql_pool \<Rightarrow> sql_pool" where
  "SetMaxIdleConns n p =
     (let q = p\<lparr>sp_maxIdle := if 0 < n then n else - 1\<rparr>
      in if 0 < sp_maxOpen q \<and> sp_maxOpen q < idle_limit q then q\<lparr>sp_maxIdle := sp_maxOpen q\<rparr> else q)"

definition SetMaxOpenConns :: "int64 \<Rightarrow> sql_pool \<Rightarrow> sql_pool" where
  "SetMaxOpenConns n p =
     (let q = p\<lparr>sp_maxOpen := max 0 n\<rparr>
      in if 0 < sp_maxOpen q \<and> sp_maxOpen q < idle_limit q then SetMaxIdleConns n q else q)"

definition SetConnMaxLifetime :: "duration \<Rightarrow> sql_pool \<Rightarrow> sql_pool" where
  "SetConnMaxLifetime d p = p\<lparr>sp_maxLifetime := max 0 d\<rparr>"

definition SetConnMaxIdleTime :: "duration \<Rightarrow> sql_pool \<Rightarrow> sql_pool" where
  "SetConnMaxIdleTime d p = p\<lparr>sp_maxIdleTime := max 0 d\<rparr>"

definition validateConnectionPoolConfig :: "dbs_Config \<Rightarrow> goerr option" where
  "validateConnectionPoolConfig config =
     orElse (refuse (db_MaxOpenConns config \<le> 0) ''database max open connections must be greater than zero'')
    (orElse (refuse (db_MaxIdleConns config \<le> 0) ''database max idle connections must be greater than zero'')
    (orElse (refuse (db_MaxOpenConns config < db_MaxIdleConns config)
               ''database max idle connections must not exceed max open connections'')
    (orElse (refuse (db_ConnMaxLifetime config \<le> 0) ''database connection max lifetime must be greater than zero'')
            (refuse (db_ConnMaxIdleTime config \<le> 0) ''database connection max idle time must be greater than zero''))))"

definition configureConnectionPool :: "sql_pool option \<Rightarrow> dbs_Config \<Rightarrow> goerr + sql_pool" where
  "configureConnectionPool pool config =
     (case pool of
        None \<Rightarrow> Inl (ErrNew ''database connection pool is required'')
      | Some p \<Rightarrow>
          (case validateConnectionPoolConfig config of
             Some err \<Rightarrow> Inl err
           | None \<Rightarrow>
               Inr (SetConnMaxIdleTime (db_ConnMaxIdleTime config)
                   (SetConnMaxLifetime (db_ConnMaxLifetime config)
                   (SetMaxIdleConns (db_MaxIdleConns config)
                   (SetMaxOpenConns (db_MaxOpenConns config) p))))))"

section \<open>Readiness\<close>

text \<open>
  What is asked of an open database. The count is the one of the rows of \<open>pg_tables\<close> in the current
  schema whose name is in the list.
\<close>

record 'w gorm_db =
  gd_DB :: "'w \<Rightarrow> (goerr + unit) \<times> 'w"
  gd_Ping :: "'w \<Rightarrow> (goerr + unit) \<times> 'w"
  gd_countTables :: "string list \<Rightarrow> 'w \<Rightarrow> (goerr + int64) \<times> 'w"
  gd_migration :: "'w \<Rightarrow> (goerr + uint \<times> bool) \<times> 'w"

text \<open>The struct \<open>Database\<close>; a nil database or one without \<open>db\<close> is \<open>None\<close>.\<close>

type_synonym 'w Database = "'w gorm_db option"

definition outsideG :: "('w \<Rightarrow> (goerr + 'a) \<times> 'w) \<Rightarrow> ('w st, 'a) gom" where
  "outsideG f = bindG (askG f) liftG"

definition database_required :: "'w Database \<Rightarrow> ('w gorm_db \<Rightarrow> ('w st, 'a) gom) \<Rightarrow> ('w st, 'a) gom" where
  "database_required d f = (case d of None \<Rightarrow> throwG (ErrNew ''database is required'') | Some db \<Rightarrow> f db)"

definition Ping :: "'w Database \<Rightarrow> ('w st, unit) gom" where
  "Ping d = database_required d (\<lambda>db. bindG (outsideG (gd_DB db)) (\<lambda>_. outsideG (gd_Ping db)))"

definition HasTables :: "'w Database \<Rightarrow> string list \<Rightarrow> ('w st, unit) gom" where
  "HasTables d tables = database_required d (\<lambda>db.
     if tables = [] then throwG (ErrNew ''at least one table is required'')
     else if '''' \<in> set tables then throwG (ErrNew ''table name is required'')
     else
       let uniqueTables = remdups tables
       in bindG (outsideG (gd_countTables db tables)) (\<lambda>count.
          if count \<noteq> int (length uniqueTables) then throwG (ErrNew ''database schema is incomplete'') else retG ()))"

definition validateMigrationState :: "uint \<Rightarrow> bool \<Rightarrow> uint \<Rightarrow> goerr option" where
  "validateMigrationState version dirty minimumVersion =
     (if dirty then Some (ErrNew ''database migration is dirty'')
      else if version < minimumVersion
      then Some (ErrNew (''database migration version '' @ show_int (uint version) @ '' is below required minimum '' @
                         show_int (uint minimumVersion)))
      else None)"

definition MigrationReady :: "'w Database \<Rightarrow> uint \<Rightarrow> ('w st, unit) gom" where
  "MigrationReady d minimumVersion = database_required d (\<lambda>db.
     if minimumVersion = 0 then throwG (ErrNew ''minimum migration version must be greater than zero'')
     else tryG (outsideG (gd_migration db)) (\<lambda>r. case r of
            Inl err \<Rightarrow> throwG (Wrapf ''read migration state'' err)
          | Inr (version, dirty) \<Rightarrow> checkG (validateMigrationState version dirty minimumVersion)))"

section \<open>The configuration\<close>

text \<open>
  What \<open>LoadConfig\<close> asks: the variable \<open>environment\<close>, the file \<open>config.yaml\<close>, which \<open>godotenv\<close> adds to the
  environment, and the environment as \<open>env.Parse\<close> reads it. A call of \<open>log.Fatalf\<close> or \<open>logger.Fatal\<close> is an error
  here: it ends the process.
\<close>

record 'w config_source =
  cfs_Getenv :: "'w \<Rightarrow> string \<times> 'w"
  cfs_LoadFile :: "'w \<Rightarrow> (goerr + unit) \<times> 'w"
  cfs_Parse :: "'w \<Rightarrow> (goerr + Schema) \<times> 'w"

definition LoadConfig :: "'w config_source \<Rightarrow> ('w st, Schema) gom" where
  "LoadConfig S =
     bindG (askG (cfs_Getenv S)) (\<lambda>environment.
     bindG (if environment \<noteq> ProductionEnv then tryG (outsideG (cfs_LoadFile S)) (\<lambda>_. retG ()) else retG ()) (\<lambda>_.
     bindG (outsideG (cfs_Parse S)) (\<lambda>cfg.
     bindG (checkG (Validate cfg)) (\<lambda>_. retG cfg))))"

section \<open>Redis\<close>

record redis_Config =
  rc_Address :: string
  rc_Password :: string
  rc_Database :: int64

definition redis_New :: "(redis_Config \<Rightarrow> 'w goredis) \<Rightarrow> redis_Config \<Rightarrow> ('w st, 'w redis) gom" where
  "redis_New newClient config =
     (let rdb = newClient config
      in bindG (cmdG (gr_Ping rdb)) (\<lambda>_. retG \<lparr>rd_cmd = Some rdb, rd_client = Some rdb\<rparr>))"

section \<open>The process\<close>

text \<open>
  What \<open>main\<close> calls: opening the database and reaching its pool, the migration of the models, the
  client of Redis. A failure is \<open>logger.Fatal\<close>, which ends the process.
\<close>

record 'w process =
  pc_Open :: "string \<Rightarrow> 'w \<Rightarrow> (goerr + 'w gorm_db) \<times> 'w"
  pc_DB :: "'w gorm_db \<Rightarrow> 'w \<Rightarrow> (goerr + sql_pool) \<times> 'w"
  pc_AutoMigrate :: "string list \<Rightarrow> 'w \<Rightarrow> (goerr + unit) \<times> 'w"
  pc_NewClient :: "redis_Config \<Rightarrow> 'w goredis"

definition NewDatabase :: "'w process \<Rightarrow> dbs_Config \<Rightarrow> ('w st, 'w gorm_db \<times> sql_pool) gom" where
  "NewDatabase P config =
     (if db_URI config = '''' then throwG (ErrNew ''database URI is required'')
      else bindG (checkG (validateConnectionPoolConfig config)) (\<lambda>_.
           bindG (outsideG (pc_Open P (db_URI config))) (\<lambda>database.
           bindG (outsideG (pc_DB P database)) (\<lambda>sqlDB.
           bindG (liftG (configureConnectionPool (Some sqlDB) config)) (\<lambda>pool. retG (database, pool))))))"

definition migrateDatabase :: "'w process \<Rightarrow> bool \<Rightarrow> ('w st, unit) gom" where
  "migrateDatabase P enabled =
     (if \<not> enabled then retG ()
      else outsideG (pc_AutoMigrate P [''User'', ''Product'', ''Inventory'', ''Order'', ''OrderLine'', ''OutboxEvent'', ''Cart'', ''CartLine'']))"

definition main_database :: "Schema \<Rightarrow> dbs_Config" where
  "main_database cfg = \<lparr>db_URI = cfg_DatabaseURI cfg, db_MaxOpenConns = DatabaseMaxOpenConns cfg,
     db_MaxIdleConns = DatabaseMaxIdleConns cfg, db_ConnMaxLifetime = DatabaseConnMaxLifetime cfg,
     db_ConnMaxIdleTime = DatabaseConnMaxIdleTime cfg\<rparr>"

definition main_setup :: "'w process \<Rightarrow> Schema \<Rightarrow> ('w st, 'w gorm_db \<times> sql_pool \<times> 'w redis) gom" where
  "main_setup P cfg =
     bindG (NewDatabase P (main_database cfg)) (\<lambda>(db, pool).
     bindG (migrateDatabase P (DatabaseAutoMigrate cfg)) (\<lambda>_.
     bindG (redis_New (pc_NewClient P)
              \<lparr>rc_Address = cfg_RedisURI cfg, rc_Password = cfg_RedisPassword cfg, rc_Database = cfg_RedisDB cfg\<rparr>) (\<lambda>cache.
     retG (db, pool, cache))))"

section \<open>Facts\<close>

lemma outsideG_frame [frames, simp]:
  "keepsG world_only (outsideG f)" "keepsG same_tables (outsideG f)" "keepsG same_metrics (outsideG f)"
  unfolding outsideG_def by (auto intro!: framing)

lemma outsideG_iff [gom]:
  "outsideG f s = (r, t) \<longleftrightarrow> r = fst (f (st_world s)) \<and> t = s\<lparr>st_world := snd (f (st_world s))\<rparr>"
  by (auto simp: outsideG_def bindG_def askG_def liftG_def split: prod.splits)

lemma database_frames [frames, simp]:
  "keepsG world_only (Ping d)" "keepsG world_only (HasTables d ts)" "keepsG world_only (MigrationReady d v)"
  unfolding Ping_def HasTables_def MigrationReady_def database_required_def Let_def
  by (auto intro!: framing split: option.split sum.split)

lemma validateConnectionPoolConfig_None:
  "validateConnectionPoolConfig c = None \<longleftrightarrow> 0 < db_MaxIdleConns c \<and> db_MaxIdleConns c \<le> db_MaxOpenConns c \<and>
     0 < db_ConnMaxLifetime c \<and> 0 < db_ConnMaxIdleTime c"
  by (auto simp: validateConnectionPoolConfig_def)

text \<open>The setters change nothing about a configuration that was checked.\<close>

lemma configureConnectionPool_Inr:
  "configureConnectionPool (Some p) c = Inr q \<Longrightarrow>
     q = \<lparr>sp_maxOpen = db_MaxOpenConns c, sp_maxIdle = db_MaxIdleConns c,
          sp_maxLifetime = db_ConnMaxLifetime c, sp_maxIdleTime = db_ConnMaxIdleTime c, \<dots> = sql_pool.more p\<rparr>"
  by (cases p) (auto simp: configureConnectionPool_def validateConnectionPoolConfig_None SetMaxOpenConns_def SetMaxIdleConns_def
      SetConnMaxLifetime_def SetConnMaxIdleTime_def idle_limit_def Let_def split: option.splits)

lemma NewDatabase_Inr:
  "NewDatabase P c s = (Inr (db, q), t) \<Longrightarrow> db_URI c \<noteq> '''' \<and> validateConnectionPoolConfig c = None \<and>
     (\<exists>p. configureConnectionPool (Some p) c = Inr q)"
  by (auto simp: NewDatabase_def gom split: if_splits)

text \<open>
  What PostgreSQL answers as long as the catalogue does not change: \<open>tables\<close> are the tables of the
  current schema, \<open>migration\<close> the version and the dirty flag in \<open>schema_migrations\<close>.
\<close>

definition catalogue :: "'w gorm_db \<Rightarrow> string set \<Rightarrow> uint \<times> bool \<Rightarrow> bool" where
  "catalogue db tables migration \<longleftrightarrow>
     (\<forall>ts w n. fst (gd_countTables db ts w) = Inr n \<longrightarrow> n = int (card (set ts \<inter> tables))) \<and>
     (\<forall>w m. fst (gd_migration db w) = Inr m \<longrightarrow> m = migration)"

lemma HasTables_Inr:
  assumes "catalogue db tables m" "HasTables (Some db) ts s = (Inr u, t)"
  shows "set ts \<subseteq> tables"
proof -
  from assms(2) have "fst (gd_countTables db ts (st_world s)) = Inr (int (length (remdups ts)))"
    by (auto simp: HasTables_def database_required_def Let_def gom split: if_splits)
  with assms(1) have "int (length (remdups ts)) = int (card (set ts \<inter> tables))" unfolding catalogue_def by blast
  then have "card (set ts \<inter> tables) = card (set ts)" by (simp add: length_remdups_card_conv)
  then show ?thesis using card_subset_eq [of "set ts" "set ts \<inter> tables"] by auto
qed

lemma HasTables_Inl:
  assumes "catalogue db tables m" "HasTables (Some db) ts s = (Inl e, t)" "set ts \<subseteq> tables" "ts \<noteq> []" "'''' \<notin> set ts"
  shows "\<exists>e w. fst (gd_countTables db ts w) = Inl e"
proof (rule ccontr)
  assume "\<not> ?thesis"
  then obtain n where n: "fst (gd_countTables db ts (st_world s)) = Inr n" by (cases "fst (gd_countTables db ts (st_world s))") auto
  with assms(1) have "n = int (card (set ts \<inter> tables))" unfolding catalogue_def by blast
  then have "n = int (card (set ts))" using assms(3) by (simp add: Int_absorb2)
  with n assms(2,4,5) show False
    by (auto simp: HasTables_def database_required_def Let_def outsideG_def bindG_def askG_def liftG_def retG_def throwG_def
        length_remdups_card_conv split: prod.splits)
qed

lemma MigrationReady_Inr:
  "catalogue db tables (version, dirty) \<Longrightarrow> MigrationReady (Some db) v s = (Inr u, t) \<Longrightarrow> \<not> dirty \<and> v \<le> version"
  by (auto simp: MigrationReady_def database_required_def gom catalogue_def validateMigrationState_def split: if_splits sum.splits)
     (fastforce dest: spec)+

section \<open>What came up\<close>

lemma LoadConfig_Inr: "LoadConfig S s = (Inr cfg, t) \<Longrightarrow> Validate cfg = None"
  by (auto simp: LoadConfig_def gom split: if_splits)

lemma LoadConfig_frame [frames, simp]: "keepsG world_only (LoadConfig S)"
  unfolding LoadConfig_def by (auto intro!: framing)

lemma redis_New_frame [frames, simp]: "keepsG world_only (redis_New f config)"
  unfolding redis_New_def Let_def by (auto intro!: framing)

lemma main_setup_frame [frames, simp]: "keepsG world_only (main_setup P cfg)"
  unfolding main_setup_def NewDatabase_def migrateDatabase_def by (auto intro!: framing)

text \<open>A validated configuration makes a pool that is accepted, and that \<open>database/sql\<close> never clamps.\<close>

lemma pool_accepted:
  assumes "Validate cfg = None"
    and "cfg_DatabaseConnMaxLifetimeSeconds cfg \<le> 9223372036" "cfg_DatabaseConnMaxIdleTimeSeconds cfg \<le> 9223372036"
  shows "validateConnectionPoolConfig (main_database cfg) = None"
proof -
  have pool: "validateDatabasePoolConfig cfg = None" using assms(1) by (simp add: Validate_def)
  have "0 < DatabaseConnMaxLifetime cfg" "0 < DatabaseConnMaxIdleTime cfg"
    using assms(2,3) by (auto intro!: secondsOrDefault_pos simp: DatabaseConnMaxLifetime_def DatabaseConnMaxIdleTime_def default_seconds)
  with validateDatabasePoolConfig_None [OF pool] show ?thesis
    by (simp add: validateConnectionPoolConfig_None main_database_def)
qed

lemma main_setup_Inr:
  assumes "main_setup P cfg s = (Inr (db, pool, cache), t)"
  shows "pool = \<lparr>sp_maxOpen = DatabaseMaxOpenConns cfg, sp_maxIdle = DatabaseMaxIdleConns cfg,
      sp_maxLifetime = DatabaseConnMaxLifetime cfg, sp_maxIdleTime = DatabaseConnMaxIdleTime cfg\<rparr>"
    and "cfg_DatabaseURI cfg \<noteq> ''''" and "\<exists>c w. cache = \<lparr>rd_cmd = Some c, rd_client = Some c\<rparr> \<and> fst (gr_Ping c w) = Inr ()"
  using assms by (auto simp: main_setup_def main_database_def redis_New_def Let_def gom dest!: NewDatabase_Inr configureConnectionPool_Inr)

section \<open>A concrete start\<close>

definition demo_tables :: "string list" where
  "demo_tables = [''users'', ''products'', ''inventories'', ''orders'', ''order_lines'', ''outbox_events'', ''carts'',
     ''cart_lines'', ''schema_migrations'']"

definition demo_db :: "nat gorm_db" where
  "demo_db = \<lparr>gd_DB = (\<lambda>w. (Inr (), w)), gd_Ping = (\<lambda>w. (Inr (), w)),
     gd_countTables = (\<lambda>ts w. (Inr (int (length (filter (\<lambda>t. t \<in> set ts) demo_tables))), w)),
     gd_migration = (\<lambda>w. (Inr (6, False), w))\<rparr>"

definition demo_redis_client :: "nat goredis" where
  "demo_redis_client =
     \<lparr>gr_Ping = retG (), gr_Get = (\<lambda>_. throwG ErrRedisNil), gr_Exists = (\<lambda>_. retG 0), gr_Set = (\<lambda>_ _ _. retG ()),
      gr_SetNX = (\<lambda>_ _ _. retG True), gr_Run = (\<lambda>m. m), gr_Incr = (\<lambda>_. retG 1), gr_PTTL = (\<lambda>_. retG 1),
      gr_PExpire = (\<lambda>_ _. retG ()), gr_XAdd = (\<lambda>_ _. retG ''1-0''),
      gr_XGroupCreateMkStream = (\<lambda>_ _ _. retG ()), gr_XReadGroup = (\<lambda>_ _ _ _ _. retG []), gr_XAck = (\<lambda>_ _ _. retG ()),
      gr_XAutoClaim = (\<lambda>_ _ _ _ _ _. throwG ErrRedisNil), gr_Del = (\<lambda>_ _. retG ()), gr_Scan = (\<lambda>_ _ _ _. retG ([], 0))\<rparr>"

definition demo_process :: "nat process" where
  "demo_process = \<lparr>pc_Open = (\<lambda>_ w. (Inr demo_db, w)), pc_DB = (\<lambda>_ w. (Inr new_pool, w)),
     pc_AutoMigrate = (\<lambda>_ w. (Inr (), w)), pc_NewClient = (\<lambda>_. demo_redis_client)\<rparr>"

definition demo_source :: "nat config_source" where
  "demo_source = \<lparr>cfs_Getenv = (\<lambda>w. (ProductionEnv, w)), cfs_LoadFile = (\<lambda>w. (Inr (), w)), cfs_Parse = (\<lambda>w. (Inr demo_config, w))\<rparr>"

lemma demo_catalogue: "catalogue demo_db (set demo_tables) (6, False)"
proof -
  have "distinct demo_tables" by code_simp
  then have "length (filter (\<lambda>t. t \<in> set ts) demo_tables) = card (set ts \<inter> set demo_tables)" for ts
    using distinct_card [of "filter (\<lambda>t. t \<in> set ts) demo_tables"] by (simp add: Int_def conj_commute)
  then show ?thesis by (simp add: catalogue_def demo_db_def)
qed

end
