(* ===== verification/InventoryHandler.thy ===== *)
theory InventoryHandler
  imports Inventory User
begin

text \<open>
  \<open>internal/inventory/port/http\<close>: the handlers and routes of the inventory.

  \<^item> A handler gets the interface \<open>IInventoryService\<close> as a record of operations; binding a request is
    a parameter of the handler.
  \<^item> \<open>stock_request\<close> is what a request to a route may do to the stock.
\<close>

section \<open>Answers\<close>

record InventoryDto =
  id_ProductID :: string
  id_Quantity :: int64

datatype inventory_data = InventoryRes InventoryDto | ListInventoryRes "InventoryDto list" Pagination

text \<open>\<open>utils.Copy\<close> copies the fields of the same names.\<close>

definition copyInventory :: "Inventory \<Rightarrow> InventoryDto" where
  "copyInventory i = \<lparr>id_ProductID = inv_ProductID i, id_Quantity = inv_Quantity i\<rparr>"

section \<open>Handlers\<close>

record 'w IInventoryService =
  is_List :: "ListInventoryReq \<Rightarrow> ('w st, Inventory list \<times> Pagination) gom"
  is_GetByProductID :: "string \<Rightarrow> ('w st, Inventory) gom"
  is_SetStock :: "SetInventoryReq \<Rightarrow> ('w st, Inventory) gom"
  is_AdjustStock :: "string \<Rightarrow> AdjustInventoryReq \<Rightarrow> ('w st, Inventory) gom"
  is_ConsumeStock :: "string \<Rightarrow> int64 \<Rightarrow> ('w st, unit) gom"
  is_Restock :: "string \<Rightarrow> int64 \<Rightarrow> ('w st, unit) gom"

definition InventoryService ::
    "(SetInventoryReq \<Rightarrow> goerr option) \<Rightarrow> (AdjustInventoryReq \<Rightarrow> goerr option) \<Rightarrow> 'w IInventoryRepository \<Rightarrow> 'w IInventoryService" where
  "InventoryService vs va repo =
     \<lparr>is_List = InventoryService_List repo, is_GetByProductID = InventoryService_GetByProductID repo,
      is_SetStock = InventoryService_SetStock vs repo, is_AdjustStock = InventoryService_AdjustStock va repo,
      is_ConsumeStock = InventoryService_ConsumeStock repo, is_Restock = InventoryService_Restock repo\<rparr>"

text \<open>Binding fails on a body that is missing, so the test for it is part of the binding.\<close>

record 'w InventoryHandler =
  ih_service :: "'w IInventoryService"
  ih_bindList :: "inventory_data ginctx \<Rightarrow> goerr + ListInventoryReq"
  ih_bindSet :: "inventory_data ginctx \<Rightarrow> goerr + SetInventoryReq"
  ih_bindAdjust :: "inventory_data ginctx \<Rightarrow> goerr + AdjustInventoryReq"
  ih_errorText :: "goerr \<Rightarrow> string"
  ih_production :: bool

definition InventoryHandler_List :: "'w InventoryHandler \<Rightarrow> ('w, inventory_data) handler" where
  "InventoryHandler_List h c =
     (case ih_bindList h c of
        Inl err \<Rightarrow> failG (ih_production h) c StatusBadRequest err ''Invalid parameters''
      | Inr req \<Rightarrow>
          tryG (is_List (ih_service h) req) (\<lambda>r. case r of
            Inl err \<Rightarrow> somethingWrong (ih_production h) c err
          | Inr (items, pagination) \<Rightarrow> okG c (ListInventoryRes (map copyInventory items) pagination)))"

definition InventoryHandler_Get :: "'w InventoryHandler \<Rightarrow> ('w, inventory_data) handler" where
  "InventoryHandler_Get h c =
     (let productID = gc_params c ''product_id''
      in tryG (is_GetByProductID (ih_service h) productID) (\<lambda>r. case r of
           Inl err \<Rightarrow>
             let (status, message) = (if errors_Is err ErrInventoryNotFound then (StatusNotFound, ''Not found'')
                                      else (StatusInternalServerError, ''Something went wrong''))
             in failG (ih_production h) c status err message
         | Inr item \<Rightarrow> okG c (InventoryRes (copyInventory item))))"

definition InventoryHandler_Set :: "'w InventoryHandler \<Rightarrow> ('w, inventory_data) handler" where
  "InventoryHandler_Set h c =
     (let productID = gc_params c ''product_id''
      in case ih_bindSet h c of
           Inl err \<Rightarrow> failG (ih_production h) c StatusBadRequest err ''Invalid parameters''
         | Inr req \<Rightarrow>
             tryG (is_SetStock (ih_service h) (req\<lparr>si_ProductID := productID\<rparr>)) (\<lambda>r. case r of
               Inl err \<Rightarrow> somethingWrong (ih_production h) c err
             | Inr item \<Rightarrow> okG c (InventoryRes (copyInventory item))))"

definition InventoryHandler_Adjust :: "'w InventoryHandler \<Rightarrow> ('w, inventory_data) handler" where
  "InventoryHandler_Adjust h c =
     (let productID = gc_params c ''product_id''
      in case ih_bindAdjust h c of
           Inl err \<Rightarrow> failG (ih_production h) c StatusBadRequest err ''Invalid parameters''
         | Inr req \<Rightarrow>
             tryG (is_AdjustStock (ih_service h) productID req) (\<lambda>r. case r of
               Inl err \<Rightarrow>
                 let (status, message) = (if errors_Is err ErrInsufficientStock then (StatusBadRequest, ih_errorText h err)
                                          else (StatusInternalServerError, ''Something went wrong''))
                 in failG (ih_production h) c status err message
             | Inr item \<Rightarrow> okG c (InventoryRes (copyInventory item))))"

definition Inventory_Routes ::
    "'w env \<Rightarrow> jwtlib \<Rightarrow> Schema \<Rightarrow> 'w InventoryHandler \<Rightarrow> ((string \<times> string) \<times> ('w, inventory_data) handler list) list" where
  "Inventory_Routes E J cfg h =
     (let adminOnly = RequireRole (ih_production h) ''admin''
      in [((''GET'', ''/inventory''), [InventoryHandler_List h]),
          ((''GET'', ''/inventory/:product_id''), [InventoryHandler_Get h]),
          ((''PUT'', ''/inventory/:product_id''), [JWTAuth E J cfg, adminOnly, InventoryHandler_Set h]),
          ((''PATCH'', ''/inventory/:product_id/adjust''), [JWTAuth E J cfg, adminOnly, InventoryHandler_Adjust h])])"

section \<open>What a request does\<close>

text \<open>
  The stock after a request: answered with 200 it is as asked for, with any other status no quantity
  has changed. A row without a quantity may have been added for a product that had none.
\<close>

definition stock_request :: "'w st \<Rightarrow> string \<Rightarrow> int64 \<Rightarrow> inventory_data answer \<Rightarrow> 'w st \<Rightarrow> bool" where
  "stock_request s p q a t \<longleftrightarrow> inventory_ok t \<and> inventory_only s t \<and>
     (if an_status a = StatusOK
      then 0 \<le> q \<and> stock t = (stock s)(p \<mapsto> q) \<and> an_body a = ResultBody (InventoryRes \<lparr>id_ProductID = p, id_Quantity = q\<rparr>)
      else \<forall>k. stock0 t k = stock0 s k)"

lemma stock_request_same:
  "inventory_ok s \<Longrightarrow> world_only s t \<Longrightarrow> an_status a \<noteq> StatusOK \<Longrightarrow> stock_request s p q a t"
  using world_only_stock [of s t] world_only_inventory [of s t] by (simp add: stock_request_def stock0_def)

lemma InventoryService_reads_frame [frames, simp]:
  "keepsG world_only (InventoryService_List (NewInventoryRepository E) req)"
  "keepsG world_only (InventoryService_GetByProductID (NewInventoryRepository E) p)"
proof -
  show "keepsG world_only (InventoryService_List (NewInventoryRepository E) req)"
    by (auto simp: InventoryService_List_def NewInventoryRepository_def InventoryRepo_List_def Let_def intro!: framing)
  show "keepsG world_only (InventoryService_GetByProductID (NewInventoryRepository E) p)"
    unfolding InventoryService_GetByProductID_def by (rule inventory_repo.getInventory_frame)
qed

lemma Inventory_reads_run:
  assumes "ih_service h = InventoryService vs va (NewInventoryRepository E)"
    and "InventoryHandler_List h c s = (r, t) \<or> InventoryHandler_Get h c s = (r, t)"
  shows "world_only s t \<and> (\<exists>c1 a. r = Inr c1 \<and> gc_written c1 = gc_written c @ [a])"
proof -
  have "keepsG world_only (InventoryHandler_List h c)" "keepsG world_only (InventoryHandler_Get h c)"
    unfolding InventoryHandler_List_def InventoryHandler_Get_def Let_def assms(1) InventoryService_def
    by (auto intro!: framing simp: okG_def failG_def somethingWrong_def split: sum.split)
  with assms(2) have "world_only s t" by (blast dest: keepsGD)
  moreover have "\<exists>c1 a. r = Inr c1 \<and> gc_written c1 = gc_written c @ [a]"
    using assms(2) by (auto simp: InventoryHandler_List_def InventoryHandler_Get_def tryG_def okG_def failG_def somethingWrong_def
        retG_def Response_JSON_def Response_Error_def Let_def split: sum.splits prod.splits if_splits)
  ultimately show ?thesis by blast
qed

lemma Inventory_Set_run:
  assumes svc: "ih_service h = InventoryService vs va (NewInventoryRepository E)" and ok: "inventory_ok s"
    and run: "InventoryHandler_Set h c s = (r, t)" and q: "\<And>req. ih_bindSet h c = Inr req \<Longrightarrow> si_Quantity req \<le> max_i64"
  obtains (answer) c1 a where "r = Inr c1" "gc_written c1 = gc_written c @ [a]"
    "\<And>req. ih_bindSet h c = Inr req \<Longrightarrow> stock_request s (gc_params c ''product_id'') (si_Quantity req) a t"
    "\<And>e. ih_bindSet h c = Inl e \<Longrightarrow> t = s \<and> an_status a = StatusBadRequest"
proof (cases "ih_bindSet h c")
  case (Inl e)
  with run that show thesis by (simp add: InventoryHandler_Set_def failG_iff Response_Error_def)
next
  case (Inr req)
  let ?req = "req\<lparr>si_ProductID := gc_params c ''product_id''\<rparr>"
  obtain x where x: "InventoryService_SetStock vs (NewInventoryRepository E) ?req s = (x, t)"
    and r: "r = (case x of Inl e \<Rightarrow> Inr (Response_Error (ih_production h) c StatusInternalServerError e ''Something went wrong'')
                | Inr i \<Rightarrow> Inr (Response_JSON c StatusOK (InventoryRes (copyInventory i))))"
    using run Inr by (auto simp: InventoryHandler_Set_def svc InventoryService_def tryG_def failG_def okG_def somethingWrong_def retG_def
        split: sum.splits prod.splits)
  have "stock_request s (gc_params c ''product_id'') (si_Quantity req)
      \<lparr>an_status = (case x of Inl _ \<Rightarrow> 500 | Inr _ \<Rightarrow> 200), an_body = (case x of Inl e \<Rightarrow> ErrorBody ''Something went wrong'' None
         | Inr i \<Rightarrow> ResultBody (InventoryRes (copyInventory i)))\<rparr> t"
    using inventory_admin_repo.service_set [OF ok _ x] q [OF Inr]
    by (cases x) (auto simp: stock_request_def copyInventory_def status_defs)
  with Inr r show thesis
    by (cases x) (auto intro!: that simp: Response_Error_def Response_JSON_def status_defs)
qed

lemma Inventory_Adjust_run:
  assumes svc: "ih_service h = InventoryService vs va (NewInventoryRepository E)" and ok: "inventory_ok s"
    and run: "InventoryHandler_Adjust h c s = (r, t)" and q: "\<And>req. ih_bindAdjust h c = Inr req \<Longrightarrow> ai_QuantityDelta req \<le> max_i64"
  obtains (answer) c1 a where "r = Inr c1" "gc_written c1 = gc_written c @ [a]"
    "\<And>req. ih_bindAdjust h c = Inr req \<Longrightarrow> stock_request s (gc_params c ''product_id'')
       (stock0 s (gc_params c ''product_id'') + ai_QuantityDelta req) a t"
    "\<And>e. ih_bindAdjust h c = Inl e \<Longrightarrow> t = s \<and> an_status a = StatusBadRequest"
proof (cases "ih_bindAdjust h c")
  case (Inl e)
  with run that show thesis by (simp add: InventoryHandler_Adjust_def failG_iff Response_Error_def)
next
  case (Inr req)
  let ?p = "gc_params c ''product_id''"
  obtain x where x: "InventoryService_AdjustStock va (NewInventoryRepository E) ?p req s = (x, t)"
    and r: "r = (case x of
        Inl e \<Rightarrow> Inr (Response_Error (ih_production h) c (if errors_Is e ErrInsufficientStock then StatusBadRequest else StatusInternalServerError) e
          (if errors_Is e ErrInsufficientStock then ih_errorText h e else ''Something went wrong''))
      | Inr i \<Rightarrow> Inr (Response_JSON c StatusOK (InventoryRes (copyInventory i))))"
    using run Inr by (auto simp: InventoryHandler_Adjust_def svc InventoryService_def tryG_def failG_def okG_def retG_def
        split: sum.splits prod.splits if_splits)
  show thesis
  proof (cases x)
    case (Inl e)
    have w: "world_only s t" using inventory_repo.service_adjust_Inl [OF ok q [OF Inr] x [unfolded Inl]] .
    obtain st m where st: "st \<noteq> StatusOK" "r = Inr (Response_Error (ih_production h) c st e m)"
      by (rule that [of "if errors_Is e ErrInsufficientStock then StatusBadRequest else StatusInternalServerError"
            "if errors_Is e ErrInsufficientStock then ih_errorText h e else ''Something went wrong''"])
        (simp_all add: r Inl status_defs)
    show thesis
      by (rule that [OF st(2)])
        (use Inr stock_request_same [OF ok w] st(1) in \<open>auto simp: Response_Error_def\<close>)
  next
    case (Inr i)
    from inventory_repo.service_adjust_Inr [OF ok q [OF \<open>ih_bindAdjust h c = Inr req\<close>] x [unfolded Inr]] r Inr
    show thesis
      by (intro that [of "Response_JSON c StatusOK (InventoryRes (copyInventory i))"])
        (auto simp: \<open>ih_bindAdjust h c = Inr req\<close> stock_request_def stock_added_def copyInventory_def Response_JSON_def)
  qed
qed

text \<open>The stock that a request to a route of the admins asks for.\<close>

definition asked :: "'w InventoryHandler \<Rightarrow> string \<times> string \<Rightarrow> inventory_data ginctx \<Rightarrow> 'w st \<Rightarrow> string \<Rightarrow> int64 \<Rightarrow> bool" where
  "asked h path d s p q \<longleftrightarrow>
     path = (''PUT'', ''/inventory/:product_id'') \<and> (\<exists>req. ih_bindSet h d = Inr req \<and> q = si_Quantity req) \<or>
     path = (''PATCH'', ''/inventory/:product_id/adjust'') \<and>
       (\<exists>req. ih_bindAdjust h d = Inr req \<and> q = stock0 s p + ai_QuantityDelta req)"

lemma Inventory_write_run:
  assumes svc: "ih_service h = InventoryService vs va (NewInventoryRepository E)" and ok: "inventory_ok s"
    and f: "path = (''PUT'', ''/inventory/:product_id'') \<and> f = InventoryHandler_Set h \<or>
         path = (''PATCH'', ''/inventory/:product_id/adjust'') \<and> f = InventoryHandler_Adjust h"
    and run: "f c s = (r, t)"
    and q: "\<And>d req. ih_bindSet h d = Inr req \<Longrightarrow> si_Quantity req \<le> max_i64"
      "\<And>d req. ih_bindAdjust h d = Inr req \<Longrightarrow> ai_QuantityDelta req \<le> max_i64"
  obtains (unbound) c1 a where "r = Inr c1" "gc_written c1 = gc_written c @ [a]" "an_status a \<noteq> StatusOK" "t = s"
  | (answered) c1 a q where "r = Inr c1" "gc_written c1 = gc_written c @ [a]"
      "asked h path c s (gc_params c ''product_id'') q" "stock_request s (gc_params c ''product_id'') q a t"
  using f
proof
  assume f: "path = (''PUT'', ''/inventory/:product_id'') \<and> f = InventoryHandler_Set h"
  with run have "InventoryHandler_Set h c s = (r, t)" by simp
  then show thesis
  proof (rule Inventory_Set_run [OF svc ok _ q(1)])
    fix c1 a assume r: "r = Inr c1" "gc_written c1 = gc_written c @ [a]"
      and a: "\<And>req. ih_bindSet h c = Inr req \<Longrightarrow> stock_request s (gc_params c ''product_id'') (si_Quantity req) a t"
        "\<And>e. ih_bindSet h c = Inl e \<Longrightarrow> t = s \<and> an_status a = StatusBadRequest"
    show thesis
    proof (cases "ih_bindSet h c")
      case (Inr req)
      then show thesis using f by (intro answered [OF r _ a(1)]) (simp_all add: asked_def)
    qed (use a(2) unbound [OF r] in \<open>simp add: status_defs\<close>)
  qed
next
  assume f: "path = (''PATCH'', ''/inventory/:product_id/adjust'') \<and> f = InventoryHandler_Adjust h"
  with run have "InventoryHandler_Adjust h c s = (r, t)" by simp
  then show thesis
  proof (rule Inventory_Adjust_run [OF svc ok _ q(2)])
    fix c1 a assume r: "r = Inr c1" "gc_written c1 = gc_written c @ [a]"
      and a: "\<And>req. ih_bindAdjust h c = Inr req \<Longrightarrow> stock_request s (gc_params c ''product_id'')
          (stock0 s (gc_params c ''product_id'') + ai_QuantityDelta req) a t"
        "\<And>e. ih_bindAdjust h c = Inl e \<Longrightarrow> t = s \<and> an_status a = StatusBadRequest"
    show thesis
    proof (cases "ih_bindAdjust h c")
      case (Inr req)
      then show thesis using f by (intro answered [OF r _ a(1)]) (simp_all add: asked_def)
    qed (use a(2) unbound [OF r] in \<open>simp add: status_defs\<close>)
  qed
qed

lemma stock_request_world:
  assumes "world_only s u" "stock_request u p q a t"
  shows "stock_request s p q a t"
proof -
  have "inventory_only s t"
    using inventory_only_trans [OF world_only_inventory [OF assms(1)]] assms(2) by (simp add: stock_request_def)
  moreover have "stock u = stock s" "stock0 u = stock0 s" using world_only_stock [OF assms(1)] by (simp_all add: stock0_def fun_eq_iff)
  ultimately show ?thesis using assms(2) by (simp add: stock_request_def)
qed

text \<open>
  C36: every request to the routes of the inventory gets one answer. The routes that read change nothing.
  A route that writes is answered with 200 only for a valid access token with the role \<open>admin\<close>, and then
  the stock of the product in the path is the quantity asked for, or the stock before plus the
  asked change, never negative, and the answer says so; answered with any other status it has changed no
  quantity, and no table at all unless an admin has sent it.
\<close>

theorem inventory_requests:
  assumes svc: "ih_service h = InventoryService vs va (NewInventoryRepository E)"
    and route: "(path, chain) \<in> set (Inventory_Routes E J cfg h)"
    and int64: "\<And>d req. ih_bindSet h d = Inr req \<Longrightarrow> si_Quantity req \<le> max_i64"
      "\<And>d req. ih_bindAdjust h d = Inr req \<Longrightarrow> ai_QuantityDelta req \<le> max_i64"
    and ok: "inventory_ok s" and c: "\<not> gc_aborted c" and run: "run_chain chain c s = (r, t)"
  shows "\<exists>c1 a. r = Inr c1 \<and> gc_written c1 = gc_written c @ [a] \<and>
    (if fst path = ''GET'' then same_tables s t
     else an_status a \<noteq> StatusOK \<and> same_tables s t \<or>
       (\<exists>payload d q. token_payload E J cfg AccessTokenType c s payload \<and> payload ''role'' = Some (JStr ''admin'') \<and>
          d = c\<lparr>gc_keys := gc_keys d\<rparr> \<and> asked h path d s (gc_params c ''product_id'') q \<and>
          stock_request s (gc_params c ''product_id'') q a t))"
proof -
  have one: "f d u = (r, t)" if "run_chain [f] d u = (r, t)" for f :: "('a, inventory_data) handler" and d u
    using that by (cases "f d u") (auto simp: bindG_def retG_def split: sum.splits if_splits)
  from route consider f where "chain = [f]" "f = InventoryHandler_List h \<or> f = InventoryHandler_Get h" "fst path = ''GET''"
    | f where "chain = [JWTAuth E J cfg, RequireRole (ih_production h) ''admin'', f]"
        "path = (''PUT'', ''/inventory/:product_id'') \<and> f = InventoryHandler_Set h \<or>
         path = (''PATCH'', ''/inventory/:product_id/adjust'') \<and> f = InventoryHandler_Adjust h"
    by (auto simp: Inventory_Routes_def Let_def)
  then show ?thesis
  proof cases
    case (1 f)
    with one [OF run [unfolded 1(1)]] Inventory_reads_run [OF svc, of c s r t] show ?thesis by (auto simp: world_only_iff)
  next
    case (2 f)
    then have wr: "fst path \<noteq> ''GET''" by auto
    from run [unfolded 2(1)] c show ?thesis
    proof (cases rule: admin_chain_cases)
      case (1 c1 a)
      then show ?thesis using wr by (auto simp: world_only_iff status_defs)
    next
      case (2 payload d u)
      have w: "world_only s u" by fact
      have uok: "inventory_ok u" and s0: "stock0 u = stock0 s" using world_only_stock [OF w] ok by (simp_all add: stock0_def fun_eq_iff)
      have f: "f d u = (r, t)" by (rule one) fact
      show ?thesis
      proof (rule Inventory_write_run [OF svc uok \<open>path = _ \<and> _ \<or> _\<close> f])
        fix c1 a assume "r = Inr c1" "gc_written c1 = gc_written d @ [a]" "an_status a \<noteq> StatusOK" "t = u"
        then show ?thesis using w wr \<open>gc_written d = gc_written c\<close> by (auto simp: world_only_iff)
      next
        fix c1 a q assume r: "r = Inr c1" "gc_written c1 = gc_written d @ [a]"
          and a: "asked h path d u (gc_params d ''product_id'') q" "stock_request u (gc_params d ''product_id'') q a t"
        then have "asked h path d s (gc_params c ''product_id'') q" "stock_request s (gc_params c ''product_id'') q a t"
          using s0 stock_request_world [OF w] \<open>gc_params d = gc_params c\<close> by (simp_all add: asked_def)
        with r wr \<open>d = c\<lparr>gc_keys := gc_keys d\<rparr>\<close> \<open>gc_written d = gc_written c\<close> \<open>token_payload E J cfg AccessTokenType c s payload\<close>
          \<open>payload ''role'' = _\<close> show ?thesis by auto
      qed (erule int64)+
    qed
  qed
qed

section \<open>A concrete request\<close>

definition admin_jwt :: jwtlib where
  "admin_jwt = \<lparr>jwt_SignedString = (\<lambda>_ _. Inr ''a.b.c''),
     jwt_ParseWithClaims = (\<lambda>_ _ _ _. Inr (True, [''payload'' \<mapsto> JMap [''id'' \<mapsto> JStr ''u1'', ''role'' \<mapsto> JStr ''admin'',
       ''type'' \<mapsto> JStr AccessTokenType, TokenVersionClaim \<mapsto> JUint64 7]]))\<rparr>"

definition demo_inventory_handler :: "nat InventoryHandler" where
  "demo_inventory_handler = \<lparr>ih_service = InventoryService (\<lambda>_. None) (\<lambda>_. None) (NewInventoryRepository calm),
     ih_bindList = (\<lambda>_. Inl ErrInvalidPayload), ih_bindSet = (\<lambda>_. Inl ErrInvalidPayload),
     ih_bindAdjust = (\<lambda>_. Inr \<lparr>ai_QuantityDelta = - 4\<rparr>), ih_errorText = (\<lambda>_. ''insufficient stock''), ih_production = True\<rparr>"

definition demo_adjust_ctx :: "inventory_data ginctx" where
  "demo_adjust_ctx = \<lparr>gc_method = ''PATCH'', gc_path = ''/inventory/:product_id/adjust'', gc_headers = (\<lambda>_. ''Bearer a.b.c''),
     gc_params = (\<lambda>_. ''p1''), gc_keys = Map.empty, gc_written = [], gc_aborted = False\<rparr>"

definition demo_adjust :: "(goerr + inventory_data ginctx) \<times> nat st" where
  "demo_adjust = run_chain [JWTAuth calm admin_jwt demo_config, RequireRole True ''admin'', InventoryHandler_Adjust demo_inventory_handler]
     demo_adjust_ctx demo_stock"

definition demo_admin_ctx :: "inventory_data ginctx" where
  "demo_admin_ctx = SetKey (SetKey (SetKey demo_adjust_ctx ''userId'' (JStr ''u1'')) ''role'' (JStr ''admin'')) tokenVersionGinKey (JUint64 7)"

lemma demo_admin_passes: "JWTAuth calm admin_jwt demo_config demo_adjust_ctx demo_stock = (Inr demo_admin_ctx, demo_stock\<lparr>st_world := 2\<rparr>)"
proof -
  obtain p where v: "ValidateToken calm admin_jwt demo_config h demo_stock = (Inr p, demo_stock\<lparr>st_world := 2\<rparr>)"
    and p: "p ''type'' = Some (JStr AccessTokenType)" "p ''id'' = Some (JStr ''u1'')" "p ''role'' = Some (JStr ''admin'')"
      "TokenVersion p = Inr 7" for h
    by (rule that [of "[''id'' \<mapsto> JStr ''u1'', ''role'' \<mapsto> JStr ''admin'', ''type'' \<mapsto> JStr AccessTokenType, TokenVersionClaim \<mapsto> JUint64 7]"])
      (simp_all add: ValidateToken_def Let_def bindG_def askG_def liftG_def retG_def admin_jwt_def calm_def demo_stock_def empty_st_def
         TokenVersion_def TokenVersionClaim_def)
  have "TrimSpace ''u1'' \<noteq> []" by code_simp
  then show ?thesis
    by (simp add: JWTAuth_def JWT_def Let_def tryG_def v p demo_admin_ctx_def demo_adjust_ctx_def retG_def)
qed

theorem inventory_requests_witness:
  "stock (snd demo_adjust) ''p1'' = Some 6 \<and> inventory_only demo_stock (snd demo_adjust) \<and>
   map an_status (gc_written (projr (fst demo_adjust))) = [200]"
proof -
  obtain r t where run: "demo_adjust = (r, t)" by fastforce
  have "demo_adjust = InventoryHandler_Adjust demo_inventory_handler demo_admin_ctx (demo_stock\<lparr>st_world := 2\<rparr>)"
    using demo_admin_passes
    by (simp add: demo_adjust_def bindG_def RequireRole_def retG_def demo_admin_ctx_def demo_adjust_ctx_def split: prod.split sum.split)
  moreover have "stock (snd (InventoryHandler_Adjust demo_inventory_handler demo_admin_ctx (demo_stock\<lparr>st_world := 2\<rparr>))) ''p1'' = Some 6 \<and>
      map an_status (gc_written (projr (fst (InventoryHandler_Adjust demo_inventory_handler demo_admin_ctx (demo_stock\<lparr>st_world := 2\<rparr>))))) = [200] \<and>
      stock demo_stock ''p1'' = Some 10" by code_simp
  ultimately have st: "stock (snd demo_adjust) ''p1'' = Some 6" "map an_status (gc_written (projr (fst demo_adjust))) = [200]"
    "stock demo_stock ''p1'' = Some 10" by simp_all
  have "((''PATCH'', ''/inventory/:product_id/adjust''),
      [JWTAuth calm admin_jwt demo_config, RequireRole True ''admin'', InventoryHandler_Adjust demo_inventory_handler])
      \<in> set (Inventory_Routes calm admin_jwt demo_config demo_inventory_handler)"
    by (simp add: Inventory_Routes_def Let_def demo_inventory_handler_def)
  from inventory_requests [OF _ this _ _ demo_stock_ok _ run [unfolded demo_adjust_def]]
  have "same_tables demo_stock t \<or> inventory_only demo_stock t"
    by (auto simp: demo_inventory_handler_def demo_adjust_ctx_def max_i64_def stock_request_def)
  moreover have "\<not> same_tables demo_stock t" using st unfolding run by (auto simp: stock_def same_tables_iff)
  ultimately show ?thesis using st unfolding run by simp
qed

end
