(* ===== verification/Server.thy ===== *)
theory Server
  imports Background Startup InventoryHandler Product OrderHandler
begin

text \<open>
  The HTTP server of \<open>internal/server/http\<close>: its routes and probes, and what \<open>Run\<close> starts and stops.

  \<^item> \<open>HttpServer\<close> is the struct \<open>Server\<close>. Its database is held twice: as the catalogue the probes ask
    (\<open>hs_db\<close>) and as the source of the statements of the repositories (\<open>hs_env\<close>).
  \<^item> What a server meets while it serves is \<open>http_end\<close>; the workers it starts and stops are recorded
    as events.
  \<^item> The property is what the readiness probe promises: it says ready only when the configuration
    is valid, the schema is complete and recent, and the cache answers.
\<close>

section \<open>The HTTP server\<close>

record 'w HttpServer =
  hs_cfg :: "Schema option"
  hs_env :: "'w env"
  hs_db :: "'w Database"
  hs_cache :: "'w redis option"

definition HttpServer_New :: "Schema \<Rightarrow> 'w env \<Rightarrow> 'w Database \<Rightarrow> 'w redis option \<Rightarrow> 'w HttpServer" where
  "HttpServer_New cfg E db cache = \<lparr>hs_cfg = Some cfg, hs_env = E, hs_db = db, hs_cache = cache\<rparr>"

definition minimumMigrationVersion :: uint where "minimumMigrationVersion = 5"

definition requiredReadinessTables :: "string list" where
  "requiredReadinessTables = [''users'', ''products'', ''inventories'', ''orders'', ''order_lines'', ''outbox_events'',
     ''carts'', ''cart_lines'']"

record readinessResponse =
  rr_Status :: string
  rr_Components :: "(string \<times> string) list"

datatype probe = Alive | Readiness readinessResponse

definition HttpServer_liveness :: "('w, probe) handler" where
  "HttpServer_liveness c = retG (ctx_JSON c StatusOK (PlainBody Alive))"

text \<open>\<open>a() == nil && b() == nil\<close>: the second call is made only when the first succeeds.\<close>

definition okaysG :: "('s, unit) gom \<Rightarrow> ('s, bool) gom" where
  "okaysG act = tryG act (\<lambda>r. retG (\<not> isl r))"

definition andG :: "('s, bool) gom \<Rightarrow> ('s, bool) gom \<Rightarrow> ('s, bool) gom" where
  "andG a b = bindG a (\<lambda>x. if x then b else retG False)"

definition postgresReady :: "'w HttpServer \<Rightarrow> ('w st, bool) gom" where
  "postgresReady sv =
     andG (andG (okaysG (Ping (hs_db sv))) (okaysG (HasTables (hs_db sv) requiredReadinessTables)))
          (case hs_cfg sv of
             Some cfg \<Rightarrow> if cfg_DatabaseAutoMigrate cfg then retG True
                         else okaysG (MigrationReady (hs_db sv) minimumMigrationVersion)
           | None \<Rightarrow> retG True)"

definition component_state :: "bool \<Rightarrow> string" where
  "component_state ok = (if ok then ''ready'' else ''unavailable'')"

text \<open>The map of the components is listed in one order; the loop over it only looks for one that is not ready.\<close>

definition HttpServer_readiness :: "'w HttpServer \<Rightarrow> ('w, probe) handler" where
  "HttpServer_readiness sv c =
     (let configuration = (case hs_cfg sv of Some cfg \<Rightarrow> Validate cfg = None | None \<Rightarrow> False)
      in bindG (postgresReady sv) (\<lambda>postgres.
         bindG (okaysG (redis_Ping (hs_cache sv))) (\<lambda>redis.
         let components = [(''configuration'', component_state configuration), (''postgres'', component_state postgres),
                           (''redis'', component_state redis)];
             (statusCode, status) = (if list_ex (\<lambda>(_, component). component \<noteq> ''ready'') components
                                     then (StatusServiceUnavailable, ''unavailable'') else (StatusOK, ''ready''))
         in retG (ctx_JSON c statusCode (PlainBody (Readiness \<lparr>rr_Status = status, rr_Components = components\<rparr>))))))"

text \<open>\<open>pkg/middleware/body_limit.go\<close>: what reading the body gives. No body is \<open>None\<close>.\<close>

definition MaxBytesReader :: "int64 \<Rightarrow> string \<Rightarrow> goerr + string" where
  "MaxBytesReader n b = (if int (length b) \<le> n then Inr b else Inl (ErrNew ''http: request body too large''))"

definition MaxBodyBytes :: "int64 \<Rightarrow> string option \<Rightarrow> (goerr + string) option" where
  "MaxBodyBytes maxBytes requestBody =
     (if 0 < maxBytes then map_option (MaxBytesReader maxBytes) requestBody else map_option Inr requestBody)"

record http_Server =
  hv_Addr :: string
  hv_ReadTimeout :: duration
  hv_WriteTimeout :: duration
  hv_IdleTimeout :: duration
  hv_ReadHeaderTimeout :: duration
  hv_MaxHeaderBytes :: int64

definition newHTTPServer :: "Schema \<Rightarrow> http_Server" where
  "newHTTPServer cfg = \<lparr>hv_Addr = '':'' @ show_int (cfg_HttpPort cfg), hv_ReadTimeout = HTTPReadTimeout cfg,
     hv_WriteTimeout = HTTPWriteTimeout cfg, hv_IdleTimeout = HTTPIdleTimeout cfg,
     hv_ReadHeaderTimeout = HTTPReadHeaderTimeout cfg, hv_MaxHeaderBytes = HTTPMaxHeaderBytes cfg\<rparr>"

section \<open>Routes\<close>

text \<open>What a route runs. Swagger and the exposition of the metrics are libraries.\<close>

datatype 'w endpoint =
    ProbeRoute "('w, probe) handler"
  | SwaggerRoute
  | MetricsRoute
  | UserRoute "('w, user_data) handler list"
  | ProductRoute "('w, product_data) handler list"
  | OrderRoute "('w, order_data) handler list"
  | InventoryRoute "('w, inventory_data) handler list"

definition HttpServer_newOrderService ::
    "'w HttpServer \<Rightarrow> (OrderCreatedPayload \<Rightarrow> goerr + string) \<Rightarrow> (PlaceOrderReq \<Rightarrow> goerr option) \<Rightarrow> 'w OrderService" where
  "HttpServer_newOrderService sv marshal validate = NewOrderService (hs_env sv) marshal validate"

definition group :: "string \<Rightarrow> ('h \<Rightarrow> 'w endpoint) \<Rightarrow> ((string \<times> string) \<times> 'h) list \<Rightarrow> ((string \<times> string) \<times> 'w endpoint) list" where
  "group prefix endpoint routes = map (\<lambda>((m, path), chain). ((m, prefix @ path), endpoint chain)) routes"

definition HttpServer_MapRoutes ::
    "jwtlib \<Rightarrow> Schema \<Rightarrow> 'w HttpServer \<Rightarrow> 'w UserHandler \<Rightarrow> 'w ProductHandler \<Rightarrow> 'w OrderHandler \<Rightarrow> 'w InventoryHandler \<Rightarrow>
     (OrderCreatedPayload \<Rightarrow> goerr + string) \<Rightarrow> (PlaceOrderReq \<Rightarrow> goerr option) \<Rightarrow> ((string \<times> string) \<times> 'w endpoint) list" where
  "HttpServer_MapRoutes J cfg sv users products orders inventory marshal validate =
     [((''GET'', ''/livez''), ProbeRoute HttpServer_liveness), ((''GET'', ''/health''), ProbeRoute HttpServer_liveness),
      ((''GET'', ''/readyz''), ProbeRoute (HttpServer_readiness sv))] @
     (if SwaggerEnabled cfg then [((''GET'', ''/swagger/*any''), SwaggerRoute)] else []) @
     (if MetricsEnabled cfg then [((''GET'', MetricsPath cfg), MetricsRoute)] else []) @
     group ''/api/v1'' UserRoute (User_Routes (hs_env sv) J cfg users) @
     group ''/api/v1'' ProductRoute (Product_Routes (hs_env sv) J cfg products) @
     group ''/api/v1'' OrderRoute (Order_Routes (hs_env sv) J cfg orders
       (service_of (HttpServer_newOrderService sv marshal validate)) [hs_cache sv]) @
     group ''/api/v1'' InventoryRoute (Inventory_Routes (hs_env sv) J cfg inventory)"

section \<open>Running\<close>

datatype worker = OutboxPublisher | OutboxConsumer

datatype server_event = Started worker | Listening int64 | Stopped worker

text \<open>
  What ends the serving: \<open>ListenAndServe\<close> returns, or the context ends and the shutdown and then
  \<open>ListenAndServe\<close> return.
\<close>

datatype http_end = Served "goerr option" | Interrupted "goerr option" "goerr option"

definition ErrServerClosed :: goerr where "ErrServerClosed = ErrNew ''http: Server closed''"

definition serve_error :: "goerr option \<Rightarrow> goerr option" where
  "serve_error res =
     (case res of None \<Rightarrow> None
      | Some err \<Rightarrow> if errors_Is err ErrServerClosed then None else Some (Wrapf ''run HTTP server'' err))"

fun http_result :: "http_end \<Rightarrow> goerr option" where
  "http_result (Served res) = serve_error res"
| "http_result (Interrupted shutdown res) =
     (case shutdown of Some err \<Rightarrow> Some (Wrapf ''shutdown HTTP server'' err) | None \<Rightarrow> serve_error res)"

definition start_events :: "worker \<Rightarrow> 'a option \<Rightarrow> server_event list" where
  "start_events w running = (if running = None then [] else [Started w])"

definition stop_events :: "worker \<Rightarrow> 'a option \<Rightarrow> server_event list" where
  "stop_events w running = (if running = None then [] else [Stopped w])"

text \<open>
  \<open>Run\<close>, with the stops that are deferred. A worker that is switched off has \<open>noopBackgroundStop\<close>. A nil
  configuration is a panic, after which the deferred calls run.
\<close>

definition HttpServer_Run ::
    "stdlib \<Rightarrow> Schema \<Rightarrow> goerr + string \<Rightarrow> 'w HttpServer \<Rightarrow> http_end \<Rightarrow> 'w st \<Rightarrow> (goerr option \<times> server_event list) \<times> 'w st" where
  "HttpServer_Run L cfg hostname sv result s =
     (case startOutboxPublisher cfg L (hs_env sv) hostname (hs_cache sv) of
        Inl err \<Rightarrow> ((Some err, []), s)
      | Inr publisher \<Rightarrow>
          (case startOutboxConsumer cfg (hs_env sv) (hs_cache sv) s of
             (Inl err, t) \<Rightarrow> ((Some err, start_events OutboxPublisher publisher @ stop_events OutboxPublisher publisher), t)
           | (Inr consumer, t) \<Rightarrow>
               let (err, listening) = (case hs_cfg sv of
                     None \<Rightarrow> (Some (ErrNew ''panic: nil pointer dereference''), [])
                   | Some c \<Rightarrow> (http_result result, [Listening (cfg_HttpPort c)]))
               in ((err, start_events OutboxPublisher publisher @ start_events OutboxConsumer consumer @ listening @
                         stop_events OutboxConsumer consumer @ stop_events OutboxPublisher publisher), t)))"

section \<open>Facts\<close>

lemma okaysG_iff [gom]: "okaysG act s = (r, t) \<longleftrightarrow> (\<exists>x. act s = (x, t) \<and> r = Inr (\<not> isl x))"
  by (auto simp: okaysG_def gom)

lemma andG_iff [gom]:
  "andG a b s = (r, t) \<longleftrightarrow> (\<exists>e. a s = (Inl e, t) \<and> r = Inl e) \<or> a s = (Inr False, t) \<and> r = Inr False \<or>
     (\<exists>u. a s = (Inr True, u) \<and> b u = (r, t))"
  by (auto simp: andG_def bindG_def retG_def split: prod.splits sum.splits if_splits)

lemma okaysG_frame [frames]: "keepsG world_only act \<Longrightarrow> keepsG world_only (okaysG act)"
  unfolding okaysG_def by (auto intro!: framing)

lemma postgresReady_frame [frames, simp]: "keepsG world_only (postgresReady sv)"
  unfolding postgresReady_def andG_def by (auto intro!: framing okaysG_frame split: option.split)

text \<open>The schema is what the code was written for.\<close>

definition schema_ready :: "Schema \<Rightarrow> string set \<Rightarrow> uint \<times> bool \<Rightarrow> bool" where
  "schema_ready cfg tables migration \<longleftrightarrow> set requiredReadinessTables \<subseteq> tables \<and>
     (cfg_DatabaseAutoMigrate cfg \<or> \<not> snd migration \<and> minimumMigrationVersion \<le> fst migration)"

text \<open>No call to the database fails.\<close>

definition answering :: "'w gorm_db \<Rightarrow> bool" where
  "answering db \<longleftrightarrow> (\<forall>w. \<not> isl (fst (gd_DB db w)) \<and> \<not> isl (fst (gd_Ping db w)) \<and> \<not> isl (fst (gd_migration db w)) \<and>
     (\<forall>ts. \<not> isl (fst (gd_countTables db ts w))))"

lemma Ping_answering: "answering db \<Longrightarrow> Ping (Some db) s = (r, t) \<Longrightarrow> \<not> isl r"
  by (cases r) (auto simp: Ping_def database_required_def gom answering_def, (metis sum.disc(1))+)

lemma HasTables_answering:
  assumes "answering db" "catalogue db tables m" "set requiredReadinessTables \<subseteq> tables"
    and "HasTables (Some db) requiredReadinessTables s = (r, t)"
  shows "\<not> isl r"
proof (cases r)
  case (Inl e)
  from HasTables_Inl [OF assms(2) assms(4) [unfolded Inl] assms(3)] assms(1)
  show ?thesis by (auto simp: requiredReadinessTables_def answering_def) (metis isl_def)
qed simp

lemma MigrationReady_answering:
  assumes "answering db" "catalogue db tables (version, dirty)" "\<not> dirty" "minimumMigrationVersion \<le> version"
    and "MigrationReady (Some db) minimumMigrationVersion s = (r, t)"
  shows "\<not> isl r"
proof -
  from assms(1) obtain m where "fst (gd_migration db (st_world s)) = Inr m"
    by (cases "fst (gd_migration db (st_world s))") (auto simp: answering_def, metis isl_def)
  with assms(2) have "fst (gd_migration db (st_world s)) = Inr (version, dirty)" unfolding catalogue_def by blast
  with assms(3-5) show ?thesis
    by (auto simp: MigrationReady_def database_required_def minimumMigrationVersion_def validateMigrationState_def gom checkG_def
        split: if_splits sum.splits)
qed

text \<open>The answers of the three calls, as far as they are made.\<close>

lemma postgresReady_run:
  assumes "postgresReady (HttpServer_New cfg E (Some db) cache) s = (r, t)"
  obtains p u where "Ping (Some db) s = (p, u)" "isl p" "r = Inr False"
  | p u h v where "Ping (Some db) s = (p, u)" "HasTables (Some db) requiredReadinessTables u = (h, v)" "isl h" "r = Inr False"
  | u h v where "HasTables (Some db) requiredReadinessTables u = (h, v)" "\<not> isl h" "cfg_DatabaseAutoMigrate cfg" "r = Inr True"
  | u h v m where "HasTables (Some db) requiredReadinessTables u = (h, v)" "\<not> isl h" "\<not> cfg_DatabaseAutoMigrate cfg"
      "MigrationReady (Some db) minimumMigrationVersion v = (m, t)" "r = Inr (\<not> isl m)"
proof -
  obtain p u where p: "Ping (Some db) s = (p, u)" by fastforce
  obtain h v where h: "HasTables (Some db) requiredReadinessTables u = (h, v)" by fastforce
  obtain m x where m: "MigrationReady (Some db) minimumMigrationVersion v = (m, x)" by fastforce
  have "isl p \<and> r = Inr False \<or> isl h \<and> r = Inr False \<or> \<not> isl h \<and> cfg_DatabaseAutoMigrate cfg \<and> r = Inr True \<or>
      \<not> isl h \<and> \<not> cfg_DatabaseAutoMigrate cfg \<and> r = Inr (\<not> isl m) \<and> x = t"
    using assms p h m by (auto simp: postgresReady_def gom HttpServer_New_def split: if_splits)
  then show thesis using that p h m by blast
qed

lemma postgresReady_result:
  assumes cat: "catalogue db tables (version, dirty)" and run: "postgresReady (HttpServer_New cfg E (Some db) cache) s = (r, t)"
  shows "\<exists>b. r = Inr b \<and> (b \<longrightarrow> schema_ready cfg tables (version, dirty)) \<and>
    (answering db \<and> schema_ready cfg tables (version, dirty) \<longrightarrow> b)"
  using run
proof (cases rule: postgresReady_run)
  case (1 p u)
  then show ?thesis using Ping_answering by blast
next
  case (2 p u h v)
  then show ?thesis using HasTables_answering [OF _ cat _ 2(2)] by (auto simp: schema_ready_def)
next
  case (3 u h v)
  then obtain x where "h = Inr x" by (cases h) auto
  with HasTables_Inr [OF cat] 3 show ?thesis by (auto simp: schema_ready_def)
next
  case (4 u h v m)
  then obtain x where "h = Inr x" by (cases h) auto
  with HasTables_Inr [OF cat] 4(1) have "set requiredReadinessTables \<subseteq> tables" by blast
  moreover have "\<not> isl m \<longrightarrow> \<not> dirty \<and> minimumMigrationVersion \<le> version"
    using MigrationReady_Inr [OF cat] 4(4) by (cases m) auto
  ultimately show ?thesis using MigrationReady_answering [OF _ cat _ _ 4(4)] 4(3,5) by (auto simp: schema_ready_def)
qed

text \<open>A probe answers once and changes nothing.\<close>

lemma component_ready [simp]: "component_state ok = ''ready'' \<longleftrightarrow> ok"
  by (simp add: component_state_def)

lemma readiness_run:
  assumes "HttpServer_readiness (HttpServer_New cfg E d cache) c s = (r, t)"
  obtains e u where "postgresReady (HttpServer_New cfg E d cache) s = (Inl e, u)"
  | b u q where "postgresReady (HttpServer_New cfg E d cache) s = (Inr b, u)" "redis_Ping cache u = (q, t)"
      "let ok = Validate cfg = None \<and> b \<and> \<not> isl q
       in r = Inr (ctx_JSON c (if ok then StatusOK else StatusServiceUnavailable) (PlainBody (Readiness
         \<lparr>rr_Status = if ok then ''ready'' else ''unavailable'',
          rr_Components = [(''configuration'', component_state (Validate cfg = None)), (''postgres'', component_state b),
            (''redis'', component_state (\<not> isl q))]\<rparr>)))"
proof -
  let ?sv = "HttpServer_New cfg E d cache"
  obtain x u where x: "postgresReady ?sv s = (x, u)" by fastforce
  obtain q v where q: "redis_Ping cache u = (q, v)" by fastforce
  have f: "hs_cfg ?sv = Some cfg" "hs_cache ?sv = cache" by (simp_all add: HttpServer_New_def)
  show thesis
  proof (cases x)
    case (Inl e) then show thesis using that(1) x by blast
  next
    case (Inr b)
    from assms have "v = t" using x q Inr unfolding HttpServer_readiness_def Let_def f
      by (auto simp: bindG_def okaysG_def tryG_def retG_def split: if_splits)
    with assms that(2) x q Inr show thesis unfolding HttpServer_readiness_def Let_def f
      by (cases "Validate cfg = None \<and> b \<and> \<not> isl q") (auto simp: bindG_def okaysG_def tryG_def retG_def)
  qed
qed

text \<open>What was started is stopped, the last first; without a start there is nothing to stop.\<close>

definition started :: "server_event list \<Rightarrow> worker list" where
  "started tr = concat (map (\<lambda>e. case e of Started w \<Rightarrow> [w] | _ \<Rightarrow> []) tr)"

definition stopped :: "server_event list \<Rightarrow> worker list" where
  "stopped tr = concat (map (\<lambda>e. case e of Stopped w \<Rightarrow> [w] | _ \<Rightarrow> []) tr)"

lemma run_stops_workers:
  assumes "HttpServer_Run L cfg hostname sv result s = ((err, tr), t)"
  shows "stopped tr = rev (started tr)"
  using assms
  by (auto simp: HttpServer_Run_def started_def stopped_def start_events_def stop_events_def Let_def
      split: sum.splits prod.splits option.splits if_splits)

text \<open>
  The server listens only after the workers that are switched on have started, and an error of
  serving is reported unless the server was closed.
\<close>

lemma run_listens:
  assumes "HttpServer_Run L cfg hostname (HttpServer_New cfg E d cache) result s = ((err, tr), t)"
    and "Listening port \<in> set tr"
  shows "port = cfg_HttpPort cfg" and "err = http_result result"
    and "OutboxPublisherEnabled cfg \<Longrightarrow> Started OutboxPublisher \<in> set tr"
    and "OutboxConsumerEnabled cfg \<Longrightarrow> Started OutboxConsumer \<in> set tr"
  using assms
  by (auto simp: HttpServer_Run_def HttpServer_New_def start_events_def stop_events_def startOutboxPublisher_def startOutboxConsumer_def
      Let_def gom split: sum.splits prod.splits if_splits)

text \<open>The fixed routes are told apart by method and path, as the router demands.\<close>

lemma MapRoutes_distinct:
  assumes "\<not> MetricsEnabled cfg"
  shows "distinct (map fst (HttpServer_MapRoutes J cfg sv users products orders inventory marshal validate))"
  using assms by (simp add: HttpServer_MapRoutes_def group_def User_Routes_def Product_Routes_def Order_Routes_def Inventory_Routes_def Let_def)

section \<open>Property\<close>

text \<open>
  C37: the readiness probe. It answers once, with 200 or 503, and changes no table. It answers 200 only
  if the configuration is valid, every table the shop needs is in the catalogue, the migration is
  clean and recent unless the server migrates by itself, and Redis answered the ping; and if all of
  that holds and no call to the database fails, it does answer 200.
\<close>

theorem readiness:
  assumes "catalogue db tables (version, dirty)"
    and "HttpServer_readiness (HttpServer_New cfg E (Some db) cache) c s = (r, t)"
  shows "\<exists>rep u q. world_only s u \<and> redis_Ping cache u = (q, t) \<and> same_tables s t \<and>
    r = Inr (ctx_JSON c (if rr_Status rep = ''ready'' then StatusOK else StatusServiceUnavailable) (PlainBody (Readiness rep))) \<and>
    (rr_Status rep = ''ready'' \<longrightarrow> Validate cfg = None \<and> schema_ready cfg tables (version, dirty) \<and> \<not> isl q) \<and>
    (Validate cfg = None \<and> schema_ready cfg tables (version, dirty) \<and> \<not> isl q \<and> answering db \<longrightarrow> rr_Status rep = ''ready'')"
  using assms(2)
proof (cases rule: readiness_run)
  case (1 e u)
  with postgresReady_result [OF assms(1)] show ?thesis by blast
next
  case (2 b u q)
  note b = postgresReady_result [OF assms(1) 2(1)]
  have u: "world_only s u" using keepsGD [OF postgresReady_frame 2(1)] .
  have "keepsG world_only (redis_Ping cache)" by simp
  from keepsGD [OF this 2(2)] have "world_only u t" .
  with u have "same_tables s t" by (simp add: world_only_iff same_tables_iff)
  let ?ok = "Validate cfg = None \<and> b \<and> \<not> isl q"
  let ?rep = "\<lparr>rr_Status = if ?ok then ''ready'' else ''unavailable'',
     rr_Components = [(''configuration'', component_state (Validate cfg = None)), (''postgres'', component_state b),
       (''redis'', component_state (\<not> isl q))]\<rparr>"
  have "rr_Status ?rep = ''ready'' \<longleftrightarrow> ?ok" by simp
  with 2(2,3) b u \<open>same_tables s t\<close> show ?thesis unfolding Let_def by (intro exI [of _ ?rep] exI [of _ u] exI [of _ q]) simp
qed

section \<open>A concrete probe\<close>

definition probe_cache :: "nat redis" where
  "probe_cache = \<lparr>rd_cmd = Some demo_redis_client, rd_client = Some demo_redis_client\<rparr>"

definition probe_request :: "probe ginctx" where
  "probe_request = \<lparr>gc_method = ''GET'', gc_path = ''/readyz'', gc_headers = (\<lambda>_. ''''), gc_params = (\<lambda>_. ''''),
     gc_keys = Map.empty, gc_written = [], gc_aborted = False\<rparr>"

theorem readiness_witness:
  "\<exists>rep t. HttpServer_readiness (HttpServer_New demo_config calm (Some demo_db) (Some probe_cache)) probe_request empty_st =
     (Inr (ctx_JSON probe_request 200 (PlainBody (Readiness rep))), t) \<and> rr_Status rep = ''ready'' \<and> same_tables empty_st t"
proof -
  obtain r t where run: "HttpServer_readiness (HttpServer_New demo_config calm (Some demo_db) (Some probe_cache)) probe_request empty_st = (r, t)"
    by fastforce
  have "schema_ready demo_config (set demo_tables) (6, False)" "answering demo_db"
    by (simp_all add: schema_ready_def requiredReadinessTables_def demo_tables_def minimumMigrationVersion_def answering_def demo_db_def)
  note ready = this
  have ping: "\<not> isl q" if "redis_Ping (Some probe_cache) u = (q, t)" for u q t
    using that by (auto simp: redis_Ping_def probe_cache_def demo_redis_client_def cmdG_def bindG_def askG_def liftG_def retG_def)
  from readiness [OF demo_catalogue run] obtain rep u q where "redis_Ping (Some probe_cache) u = (q, t)" "same_tables empty_st t"
    "r = Inr (ctx_JSON probe_request (if rr_Status rep = ''ready'' then StatusOK else StatusServiceUnavailable) (PlainBody (Readiness rep)))"
    "\<not> isl q \<longrightarrow> rr_Status rep = ''ready''" using ready demo_config_valid by blast
  with ping run show ?thesis by (auto simp: StatusOK_def)
qed

end
