(* ===== verification/Grpc.thy ===== *)
theory Grpc
  imports User Cart
begin

text \<open>
  The gRPC server of \<open>internal/server/grpc\<close>: the interceptor as it is configured, the services of the users
  and of the carts behind it, and the result of \<open>Run\<close>.

  \<^item> A call is one value of \<open>grpc_request\<close>, with its decoded message; \<open>grpc_call\<close> is what the server makes of
    it: the registered handler behind the interceptor, under the full name of its method.
  \<^item> What the server meets while it serves is \<open>grpc_end\<close>.
  \<^item> \<open>grpc_effect\<close> says what the answer of each method is and what it may change.
\<close>

section \<open>The gRPC server\<close>

definition grpc_interceptor :: AuthInterceptor where
  "grpc_interceptor = NewAuthInterceptor [''/user.UserService/Login'', ''/user.UserService/Register'']
     [WithRefreshTokenMethods [''/user.UserService/RefreshToken'']]"

text \<open>The messages of the two services, and their answers.\<close>

datatype grpc_request =
    LoginRpc LoginReq
  | RegisterRpc RegisterReq
  | GetMeRpc
  | RefreshTokenRpc
  | ChangePasswordRpc ChangePasswordReq
  | AddProductRpc string "32 word"
  | RemoveProductRpc string
  | GetCartRpc

datatype grpc_reply = UserReply user_data | CartReply CartInfo

record 'w GrpcServer =
  gs_env :: "'w env"
  gs_jwt :: jwtlib
  gs_cfg :: Schema
  gs_interceptor :: AuthInterceptor
  gs_userService :: "'w UserService"
  gs_cartHandler :: "'w CartHandler"

text \<open>The server with the handlers of its services, which are built from its database and its validator.\<close>

definition GrpcServer_NewServer ::
    "'w env \<Rightarrow> bcryptlib \<Rightarrow> jwtlib \<Rightarrow> Schema \<Rightarrow> (LoginReq \<Rightarrow> goerr option) \<Rightarrow> (RegisterReq \<Rightarrow> goerr option) \<Rightarrow>
     (ChangePasswordReq \<Rightarrow> goerr option) \<Rightarrow> (AddProductReq \<Rightarrow> goerr option) \<Rightarrow> (RemoveProductReq \<Rightarrow> goerr option) \<Rightarrow>
     (float64 \<Rightarrow> float64) \<Rightarrow> 'w GrpcServer" where
  "GrpcServer_NewServer E B J cfg vl vr vc va vm single =
     \<lparr>gs_env = E, gs_jwt = J, gs_cfg = cfg, gs_interceptor = grpc_interceptor,
      gs_userService = NewUserService E B J cfg vl vr vc,
      gs_cartHandler = NewCartHandler (NewCartService va vm (NewCartRepository E)) single\<rparr>"

text \<open>What \<open>RegisterHandlers\<close> of each service adds: the full name of the method and its handler.\<close>

definition User_RegisterHandlers ::
    "'w UserService \<Rightarrow> grpc_request \<Rightarrow> (string \<times> (grpcctx \<Rightarrow> ('w st, grpc_reply) gom)) option" where
  "User_RegisterHandlers svc req =
     (let reply = (\<lambda>m. bindG m (\<lambda>x. retG (UserReply x)))
      in case req of
           RegisterRpc q \<Rightarrow> Some (''/user.UserService/Register'', \<lambda>ctx. reply (UserGrpc_Register svc ctx q))
         | LoginRpc q \<Rightarrow> Some (''/user.UserService/Login'', \<lambda>ctx. reply (UserGrpc_Login svc ctx q))
         | GetMeRpc \<Rightarrow> Some (''/user.UserService/GetMe'', \<lambda>ctx. reply (UserGrpc_GetMe svc ctx))
         | RefreshTokenRpc \<Rightarrow> Some (''/user.UserService/RefreshToken'', \<lambda>ctx. reply (UserGrpc_RefreshToken svc ctx))
         | ChangePasswordRpc q \<Rightarrow>
             Some (''/user.UserService/ChangePassword'', \<lambda>ctx. reply (UserGrpc_ChangePassword svc ctx q))
         | _ \<Rightarrow> None)"

definition Cart_RegisterHandlers ::
    "'w CartHandler \<Rightarrow> grpc_request \<Rightarrow> (string \<times> (grpcctx \<Rightarrow> ('w st, grpc_reply) gom)) option" where
  "Cart_RegisterHandlers h req =
     (let reply = (\<lambda>m. bindG m (\<lambda>x. retG (CartReply x)))
      in case req of
           AddProductRpc p q \<Rightarrow> Some (''/cart.CartService/AddProduct'', \<lambda>ctx. reply (CartHandler_AddProduct h p q ctx))
         | RemoveProductRpc p \<Rightarrow> Some (''/cart.CartService/RemoveProduct'', \<lambda>ctx. reply (CartHandler_RemoveProduct h p ctx))
         | GetCartRpc \<Rightarrow> Some (''/cart.CartService/GetCart'', \<lambda>ctx. reply (CartHandler_GetCart h ctx))
         | _ \<Rightarrow> None)"

text \<open>The services that \<open>Run\<close> registers; the reflection of gRPC is a library, here only its name.\<close>

datatype grpc_service = UserServer | CartServer | ReflectionServer

definition grpc_registered :: "Schema \<Rightarrow> grpc_service list" where
  "grpc_registered cfg = [UserServer, CartServer] @ (if GRPCReflectionEnabled cfg then [ReflectionServer] else [])"

text \<open>The method that a request names, and a call of it.\<close>

definition grpc_services :: "'w GrpcServer \<Rightarrow> grpc_request \<Rightarrow> (string \<times> (grpcctx \<Rightarrow> ('w st, grpc_reply) gom)) option" where
  "grpc_services gs req =
     (case User_RegisterHandlers (gs_userService gs) req of
        Some h \<Rightarrow> Some h
      | None \<Rightarrow> Cart_RegisterHandlers (gs_cartHandler gs) req)"

definition grpc_call :: "'w GrpcServer \<Rightarrow> grpc_request \<Rightarrow> grpcctx \<Rightarrow> ('w st, grpc_reply) gom" where
  "grpc_call gs req ctx =
     (case grpc_services gs req of
        None \<Rightarrow> throwG (ErrNew ''rpc error: code = Unimplemented'')
      | Some (fullMethod, handler) \<Rightarrow>
          Unary (gs_env gs) (gs_jwt gs) (gs_cfg gs) (gs_interceptor gs) fullMethod handler ctx)"

section \<open>The end of the server\<close>

datatype grpc_end = ServeEnded "goerr option" | ContextEnded "goerr option"

definition ErrServerStopped :: goerr where "ErrServerStopped = ErrNew ''grpc: the server has been stopped''"

definition grpc_error :: "goerr option \<Rightarrow> goerr option" where
  "grpc_error res = (case res of None \<Rightarrow> None | Some err \<Rightarrow> if errors_Is err ErrServerStopped then None else Some err)"

text \<open>\<open>GracefulStop\<close>, or \<open>Stop\<close> after ten seconds, ends \<open>Serve\<close> when the context is done.\<close>

fun GrpcServer_Run :: "goerr option \<Rightarrow> grpc_end \<Rightarrow> goerr option" where
  "GrpcServer_Run (Some err) _ = Some err"
| "GrpcServer_Run None (ServeEnded res) = grpc_error res"
| "GrpcServer_Run None (ContextEnded res) = grpc_error res"

section \<open>What a call may do\<close>

lemma authorize_frame [frames, simp]: "keepsG world_only (authorize E J cfg ctx expected)"
  unfolding authorize_def
  by (auto intro!: framing split: option.splits list.splits jvalue.splits prod.splits)

text \<open>Only \<open>Login\<close> and \<open>Register\<close> are open; the refresh token opens one method, the access token the others.\<close>

lemma grpc_interceptor_methods:
  "m \<in> ai_ignoredMethods grpc_interceptor \<longleftrightarrow> m \<in> {''/user.UserService/Login'', ''/user.UserService/Register''}"
  "expectedTokenType grpc_interceptor m = (if m = ''/user.UserService/RefreshToken'' then RefreshTokenType else AccessTokenType)"
  by (simp_all add: grpc_interceptor_def NewAuthInterceptor_def WithRefreshTokenMethods_def expectedTokenType_def)

text \<open>What the login may change: the hash of a user whose password it was given.\<close>

definition login_effect :: "'w env \<Rightarrow> bcryptlib \<Rightarrow> LoginReq \<Rightarrow> 'w st \<Rightarrow> 'w st \<Rightarrow> bool" where
  "login_effect E B q s t \<longleftrightarrow> same_tables s t \<or>
     (\<exists>u h now w. u \<in> set (st_users s) \<and> u_Email u = lq_Email q \<and> bc_Compare B (u_Password u) (lq_Password q) \<and>
        fst (env_bcrypt E (lq_Password q) w) = Inr h \<and> only_users s t \<and>
        st_users t = map (\<lambda>x. if u_ID x = u_ID u then u\<lparr>u_Password := h, u_UpdatedAt := now\<rparr> else x) (st_users s))"

definition cart_effect ::
    "(float64 \<Rightarrow> float64) \<Rightarrow> cart_op \<Rightarrow> string \<Rightarrow> CartInfo \<Rightarrow> 'w st \<Rightarrow> 'w st \<Rightarrow> bool" where
  "cart_effect single opn u info s t \<longleftrightarrow>
     (\<exists>c. info = copyCart single c \<and> cart_UserID c = u \<and> cart_shown c = cart_view t u) \<and> only_carts s t \<and>
     cart_view t = (cart_view s)(u := cart_spec opn (cart_view s u))"

text \<open>The answer to the caller \<open>u\<close> whose token has the version \<open>v\<close>, and the tables before and after.\<close>

fun grpc_effect ::
    "'w env \<Rightarrow> bcryptlib \<Rightarrow> (float64 \<Rightarrow> float64) \<Rightarrow> grpc_request \<Rightarrow> string \<Rightarrow> 64 word \<Rightarrow> grpc_reply \<Rightarrow> 'w st \<Rightarrow> 'w st \<Rightarrow> bool" where
  "grpc_effect E B single (LoginRpc q) u v reply s t \<longleftrightarrow> login_effect E B q s t \<and>
     (\<exists>x a b. reply = UserReply (LoginRes (copyUser x) a b) \<and> u_Email x = lq_Email q)"
| "grpc_effect E B single (RegisterRpc q) u v reply s t \<longleftrightarrow> only_users s t \<and>
     (\<exists>x. reply = UserReply (RegisterRes (copyUser x)) \<and> st_users t = st_users s @ [x] \<and> u_Email x = rq_Email q \<and>
        u_Role x = UserRoleCustomer \<and> x \<notin> set (st_users s))"
| "grpc_effect E B single GetMeRpc u v reply s t \<longleftrightarrow> same_tables s t \<and>
     (\<exists>x \<in> set (st_users s). u_ID x = u \<and> reply = UserReply (UserRes (copyUser x)))"
| "grpc_effect E B single RefreshTokenRpc u v reply s t \<longleftrightarrow> same_tables s t \<and>
     (\<exists>x \<in> set (st_users s). u_ID x = u \<and> u_TokenVersion x = v) \<and> (\<exists>token. reply = UserReply (RefreshTokenRes token))"
| "grpc_effect E B single (ChangePasswordRpc q) u v reply s t \<longleftrightarrow> only_users s t \<and> reply = UserReply NilRes \<and>
     (\<exists>x y. x \<in> set (st_users s) \<and> u_ID x = u \<and> bc_Compare B (u_Password x) (cq_Password q) \<and>
        st_users t = map (\<lambda>z. if u_ID z = u then y else z) (st_users s) \<and> u_TokenVersion y = u_TokenVersion x + 1)"
| "grpc_effect E B single (AddProductRpc p q) u v reply s t \<longleftrightarrow>
     (\<exists>info. reply = CartReply info \<and> cart_effect single (AddOp p (ucast q)) u info s t)"
| "grpc_effect E B single (RemoveProductRpc p) u v reply s t \<longleftrightarrow>
     (\<exists>info. reply = CartReply info \<and> cart_effect single (RemoveOp p) u info s t)"
| "grpc_effect E B single GetCartRpc u v reply s t \<longleftrightarrow>
     (\<exists>info. reply = CartReply info \<and> cart_effect single GetOp u info s t)"

lemma Unary_closed:
  assumes m: "m \<notin> ai_ignoredMethods ai" and run: "Unary E J cfg ai m handler ctx s = (r, t)"
  obtains e where "r = Inl e" "same_tables s t"
  | u v a ctx' where "fst (authorize E J cfg ctx (expectedTokenType ai m) s) = Inr (u, v)" "world_only s a"
      "UserIDFromContext ctx' = u" "TokenVersionFromContext ctx' = (v, True)" "handler ctx' a = (r, t)"
proof -
  obtain x a where x: "authorize E J cfg ctx (expectedTokenType ai m) s = (x, a)" by fastforce
  have sa: "world_only s a" using keepsGD [OF authorize_frame x] .
  show thesis
  proof (cases x)
    case (Inl e)
    with run m x sa that(1) show ?thesis by (auto simp: Unary_def bindG_def world_only_iff)
  next
    case (Inr uv)
    let ?ctx = "ContextWithTokenVersion (ContextWithUserID ctx (fst uv)) (snd uv)"
    from run m x Inr have "handler ?ctx a = (r, t)" by (auto simp: Unary_def bindG_def split: prod.splits)
    with x Inr sa show ?thesis
      by (intro that(2) [of "fst uv" "snd uv" a ?ctx])
        (simp_all add: UserIDFromContext_def TokenVersionFromContext_def ContextWithTokenVersion_def ContextWithUserID_def)
  qed
qed

lemma reply_run:
  assumes "bindG m (\<lambda>x. retG (c x)) s = (r, t)"
  obtains x where "m s = (x, t)" "r = (case x of Inl e \<Rightarrow> Inl e | Inr y \<Rightarrow> Inr (c y))"
  using assms by (cases "m s") (auto simp: bindG_def retG_def split: sum.splits)

lemma GetMe_effect:
  assumes "UserGrpc_GetMe (NewUserService E B J cfg vl vr vc) ctx s = (r, t)" "UserIDFromContext ctx = u"
  shows "case r of Inl e \<Rightarrow> same_tables s t | Inr d \<Rightarrow> grpc_effect E B single GetMeRpc u v (UserReply d) s t"
proof -
  have "keepsG world_only (UserGrpc_GetMe (NewUserService E B J cfg vl vr vc) ctx)"
    by (auto simp: UserGrpc_GetMe_def UserService_GetUserByID_def user_service_sel Let_def intro!: framing)
  from keepsGD [OF this assms(1)] have st: "same_tables s t" by (simp add: world_only_iff)
  moreover have "\<exists>x \<in> set (st_users s). u_ID x = u \<and> d = UserRes (copyUser x)" if d: "r = Inr d" for d
  proof -
    from assms d obtain x where "UserRepo_GetUserByID E u s = (Inr x, t)" "d = UserRes (copyUser x)"
      by (auto simp: UserGrpc_GetMe_def UserService_GetUserByID_def user_service_sel Let_def gom split: if_splits)
    with UserRepo_GetUserByID_Inr [of E u s x t] show ?thesis by blast
  qed
  ultimately show ?thesis by (cases r) auto
qed

lemma RefreshToken_effect:
  assumes "UserGrpc_RefreshToken (NewUserService E B J cfg vl vr vc) ctx s = (r, t)" "UserIDFromContext ctx = u"
    and "TokenVersionFromContext ctx = (v, True)"
  shows "case r of Inl e \<Rightarrow> same_tables s t | Inr d \<Rightarrow> grpc_effect E B single RefreshTokenRpc u v (UserReply d) s t"
proof -
  let ?svc = "NewUserService E B J cfg vl vr vc"
  have frame: "keepsG world_only (UserService_RefreshToken ?svc u v)"
    by (auto simp: UserService_RefreshToken_def user_service_sel GenerateAccessToken_def intro!: framing)
  obtain q b where q: "UserService_RefreshToken ?svc u v s = (q, b)" by fastforce
  have sb: "same_tables s b" using keepsGD [OF frame q] by (simp add: world_only_iff)
  have r: "u = '''' \<and> t = s \<and> isl r \<or> t = b \<and> (case q of Inl e \<Rightarrow> isl r | Inr token \<Rightarrow> r = Inr (RefreshTokenRes token))"
    using assms q by (auto simp: UserGrpc_RefreshToken_def Let_def tryG_def throwG_def retG_def split: if_splits sum.splits)
  have "\<exists>x \<in> set (st_users s). u_ID x = u \<and> u_TokenVersion x = v" if "q = Inr token" for token
  proof -
    from q that obtain x c where "UserRepo_GetUserByID E u s = (Inr x, c)" "u_TokenVersion x = v"
      by (auto simp: UserService_RefreshToken_def user_service_sel gom split: if_splits)
    with UserRepo_GetUserByID_Inr [of E u s x c] show ?thesis by blast
  qed
  with r sb show ?thesis by (cases r; cases q) auto
qed

lemma ChangePassword_effect:
  assumes "UserGrpc_ChangePassword (NewUserService E B J cfg vl vr vc) ctx p s = (r, t)" "UserIDFromContext ctx = u"
  shows "case r of Inl e \<Rightarrow> same_tables s t | Inr d \<Rightarrow> grpc_effect E B single (ChangePasswordRpc p) u v (UserReply d) s t"
proof (cases "u = ''''")
  case True
  with assms show ?thesis by (auto simp: UserGrpc_ChangePassword_def Let_def throwG_def)
next
  case False
  obtain q where q: "UserService_ChangePassword (NewUserService E B J cfg vl vr vc) u p s = (q, t)"
    "r = (case q of Inl e \<Rightarrow> Inl e | Inr x \<Rightarrow> Inr NilRes)"
    using assms False by (auto simp: UserGrpc_ChangePassword_def Let_def elim: reply_run)
  from UserService_ChangePassword_run [OF refl q(1)] show ?thesis
  proof (cases q)
    case (Inl e)
    with UserService_ChangePassword_run [OF refl q(1)] q(2) show ?thesis by (simp add: world_only_iff)
  next
    case (Inr y)
    with UserService_ChangePassword_run [OF refl q(1)] obtain x now h where
      "x \<in> set (st_users s)" "u_ID x = u" "bc_Compare B (u_Password x) (cq_Password p)" "only_users s t"
      "st_users t = map (\<lambda>z. if u_ID z = u
          then x\<lparr>u_Password := h, u_TokenVersion := u_TokenVersion x + 1, u_UpdatedAt := now\<rparr> else z) (st_users s)" by auto
    with q(2) Inr show ?thesis
      by simp (intro exI [of _ x] conjI
          exI [of _ "x\<lparr>u_Password := h, u_TokenVersion := u_TokenVersion x + 1, u_UpdatedAt := now\<rparr>"]; simp)
  qed
qed

text \<open>The effect of a call does not see the reads that came before it.\<close>

lemma grpc_effect_cong:
  assumes "world_only s a" "grpc_effect E B single req u v reply a t"
  shows "grpc_effect E B single req u v reply s t"
proof -
  have "st_users a = st_users s" "cart_view a = cart_view s" "same_tables a t \<Longrightarrow> same_tables s t"
    "only_users a t \<Longrightarrow> only_users s t" "only_carts a t \<Longrightarrow> only_carts s t"
    using assms(1) cart_cong(2) [OF world_only_carts(1,2) [OF assms(1)]]
    by (simp_all add: world_only_iff same_tables_iff only_users_def only_carts_def)
  with assms(2) show ?thesis by (cases req) (auto simp: cart_effect_def login_effect_def)
qed

text \<open>Every handler behind the interceptor, as the server builds it.\<close>

lemma closed_rpc_effect:
  assumes gs_def: "gs = GrpcServer_NewServer E B J cfg vl vr vc va vm single" and svc: "grpc_services gs req = Some (m, handler)" and closed: "m \<notin> ai_ignoredMethods grpc_interceptor"
    and ctx: "UserIDFromContext ctx = u" "TokenVersionFromContext ctx = (v, True)"
    and ok: "cart_ok s" and run: "handler ctx s = (r, t)"
  shows "case r of Inl e \<Rightarrow> same_tables s t | Inr reply \<Rightarrow> grpc_effect E B single req u v reply s t"
proof -
  note sel = gs_def GrpcServer_NewServer_def grpc_services_def User_RegisterHandlers_def Cart_RegisterHandlers_def
  have cart: ?thesis
    if h: "handler ctx = bindG (bindG (cart_call (NewCartService va vm (NewCartRepository E)) u opn)
        (\<lambda>cart. retG (copyCart single cart))) (\<lambda>x. retG (CartReply x))"
      and eff: "\<And>info. grpc_effect E B single req u v (CartReply info) s t \<longleftrightarrow> cart_effect single opn u info s t" for opn
  proof -
    from run [unfolded h] obtain x where x: "bindG (cart_call (NewCartService va vm (NewCartRepository E)) u opn)
        (\<lambda>cart. retG (copyCart single cart)) s = (x, t)" "r = (case x of Inl e \<Rightarrow> Inl e | Inr y \<Rightarrow> Inr (CartReply y))"
      by (rule reply_run)
    have "cs_repo (NewCartService va vm (NewCartRepository E)) = NewCartRepository E" by (simp add: NewCartService_def)
    from cart_call_answer [OF this ok x(1)] x(2) eff show ?thesis
      by (cases x) (auto simp: cart_effect_def)
  qed
  have none: ?thesis if "handler ctx = bindG (throwG e) (\<lambda>x. retG (CartReply x))" for e
    using run that by (auto simp: bindG_def throwG_def same_tables_iff)
  have user: ?thesis
    if "handler ctx = bindG mm (\<lambda>x. retG (UserReply x))"
      "\<And>q. mm s = (q, t) \<Longrightarrow> case q of Inl e \<Rightarrow> same_tables s t | Inr d \<Rightarrow> grpc_effect E B single req u v (UserReply d) s t"
    for mm
  proof -
    from run [unfolded that(1)] obtain x where x: "mm s = (x, t)" "r = (case x of Inl e \<Rightarrow> Inl e | Inr y \<Rightarrow> Inr (UserReply y))"
      by (rule reply_run)
    from that(2) [OF x(1)] x(2) show ?thesis by (cases x) auto
  qed
  show ?thesis
  proof (cases req)
    case (LoginRpc q)
    with svc closed show ?thesis by (simp add: sel grpc_interceptor_methods)
  next
    case (RegisterRpc q)
    with svc closed show ?thesis by (simp add: sel grpc_interceptor_methods)
  next
    case GetMeRpc
    with svc have h: "handler ctx = bindG (UserGrpc_GetMe (NewUserService E B J cfg vl vr vc) ctx) (\<lambda>x. retG (UserReply x))"
      by (auto simp: sel)
    show ?thesis by (rule user [OF h]) (unfold GetMeRpc, rule GetMe_effect [OF _ ctx(1)])
  next
    case RefreshTokenRpc
    with svc have h: "handler ctx = bindG (UserGrpc_RefreshToken (NewUserService E B J cfg vl vr vc) ctx) (\<lambda>x. retG (UserReply x))"
      by (auto simp: sel)
    show ?thesis by (rule user [OF h]) (unfold RefreshTokenRpc, rule RefreshToken_effect [OF _ ctx])
  next
    case (ChangePasswordRpc p)
    with svc have h: "handler ctx = bindG (UserGrpc_ChangePassword (NewUserService E B J cfg vl vr vc) ctx p) (\<lambda>x. retG (UserReply x))"
      by (auto simp: sel)
    show ?thesis by (rule user [OF h]) (unfold ChangePasswordRpc, rule ChangePassword_effect [OF _ ctx(1)])
  next
    case (AddProductRpc p q)
    with svc have h: "handler ctx = bindG (CartHandler_AddProduct
        (NewCartHandler (NewCartService va vm (NewCartRepository E)) single) p q ctx) (\<lambda>x. retG (CartReply x))" by (auto simp: sel)
    show ?thesis
    proof (cases "u = ''''")
      case True
      with h ctx(1) show ?thesis by (intro none) (simp add: CartHandler_AddProduct_def)
    next
      case False
      with h ctx(1) AddProductRpc show ?thesis
        by (intro cart [of "AddOp p (ucast q)"]) (simp_all add: CartHandler_calls NewCartHandler_def)
    qed
  next
    case (RemoveProductRpc p)
    with svc have h: "handler ctx = bindG (CartHandler_RemoveProduct
        (NewCartHandler (NewCartService va vm (NewCartRepository E)) single) p ctx) (\<lambda>x. retG (CartReply x))" by (auto simp: sel)
    show ?thesis
    proof (cases "u = ''''")
      case True
      with h ctx(1) show ?thesis by (intro none) (simp add: CartHandler_RemoveProduct_def)
    next
      case False
      with h ctx(1) RemoveProductRpc show ?thesis
        by (intro cart [of "RemoveOp p"]) (simp_all add: CartHandler_calls NewCartHandler_def)
    qed
  next
    case GetCartRpc
    with svc have h: "handler ctx = bindG (CartHandler_GetCart
        (NewCartHandler (NewCartService va vm (NewCartRepository E)) single) ctx) (\<lambda>x. retG (CartReply x))" by (auto simp: sel)
    show ?thesis
    proof (cases "u = ''''")
      case True
      with h ctx(1) show ?thesis by (intro none) (simp add: CartHandler_GetCart_def)
    next
      case False
      with h ctx(1) GetCartRpc show ?thesis
        by (intro cart [of GetOp]) (simp_all add: CartHandler_calls NewCartHandler_def)
    qed
  qed
qed

lemma open_rpc_effect:
  assumes gs_def: "gs = GrpcServer_NewServer E B J cfg vl vr vc va vm single" and svc: "grpc_services gs req = Some (m, handler)" and opened: "m \<in> ai_ignoredMethods grpc_interceptor"
    and run: "handler ctx s = (r, t)"
  shows "case r of
      Inl e \<Rightarrow> same_tables s t \<or> (\<exists>q. req = LoginRpc q \<and> login_effect E B q s t)
    | Inr reply \<Rightarrow> grpc_effect E B single req u v reply s t"
proof -
  note sel = gs_def GrpcServer_NewServer_def grpc_services_def User_RegisterHandlers_def Cart_RegisterHandlers_def
  have "(\<exists>q. req = LoginRpc q) \<or> (\<exists>q. req = RegisterRpc q)"
    using svc opened by (cases req) (auto simp: sel grpc_interceptor_methods)
  then show ?thesis
  proof (elim disjE exE)
    fix p assume req: "req = LoginRpc p"
    have "handler ctx = bindG (UserGrpc_Login (NewUserService E B J cfg vl vr vc) ctx p) (\<lambda>x. retG (UserReply x))"
      using svc by (auto simp: sel req)
    with run obtain x where x: "UserGrpc_Login (NewUserService E B J cfg vl vr vc) ctx p s = (x, t)"
      "r = (case x of Inl e \<Rightarrow> Inl e | Inr y \<Rightarrow> Inr (UserReply y))" by (auto elim: reply_run)
    from x(1) obtain y where y: "UserService_Login (NewUserService E B J cfg vl vr vc) p s = (y, t)"
      "x = (case y of Inl e \<Rightarrow> Inl e | Inr (user, a, b) \<Rightarrow> Inr (LoginRes (copyUser user) a b))"
      by (cases "UserService_Login (NewUserService E B J cfg vl vr vc) p s")
        (auto simp: UserGrpc_Login_def bindG_def retG_def split: sum.splits)
    from UserService_Login_run [OF refl y(1)] have "login_effect E B p s t" by (simp add: login_effect_def)
    with UserService_Login_run [OF refl y(1)] x(2) y(2) show ?thesis by (cases y) (auto simp: req)
  next
    fix p assume req: "req = RegisterRpc p"
    have "handler ctx = bindG (UserGrpc_Register (NewUserService E B J cfg vl vr vc) ctx p) (\<lambda>x. retG (UserReply x))"
      using svc by (auto simp: sel req)
    with run obtain x where x: "UserGrpc_Register (NewUserService E B J cfg vl vr vc) ctx p s = (x, t)"
      "r = (case x of Inl e \<Rightarrow> Inl e | Inr y \<Rightarrow> Inr (UserReply y))" by (auto elim: reply_run)
    from x(1) [unfolded UserGrpc_Register_def] obtain y where y: "UserService_Register (NewUserService E B J cfg vl vr vc) p s = (y, t)"
      "x = (case y of Inl e \<Rightarrow> Inl e | Inr user \<Rightarrow> Inr (RegisterRes (copyUser user)))" by (rule reply_run)
    from UserService_Register_run [OF refl y(1)] x(2) y(2) show ?thesis by (cases y) (auto simp: req)
  qed
qed

section \<open>Property\<close>

text \<open>
  C29: the gRPC server lets a caller see and change only what is his. A call of any method but \<open>Login\<close> and
  \<open>Register\<close> that gets an answer carried a valid token, of the refresh kind for \<open>RefreshToken\<close> and of the access kind
  for the others, and the answer and the change are those of the user the token names: his row, his next token
  version, his cart with the operation applied; \<open>Login\<close> changes at most a hash of the password it was given, \<open>Register\<close> adds
  one customer. A call that is refused or fails changes no table, but for the hash that a login has upgraded.
\<close>

theorem grpc_calls_confined:
  assumes ok: "cart_ok s"
    and run: "grpc_call (GrpcServer_NewServer E B J cfg vl vr vc va vm single) req ctx s = (r, t)"
  shows "case r of
      Inl e \<Rightarrow> same_tables s t \<or> (\<exists>q. req = LoginRpc q \<and> login_effect E B q s t)
    | Inr reply \<Rightarrow>
        (if (\<exists>q. req = LoginRpc q) \<or> (\<exists>q. req = RegisterRpc q) then grpc_effect E B single req '''' 0 reply s t
         else \<exists>u v. fst (authorize E J cfg ctx (if req = RefreshTokenRpc then RefreshTokenType else AccessTokenType) s) = Inr (u, v) \<and>
           grpc_effect E B single req u v reply s t)"
proof -
  let ?gs = "GrpcServer_NewServer E B J cfg vl vr vc va vm single"
  obtain m handler where svc: "grpc_services ?gs req = Some (m, handler)"
    and m: "m \<in> ai_ignoredMethods grpc_interceptor \<longleftrightarrow> (\<exists>q. req = LoginRpc q) \<or> (\<exists>q. req = RegisterRpc q)"
      "expectedTokenType grpc_interceptor m = (if req = RefreshTokenRpc then RefreshTokenType else AccessTokenType)"
    by (cases req) (simp_all add: GrpcServer_NewServer_def grpc_services_def User_RegisterHandlers_def
        Cart_RegisterHandlers_def grpc_interceptor_methods)
  have call: "Unary E J cfg grpc_interceptor m handler ctx s = (r, t)"
    using run svc by (simp add: grpc_call_def) (simp add: GrpcServer_NewServer_def)
  show ?thesis
  proof (cases "m \<in> ai_ignoredMethods grpc_interceptor")
    case True
    with call have "handler ctx s = (r, t)" by (simp add: Unary_def)
    from open_rpc_effect [OF refl svc True this, of "''''" 0] m(1) True show ?thesis by (cases r) simp_all
  next
    case False
    from False call show ?thesis
    proof (cases rule: Unary_closed)
      case (1 e)
      then show ?thesis by simp
    next
      case (2 u v a ctx')
      have "cart_ok a" using ok cart_cong(1) [OF world_only_carts(1,2) [OF 2(2)]] by simp
      note eff = closed_rpc_effect [OF refl svc False 2(3,4) this 2(5)]
      show ?thesis
      proof (cases r)
        case (Inl e)
        with eff 2(2) show ?thesis by (simp add: world_only_iff same_tables_iff)
      next
        case (Inr reply)
        with eff grpc_effect_cong [OF 2(2)] have "grpc_effect E B single req u v reply s t" by simp
        with Inr 2(1) m False show ?thesis by auto
      qed
    qed
  qed
qed

text \<open>A call with an access token of \<open>u1\<close>.\<close>

definition access_jwt :: jwtlib where
  "access_jwt = \<lparr>jwt_SignedString = (\<lambda>_ _. Inr ''a.b.c''),
     jwt_ParseWithClaims = (\<lambda>_ _ _ _. Inr (True, [''payload'' \<mapsto> JMap
       [''id'' \<mapsto> JStr ''u1'', ''type'' \<mapsto> JStr AccessTokenType, TokenVersionClaim \<mapsto> JUint64 7]]))\<rparr>"

definition demo_grpc_server :: "nat GrpcServer" where
  "demo_grpc_server = GrpcServer_NewServer calm demo_bcrypt access_jwt demo_config (\<lambda>_. None) (\<lambda>_. None) (\<lambda>_. None)
     (\<lambda>_. None) (\<lambda>_. None) (\<lambda>x. x)"

definition demo_grpc_call :: "(goerr + grpc_reply) \<times> nat st" where
  "demo_grpc_call = grpc_call demo_grpc_server (AddProductRpc ''pen'' 2) demo_grpc empty_st"

lemma demo_grpc_authorized: "fst (authorize calm access_jwt demo_config demo_grpc AccessTokenType empty_st) = Inr (''u1'', 7)"
  by code_simp

theorem grpc_calls_confined_witness:
  "\<exists>info. fst demo_grpc_call = Inr (CartReply info) \<and>
     cart_effect (\<lambda>x. x) (AddOp ''pen'' 2) ''u1'' info empty_st (snd demo_grpc_call) \<and>
     cart_view (snd demo_grpc_call) ''u1'' ''pen'' = Some 2"
proof -
  obtain r t where run: "demo_grpc_call = (r, t)" by fastforce
  have "\<not> isl (fst demo_grpc_call)" "cart_view (snd demo_grpc_call) ''u1'' ''pen'' = Some 2" by code_simp+
  then obtain reply where reply: "r = Inr reply" "cart_view t ''u1'' ''pen'' = Some 2" unfolding run by (cases r) auto
  have "cart_ok (empty_st :: nat st)" by (simp add: cart_ok_def empty_st_def)
  from grpc_calls_confined [OF this run [unfolded demo_grpc_call_def demo_grpc_server_def]] reply
  show ?thesis by (auto simp: run demo_grpc_authorized)
qed

end
