(* ===== verification/Lifecycle.thy ===== *)
theory Lifecycle
  imports Prelude "HOL-Library.Multiset"
begin

text \<open>
  \<open>internal/server/lifecycle/runner.go\<close>: \<open>Run\<close> starts every service in a goroutine and returns when
  all have ended, after it has told the others to stop when one failed or the context is done.

  \<^item> \<open>runner\<close> is the state that the goroutines share: where each service stands, the buffered channel
    of errors, the wait group, the two contexts, the channel \<open>done\<close> and the place in \<open>Run\<close>.
  \<^item> \<open>run_step\<close> is one atomic step of one actor; \<open>lifecycle_run\<close> any interleaving. A service may
    return at any time, with or without an error.
  \<^item> \<open>rn_reported\<close> is no part of the code: the errors in the order they were sent.
\<close>

section \<open>State\<close>

text \<open>
  A goroutine: in \<open>service.Run\<close>, before the send of its error, before \<open>cancel()\<close>, before the deferred
  \<open>wg.Done()\<close>, ended.
\<close>

datatype goroutine =
    Running
  | Sending goerr
  | Cancelling goerr
  | Leaving "goerr option"
  | Gone "goerr option"

text \<open>The place in \<open>Run\<close>: the first \<open>select\<close>, its branches, the second \<open>select\<close>, returned.\<close>

datatype main_pc =
    Selecting
  | GotErr goerr
  | AwaitErr goerr
  | GotCtx
  | AwaitCtx
  | Draining
  | Returned "goerr option"

record runner =
  rn_services :: "goroutine list"
  rn_errCh :: "goerr list"
  rn_wg :: nat
  rn_ctxDone :: bool
  rn_cancelled :: bool
  rn_done :: bool
  rn_main :: main_pc
  rn_reported :: "goerr list"

text \<open>\<open>runCtx\<close> is a child of \<open>ctx\<close>. Without services \<open>Run\<close> returns at once.\<close>

definition runCtxDone :: "runner \<Rightarrow> bool" where
  "runCtxDone s = (rn_ctxDone s \<or> rn_cancelled s)"

definition lifecycle_start :: "nat \<Rightarrow> runner" where
  "lifecycle_start n = \<lparr>rn_services = replicate n Running, rn_errCh = [], rn_wg = n, rn_ctxDone = False,
     rn_cancelled = False, rn_done = (n = 0), rn_main = (if n = 0 then Returned None else Selecting), rn_reported = []\<rparr>"

section \<open>Steps\<close>

datatype actor = Parent | Service nat | Goroutine nat | Waiter | Main

text \<open>A send on \<open>errCh\<close> blocks when the buffer, one place per service, is full.\<close>

inductive run_step :: "actor \<Rightarrow> runner \<Rightarrow> runner \<Rightarrow> bool" where
  parent_cancel: "\<not> rn_ctxDone s \<Longrightarrow> run_step Parent s (s\<lparr>rn_ctxDone := True\<rparr>)"
| run_nil: "rn_services s = xs @ Running # ys \<Longrightarrow>
    run_step (Service (length xs)) s (s\<lparr>rn_services := xs @ Leaving None # ys\<rparr>)"
| run_err: "rn_services s = xs @ Running # ys \<Longrightarrow>
    run_step (Service (length xs)) s (s\<lparr>rn_services := xs @ Sending e # ys\<rparr>)"
| send: "rn_services s = xs @ Sending e # ys \<Longrightarrow> length (rn_errCh s) < length (rn_services s) \<Longrightarrow>
    run_step (Goroutine (length xs)) s
      (s\<lparr>rn_services := xs @ Cancelling e # ys, rn_errCh := rn_errCh s @ [e], rn_reported := rn_reported s @ [e]\<rparr>)"
| cancel: "rn_services s = xs @ Cancelling e # ys \<Longrightarrow>
    run_step (Goroutine (length xs)) s (s\<lparr>rn_services := xs @ Leaving (Some e) # ys, rn_cancelled := True\<rparr>)"
| wg_done: "rn_services s = xs @ Leaving r # ys \<Longrightarrow>
    run_step (Goroutine (length xs)) s (s\<lparr>rn_services := xs @ Gone r # ys, rn_wg := rn_wg s - 1\<rparr>)"
| close_done: "rn_wg s = 0 \<Longrightarrow> \<not> rn_done s \<Longrightarrow> run_step Waiter s (s\<lparr>rn_done := True\<rparr>)"
| select_err: "rn_main s = Selecting \<Longrightarrow> rn_errCh s = e # rest \<Longrightarrow>
    run_step Main s (s\<lparr>rn_errCh := rest, rn_main := GotErr e\<rparr>)"
| cancel_err: "rn_main s = GotErr e \<Longrightarrow> run_step Main s (s\<lparr>rn_cancelled := True, rn_main := AwaitErr e\<rparr>)"
| return_err: "rn_main s = AwaitErr e \<Longrightarrow> rn_done s \<Longrightarrow> run_step Main s (s\<lparr>rn_main := Returned (Some e)\<rparr>)"
| select_ctx: "rn_main s = Selecting \<Longrightarrow> rn_ctxDone s \<Longrightarrow> run_step Main s (s\<lparr>rn_main := GotCtx\<rparr>)"
| cancel_ctx: "rn_main s = GotCtx \<Longrightarrow> run_step Main s (s\<lparr>rn_cancelled := True, rn_main := AwaitCtx\<rparr>)"
| await_ctx: "rn_main s = AwaitCtx \<Longrightarrow> rn_done s \<Longrightarrow> run_step Main s (s\<lparr>rn_main := Draining\<rparr>)"
| select_done: "rn_main s = Selecting \<Longrightarrow> rn_done s \<Longrightarrow> run_step Main s (s\<lparr>rn_main := Draining\<rparr>)"
| drain_err: "rn_main s = Draining \<Longrightarrow> rn_errCh s = e # rest \<Longrightarrow>
    run_step Main s (s\<lparr>rn_errCh := rest, rn_cancelled := True, rn_main := Returned (Some e)\<rparr>)"
| drain_nil: "rn_main s = Draining \<Longrightarrow> rn_errCh s = [] \<Longrightarrow>
    run_step Main s (s\<lparr>rn_cancelled := True, rn_main := Returned None\<rparr>)"

inductive lifecycle_run :: "nat \<Rightarrow> actor list \<Rightarrow> runner \<Rightarrow> bool" for n where
  start: "lifecycle_run n [] (lifecycle_start n)"
| step: "lifecycle_run n tr s \<Longrightarrow> run_step a s t \<Longrightarrow> lifecycle_run n (tr @ [a]) t"

section \<open>Invariant\<close>

fun ended :: "goroutine \<Rightarrow> bool" where
  "ended (Gone r) = True"
| "ended _ = False"

text \<open>The error that a service has returned, and the one that is on the channel for it.\<close>

fun failed_with :: "goroutine \<Rightarrow> goerr option" where
  "failed_with (Sending e) = Some e"
| "failed_with (Cancelling e) = Some e"
| "failed_with (Leaving r) = r"
| "failed_with (Gone r) = r"
| "failed_with Running = None"

fun sent_by :: "goroutine \<Rightarrow> goerr list" where
  "sent_by (Cancelling e) = [e]"
| "sent_by (Leaving (Some e)) = [e]"
| "sent_by (Gone (Some e)) = [e]"
| "sent_by _ = []"

fun has_cancelled :: "goroutine \<Rightarrow> bool" where
  "has_cancelled (Leaving (Some e)) = True"
| "has_cancelled (Gone (Some e)) = True"
| "has_cancelled _ = False"

fun taken :: "main_pc \<Rightarrow> goerr list" where
  "taken (GotErr e) = [e]"
| "taken (AwaitErr e) = [e]"
| "taken (Returned (Some e)) = [e]"
| "taken _ = []"

fun after_done :: "main_pc \<Rightarrow> bool" where
  "after_done Draining = True"
| "after_done (Returned r) = True"
| "after_done _ = False"

fun called_cancel :: "main_pc \<Rightarrow> bool" where
  "called_cancel (AwaitErr e) = True"
| "called_cancel AwaitCtx = True"
| "called_cancel _ = False"

definition services_ok :: "nat \<Rightarrow> runner \<Rightarrow> bool" where
  "services_ok n s \<longleftrightarrow>
     length (rn_services s) = n \<and> rn_wg s = length (filter (Not \<circ> ended) (rn_services s)) \<and>
     mset (rn_reported s) = mset (concat (map sent_by (rn_services s)))"

definition runner_ok :: "nat \<Rightarrow> runner \<Rightarrow> bool" where
  "runner_ok n s \<longleftrightarrow> services_ok n s \<and>
     (rn_done s \<longrightarrow> list_all ended (rn_services s)) \<and>
     (after_done (rn_main s) \<longrightarrow> rn_done s) \<and>
     rn_reported s = taken (rn_main s) @ rn_errCh s \<and>
     (rn_main s = Returned None \<longrightarrow> rn_errCh s = []) \<and>
     (called_cancel (rn_main s) \<or> list_ex has_cancelled (rn_services s) \<longrightarrow> rn_cancelled s)"

lemma all_ended_iff: "filter (Not \<circ> ended) gs = [] \<longleftrightarrow> list_all ended gs"
  by (auto simp: filter_empty_conv list_all_iff)

lemma runner_ok_start: "runner_ok n (lifecycle_start n)"
  by (auto simp: runner_ok_def services_ok_def lifecycle_start_def list_all_iff list_ex_iff filter_empty_conv)

lemma sent_bound: "length (concat (map sent_by gs)) \<le> length gs"
proof (induction gs)
  case (Cons g gs)
  then show ?case by (cases g rule: sent_by.cases) auto
qed simp

lemma Gone_Leaving [simp]: "sent_by (Gone r) = sent_by (Leaving r)" "has_cancelled (Gone r) = has_cancelled (Leaving r)"
  by (cases r; simp)+

lemma services_ok_step: "run_step a s t \<Longrightarrow> services_ok n s \<Longrightarrow> services_ok n t"
  by (induction rule: run_step.induct) (simp_all add: services_ok_def)

lemma runner_ok_step:
  assumes "run_step a s t" "runner_ok n s"
  shows "runner_ok n t"
proof -
  have "services_ok n t" using assms services_ok_step by (auto simp: runner_ok_def)
  with assms show ?thesis
  proof (induction rule: run_step.induct)
    case (send s xs e ys)
    then show ?case by (cases "rn_main s" rule: taken.cases) (auto simp: runner_ok_def)
  next
    case (close_done s)
    then show ?case by (simp add: runner_ok_def services_ok_def all_ended_iff)
  qed (simp_all add: runner_ok_def, auto)
qed

lemma lifecycle_run_ok: "lifecycle_run n tr s \<Longrightarrow> runner_ok n s"
  by (induction rule: lifecycle_run.induct) (auto intro: runner_ok_start runner_ok_step)

section \<open>Steps left\<close>

fun todo :: "goroutine \<Rightarrow> nat" where
  "todo Running = 4" | "todo (Sending e) = 3" | "todo (Cancelling e) = 2" | "todo (Leaving r) = 1" | "todo (Gone r) = 0"

fun main_todo :: "main_pc \<Rightarrow> nat" where
  "main_todo Selecting = 4" | "main_todo GotCtx = 3" | "main_todo AwaitCtx = 2" | "main_todo (GotErr e) = 2"
| "main_todo (AwaitErr e) = 1" | "main_todo Draining = 1" | "main_todo (Returned r) = 0"

definition steps_left :: "runner \<Rightarrow> nat" where
  "steps_left s = sum_list (map todo (rn_services s)) + main_todo (rn_main s) +
     (if rn_ctxDone s then 0 else 1) + (if rn_done s then 0 else 1)"

lemma steps_left_decrease: "run_step a s t \<Longrightarrow> steps_left t < steps_left s"
  by (induction rule: run_step.induct) (simp_all add: steps_left_def)

lemma lifecycle_run_length: "lifecycle_run n tr s \<Longrightarrow> length tr + steps_left s \<le> 4 * n + 6"
proof (induction rule: lifecycle_run.induct)
  case start
  show ?case by (simp add: steps_left_def lifecycle_start_def sum_list_replicate)
next
  case (step tr s a t)
  with steps_left_decrease [OF step.hyps(2)] show ?case by simp
qed

section \<open>Progress\<close>

text \<open>A step of the code of \<open>Run\<close>, not of a service or of the owner of the context.\<close>

definition internal_step :: "runner \<Rightarrow> bool" where
  "internal_step s \<longleftrightarrow> (\<exists>a t. run_step a s t \<and> a \<noteq> Parent \<and> (\<forall>i. a \<noteq> Service i))"

lemma internalI: "run_step a s t \<Longrightarrow> a \<noteq> Parent \<Longrightarrow> (\<And>i. a \<noteq> Service i) \<Longrightarrow> internal_step s"
  by (auto simp: internal_step_def)

lemma main_progress:
  assumes "rn_done s"
  shows "internal_step s \<or> (\<exists>r. rn_main s = Returned r)"
proof (cases "rn_main s")
  case Draining
  then show ?thesis by (cases "rn_errCh s") (blast intro: internalI drain_err drain_nil)+
qed (use assms in \<open>blast intro: internalI select_done cancel_err return_err cancel_ctx await_ctx\<close>)+

lemma goroutine_progress:
  assumes ok: "runner_ok n s" and g: "g \<in> set (rn_services s)" and no: "\<not> internal_step s"
  shows "g = Running \<or> (\<exists>r. g = Gone r)"
proof -
  from g obtain xs ys where g: "rn_services s = xs @ g # ys" by (meson split_list)
  show ?thesis
  proof (cases g)
    case (Sending e)
    have "length (rn_errCh s) \<le> length (rn_reported s)" using ok by (simp add: runner_ok_def)
    also have "\<dots> = length (concat (map sent_by (rn_services s)))"
      using ok unfolding runner_ok_def services_ok_def by (metis size_mset)
    also have "\<dots> < length (rn_services s)"
      using sent_bound [of xs] sent_bound [of ys] by (simp add: g Sending)
    finally show ?thesis using send [OF g [unfolded Sending]] no by (blast intro: internalI)
  qed (use g no in \<open>blast intro: internalI cancel wg_done\<close>)+
qed

lemma progress:
  assumes ok: "runner_ok n s" and no: "\<not> internal_step s" "\<nexists>r. rn_main s = Returned r"
  shows "Running \<in> set (rn_services s)"
proof (rule ccontr)
  assume "Running \<notin> set (rn_services s)"
  with goroutine_progress [OF ok _ no(1)] have all: "list_all ended (rn_services s)" by (fastforce simp: list_all_iff)
  then have "rn_wg s = 0" using ok by (simp add: runner_ok_def services_ok_def flip: all_ended_iff)
  then have "rn_done s" using no(1) by (blast intro: internalI close_done)
  from main_progress [OF this] no show False by blast
qed

lemma failures_reported: "list_all ended gs \<Longrightarrow> concat (map sent_by gs) = List.map_filter failed_with gs"
proof (induction gs)
  case (Cons g gs)
  then show ?case by (cases g rule: sent_by.cases) (auto simp: List.map_filter_simps)
qed (simp add: List.map_filter_simps)

section \<open>Properties\<close>

text \<open>
  C38: \<open>Run\<close> returns only after every service has ended, and it returns the error that was reported
  first: none if and only if no service failed. Every error of a service was reported.
\<close>

theorem lifecycle_result:
  assumes "lifecycle_run n tr s" "rn_main s = Returned r"
  shows "list_all ended (rn_services s) \<and> r = (case rn_reported s of [] \<Rightarrow> None | e # _ \<Rightarrow> Some e) \<and>
    mset (rn_reported s) = mset (List.map_filter failed_with (rn_services s))"
proof -
  note ok = lifecycle_run_ok [OF assms(1)]
  with assms(2) have all: "list_all ended (rn_services s)" by (simp add: runner_ok_def)
  moreover from ok failures_reported [OF all]
  have "mset (rn_reported s) = mset (List.map_filter failed_with (rn_services s))" unfolding runner_ok_def services_ok_def by metis
  moreover have "r = (case rn_reported s of [] \<Rightarrow> None | e # _ \<Rightarrow> Some e)"
    using ok assms(2) by (cases r) (simp_all add: runner_ok_def)
  ultimately show ?thesis by simp
qed

text \<open>
  C39: \<open>Run\<close> waits for nothing but its services. No run has more than four steps per service and six,
  and at every point \<open>Run\<close> has returned, or one of its own goroutines can take a step, or a service
  still runs; that service has been told to stop when the context is done or a service has failed.
\<close>

theorem lifecycle_progress:
  assumes "lifecycle_run n tr s"
  shows "length tr \<le> 4 * n + 6 \<and>
    ((\<exists>r. rn_main s = Returned r) \<or> internal_step s \<or>
     Running \<in> set (rn_services s) \<and>
       runCtxDone s = (rn_cancelled s \<or> rn_ctxDone s \<or> (\<exists>g \<in> set (rn_services s). failed_with g \<noteq> None)))"
proof -
  note ok = lifecycle_run_ok [OF assms]
  have "runCtxDone s" if g: "g \<in> set (rn_services s)" "failed_with g \<noteq> None" and no: "\<not> internal_step s" for g
  proof -
    from goroutine_progress [OF ok g(1) no] g(2) obtain e where "g = Gone (Some e)" by auto
    with g(1) have "list_ex has_cancelled (rn_services s)" by (force simp: list_ex_iff)
    with ok show ?thesis by (simp add: runner_ok_def runCtxDone_def)
  qed
  with progress [OF ok] lifecycle_run_length [OF assms] show ?thesis by (auto simp: runCtxDone_def)
qed

section \<open>A run\<close>

text \<open>The first of two services fails; the second is told to stop and ends without an error.\<close>

definition demo_failed :: runner where
  "demo_failed = \<lparr>rn_services = [Gone (Some (ErrNew ''listen'')), Gone None], rn_errCh = [], rn_wg = 0, rn_ctxDone = False,
     rn_cancelled = True, rn_done = True, rn_main = Returned (Some (ErrNew ''listen'')), rn_reported = [ErrNew ''listen'']\<rparr>"

lemma demo_failed_run:
  "lifecycle_run 2 [Service 0, Goroutine 0, Main, Main, Service 1, Goroutine 0, Goroutine 1, Goroutine 0, Waiter, Main] demo_failed"
proof -
  let ?e = "ErrNew ''listen''"
  have 0: "lifecycle_run 2 [] \<lparr>rn_services = [Running, Running], rn_errCh = [], rn_wg = 2, rn_ctxDone = False,
     rn_cancelled = False, rn_done = False, rn_main = Selecting, rn_reported = []\<rparr>"
    using lifecycle_run.start [of 2] by (simp add: lifecycle_start_def numeral_2_eq_2)
  note 1 = lifecycle_run.step [OF 0 run_err [where xs = "[]" and ys = "[Running]" and e = ?e], simplified]
  note 2 = lifecycle_run.step [OF 1 send [where xs = "[]" and ys = "[Running]" and e = ?e], simplified]
  note 3 = lifecycle_run.step [OF 2 select_err [where e = ?e and rest = "[]"], simplified]
  note 4 = lifecycle_run.step [OF 3 cancel_err [where e = ?e], simplified]
  note 5 = lifecycle_run.step [OF 4 run_nil [where xs = "[Cancelling ?e]" and ys = "[]"], simplified]
  note 6 = lifecycle_run.step [OF 5 cancel [where xs = "[]" and e = ?e and ys = "[Leaving None]"], simplified]
  note 7 = lifecycle_run.step [OF 6 wg_done [where xs = "[Leaving (Some ?e)]" and r = None and ys = "[]"], simplified]
  note 8 = lifecycle_run.step [OF 7 wg_done [where xs = "[]" and r = "Some ?e" and ys = "[Gone None]"], simplified]
  note 9 = lifecycle_run.step [OF 8 close_done, simplified]
  note 10 = lifecycle_run.step [OF 9 return_err [where e = ?e], simplified]
  show ?thesis using 10 by (simp add: demo_failed_def)
qed

theorem lifecycle_result_witness:
  "list_all ended (rn_services demo_failed) \<and> rn_reported demo_failed = [ErrNew ''listen''] \<and>
   List.map_filter failed_with (rn_services demo_failed) = [ErrNew ''listen'']"
proof -
  have "rn_main demo_failed = Returned (Some (ErrNew ''listen''))" by (simp add: demo_failed_def)
  from lifecycle_result [OF demo_failed_run this] show ?thesis
    by (simp add: demo_failed_def List.map_filter_simps)
qed

text \<open>A run in which one service has failed and \<open>Run\<close> waits for the other.\<close>

definition demo_waiting :: runner where
  "demo_waiting = \<lparr>rn_services = [Gone (Some (ErrNew ''listen'')), Running], rn_errCh = [ErrNew ''listen''], rn_wg = 1, rn_ctxDone = True,
     rn_cancelled = True, rn_done = False, rn_main = AwaitCtx, rn_reported = [ErrNew ''listen'']\<rparr>"

lemma demo_waiting_run: "lifecycle_run 2 [Service 0, Parent, Main, Goroutine 0, Goroutine 0, Main, Goroutine 0] demo_waiting"
proof -
  let ?e = "ErrNew ''listen''"
  have 0: "lifecycle_run 2 [] \<lparr>rn_services = [Running, Running], rn_errCh = [], rn_wg = 2, rn_ctxDone = False,
     rn_cancelled = False, rn_done = False, rn_main = Selecting, rn_reported = []\<rparr>"
    using lifecycle_run.start [of 2] by (simp add: lifecycle_start_def numeral_2_eq_2)
  note 1 = lifecycle_run.step [OF 0 run_err [where xs = "[]" and ys = "[Running]" and e = ?e], simplified]
  note 2 = lifecycle_run.step [OF 1 parent_cancel, simplified]
  note 3 = lifecycle_run.step [OF 2 select_ctx, simplified]
  note 4 = lifecycle_run.step [OF 3 send [where xs = "[]" and ys = "[Running]" and e = ?e], simplified]
  note 5 = lifecycle_run.step [OF 4 cancel [where xs = "[]" and ys = "[Running]" and e = ?e], simplified]
  note 6 = lifecycle_run.step [OF 5 cancel_ctx, simplified]
  note 7 = lifecycle_run.step [OF 6 wg_done [where xs = "[]" and ys = "[Running]" and r = "Some ?e"], simplified]
  show ?thesis using 7 by (simp add: demo_waiting_def)
qed

theorem lifecycle_progress_witness:
  "\<not> internal_step demo_waiting \<and> Running \<in> set (rn_services demo_waiting) \<and> runCtxDone demo_waiting"
proof -
  have "\<not> internal_step demo_waiting"
    by (auto simp: internal_step_def demo_waiting_def Cons_eq_append_conv elim!: run_step.cases)
  moreover have "rn_ctxDone demo_waiting" "rn_main demo_waiting = AwaitCtx" by (simp_all add: demo_waiting_def)
  ultimately show ?thesis using lifecycle_progress [OF demo_waiting_run] by auto
qed

end
