(* ===== verification/Program.thy ===== *)
theory Program
  imports Server Grpc Lifecycle
begin

text \<open>
  \<open>main\<close> of \<open>cmd/api\<close>: the configuration, the database, Redis, the two servers over them, and the
  lifecycle that runs the servers.

  \<^item> \<open>main_start\<close> is everything before \<open>lifecycle.Run\<close>; a call of \<open>logger.Fatal\<close> is an error, with which the
    process ends before a server exists.
  \<^item> \<open>main_exit\<close> is what \<open>main\<close> makes of the result of the lifecycle.
\<close>

section \<open>Main\<close>

text \<open>What the libraries contribute to the servers: the parameters of the models of both.\<close>

record libraries =
  lb_bcrypt :: bcryptlib
  lb_jwt :: jwtlib
  lb_validateLogin :: "LoginReq \<Rightarrow> goerr option"
  lb_validateRegister :: "RegisterReq \<Rightarrow> goerr option"
  lb_validateChange :: "ChangePasswordReq \<Rightarrow> goerr option"
  lb_validateAdd :: "AddProductReq \<Rightarrow> goerr option"
  lb_validateRemove :: "RemoveProductReq \<Rightarrow> goerr option"
  lb_single :: "float64 \<Rightarrow> float64"

record 'w started =
  mn_cfg :: Schema
  mn_pool :: sql_pool
  mn_http :: "'w HttpServer"
  mn_grpc :: "'w GrpcServer"
  mn_lifecycle :: runner

definition main_start ::
    "'w config_source \<Rightarrow> 'w process \<Rightarrow> 'w env \<Rightarrow> libraries \<Rightarrow> ('w st, 'w started) gom" where
  "main_start S P E lib =
     bindG (LoadConfig S) (\<lambda>cfg.
     bindG (main_setup P cfg) (\<lambda>(db, pool, cache).
     let httpSvr = HttpServer_New cfg E (Some db) (Some cache);
         grpcSvr = GrpcServer_NewServer E (lb_bcrypt lib) (lb_jwt lib) cfg (lb_validateLogin lib) (lb_validateRegister lib)
                     (lb_validateChange lib) (lb_validateAdd lib) (lb_validateRemove lib) (lb_single lib)
     in retG \<lparr>mn_cfg = cfg, mn_pool = pool, mn_http = httpSvr, mn_grpc = grpcSvr, mn_lifecycle = lifecycle_start 2\<rparr>))"

text \<open>The end of the process: none as long as the lifecycle runs, then fatal with its error or normal.\<close>

definition main_exit :: "runner \<Rightarrow> goerr option option" where
  "main_exit s = (case rn_main s of Returned r \<Rightarrow> Some r | _ \<Rightarrow> None)"

section \<open>Property\<close>

text \<open>The environment holds \<open>cfg\<close>, and the database and Redis answer whatever they are asked.\<close>

definition all_answer :: "'w config_source \<Rightarrow> 'w process \<Rightarrow> Schema \<Rightarrow> bool" where
  "all_answer S P cfg \<longleftrightarrow> (\<forall>w. fst (cfs_Parse S w) = Inr cfg) \<and> (\<forall>uri w. \<not> isl (fst (pc_Open P uri w))) \<and>
     (\<forall>db w. \<not> isl (fst (pc_DB P db w))) \<and> (\<forall>models w. \<not> isl (fst (pc_AutoMigrate P models w))) \<and>
     (\<forall>config w. \<not> isl (fst (gr_Ping (pc_NewClient P config) w)))"

definition acceptable :: "Schema \<Rightarrow> bool" where
  "acceptable cfg \<longleftrightarrow> Validate cfg = None \<and> cfg_DatabaseURI cfg \<noteq> '''' \<and>
     cfg_DatabaseConnMaxLifetimeSeconds cfg \<le> 9223372036 \<and> cfg_DatabaseConnMaxIdleTimeSeconds cfg \<le> 9223372036"

text \<open>An operation that never fails.\<close>

definition answersG :: "('s, 'a) gom \<Rightarrow> bool" where
  "answersG m \<longleftrightarrow> (\<forall>s. \<not> isl (fst (m s)))"

lemma answersG_Inr: "answersG m \<Longrightarrow> \<exists>x t. m s = (Inr x, t)"
  by (cases "m s"; cases "fst (m s)") (auto simp: answersG_def dest: spec [of _ s])

lemma answersG_basic [simp]: "answersG (retG x)" "answersG (askG g)" "answersG (checkG None)" "answersG (liftG (Inr x))"
  by (simp_all add: answersG_def retG_def askG_def checkG_def liftG_def split: prod.splits)

lemma answersG_bind [intro!]:
  assumes "answersG m" "\<And>x. answersG (f x)"
  shows "answersG (bindG m f)"
  unfolding answersG_def
proof
  fix s
  from answersG_Inr [OF assms(1)] obtain x t where "m s = (Inr x, t)" by blast
  with assms(2) [of x] show "\<not> isl (fst (bindG m f s))" by (simp add: bindG_def answersG_def)
qed

lemma answersG_try [intro!]: "(\<And>x. answersG (f x)) \<Longrightarrow> answersG (tryG m f)"
  by (simp add: answersG_def tryG_def split: prod.splits)

lemma answersG_outside: "(\<And>w. \<not> isl (fst (f w))) \<Longrightarrow> answersG (outsideG f)"
  by (auto simp: answersG_def outsideG_def bindG_def askG_def liftG_def retG_def isl_def split: prod.splits sum.splits)
    (metis fst_conv)

lemma answersG_cmd: "(\<And>w. \<not> isl (fst (m w))) \<Longrightarrow> answersG (cmdG m)"
  by (auto simp: answersG_def cmdG_def Let_def split: prod.splits) (metis fst_conv)

lemma NewDatabase_answers:
  assumes "all_answer S P cfg" "acceptable cfg"
  shows "answersG (NewDatabase P (main_database cfg))"
proof -
  have ok: "validateConnectionPoolConfig (main_database cfg) = None"
    using assms(2) by (intro pool_accepted) (simp_all add: acceptable_def)
  have uri: "db_URI (main_database cfg) \<noteq> ''''" using assms(2) by (simp add: main_database_def acceptable_def)
  have "answersG (outsideG (pc_Open P u))" "answersG (outsideG (pc_DB P d))" for u d
    using assms(1) by (simp_all add: all_answer_def answersG_outside)
  then show ?thesis
    unfolding NewDatabase_def using uri ok by (auto simp: configureConnectionPool_def intro!: answersG_bind)
qed

lemma main_setup_answers:
  assumes "all_answer S P cfg" "acceptable cfg"
  shows "answersG (main_setup P cfg)"
proof -
  have m: "answersG (migrateDatabase P b)" for b
    using assms(1) by (simp add: migrateDatabase_def all_answer_def answersG_outside)
  have "answersG (cmdG (gr_Ping (pc_NewClient P config)))" for config
    using assms(1) by (simp add: all_answer_def answersG_cmd)
  then have "answersG (redis_New (pc_NewClient P) config)" for config
    by (auto simp: redis_New_def Let_def)
  with m NewDatabase_answers [OF assms] show ?thesis
    unfolding main_setup_def by (auto intro!: answersG_bind split: prod.splits)
qed

lemma LoadConfig_answers:
  assumes "all_answer S P cfg" "Validate cfg = None"
  shows "\<exists>t. LoadConfig S s = (Inr cfg, t)"
proof -
  have p: "outsideG (cfs_Parse S) s = (Inr cfg, s\<lparr>st_world := snd (cfs_Parse S (st_world s))\<rparr>)" for s :: "'a st"
    using assms(1) outsideG_iff [of "cfs_Parse S" s] by (simp add: all_answer_def)
  have "answersG (if e \<noteq> ProductionEnv then tryG (outsideG (cfs_LoadFile S)) (\<lambda>_. retG ()) else retG ())" for e by auto
  note load = answersG_Inr [OF this]
  obtain e s1 where 1: "askG (cfs_Getenv S) s = (Inr e, s1)" using answersG_Inr [OF answersG_basic(2) [of "cfs_Getenv S"], of s] by auto
  obtain x s2 where 2: "(if e \<noteq> ProductionEnv then tryG (outsideG (cfs_LoadFile S)) (\<lambda>_. retG ()) else retG ()) s1 = (Inr x, s2)"
    using load by blast
  show ?thesis unfolding LoadConfig_def bindG_def 1 2 p by (simp add: 2 p assms(2) checkG_def retG_def)
qed

text \<open>
  C40: the servers come up exactly over what was checked. If \<open>main\<close> reaches the lifecycle, the configuration
  passes \<open>Validate\<close>, so in production the secret is long and no placeholder and the ports are set; there is a
  database address, and its pool has exactly the configured limits, which \<open>database/sql\<close> has not clamped;
  Redis has answered a ping, and both servers hold this configuration. If anything fails before, no server exists;
  in either case no row of a table has changed. And \<open>main\<close> does reach the lifecycle when everything answers and the
  configuration is valid with an address and lifetimes of at most 9223372036 seconds.
\<close>

theorem main_starts_checked:
  assumes "main_start S P E lib s = (r, t)"
  shows "same_tables s t \<and> (case r of
      Inl e \<Rightarrow> \<not> (\<exists>cfg. all_answer S P cfg \<and> acceptable cfg)
    | Inr m \<Rightarrow>
        Validate (mn_cfg m) = None \<and> cfg_DatabaseURI (mn_cfg m) \<noteq> '''' \<and>
        (cfg_Environment (mn_cfg m) = ProductionEnv \<longrightarrow>
           32 \<le> length (cfg_AuthSecret (mn_cfg m)) \<and> \<not> isPlaceholderAuthSecret (cfg_AuthSecret (mn_cfg m)) \<and>
           0 < cfg_HttpPort (mn_cfg m) \<and> 0 < cfg_GrpcPort (mn_cfg m)) \<and>
        mn_pool m = \<lparr>sp_maxOpen = DatabaseMaxOpenConns (mn_cfg m), sp_maxIdle = DatabaseMaxIdleConns (mn_cfg m),
          sp_maxLifetime = DatabaseConnMaxLifetime (mn_cfg m), sp_maxIdleTime = DatabaseConnMaxIdleTime (mn_cfg m)\<rparr> \<and>
        0 < sp_maxIdle (mn_pool m) \<and> sp_maxIdle (mn_pool m) \<le> sp_maxOpen (mn_pool m) \<and>
        hs_cfg (mn_http m) = Some (mn_cfg m) \<and> gs_cfg (mn_grpc m) = mn_cfg m \<and>
        (\<exists>c w. hs_cache (mn_http m) = Some \<lparr>rd_cmd = Some c, rd_client = Some c\<rparr> \<and> fst (gr_Ping c w) = Inr ()))"
proof
  have "keepsG world_only (main_start S P E lib)"
    unfolding main_start_def Let_def by (auto intro!: framing)
  from keepsGD [OF this assms] show "same_tables s t" by (simp add: world_only_iff)
  show "case r of
      Inl e \<Rightarrow> \<not> (\<exists>cfg. all_answer S P cfg \<and> acceptable cfg)
    | Inr m \<Rightarrow>
        Validate (mn_cfg m) = None \<and> cfg_DatabaseURI (mn_cfg m) \<noteq> '''' \<and>
        (cfg_Environment (mn_cfg m) = ProductionEnv \<longrightarrow>
           32 \<le> length (cfg_AuthSecret (mn_cfg m)) \<and> \<not> isPlaceholderAuthSecret (cfg_AuthSecret (mn_cfg m)) \<and>
           0 < cfg_HttpPort (mn_cfg m) \<and> 0 < cfg_GrpcPort (mn_cfg m)) \<and>
        mn_pool m = \<lparr>sp_maxOpen = DatabaseMaxOpenConns (mn_cfg m), sp_maxIdle = DatabaseMaxIdleConns (mn_cfg m),
          sp_maxLifetime = DatabaseConnMaxLifetime (mn_cfg m), sp_maxIdleTime = DatabaseConnMaxIdleTime (mn_cfg m)\<rparr> \<and>
        0 < sp_maxIdle (mn_pool m) \<and> sp_maxIdle (mn_pool m) \<le> sp_maxOpen (mn_pool m) \<and>
        hs_cfg (mn_http m) = Some (mn_cfg m) \<and> gs_cfg (mn_grpc m) = mn_cfg m \<and>
        (\<exists>c w. hs_cache (mn_http m) = Some \<lparr>rd_cmd = Some c, rd_client = Some c\<rparr> \<and> fst (gr_Ping c w) = Inr ())"
  proof (cases r)
    case (Inl e)
    have False if a: "all_answer S P cfg" "acceptable cfg" for cfg
    proof -
      obtain u where u: "LoadConfig S s = (Inr cfg, u)"
        using LoadConfig_answers [OF a(1)] a(2) by (auto simp: acceptable_def)
      obtain x v where "main_setup P cfg u = (Inr x, v)" using answersG_Inr [OF main_setup_answers [OF a]] by blast
      with u assms Inl show False by (cases x) (auto simp: main_start_def bindG_def retG_def Let_def)
    qed
    with Inl show ?thesis by auto
  next
    case (Inr m)
    with assms obtain cfg u db pool cache where l: "LoadConfig S s = (Inr cfg, u)"
      and st: "main_setup P cfg u = (Inr (db, pool, cache), t)"
      and m: "mn_cfg m = cfg" "mn_pool m = pool" "hs_cfg (mn_http m) = Some cfg" "gs_cfg (mn_grpc m) = cfg"
        "hs_cache (mn_http m) = Some cache"
      by (auto simp: main_start_def Let_def gom HttpServer_New_def GrpcServer_NewServer_def)
    note v = LoadConfig_Inr [OF l]
    with validated_configuration [OF v] main_setup_Inr [OF st] show ?thesis
      unfolding Inr sum.case m by auto
  qed
qed

section \<open>A concrete start\<close>

definition demo_libraries :: libraries where
  "demo_libraries = \<lparr>lb_bcrypt = demo_bcrypt, lb_jwt = access_jwt, lb_validateLogin = (\<lambda>_. None), lb_validateRegister = (\<lambda>_. None),
     lb_validateChange = (\<lambda>_. None), lb_validateAdd = (\<lambda>_. None), lb_validateRemove = (\<lambda>_. None), lb_single = (\<lambda>x. x)\<rparr>"

theorem main_starts_checked_witness:
  "\<exists>m t. main_start demo_source demo_process calm demo_libraries empty_st = (Inr m, t) \<and> Validate (mn_cfg m) = None \<and>
     0 < sp_maxIdle (mn_pool m) \<and> same_tables empty_st t"
proof -
  obtain r t where run: "main_start demo_source demo_process calm demo_libraries empty_st = (r, t)" by fastforce
  have "cfg_DatabaseConnMaxLifetimeSeconds demo_config \<le> 9223372036" "cfg_DatabaseConnMaxIdleTimeSeconds demo_config \<le> 9223372036"
    "cfg_DatabaseURI demo_config \<noteq> ''''" by code_simp+
  then have "acceptable demo_config" using demo_config_valid by (simp add: acceptable_def)
  moreover have "all_answer demo_source demo_process demo_config"
    by (simp add: all_answer_def demo_source_def demo_process_def demo_redis_client_def retG_def)
  ultimately show ?thesis using main_starts_checked [OF run] run by (cases r) auto
qed

end
