(* ===== verification/Spec2Isabelle.thy ===== *)
theory Spec2Isabelle
  imports Delivery Paging Metrics Consumer StockRun ProductCache Cart OrderHandler Program
begin

text \<open>
  A verification library for the shop backend under src/ (Go): a Gin and gRPC server over
  PostgreSQL (gorm) and Redis that sells products out of a stock, with a transactional outbox
  whose events a worker publishes to a Redis stream and a consumer reads from it.

  \<^bold>\<open>How the parts interact.\<close> A handler calls a service, a service calls repositories, and a
  repository calls the wrapper of the database (\<open>pkg/dbs\<close>). \<open>PlaceOrder\<close> runs in one transaction:
  it prices the lines, takes the stock (\<open>internal/inventory\<close>), stores the order and its lines and
  adds an \<open>order.created\<close> event to the outbox (\<open>internal/outbox\<close>). The publisher worker leases due
  events, writes each to the stream and finalizes it; the consumer group handles the messages.
  \<open>main\<close> opens the database and Redis and runs the HTTP server, which owns the two outbox workers,
  and the gRPC server until a signal comes or one of them fails.

  \<^bold>\<open>State.\<close> \<open>'w st\<close> (Models) holds the tables, the metric samples and the outside world \<open>'w\<close>, on
  which the parameters act: the clock, UUIDs, random numbers, bcrypt, faults and locks of the
  database (the record \<open>env\<close>) and the Redis server (the record \<open>goredis\<close>). An operation is a
  function \<open>('w st, 'a) gom\<close>: it returns an error or a value, and the state. Errors are the datatype
  \<open>goerr\<close>, with \<open>errors.Is\<close> and \<open>errors.As\<close> as functions on it. \<open>int\<close> and \<open>int64\<close> of Go are integers
  with the wrap-around \<open>i64\<close> written where the code can overflow, \<open>uint\<close> is a 64-bit word, and
  \<open>float64\<close> is modelled exactly (Float64).

  \<^bold>\<open>Theories.\<close>
  \<^item> Prelude: errors, the combinators of operations, frame rules, strings and lists.
  \<^item> Float64: IEEE 754 binary64 rounding of rationals; Money: \<open>pkg/money\<close>; Paging: \<open>pkg/paging\<close>.
  \<^item> Metrics: \<open>pkg/metrics\<close>; Models: the tables and \<open>env\<close>; Utils: \<open>pkg/utils\<close> and the hooks \<open>BeforeCreate\<close>.
  \<^item> Dbs: \<open>pkg/dbs\<close>, statements and transactions; Schema: the constraints of the migrations that
    the code relies on, as an invariant of the tables.
  \<^item> Inventory, Outbox, Order: repositories and services of these packages, with the contracts of
    their repositories as locales interpreted on the models. StockRun: runs of the inventory, in which the
    statements of \<open>SetStock\<close> stand alone.
  \<^item> OrderStore, PlaceOrder, CancelOrder: what the transactions of an order do to the tables, and
    the properties of whole runs.
  \<^item> Redis: \<open>pkg/redis\<close>; Publisher: \<open>internal/outbox/service\<close>, publishers and worker; Consumer:
    \<open>internal/outbox/consumer\<close>.
  \<^item> Http: \<open>pkg/response\<close> and the metrics middleware over a record of the Gin context; Config:
    \<open>pkg/config\<close>; Auth: \<open>pkg/jtoken\<close> and the middleware of \<open>pkg/middleware\<close>.
  \<^item> User, Product: \<open>internal/user\<close> and \<open>internal/product\<close>, from the repository to the routes; Cart:
    \<open>internal/cart\<close>, from the repository to the gRPC handlers.
  \<^item> ProductCache: the cached product details between the database and Redis, with the calls of all requests
    to the handlers of Product interleaved.
  \<^item> OrderHandler, InventoryHandler: \<open>port/http\<close> of \<open>internal/order\<close> and \<open>internal/inventory\<close>, over the
    contracts of the services below them.
  \<^item> Startup: \<open>LoadConfig\<close>, opening the database, its pool and Redis, the readiness checks of \<open>pkg/dbs\<close>;
    Background: the loops of the outbox workers; OrderWorld: what the operations of an order leave alone
    outside the tables; Delivery: orders and outbox workers interleaved, one transaction or call to Redis
    at a time; Server: \<open>internal/server/http\<close>; Grpc: \<open>internal/server/grpc\<close> with the services behind its
    interceptor; Lifecycle: \<open>internal/server/lifecycle\<close> as steps of its goroutines; Program: \<open>main\<close> of
    \<open>cmd/api\<close>.

  \<^bold>\<open>What the properties show.\<close> A placed order takes exactly its quantities, exact prices and one
  event, or nothing at all (PlaceOrder); over every interleaving of placing and cancelling, stock
  plus live reservations is constant, a key names one order, an order is cancelled once
  (CancelOrder); the stock never gets negative nor overflows, and is what was last set or put in plus the
  changes answered since (Inventory, StockRun); prices convert within a
  stated distance and round-trip (Money); pages tile the result (Paging); a worker finalizes what
  it claims and publishes before it marks (Publisher); a consumer acknowledges only what is safe,
  counts what it reads and parses what was published (Consumer); counters expire if they are given at
  least a millisecond, and the \<open>SCAN\<close> loops return by their deadline, without an error exactly when
  the iteration was complete (Redis). A token opens what it was issued for and nothing else (Auth); passwords and catalogue
  change only by the user and the admin they belong to, and a change of the password revokes the
  refresh tokens (User, Product); a cached product detail is a row that was in the database, and it is the
  current one unless the deletion of its key failed or a request that had read the row before an update has cached it
  after (ProductCache); the cart service refines one map per user (Cart); a call over gRPC
  shows and changes only what belongs to the user its token names (Grpc). A request to
  place an order is answered once, limited and told apart by its fingerprint (OrderHandler), and
  one to the inventory answers 200 only with the stock as it asked for, and else leaves it (InventoryHandler). \<open>main\<close> runs
  the servers exactly over a valid configuration (Program), the loop of the publisher delivers what it marks
  until its context ends (Background); an order and its event are one, and what is announced is an order,
  however orders and workers interleave (Delivery); the readiness probe does not lie (Server), and the servers
  are all stopped when one fails (Lifecycle).

  \<^bold>\<open>Bounds and termination.\<close> Functions are total; loops over slices are structural recursion. The
  \<open>SCAN\<close> loops and the loops of the workers are \<open>partial_function (option)\<close>. A \<open>SCAN\<close> loop returns because
  its context expires at a time computed from the clock, which every command passes on to the server, and the
  clock goes on; a loop of a worker because its context is cancelled. A run of the lifecycle of n services has at most
  4n+6 steps.

  \<^bold>\<open>Interleaving.\<close> The database serializes transactions on the rows they lock; a run is a sequence
  of calls (transactions, statements outside one), in any order. A run of a worker is split into its
  transactions and calls to Redis (Delivery), so that leases expire and workers stop anywhere; so are
  \<open>SetStock\<close> (StockRun) and the requests to the products with their cache (ProductCache). Other handlers are
  taken as a whole, in runs of requests. Races on a unique index are
  modelled by the violation that the later insert reports. A commit that reports an error has not
  committed.

  \<^bold>\<open>Not modelled.\<close> gorm, PostgreSQL, go-redis, golang-jwt, JSON, SHA-256, bcrypt and validators are
  parameters or the semantics of the statements, and Gin and gRPC only the chains of handlers and
  the interceptor. What reads the environment, signals, log output, Swagger and the text
  of the metrics have no model; generated code (\<open>proto/gen\<close>, \<open>docs/docs.go\<close>, mocks)
  has no logic of its own.
\<close>

end
